(* ===== verification/Prelude.thy ===== *)
theory Prelude
  imports Main "HOL-Library.Word"
begin

text \<open>
  Shared vocabulary of the development: bytes, the ways in which the C++ code can fail
  (\<open>fault\<close>), results that are either a fault or a value, \<open>size_t\<close> arithmetic with its
  wrap-around, contiguous memory (copying into and reading out of a vector of bytes), and
  the library functions on character ranges that the source calls (\<open>std::search\<close>,
  \<open>memchr\<close>, \<open>memcmp\<close>).
\<close>

named_theorems res_simps "rewriting of results and of assertions"
named_theorems mem_simps "rewriting of contiguous memory"

type_synonym byte = "8 word"
type_synonym bytes = "byte list"

text \<open>
  \<open>Assert_failed\<close> is a failed \<^verbatim>\<open>assert\<close> (the program aborts), \<open>Log_fatal\<close> a
  \<^verbatim>\<open>LOG_FATAL\<close> statement (the destructor of the logger aborts), \<open>Length_error\<close> the
  exception of \<^verbatim>\<open>std::vector\<close>, \<open>Out_of_bounds\<close> an access outside an object,
  \<open>Null_pointer\<close> a dereference of a null or empty pointer, and \<open>Abort\<close> a call of
  \<^verbatim>\<open>abort()\<close>.
\<close>

datatype fault =
    Assert_failed string
  | Log_fatal string
  | Length_error
  | Out_of_bounds string
  | Null_pointer string
  | Abort string

type_synonym 'a res = "fault + 'a"

definition require :: "bool \<Rightarrow> string \<Rightarrow> 'a res \<Rightarrow> 'a res" where
  "require c what k = (if c then k else Inl (Assert_failed what))"

definition res_bind :: "'a res \<Rightarrow> ('a \<Rightarrow> 'b res) \<Rightarrow> 'b res" where
  "res_bind m f = (case m of Inl e \<Rightarrow> Inl e | Inr x \<Rightarrow> f x)"

text \<open>A loop over a vector whose body may fail.\<close>

fun res_fold :: "('a \<Rightarrow> 's \<Rightarrow> 's res) \<Rightarrow> 'a list \<Rightarrow> 's \<Rightarrow> 's res" where
  "res_fold f [] s = Inr s"
| "res_fold f (x # xs) s = res_bind (f x s) (res_fold f xs)"

text \<open>\<open>size_t\<close> is 64 bits wide; its addition and subtraction wrap around.\<close>

definition size_add :: "nat \<Rightarrow> nat \<Rightarrow> nat" where
  "size_add a b = (a + b) mod 2 ^ 64"

definition size_sub :: "nat \<Rightarrow> nat \<Rightarrow> nat" where
  "size_sub a b = (a + (2 ^ 64 - b mod 2 ^ 64)) mod 2 ^ 64"

text \<open>The conversion of an \<open>int\<close> to \<open>size_t\<close> and of a \<open>size_t\<close> to \<open>int\<close>.\<close>

definition size_to_int :: "nat \<Rightarrow> int" where
  "size_to_int n = sint (of_nat n :: 32 word)"

definition int_to_size :: "int \<Rightarrow> nat" where
  "int_to_size i = nat (i mod 2 ^ 64)"

text \<open>Contiguous memory: a vector is a list, a pointer into it an offset.\<close>

definition mem_read :: "nat \<Rightarrow> nat \<Rightarrow> 'a list \<Rightarrow> 'a list" where
  "mem_read i n xs = take n (drop i xs)"

definition mem_write :: "nat \<Rightarrow> 'a list \<Rightarrow> 'a list \<Rightarrow> 'a list" where
  "mem_write i ys xs = take i xs @ ys @ drop (i + length ys) xs"

definition checked_write :: "nat \<Rightarrow> 'a list \<Rightarrow> 'a list \<Rightarrow> 'a list res" where
  "checked_write i ys xs =
     (if i + length ys \<le> length xs then Inr (mem_write i ys xs)
      else Inl (Out_of_bounds ''write''))"

definition checked_read :: "nat \<Rightarrow> nat \<Rightarrow> 'a list \<Rightarrow> 'a list res" where
  "checked_read i n xs =
     (if i + n \<le> length xs then Inr (mem_read i n xs) else Inl (Out_of_bounds ''read''))"

definition vec_resize :: "nat \<Rightarrow> 'a \<Rightarrow> 'a list \<Rightarrow> 'a list" where
  "vec_resize n x xs = take n xs @ replicate (n - length xs) x"

text \<open>
  \<^verbatim>\<open>std::search\<close>: the offset of the first occurrence of a pattern, or the length of the
  range when there is none; \<^verbatim>\<open>memchr\<close>: the offset of the first occurrence of a character.
\<close>

fun std_search :: "'a list \<Rightarrow> 'a list \<Rightarrow> nat" where
  "std_search pat [] = 0"
| "std_search pat (x # xs) =
     (if take (length pat) (x # xs) = pat then 0 else Suc (std_search pat xs))"

fun memchr :: "'a \<Rightarrow> 'a list \<Rightarrow> nat option" where
  "memchr c [] = None"
| "memchr c (x # xs) = (if x = c then Some 0 else map_option Suc (memchr c xs))"

text \<open>\<^verbatim>\<open>memcmp\<close> on two ranges of the same length: the sign of the first difference.\<close>

fun memcmp :: "bytes \<Rightarrow> bytes \<Rightarrow> int" where
  "memcmp (x # xs) (y # ys) =
     (if x < y then -1 else if y < x then 1 else memcmp xs ys)"
| "memcmp _ _ = 0"


section \<open>Results\<close>

lemma require_True [simp, res_simps]: "require True w k = k"
  by (simp add: require_def)

lemma require_False [simp, res_simps]: "require False w k = Inl (Assert_failed w)"
  by (simp add: require_def)

lemma require_eq_Inr [simp, res_simps]: "require c w k = Inr x \<longleftrightarrow> c \<and> k = Inr x"
  by (simp add: require_def)

lemma res_bind_Inl [simp, res_simps]: "res_bind (Inl e) f = Inl e"
  by (simp add: res_bind_def)

lemma res_bind_Inr [simp, res_simps]: "res_bind (Inr x) f = f x"
  by (simp add: res_bind_def)

lemma res_bind_eq_Inr [simp, res_simps]:
  "res_bind m f = Inr y \<longleftrightarrow> (\<exists>x. m = Inr x \<and> f x = Inr y)"
  by (auto simp: res_bind_def split: sum.splits)

lemma res_bind_cong [fundef_cong]:
  "m = m' \<Longrightarrow> (\<And>x. m' = Inr x \<Longrightarrow> f x = g x) \<Longrightarrow> res_bind m f = res_bind m' g"
  by (auto simp: res_bind_def split: sum.splits)

lemma res_fold_append:
  "res_fold f (xs @ ys) s = res_bind (res_fold f xs s) (res_fold f ys)"
  by (induction xs arbitrary: s) (auto simp: res_bind_def split: sum.splits)

text \<open>Invariants of step relations: what every step keeps, every run keeps.\<close>

locale transition_system =
  fixes step :: "'s \<Rightarrow> 's \<Rightarrow> bool" and inv :: "'s \<Rightarrow> bool"
  assumes step_inv: "step s s' \<Longrightarrow> inv s \<Longrightarrow> inv s'"
begin

lemma run_keeps: "step\<^sup>*\<^sup>* s s' \<Longrightarrow> inv s \<Longrightarrow> inv s'"
  by (induction rule: rtranclp_induct) (auto intro: step_inv)

text \<open>If moreover a state with the invariant that is not final has a step, no run gets stuck.\<close>

lemma run_progress:
  assumes "\<And>s. inv s \<Longrightarrow> final s \<or> (\<exists>s'. step s s')" "inv s" "step\<^sup>*\<^sup>* s t"
  shows "final t \<or> (\<exists>t'. step t t')"
  using assms run_keeps by blast

end

text \<open>An invariant of the body that also makes it succeed is an invariant of the loop.\<close>

lemma res_fold_invariant:
  assumes "P s" and "\<And>x s. x \<in> set xs \<Longrightarrow> P s \<Longrightarrow> \<exists>s'. f x s = Inr s' \<and> P s'"
  shows "\<exists>s'. res_fold f xs s = Inr s' \<and> P s'"
  using assms
proof (induction xs arbitrary: s)
  case Nil
  then show ?case by simp
next
  case (Cons x xs)
  then obtain s1 where "f x s = Inr s1" "P s1" by (meson list.set_intros(1))
  with Cons show ?case by auto
qed

text \<open>The same for a body that may also stop with one particular fault.\<close>

lemma res_fold_invariant_or:
  assumes "P s"
    and "\<And>x s. x \<in> set xs \<Longrightarrow> P s \<Longrightarrow> f x s = Inl e \<or> (\<exists>s'. f x s = Inr s' \<and> P s')"
  shows "res_fold f xs s = Inl e \<or> (\<exists>s'. res_fold f xs s = Inr s' \<and> P s')"
  using assms
proof (induction xs arbitrary: s)
  case Nil
  then show ?case by simp
next
  case (Cons x xs)
  then consider "f x s = Inl e" | s1 where "f x s = Inr s1" "P s1" by (meson list.set_intros(1))
  then show ?case using Cons by cases auto
qed


section \<open>Arithmetic of size_t\<close>

lemma size_add_small [simp]: "a + b < 2 ^ 64 \<Longrightarrow> size_add a b = a + b"
  by (simp add: size_add_def)

lemma size_sub_small [simp]: "b \<le> a \<Longrightarrow> a < 2 ^ 64 \<Longrightarrow> size_sub a b = a - b"
proof -
  assume a: "b \<le> a" "a < 2 ^ 64"
  then have "a + (2 ^ 64 - b) = (a - b) + 2 ^ 64" by simp
  then have "(a + (2 ^ 64 - b)) mod 2 ^ 64 = ((a - b) + 2 ^ 64) mod 2 ^ 64" by (rule arg_cong)
  also have "\<dots> = (a - b) mod 2 ^ 64" by (rule mod_add_self2)
  also have "\<dots> = a - b" using a by (intro mod_less) simp
  finally have "(a + (2 ^ 64 - b)) mod 2 ^ 64 = a - b" .
  moreover have "b mod 2 ^ 64 = b" using a by (intro mod_less) simp
  ultimately show ?thesis by (simp add: size_sub_def)
qed

lemma size_to_int_small: "n < 2 ^ 31 \<Longrightarrow> size_to_int n = int n"
  unfolding size_to_int_def
  by (simp add: sint_uint signed_take_bit_int_eq_self uint_nat unat_of_nat)

lemma int_to_size_of_nat: "n < 2 ^ 64 \<Longrightarrow> int_to_size (int n) = n"
  by (simp add: int_to_size_def nat_mod_as_int)


section \<open>Contiguous memory\<close>

lemma length_mem_write [simp, mem_simps]:
  "i + length ys \<le> length xs \<Longrightarrow> length (mem_write i ys xs) = length xs"
  by (simp add: mem_write_def)

lemma length_mem_read [simp, mem_simps]:
  "i + n \<le> length xs \<Longrightarrow> length (mem_read i n xs) = n"
  by (simp add: mem_read_def)

lemma mem_read_0 [simp, mem_simps]: "mem_read i 0 xs = []"
  by (simp add: mem_read_def)

lemma mem_read_write_same [simp, mem_simps]:
  "i + length ys \<le> length xs \<Longrightarrow> n = length ys \<Longrightarrow> mem_read i n (mem_write i ys xs) = ys"
  by (simp add: mem_read_def mem_write_def)

lemma mem_read_write_before [mem_simps]:
  "j + n \<le> i \<Longrightarrow> i + length ys \<le> length xs \<Longrightarrow>
   mem_read j n (mem_write i ys xs) = mem_read j n xs"
  by (simp add: mem_read_def mem_write_def drop_take take_take)

lemma mem_read_add:
  "mem_read i (m + n) xs = mem_read i m xs @ mem_read (i + m) n xs"
  by (simp add: mem_read_def take_add drop_drop add.commute)

lemma mem_read_drop: "mem_read i n (drop k xs) = mem_read (i + k) n xs"
  by (simp add: mem_read_def)

lemma mem_read_mem_read:
  "j + m \<le> n \<Longrightarrow> mem_read j m (mem_read i n xs) = mem_read (i + j) m xs"
  by (simp add: mem_read_def drop_take take_take min_def add.commute)

lemma mem_read_resize [mem_simps]:
  "i + n \<le> length xs \<Longrightarrow> length xs \<le> m \<Longrightarrow> mem_read i n (vec_resize m x xs) = mem_read i n xs"
  by (simp add: mem_read_def vec_resize_def)

lemma length_vec_resize [simp, mem_simps]: "length (vec_resize n x xs) = n"
  by (simp add: vec_resize_def)

lemma checked_write_ok [simp]:
  "i + length ys \<le> length xs \<Longrightarrow> checked_write i ys xs = Inr (mem_write i ys xs)"
  by (simp add: checked_write_def)

lemma checked_read_ok [simp]:
  "i + n \<le> length xs \<Longrightarrow> checked_read i n xs = Inr (mem_read i n xs)"
  by (simp add: checked_read_def)


section \<open>Searching and comparing\<close>

lemma std_search_le: "std_search pat xs \<le> length xs"
  by (induction xs) auto

lemma std_search_found:
  "std_search pat xs < length xs \<Longrightarrow>
   take (length pat) (drop (std_search pat xs) xs) = pat"
  by (induction xs) auto

lemma std_search_first:
  "j < std_search pat xs \<Longrightarrow> take (length pat) (drop j xs) \<noteq> pat"
proof (induction xs arbitrary: j)
  case (Cons x xs)
  then show ?case by (cases j) (auto split: if_splits)
qed simp

lemma memchr_None: "memchr c xs = None \<longleftrightarrow> c \<notin> set xs"
  by (induction xs) auto

lemma memchr_Some:
  "memchr c xs = Some k \<longleftrightarrow> k < length xs \<and> xs ! k = c \<and> (\<forall>j < k. xs ! j \<noteq> c)"
proof (induction xs arbitrary: k)
  case (Cons x xs)
  then show ?case
    by (cases k) (auto simp: less_Suc_eq_0_disj)
qed simp

lemma memcmp_eq_0: "length xs = length ys \<Longrightarrow> memcmp xs ys = 0 \<longleftrightarrow> xs = ys"
  by (induction xs ys rule: memcmp.induct) auto

lemma memcmp_antisym: "memcmp ys xs = - memcmp xs ys"
  by (induction xs ys rule: memcmp.induct) auto

lemma memcmp_range: "memcmp xs ys \<in> {-1, 0, 1}"
  by (induction xs ys rule: memcmp.induct) auto

end
