(* ===== verification/Endian.thy ===== *)
theory Endian
  imports Prelude
begin

text \<open>
  \<^verbatim>\<open>socket.muduo/Endian.h\<close>: conversions between host and network byte order. The host is
  little-endian (x86-64): an integer in memory is the list of its bytes, least significant
  first, and the \<^verbatim>\<open>htobe\<close>/\<^verbatim>\<open>betoh\<close> macros of \<^verbatim>\<open>endian.h\<close> reverse that list. The
  functions of the header are kept with the return types the header gives them, which are
  narrower than their arguments in three places.
\<close>

unbundle bit_operations_syntax

section \<open>Integers in memory\<close>

definition le_bytes :: "'a::len word \<Rightarrow> bytes" where
  "le_bytes w = map (\<lambda>i. ucast (drop_bit (8 * i) w)) [0..<LENGTH('a) div 8]"

fun of_le_bytes :: "bytes \<Rightarrow> 'a::len word" where
  "of_le_bytes [] = 0"
| "of_le_bytes (b # bs) = ucast b OR push_bit 8 (of_le_bytes bs)"

definition bswap :: "'a::len word \<Rightarrow> 'a word" where
  "bswap w = of_le_bytes (rev (le_bytes w))"

section \<open>Endian.h\<close>

definition hostToNetwork16 :: "16 word \<Rightarrow> 16 word" where
  "hostToNetwork16 host16 = bswap host16"

definition hostToNetwork32 :: "32 word \<Rightarrow> 32 word" where
  "hostToNetwork32 host32 = bswap host32"

definition hostToNetwork64 :: "64 word \<Rightarrow> 32 word" where
  "hostToNetwork64 host64 = ucast (bswap host64)"

definition networkToHost16 :: "16 word \<Rightarrow> 16 word" where
  "networkToHost16 net16 = bswap net16"

definition networkToHost32 :: "32 word \<Rightarrow> 16 word" where
  "networkToHost32 net32 = ucast (bswap net32)"

definition networkToHost64 :: "64 word \<Rightarrow> 16 word" where
  "networkToHost64 net64 = ucast (bswap net64)"

section \<open>Laws\<close>

lemma length_le_bytes [simp]: "length (le_bytes (w :: 'a::len word)) = LENGTH('a) div 8"
  by (simp add: le_bytes_def)

lemma bit_of_le_bytes:
  "bit (of_le_bytes bs :: 'a::len word) n \<longleftrightarrow>
   n < LENGTH('a) \<and> n div 8 < length bs \<and> bit (bs ! (n div 8)) (n mod 8)"
proof (induction bs arbitrary: n)
  case Nil
  then show ?case by simp
next
  case (Cons b bs)
  show ?case
  proof (cases "n < 8")
    case True
    then show ?thesis
      by (auto simp: bit_simps dest: bit_imp_le_length)
  next
    case False
    then obtain m where m: "n = m + 8" using le_Suc_ex by (metis add.commute not_less)
    have "\<not> bit b n" using False bit_imp_le_length by force
    moreover have "(m + 8) div 8 = Suc (m div 8)" by simp
    ultimately show ?thesis using m Cons[of m]
      by (auto simp: bit_simps dest: bit_imp_le_length)
  qed
qed

lemma nth_le_bytes:
  "i < LENGTH('a) div 8 \<Longrightarrow> le_bytes (w :: 'a::len word) ! i = ucast (drop_bit (8 * i) w)"
  by (simp add: le_bytes_def)

lemma bit_nth_le_bytes:
  "i < LENGTH('a) div 8 \<Longrightarrow>
   bit (le_bytes (w :: 'a::len word) ! i) k \<longleftrightarrow> k < 8 \<and> bit w (8 * i + k)"
  by (auto simp: nth_le_bytes bit_simps dest: bit_imp_le_length)

lemma of_le_bytes_le_bytes [simp]:
  assumes "8 dvd LENGTH('a::len)"
  shows "of_le_bytes (le_bytes w) = (w :: 'a word)"
proof (rule bit_word_eqI)
  fix n assume n: "n < LENGTH('a)"
  with assms have d: "n div 8 < LENGTH('a) div 8" by (auto simp: dvd_def)
  then show "bit (of_le_bytes (le_bytes w) :: 'a word) n = bit w n"
    using n by (simp add: bit_of_le_bytes bit_nth_le_bytes)
qed

lemma le_bytes_of_le_bytes [simp]:
  assumes "LENGTH('a::len) = 8 * length bs"
  shows "le_bytes (of_le_bytes bs :: 'a word) = bs"
proof (rule nth_equalityI)
  show len: "length (le_bytes (of_le_bytes bs :: 'a word)) = length bs"
    using assms by simp
  fix i assume "i < length (le_bytes (of_le_bytes bs :: 'a word))"
  then have i: "i < length bs" using len by simp
  show "le_bytes (of_le_bytes bs :: 'a word) ! i = bs ! i"
  proof (rule bit_word_eqI)
    fix k assume "k < LENGTH(8)"
    then have "k < 8" by simp
    then show "bit (le_bytes (of_le_bytes bs :: 'a word) ! i) k = bit (bs ! i) k"
      using i assms by (auto simp: bit_nth_le_bytes bit_of_le_bytes)
  qed
qed

lemma le_bytes_bswap [simp]:
  "8 dvd LENGTH('a::len) \<Longrightarrow> le_bytes (bswap (w :: 'a word)) = rev (le_bytes w)"
  by (simp add: bswap_def)

lemma bswap_bswap [simp]: "8 dvd LENGTH('a::len) \<Longrightarrow> bswap (bswap w) = (w :: 'a word)"
  by (simp add: bswap_def)

lemma of_le_bytes_take:
  "of_le_bytes (take (LENGTH('a::len) div 8) bs) = (of_le_bytes bs :: 'a word)"
  if "8 dvd LENGTH('a)"
proof (rule bit_word_eqI)
  fix n assume "n < LENGTH('a)"
  with that have "n div 8 < LENGTH('a) div 8" by (auto simp: dvd_def)
  then show "bit (of_le_bytes (take (LENGTH('a) div 8) bs) :: 'a word) n =
             bit (of_le_bytes bs :: 'a word) n"
    by (auto simp: bit_of_le_bytes)
qed

lemma ucast_of_le_bytes:
  "LENGTH('b::len) \<le> LENGTH('a::len) \<Longrightarrow>
   (ucast (of_le_bytes bs :: 'a word) :: 'b word) = of_le_bytes bs"
  by (rule bit_word_eqI) (simp add: bit_simps bit_of_le_bytes)

end
