(* ===== verification/ByteQueue.thy ===== *)
theory ByteQueue
  imports Prelude
begin

text \<open>
  The contract a growable byte buffer gives to the code that uses it: bytes put in come out
  in the same order, nothing is lost or duplicated, and an operation only fails when more
  bytes are asked for than there are. The clients of the buffer (connections, codecs) rely on
  this interface; \<^verbatim>\<open>Buffer.thy\<close> shows that the buffer of the library provides it.
\<close>

datatype queue_op = Put bytes | Get nat

text \<open>A run of operations: the bytes taken out, in order, and the final state.\<close>

fun queue_run ::
  "(bytes \<Rightarrow> 'b \<Rightarrow> 'b res) \<Rightarrow> (nat \<Rightarrow> 'b \<Rightarrow> (bytes \<times> 'b) res) \<Rightarrow> queue_op list \<Rightarrow> 'b \<Rightarrow> (bytes \<times> 'b) res"
where
  "queue_run put get [] b = Inr ([], b)"
| "queue_run put get (Put d # ops) b =
     res_bind (put d b) (\<lambda>b1. queue_run put get ops b1)"
| "queue_run put get (Get n # ops) b =
     res_bind (get n b) (\<lambda>(out, b1).
     res_bind (queue_run put get ops b1) (\<lambda>(outs, b2). Inr (out @ outs, b2)))"

fun puts :: "queue_op list \<Rightarrow> bytes" where
  "puts [] = []"
| "puts (Put d # ops) = d @ puts ops"
| "puts (Get n # ops) = puts ops"

text \<open>A run is legal when no operation asks for more than is there.\<close>

fun legal_ops :: "nat \<Rightarrow> queue_op list \<Rightarrow> bool" where
  "legal_ops k [] = True"
| "legal_ops k (Put d # ops) = legal_ops (k + length d) ops"
| "legal_ops k (Get n # ops) = (n \<le> k \<and> legal_ops (k - n) ops)"

locale byte_queue =
  fixes inv :: "'b \<Rightarrow> bool"
    and cont :: "'b \<Rightarrow> bytes"
    and cap :: "'b \<Rightarrow> nat"
    and limit :: nat
    and put :: "bytes \<Rightarrow> 'b \<Rightarrow> 'b res"
    and get :: "nat \<Rightarrow> 'b \<Rightarrow> (bytes \<times> 'b) res"
  assumes put_law: "inv b \<Longrightarrow> cap b + length d \<le> limit \<Longrightarrow>
      \<exists>b'. put d b = Inr b' \<and> inv b' \<and> cont b' = cont b @ d \<and> cap b' \<le> cap b + length d"
    and get_law: "inv b \<Longrightarrow> n \<le> length (cont b) \<Longrightarrow>
      \<exists>b'. get n b = Inr (take n (cont b), b') \<and> inv b' \<and> cont b' = drop n (cont b) \<and> cap b' = cap b"
    and get_error: "inv b \<Longrightarrow> length (cont b) < n \<Longrightarrow> \<exists>e. get n b = Inl e"
begin

text \<open>The stream law: what came out followed by what is still inside is what went in.\<close>

lemma stream_law:
  assumes "inv b" "cap b + length (puts ops) \<le> limit" "legal_ops (length (cont b)) ops"
  shows "\<exists>out b'. queue_run put get ops b = Inr (out, b') \<and> inv b' \<and>
                  out @ cont b' = cont b @ puts ops"
  using assms
proof (induction ops arbitrary: b rule: puts.induct)
  case 1
  then show ?case by simp
next
  case (2 d ops)
  then obtain b1 where "put d b = Inr b1" "inv b1" "cont b1 = cont b @ d" "cap b1 \<le> cap b + length d"
    using put_law[of b d] by auto
  with 2 show ?case by fastforce
next
  case (3 n ops)
  then obtain b1 where b1: "get n b = Inr (take n (cont b), b1)" "inv b1"
      "cont b1 = drop n (cont b)" "cap b1 = cap b"
    using get_law[of b n] by auto
  with 3 obtain out b2 where "queue_run put get ops b1 = Inr (out, b2)" "inv b2"
      "out @ cont b2 = drop n (cont b) @ puts ops"
    by fastforce
  moreover from this have "take n (cont b) @ out @ cont b2 = cont b @ puts ops"
    by (metis append_assoc append_take_drop_id)
  ultimately show ?case using b1 by auto
qed

text \<open>Only a request for more than the content makes a run fail.\<close>

lemma run_fails:
  assumes "inv b" "cap b + length (puts ops) \<le> limit" "\<not> legal_ops (length (cont b)) ops"
  shows "\<exists>e. queue_run put get ops b = Inl e"
  using assms
proof (induction ops arbitrary: b rule: puts.induct)
  case 1
  then show ?case by simp
next
  case (2 d ops)
  then obtain b1 where "put d b = Inr b1" "inv b1" "cont b1 = cont b @ d" "cap b1 \<le> cap b + length d"
    using put_law[of b d] by auto
  with 2 show ?case by fastforce
next
  case (3 n ops)
  show ?case
  proof (cases "n \<le> length (cont b)")
    case True
    then obtain b1 where b1: "get n b = Inr (take n (cont b), b1)" "inv b1"
        "cont b1 = drop n (cont b)" "cap b1 = cap b"
      using get_law[of b n] 3 by auto
    with 3 True have "\<exists>e. queue_run put get ops b1 = Inl e" by fastforce
    with b1 show ?thesis by auto
  next
    case False
    with get_error[of b n] 3 show ?thesis by auto
  qed
qed

end

end
