(* ===== verification/Buffer.thy ===== *)
theory Buffer
  imports Endian ByteQueue
begin

text \<open>
  \<^verbatim>\<open>tcp.muduo/Buffer.h\<close> and \<^verbatim>\<open>tcp.muduo/Buffer.cpp\<close>: the growable byte buffer of a
  connection. The vector \<open>buffer_\<close> is a list of bytes and a pointer into it an offset from
  \<open>begin()\<close>; the two indices are \<open>size_t\<close> values. Every \<^verbatim>\<open>assert\<close> of the header is a
  branch of the model. The theory shows that the buffer implements a queue of bytes with
  cheap prepending (the locale \<open>byte_queue\<close>).
\<close>

definition kCheapPrepend :: nat where "kCheapPrepend = 8"

definition kInitialSize :: nat where "kInitialSize = 1024"

definition kCRLF :: bytes where "kCRLF = [13, 10]"

text \<open>\<^verbatim>\<open>std::vector<char>::max_size()\<close>.\<close>

definition vector_max_size :: nat where "vector_max_size = 2 ^ 63 - 1"

record buffer =
  buffer_vec :: bytes
  readerIndex :: nat
  writerIndex :: nat

section \<open>Operations\<close>

definition readableBytes :: "buffer \<Rightarrow> nat" where
  "readableBytes b = size_sub (writerIndex b) (readerIndex b)"

definition writableBytes :: "buffer \<Rightarrow> nat" where
  "writableBytes b = size_sub (length (buffer_vec b)) (writerIndex b)"

definition prependableBytes :: "buffer \<Rightarrow> nat" where
  "prependableBytes b = readerIndex b"

definition peek :: "buffer \<Rightarrow> nat" where
  "peek b = readerIndex b"

definition beginWrite :: "buffer \<Rightarrow> nat" where
  "beginWrite b = writerIndex b"

text \<open>The sum of the sizes wraps, and the constructor of the vector throws when its size is too large.\<close>

definition Buffer_ctor :: "nat \<Rightarrow> buffer res" where
  "Buffer_ctor initialSize =
     (if vector_max_size < size_add kCheapPrepend initialSize then Inl Length_error else
      let b = \<lparr>buffer_vec = replicate (size_add kCheapPrepend initialSize) 0,
               readerIndex = kCheapPrepend, writerIndex = kCheapPrepend\<rparr>
      in require (readableBytes b = 0) ''readableBytes() == 0''
        (require (writableBytes b = initialSize) ''writableBytes() == initialSize''
        (require (prependableBytes b = kCheapPrepend) ''prependableBytes() == kCheapPrepend''
        (Inr b))))"

definition Buffer_swap :: "buffer \<Rightarrow> buffer \<Rightarrow> buffer \<times> buffer" where
  "Buffer_swap b rhs =
     (b\<lparr>buffer_vec := buffer_vec rhs, readerIndex := readerIndex rhs, writerIndex := writerIndex rhs\<rparr>,
      rhs\<lparr>buffer_vec := buffer_vec b, readerIndex := readerIndex b, writerIndex := writerIndex b\<rparr>)"

definition findCRLF :: "buffer \<Rightarrow> nat option res" where
  "findCRLF b =
     res_bind (checked_read (peek b) (beginWrite b - peek b) (buffer_vec b)) (\<lambda>d.
     let crlf = peek b + std_search kCRLF d
     in Inr (if crlf = beginWrite b then None else Some crlf))"

definition findCRLF_from :: "nat \<Rightarrow> buffer \<Rightarrow> nat option res" where
  "findCRLF_from start b =
     require (peek b \<le> start) ''peek() <= start''
     (require (start \<le> beginWrite b) ''start <= beginWrite()''
     (res_bind (checked_read start (beginWrite b - start) (buffer_vec b)) (\<lambda>d.
      let crlf = start + std_search kCRLF d
      in Inr (if crlf = beginWrite b then None else Some crlf))))"

definition findEOL :: "buffer \<Rightarrow> nat option res" where
  "findEOL b =
     res_bind (checked_read (peek b) (readableBytes b) (buffer_vec b)) (\<lambda>d.
     Inr (map_option (\<lambda>k. peek b + k) (memchr 10 d)))"

definition findEOL_from :: "nat \<Rightarrow> buffer \<Rightarrow> nat option res" where
  "findEOL_from start b =
     require (peek b \<le> start) ''peek() <= start''
     (require (start \<le> beginWrite b) ''start <= beginWrite()''
     (res_bind (checked_read start (beginWrite b - start) (buffer_vec b)) (\<lambda>d.
      Inr (map_option (\<lambda>k. start + k) (memchr 10 d)))))"

definition retrieveAll :: "buffer \<Rightarrow> buffer" where
  "retrieveAll b = b\<lparr>readerIndex := kCheapPrepend, writerIndex := kCheapPrepend\<rparr>"

definition retrieve :: "nat \<Rightarrow> buffer \<Rightarrow> buffer res" where
  "retrieve len b =
     require (len \<le> readableBytes b) ''len <= readableBytes()''
     (if len < readableBytes b then Inr (b\<lparr>readerIndex := size_add (readerIndex b) len\<rparr>)
      else Inr (retrieveAll b))"

definition retrieveUntil :: "nat \<Rightarrow> buffer \<Rightarrow> buffer res" where
  "retrieveUntil end_p b =
     require (peek b \<le> end_p) ''peek() <= end''
     (require (end_p \<le> beginWrite b) ''end <= beginWrite()''
     (retrieve (end_p - peek b) b))"

definition retrieveInt64 :: "buffer \<Rightarrow> buffer res" where "retrieveInt64 b = retrieve 8 b"
definition retrieveInt32 :: "buffer \<Rightarrow> buffer res" where "retrieveInt32 b = retrieve 4 b"
definition retrieveInt16 :: "buffer \<Rightarrow> buffer res" where "retrieveInt16 b = retrieve 2 b"
definition retrieveInt8 :: "buffer \<Rightarrow> buffer res" where "retrieveInt8 b = retrieve 1 b"

definition retrieveAsString :: "nat \<Rightarrow> buffer \<Rightarrow> (bytes \<times> buffer) res" where
  "retrieveAsString len b =
     require (len \<le> readableBytes b) ''len <= readableBytes()''
     (res_bind (checked_read (peek b) len (buffer_vec b)) (\<lambda>result.
      res_bind (retrieve len b) (\<lambda>b'. Inr (result, b'))))"

definition retrieveAllAsString :: "buffer \<Rightarrow> (bytes \<times> buffer) res" where
  "retrieveAllAsString b = retrieveAsString (readableBytes b) b"

text \<open>A \<open>Slice\<close> on the buffer is a pointer and a length, converted to \<open>int\<close> and back.\<close>

definition toStringPiece :: "buffer \<Rightarrow> nat \<times> nat" where
  "toStringPiece b = (peek b, int_to_size (size_to_int (readableBytes b)))"

definition makeSpace :: "nat \<Rightarrow> buffer \<Rightarrow> buffer res" where
  "makeSpace len b =
     (if size_add (writableBytes b) (prependableBytes b) < size_add len kCheapPrepend
      then (let n = size_add (writerIndex b) len
            in if vector_max_size < n then Inl Length_error
               else Inr (b\<lparr>buffer_vec := vec_resize n 0 (buffer_vec b)\<rparr>))
      else require (kCheapPrepend < readerIndex b) ''kCheapPrepend < readerIndex_''
        (let readable = readableBytes b
         in res_bind (checked_read (readerIndex b) (writerIndex b - readerIndex b) (buffer_vec b)) (\<lambda>d.
            res_bind (checked_write kCheapPrepend d (buffer_vec b)) (\<lambda>v.
            let b' = b\<lparr>buffer_vec := v, readerIndex := kCheapPrepend,
                       writerIndex := size_add kCheapPrepend readable\<rparr>
            in require (readable = readableBytes b') ''readable == readableBytes()'' (Inr b')))))"

definition ensureWritableBytes :: "nat \<Rightarrow> buffer \<Rightarrow> buffer res" where
  "ensureWritableBytes len b =
     res_bind (if writableBytes b < len then makeSpace len b else Inr b) (\<lambda>b'.
     require (writableBytes b' \<ge> len) ''writableBytes() >= len'' (Inr b'))"

definition hasWritten :: "nat \<Rightarrow> buffer \<Rightarrow> buffer res" where
  "hasWritten len b =
     require (len \<le> writableBytes b) ''len <= writableBytes()''
     (Inr (b\<lparr>writerIndex := size_add (writerIndex b) len\<rparr>))"

definition unwrite :: "nat \<Rightarrow> buffer \<Rightarrow> buffer res" where
  "unwrite len b =
     require (len \<le> readableBytes b) ''len <= readableBytes()''
     (Inr (b\<lparr>writerIndex := size_sub (writerIndex b) len\<rparr>))"

definition append_data :: "bytes \<Rightarrow> buffer \<Rightarrow> buffer res" where
  "append_data data b =
     res_bind (ensureWritableBytes (length data) b) (\<lambda>b1.
     res_bind (checked_write (beginWrite b1) data (buffer_vec b1)) (\<lambda>v.
     hasWritten (length data) (b1\<lparr>buffer_vec := v\<rparr>)))"

text \<open>\<open>append(const Slice&)\<close>: the slice points into the vector of another buffer.\<close>

definition append_slice :: "bytes \<Rightarrow> nat \<times> nat \<Rightarrow> buffer \<Rightarrow> buffer res" where
  "append_slice v str b =
     res_bind (checked_read (fst str) (snd str) v) (\<lambda>data. append_data data b)"

definition appendInt64 :: "64 word \<Rightarrow> buffer \<Rightarrow> buffer res" where
  "appendInt64 x b = (let be64 = (ucast (hostToNetwork64 x) :: 64 word) in append_data (le_bytes be64) b)"

definition appendInt32 :: "32 word \<Rightarrow> buffer \<Rightarrow> buffer res" where
  "appendInt32 x b = (let be32 = hostToNetwork32 x in append_data (le_bytes be32) b)"

definition appendInt16 :: "16 word \<Rightarrow> buffer \<Rightarrow> buffer res" where
  "appendInt16 x b = (let be16 = hostToNetwork16 x in append_data (le_bytes be16) b)"

definition appendInt8 :: "8 word \<Rightarrow> buffer \<Rightarrow> buffer res" where
  "appendInt8 x b = append_data (le_bytes x) b"

definition peekInt64 :: "buffer \<Rightarrow> 64 word res" where
  "peekInt64 b =
     require (readableBytes b \<ge> 8) ''readableBytes() >= sizeof(int64_t)''
     (res_bind (checked_read (peek b) 8 (buffer_vec b)) (\<lambda>d.
      Inr (ucast (networkToHost64 (of_le_bytes d)))))"

definition peekInt32 :: "buffer \<Rightarrow> 32 word res" where
  "peekInt32 b =
     require (readableBytes b \<ge> 4) ''readableBytes() >= sizeof(int32_t)''
     (res_bind (checked_read (peek b) 4 (buffer_vec b)) (\<lambda>d.
      Inr (ucast (networkToHost32 (of_le_bytes d)))))"

definition peekInt16 :: "buffer \<Rightarrow> 16 word res" where
  "peekInt16 b =
     require (readableBytes b \<ge> 2) ''readableBytes() >= sizeof(int16_t)''
     (res_bind (checked_read (peek b) 2 (buffer_vec b)) (\<lambda>d.
      Inr (networkToHost16 (of_le_bytes d))))"

definition peekInt8 :: "buffer \<Rightarrow> 8 word res" where
  "peekInt8 b =
     require (readableBytes b \<ge> 1) ''readableBytes() >= sizeof(int8_t)''
     (res_bind (checked_read (peek b) 1 (buffer_vec b)) (\<lambda>d. Inr (of_le_bytes d)))"

definition readInt64 :: "buffer \<Rightarrow> (64 word \<times> buffer) res" where
  "readInt64 b = res_bind (peekInt64 b) (\<lambda>x. res_bind (retrieveInt64 b) (\<lambda>b'. Inr (x, b')))"

definition readInt32 :: "buffer \<Rightarrow> (32 word \<times> buffer) res" where
  "readInt32 b = res_bind (peekInt32 b) (\<lambda>x. res_bind (retrieveInt32 b) (\<lambda>b'. Inr (x, b')))"

definition readInt16 :: "buffer \<Rightarrow> (16 word \<times> buffer) res" where
  "readInt16 b = res_bind (peekInt16 b) (\<lambda>x. res_bind (retrieveInt16 b) (\<lambda>b'. Inr (x, b')))"

definition readInt8 :: "buffer \<Rightarrow> (8 word \<times> buffer) res" where
  "readInt8 b = res_bind (peekInt8 b) (\<lambda>x. res_bind (retrieveInt8 b) (\<lambda>b'. Inr (x, b')))"

definition prepend :: "bytes \<Rightarrow> buffer \<Rightarrow> buffer res" where
  "prepend data b =
     require (length data \<le> prependableBytes b) ''len <= prependableBytes()''
     (let b1 = b\<lparr>readerIndex := size_sub (readerIndex b) (length data)\<rparr>
      in res_bind (checked_write (readerIndex b1) data (buffer_vec b1)) (\<lambda>v.
         Inr (b1\<lparr>buffer_vec := v\<rparr>)))"

definition prependInt64 :: "64 word \<Rightarrow> buffer \<Rightarrow> buffer res" where
  "prependInt64 x b = (let be64 = (ucast (hostToNetwork64 x) :: 64 word) in prepend (le_bytes be64) b)"

definition prependInt32 :: "32 word \<Rightarrow> buffer \<Rightarrow> buffer res" where
  "prependInt32 x b = (let be32 = hostToNetwork32 x in prepend (le_bytes be32) b)"

definition prependInt16 :: "16 word \<Rightarrow> buffer \<Rightarrow> buffer res" where
  "prependInt16 x b = (let be16 = hostToNetwork16 x in prepend (le_bytes be16) b)"

definition prependInt8 :: "8 word \<Rightarrow> buffer \<Rightarrow> buffer res" where
  "prependInt8 x b = prepend (le_bytes x) b"

definition shrink :: "nat \<Rightarrow> buffer \<Rightarrow> buffer res" where
  "shrink reserve b =
     res_bind (Buffer_ctor kInitialSize) (\<lambda>other.
     res_bind (ensureWritableBytes (size_add (readableBytes b) reserve) other) (\<lambda>other1.
     res_bind (append_slice (buffer_vec b) (toStringPiece b) other1) (\<lambda>other2.
     Inr (fst (Buffer_swap b other2)))))"

text \<open>
  \<open>readFd\<close>: the kernel's \<^verbatim>\<open>readv\<close> is a parameter. It gets the lengths of the memory areas
  and returns either an \<open>errno\<close> or the bytes that were read, which it has stored into the
  areas in order. The result is the return value, the saved \<open>errno\<close> and the buffer.
\<close>

definition extrabuf_size :: nat where "extrabuf_size = 65536"

definition readFd_vec :: "buffer \<Rightarrow> nat list" where
  "readFd_vec b =
     (let writable = writableBytes b
      in if writable < extrabuf_size then [writable, extrabuf_size] else [writable])"

definition readFd :: "(nat list \<Rightarrow> int + bytes) \<Rightarrow> buffer \<Rightarrow> (int \<times> int option \<times> buffer) res" where
  "readFd readv b =
     (let writable = writableBytes b
      in case readv (readFd_vec b) of
           Inl savedErrno \<Rightarrow> Inr (-1, Some savedErrno, b)
         | Inr data \<Rightarrow>
             (let n = length data
              in if n \<le> writable
                 then res_bind (checked_write (writerIndex b) data (buffer_vec b)) (\<lambda>v.
                      Inr (int n, None, b\<lparr>buffer_vec := v, writerIndex := size_add (writerIndex b) n\<rparr>))
                 else res_bind (checked_write (writerIndex b) (take writable data) (buffer_vec b)) (\<lambda>v.
                      res_bind (append_data (drop writable data)
                        (b\<lparr>buffer_vec := v, writerIndex := length v\<rparr>)) (\<lambda>b'.
                      Inr (int n, None, b')))))"


section \<open>Invariant and content\<close>

text \<open>
  The picture at the top of \<^verbatim>\<open>Buffer.h\<close>: \<open>0 \<le> readerIndex \<le> writerIndex \<le> size\<close>, with room
  for the cheap prepend area and within the limits of the vector. The content is what lies
  between the two indices.
\<close>

definition buffer_inv :: "buffer \<Rightarrow> bool" where
  "buffer_inv b \<longleftrightarrow>
     readerIndex b \<le> writerIndex b \<and> writerIndex b \<le> length (buffer_vec b) \<and>
     kCheapPrepend \<le> length (buffer_vec b) \<and> length (buffer_vec b) \<le> vector_max_size"

definition content :: "buffer \<Rightarrow> bytes" where
  "content b = mem_read (readerIndex b) (writerIndex b - readerIndex b) (buffer_vec b)"

definition capacity :: "buffer \<Rightarrow> nat" where
  "capacity b = length (buffer_vec b)"

named_theorems buffer_defs "the accessors of a buffer, unfolded"

declare prependableBytes_def [buffer_defs] peek_def [buffer_defs] beginWrite_def [buffer_defs]

lemma buffer_invD [buffer_defs]:
  assumes "buffer_inv b"
  shows "readableBytes b = writerIndex b - readerIndex b"
    and "writableBytes b = length (buffer_vec b) - writerIndex b"
  using assms
  by (simp_all add: buffer_inv_def readableBytes_def writableBytes_def vector_max_size_def)

lemma buffer_bounds:
  assumes "buffer_inv b"
  shows "readerIndex b \<le> writerIndex b" "writerIndex b \<le> length (buffer_vec b)"
    "kCheapPrepend \<le> length (buffer_vec b)" "length (buffer_vec b) \<le> vector_max_size"
    "length (buffer_vec b) < 2 ^ 63"
  using assms by (auto simp: buffer_inv_def vector_max_size_def)

lemma length_content: "buffer_inv b \<Longrightarrow> length (content b) = writerIndex b - readerIndex b"
  by (simp add: content_def buffer_inv_def)

lemma readableBytes_content: "buffer_inv b \<Longrightarrow> readableBytes b = length (content b)"
  by (simp add: length_content buffer_invD)

lemma read_content:
  "buffer_inv b \<Longrightarrow> n \<le> length (content b) \<Longrightarrow>
   checked_read (peek b) n (buffer_vec b) = Inr (take n (content b))"
  using buffer_bounds[of b] by (simp add: length_content)
     (simp add: content_def peek_def checked_read_def mem_read_def min_def)

lemma Buffer_ctor_ok:
  assumes "kCheapPrepend + n \<le> vector_max_size"
  shows "\<exists>b. Buffer_ctor n = Inr b \<and> buffer_inv b \<and> content b = [] \<and>
             capacity b = kCheapPrepend + n \<and> readerIndex b = kCheapPrepend"
  using assms
  by (simp add: Buffer_ctor_def Let_def readableBytes_def writableBytes_def prependableBytes_def
      buffer_inv_def content_def capacity_def kCheapPrepend_def vector_max_size_def)

subsection \<open>Taking bytes out\<close>

lemma retrieveAll_ok:
  assumes "buffer_inv b"
  shows "buffer_inv (retrieveAll b)" "content (retrieveAll b) = []"
    "capacity (retrieveAll b) = capacity b" "readerIndex (retrieveAll b) = kCheapPrepend"
  using assms by (simp_all add: retrieveAll_def buffer_inv_def content_def capacity_def)

lemma retrieve_ok:
  assumes "buffer_inv b" "n \<le> length (content b)"
  shows "\<exists>b'. retrieve n b = Inr b' \<and> buffer_inv b' \<and> content b' = drop n (content b) \<and>
              capacity b' = capacity b \<and> (kCheapPrepend \<le> readerIndex b \<longrightarrow> kCheapPrepend \<le> readerIndex b')"
proof (cases "n < readableBytes b")
  case True
  with assms have "readerIndex b + n \<le> writerIndex b" "writerIndex b \<le> length (buffer_vec b)"
    by (simp_all add: buffer_invD buffer_inv_def)
  moreover from assms have "writerIndex b < 2 ^ 64"
    by (simp add: buffer_inv_def vector_max_size_def)
  ultimately show ?thesis
    using assms True
    by (simp add: retrieve_def buffer_inv_def capacity_def content_def mem_read_def drop_take add.commute)
next
  case False
  with assms have "n = length (content b)" by (simp add: readableBytes_content)
  with assms False retrieveAll_ok[OF assms(1)] show ?thesis
    by (simp add: retrieve_def readableBytes_content)
qed

lemma retrieve_too_much:
  "buffer_inv b \<Longrightarrow> length (content b) < n \<Longrightarrow>
   retrieve n b = Inl (Assert_failed ''len <= readableBytes()'')"
  by (simp add: retrieve_def readableBytes_content)

lemma retrieveAsString_ok:
  assumes "buffer_inv b" "n \<le> length (content b)"
  shows "\<exists>b'. retrieveAsString n b = Inr (take n (content b), b') \<and> buffer_inv b' \<and>
              content b' = drop n (content b) \<and> capacity b' = capacity b"
  using retrieve_ok[OF assms] assms
  by (auto simp: retrieveAsString_def readableBytes_content read_content)

lemma unwrite_ok:
  assumes "buffer_inv b" "n \<le> length (content b)"
  shows "\<exists>b'. unwrite n b = Inr b' \<and> buffer_inv b' \<and>
              content b' = take (length (content b) - n) (content b)"
proof -
  from assms have "writerIndex b < 2 ^ 64" "n \<le> writerIndex b" "n \<le> readableBytes b"
    by (auto simp: buffer_inv_def vector_max_size_def length_content buffer_invD)
  moreover have "content b = take (writerIndex b - readerIndex b) (drop (readerIndex b) (buffer_vec b))"
    by (simp add: content_def mem_read_def)
  ultimately show ?thesis
    using assms by (auto simp: unwrite_def length_content)
       (auto simp: buffer_inv_def content_def mem_read_def add.commute)
qed

subsection \<open>Making room and putting bytes in\<close>

text \<open>
  The compaction branch: when the free space in front of and behind the content is enough,
  the reader index is beyond the prepend area, so the assertion in the middle of
  \<open>makeSpace\<close> cannot fail and the copy goes towards lower addresses.
\<close>

lemma makeSpace_compact:
  assumes inv: "buffer_inv b" and need: "writableBytes b < n"
    and fit: "n + kCheapPrepend \<le> writableBytes b + prependableBytes b"
  shows "\<exists>b'. makeSpace n b = Inr b' \<and> buffer_inv b' \<and> content b' = content b \<and>
              n \<le> writableBytes b' \<and> capacity b' = capacity b \<and> readerIndex b' = kCheapPrepend"
proof -
  define d where "d = content b"
  define v where "v = mem_write kCheapPrepend d (buffer_vec b)"
  define b' where "b' = b\<lparr>buffer_vec := v, readerIndex := kCheapPrepend,
                          writerIndex := kCheapPrepend + length d\<rparr>"
  note bnd = buffer_bounds[OF inv]
  have r: "kCheapPrepend < readerIndex b" using assms by (simp add: buffer_defs)
  have ld: "length d = writerIndex b - readerIndex b" using inv by (simp add: d_def length_content)
  then have fits: "kCheapPrepend + length d \<le> length (buffer_vec b)"
    using bnd r by linarith
  have small: "kCheapPrepend + length d < 2 ^ 64" "n + kCheapPrepend < 2 ^ 64"
      "writableBytes b + prependableBytes b < 2 ^ 64"
    using inv bnd fits fit by (simp_all add: buffer_defs)
  have inv': "buffer_inv b'"
    using inv fits by (simp add: b'_def v_def buffer_inv_def)
  have c': "content b' = d"
    using fits by (simp add: b'_def v_def content_def)
  have rd: "checked_read (readerIndex b) (writerIndex b - readerIndex b) (buffer_vec b) = Inr d"
    using inv by (simp add: d_def content_def buffer_inv_def)
  have same: "readableBytes b = readableBytes b'"
    using inv inv' c' by (simp add: readableBytes_content d_def)
  have "makeSpace n b = Inr b'"
    using small fit r fits rd same inv
    by (simp add: makeSpace_def Let_def b'_def v_def readableBytes_content d_def)
  moreover have "n \<le> writableBytes b'"
    using inv inv' fit fits ld r by (simp add: buffer_defs b'_def v_def buffer_inv_def)
  moreover have "capacity b' = capacity b" using fits by (simp add: capacity_def b'_def v_def)
  ultimately show ?thesis using inv' c' by (simp add: d_def b'_def)
qed

lemma makeSpace_grow:
  assumes inv: "buffer_inv b" and need: "writableBytes b < n"
    and nofit: "writableBytes b + prependableBytes b < n + kCheapPrepend"
    and lim: "writerIndex b + n \<le> vector_max_size"
  shows "\<exists>b'. makeSpace n b = Inr b' \<and> buffer_inv b' \<and> content b' = content b \<and>
              n \<le> writableBytes b' \<and> capacity b' = writerIndex b + n \<and> readerIndex b' = readerIndex b"
proof -
  define b' where "b' = b\<lparr>buffer_vec := vec_resize (writerIndex b + n) 0 (buffer_vec b)\<rparr>"
  have le: "length (buffer_vec b) \<le> writerIndex b + n"
    using inv need by (simp add: buffer_defs)
  have small: "n + kCheapPrepend < 2 ^ 64" "writerIndex b + n < 2 ^ 64"
      "writableBytes b + prependableBytes b < 2 ^ 64"
    using inv lim buffer_bounds[OF inv]
    by (simp_all add: buffer_defs vector_max_size_def kCheapPrepend_def)
  have inv': "buffer_inv b'" using inv lim le by (auto simp: buffer_inv_def b'_def)
  have "makeSpace n b = Inr b'"
    using small nofit lim by (simp add: makeSpace_def Let_def b'_def)
  moreover have "content b' = content b"
    using inv le by (simp add: content_def b'_def buffer_inv_def mem_read_resize)
  ultimately show ?thesis using inv inv' by (simp add: buffer_defs b'_def capacity_def)
qed

lemma ensureWritableBytes_ok:
  assumes "buffer_inv b" "capacity b + n \<le> vector_max_size"
  shows "\<exists>b'. ensureWritableBytes n b = Inr b' \<and> buffer_inv b' \<and> content b' = content b \<and>
              n \<le> writableBytes b' \<and> capacity b' \<le> capacity b + n \<and>
              (kCheapPrepend \<le> readerIndex b \<longrightarrow> kCheapPrepend \<le> readerIndex b')"
proof -
  have w: "writerIndex b \<le> capacity b" using assms by (simp add: buffer_inv_def capacity_def)
  consider "\<not> writableBytes b < n"
    | "writableBytes b < n" "n + kCheapPrepend \<le> writableBytes b + prependableBytes b"
    | "writableBytes b < n" "writableBytes b + prependableBytes b < n + kCheapPrepend"
    by linarith
  then show ?thesis
  proof cases
    case 1
    then show ?thesis using assms by (simp add: ensureWritableBytes_def)
  next
    case 2
    then show ?thesis
      using makeSpace_compact[OF assms(1) 2] by (auto simp: ensureWritableBytes_def)
  next
    case 3
    then show ?thesis
      using makeSpace_grow[OF assms(1) 3] assms(2) w by (auto simp: ensureWritableBytes_def)
  qed
qed

text \<open>Without a bound on the capacity: the room, or the length error.\<close>

lemma ensureWritableBytes_cases:
  assumes "buffer_inv b" "n \<le> 2 ^ 63"
  shows "(\<exists>b'. ensureWritableBytes n b = Inr b' \<and> buffer_inv b' \<and> content b' = content b \<and>
               n \<le> writableBytes b') \<or>
         (ensureWritableBytes n b = Inl Length_error \<and> vector_max_size < writerIndex b + n)"
proof -
  note bnd = buffer_bounds[OF assms(1)]
  have small: "n + kCheapPrepend < 2 ^ 64" "writerIndex b + n < 2 ^ 64"
      "writableBytes b + prependableBytes b < 2 ^ 64"
    using assms bnd by (simp_all add: buffer_defs kCheapPrepend_def)
  consider "\<not> writableBytes b < n"
    | "writableBytes b < n" "n + kCheapPrepend \<le> writableBytes b + prependableBytes b"
    | "writableBytes b < n" "writableBytes b + prependableBytes b < n + kCheapPrepend"
        "writerIndex b + n \<le> vector_max_size"
    | "writableBytes b < n" "writableBytes b + prependableBytes b < n + kCheapPrepend"
        "vector_max_size < writerIndex b + n"
    by linarith
  then show ?thesis
  proof cases
    case 1
    then show ?thesis using assms by (simp add: ensureWritableBytes_def)
  next
    case 2
    then show ?thesis using makeSpace_compact[OF assms(1) 2] by (auto simp: ensureWritableBytes_def)
  next
    case 3
    then show ?thesis using makeSpace_grow[OF assms(1) 3] by (auto simp: ensureWritableBytes_def)
  next
    case 4
    then show ?thesis using small by (simp add: ensureWritableBytes_def makeSpace_def Let_def)
  qed
qed

text \<open>Bytes stored behind the content and counted by \<open>hasWritten\<close> extend the content.\<close>

lemma write_behind:
  assumes "buffer_inv b" "length d \<le> writableBytes b"
  shows "let b' = b\<lparr>buffer_vec := mem_write (writerIndex b) d (buffer_vec b),
                    writerIndex := writerIndex b + length d\<rparr>
         in buffer_inv b' \<and> content b' = content b @ d \<and> capacity b' = capacity b"
proof -
  define v where "v = mem_write (writerIndex b) d (buffer_vec b)"
  have fits: "writerIndex b + length d \<le> length (buffer_vec b)"
    using assms buffer_bounds[OF assms(1)] by (simp add: buffer_defs)
  have rw: "readerIndex b \<le> writerIndex b" using assms by (simp add: buffer_inv_def)
  then have "writerIndex b + length d - readerIndex b = (writerIndex b - readerIndex b) + length d"
    by simp
  then have "mem_read (readerIndex b) (writerIndex b + length d - readerIndex b) v =
        mem_read (readerIndex b) (writerIndex b - readerIndex b) v @ mem_read (writerIndex b) (length d) v"
    using rw mem_read_add[of "readerIndex b" "writerIndex b - readerIndex b" "length d" v] by simp
  also have "\<dots> = content b @ d"
    using fits rw by (simp add: v_def content_def mem_read_write_before)
  finally show ?thesis
    using assms fits rw by (simp add: Let_def v_def buffer_inv_def content_def capacity_def)
qed

lemma append_data_ok:
  assumes "buffer_inv b" "capacity b + length d \<le> vector_max_size"
  shows "\<exists>b'. append_data d b = Inr b' \<and> buffer_inv b' \<and> content b' = content b @ d \<and>
              capacity b' \<le> capacity b + length d \<and>
              (kCheapPrepend \<le> readerIndex b \<longrightarrow> kCheapPrepend \<le> readerIndex b')"
proof -
  obtain b1 where b1: "ensureWritableBytes (length d) b = Inr b1" "buffer_inv b1"
      "content b1 = content b" "length d \<le> writableBytes b1" "capacity b1 \<le> capacity b + length d"
      "kCheapPrepend \<le> readerIndex b \<longrightarrow> kCheapPrepend \<le> readerIndex b1"
    using ensureWritableBytes_ok[OF assms] by blast
  have fits: "writerIndex b1 + length d \<le> length (buffer_vec b1)"
    using b1(2,4) buffer_bounds[OF b1(2)] by (simp add: buffer_defs)
  moreover have "writerIndex b1 + length d < 2 ^ 64"
    using fits b1(2) by (simp add: buffer_inv_def vector_max_size_def)
  moreover have "writableBytes (b1\<lparr>buffer_vec := mem_write (writerIndex b1) d (buffer_vec b1)\<rparr>) =
      writableBytes b1"
    using fits by (simp add: writableBytes_def)
  ultimately show ?thesis
    using b1 write_behind[OF b1(2,4)]
    by (simp add: append_data_def hasWritten_def beginWrite_def Let_def)
qed

lemma prepend_ok:
  assumes "buffer_inv b" "length d \<le> readerIndex b"
  shows "\<exists>b'. prepend d b = Inr b' \<and> buffer_inv b' \<and> content b' = d @ content b \<and>
              capacity b' = capacity b \<and> readerIndex b' = readerIndex b - length d"
proof -
  define i where "i = readerIndex b - length d"
  define v where "v = mem_write i d (buffer_vec b)"
  have le: "i + length d = readerIndex b" using assms by (simp add: i_def)
  have bnd: "readerIndex b \<le> writerIndex b" "writerIndex b \<le> length (buffer_vec b)"
      "readerIndex b < 2 ^ 64"
    using assms by (simp_all add: buffer_inv_def vector_max_size_def)
  have v: "length v = length (buffer_vec b)" using le bnd by (simp add: v_def)
  have sub: "size_sub (readerIndex b) (length d) = i" using assms bnd by (simp add: i_def)
  have "writerIndex b - i = length d + (writerIndex b - readerIndex b)"
    using le bnd by simp
  then have "mem_read i (writerIndex b - i) v = mem_read i (length d) v @
        mem_read (readerIndex b) (writerIndex b - readerIndex b) v"
    using le by (simp add: mem_read_add)
  also have "\<dots> = d @ content b"
  proof -
    have "drop (readerIndex b) v = drop (readerIndex b) (buffer_vec b)"
      using le bnd by (simp add: v_def mem_write_def)
    then have "mem_read (readerIndex b) (writerIndex b - readerIndex b) v = content b"
      by (simp add: content_def mem_read_def)
    moreover have "mem_read i (length d) v = d"
      using le bnd by (simp add: v_def)
    ultimately show ?thesis by simp
  qed
  finally show ?thesis
    using assms(1) assms(2) sub le bnd v
    by (simp add: prepend_def prependableBytes_def Let_def buffer_inv_def content_def capacity_def
        flip: v_def i_def)
qed

lemma prepend_too_much:
  "readerIndex b < length d \<Longrightarrow> prepend d b = Inl (Assert_failed ''len <= prependableBytes()'')"
  by (simp add: prepend_def prependableBytes_def)


section \<open>The buffer is a byte queue\<close>

interpretation bq: byte_queue buffer_inv content capacity vector_max_size append_data retrieveAsString
proof
  fix b :: buffer and d :: bytes
  assume "buffer_inv b" "capacity b + length d \<le> vector_max_size"
  then show "\<exists>b'. append_data d b = Inr b' \<and> buffer_inv b' \<and> content b' = content b @ d \<and>
                  capacity b' \<le> capacity b + length d"
    using append_data_ok by blast
next
  fix b :: buffer and n
  assume "buffer_inv b" "n \<le> length (content b)"
  then show "\<exists>b'. retrieveAsString n b = Inr (take n (content b), b') \<and> buffer_inv b' \<and>
                  content b' = drop n (content b) \<and> capacity b' = capacity b"
    by (rule retrieveAsString_ok)
next
  fix b :: buffer and n
  assume "buffer_inv b" "length (content b) < n"
  then show "\<exists>e. retrieveAsString n b = Inl e"
    by (auto simp: retrieveAsString_def readableBytes_content)
qed

subsection \<open>Reading from a descriptor\<close>

lemma readFd_error:
  "readv (readFd_vec b) = Inl e \<Longrightarrow> readFd readv b = Inr (-1, Some e, b)"
  by (simp add: readFd_def Let_def)

lemma readFd_data:
  assumes "buffer_inv b" "capacity b + (length d - writableBytes b) \<le> vector_max_size"
    and "readv (readFd_vec b) = Inr d"
  shows "\<exists>b'. readFd readv b = Inr (int (length d), None, b') \<and> buffer_inv b' \<and>
              content b' = content b @ d"
proof (cases "length d \<le> writableBytes b")
  case True
  then have fits: "writerIndex b + length d \<le> length (buffer_vec b)"
    using assms(1) buffer_bounds[OF assms(1)] by (simp add: buffer_defs)
  then have "writerIndex b + length d < 2 ^ 64" using buffer_bounds[OF assms(1)] by simp
  then show ?thesis
    using fits True write_behind[OF assms(1) True] assms(3)
    by (simp add: readFd_def Let_def)
next
  case False
  define w where "w = writableBytes b"
  define b1 where "b1 = b\<lparr>buffer_vec := mem_write (writerIndex b) (take w d) (buffer_vec b),
                          writerIndex := writerIndex b + length (take w d)\<rparr>"
  have lt: "length (take w d) = w" "w \<le> length d" using False by (simp_all add: w_def)
  have b1: "buffer_inv b1" "content b1 = content b @ take w d" "capacity b1 = capacity b"
    using write_behind[OF assms(1), of "take w d"] lt by (simp_all add: b1_def Let_def w_def)
  have len: "writerIndex b + w = length (buffer_vec b)"
    using assms(1) buffer_bounds[OF assms(1)] by (simp add: w_def buffer_defs)
  then have lv: "length (buffer_vec b1) = length (buffer_vec b)" using lt by (simp add: b1_def)
  obtain b2 where "append_data (drop w d) b1 = Inr b2" "buffer_inv b2"
      "content b2 = content b1 @ drop w d"
    using append_data_ok[OF b1(1), of "drop w d"] assms(2) b1(3) by (force simp: w_def)
  moreover have "b\<lparr>buffer_vec := buffer_vec b1, writerIndex := length (buffer_vec b1)\<rparr> = b1"
    using len lt lv by (simp add: b1_def)
  moreover have "checked_write (writerIndex b) (take w d) (buffer_vec b) = Inr (buffer_vec b1)"
    using len lt by (simp add: b1_def)
  ultimately show ?thesis
    using False assms(3) b1(2) by (simp add: readFd_def Let_def flip: w_def)
qed

subsection \<open>Searching\<close>

lemma findCRLF_correct:
  assumes "buffer_inv b"
  shows "\<exists>r. findCRLF b = Inr r \<and> (case r of
      None \<Rightarrow> \<forall>j. j + 2 \<le> length (content b) \<longrightarrow> take 2 (drop j (content b)) \<noteq> kCRLF
    | Some p \<Rightarrow> readerIndex b \<le> p \<and> p + 2 \<le> writerIndex b \<and>
        take 2 (drop (p - readerIndex b) (content b)) = kCRLF \<and>
        (\<forall>j < p - readerIndex b. take 2 (drop j (content b)) \<noteq> kCRLF))"
proof -
  define k where "k = std_search kCRLF (content b)"
  have len: "length (content b) = writerIndex b - readerIndex b" "readerIndex b \<le> writerIndex b"
    using assms buffer_bounds by (auto simp: length_content)
  have two: "length kCRLF = 2" by (simp add: kCRLF_def)
  have le: "k \<le> length (content b)" by (simp add: k_def std_search_le)
  have first: "j < k \<Longrightarrow> take 2 (drop j (content b)) \<noteq> kCRLF" for j
    using std_search_first[of j kCRLF "content b"] two by (simp add: k_def)
  have f: "findCRLF b = Inr (if k = length (content b) then None else Some (readerIndex b + k))"
    using len le read_content[OF assms order_refl] by (auto simp: findCRLF_def Let_def peek_def beginWrite_def k_def)
  show ?thesis
  proof (cases "k = length (content b)")
    case True
    then show ?thesis using f first by auto
  next
    case False
    then have found: "take 2 (drop k (content b)) = kCRLF"
      using std_search_found[of kCRLF "content b"] le two by (simp add: k_def)
    then have "2 \<le> length (content b) - k"
      using two by (metis length_drop length_take min.absorb_iff2 min.commute)
    then show ?thesis using f False found first le len by auto
  qed
qed

lemma findEOL_correct:
  assumes "buffer_inv b"
  shows "\<exists>r. findEOL b = Inr r \<and> (case r of
      None \<Rightarrow> 10 \<notin> set (content b)
    | Some p \<Rightarrow> readerIndex b \<le> p \<and> p < writerIndex b \<and> content b ! (p - readerIndex b) = 10 \<and>
        (\<forall>j < p - readerIndex b. content b ! j \<noteq> 10))"
proof -
  have f: "findEOL b = Inr (map_option (\<lambda>k. readerIndex b + k) (memchr 10 (content b)))"
    using read_content[OF assms order_refl] assms by (simp add: findEOL_def readableBytes_content) (simp add: peek_def)
  show ?thesis
    using f length_content[OF assms] by (auto simp: memchr_None memchr_Some split: option.splits)
qed

text \<open>Taking out everything up to the end of the first line.\<close>

lemma retrieveUntil_ok:
  assumes "buffer_inv b" "readerIndex b \<le> p" "p \<le> writerIndex b"
  shows "\<exists>b'. retrieveUntil p b = Inr b' \<and> buffer_inv b' \<and>
              content b' = drop (p - readerIndex b) (content b)"
proof -
  have "p - readerIndex b \<le> length (content b)" using assms by (simp add: length_content)
  then show ?thesis
    using retrieve_ok[OF assms(1)] assms(2,3) by (auto simp: retrieveUntil_def peek_def beginWrite_def)
qed

subsection \<open>Shrinking\<close>

lemma shrink_ok:
  assumes "buffer_inv b" "length (content b) < 2 ^ 31" "reserve < 2 ^ 62"
  shows "\<exists>b'. shrink reserve b = Inr b' \<and> buffer_inv b' \<and> content b' = content b"
proof -
  obtain o1 where o1: "Buffer_ctor kInitialSize = Inr o1" "buffer_inv o1" "content o1 = []"
      "capacity o1 = kCheapPrepend + kInitialSize"
    using Buffer_ctor_ok[of kInitialSize]
    by (auto simp: kInitialSize_def kCheapPrepend_def vector_max_size_def)
  define n where "n = length (content b) + reserve"
  have n: "size_add (readableBytes b) reserve = n" "n < 2 ^ 31 + 2 ^ 62"
    using assms by (simp_all add: readableBytes_content n_def)
  have cap1: "capacity o1 + n \<le> vector_max_size"
    using n o1 by (simp add: kInitialSize_def kCheapPrepend_def vector_max_size_def)
  then obtain o2 where o2: "ensureWritableBytes n o1 = Inr o2" "buffer_inv o2" "content o2 = []"
      "capacity o2 \<le> capacity o1 + n"
    using ensureWritableBytes_ok[OF o1(2), of n] o1(3) by auto
  have "capacity o2 + length (content b) \<le> vector_max_size"
    using o2(4) o1(4) n(2) assms(2)
    by (simp add: kInitialSize_def kCheapPrepend_def vector_max_size_def)
  then obtain o3 where o3: "append_data (content b) o2 = Inr o3" "buffer_inv o3" "content o3 = content b"
    using append_data_ok[OF o2(2), of "content b"] o2(3) by auto
  have piece: "toStringPiece b = (peek b, length (content b))"
    using assms by (simp add: toStringPiece_def readableBytes_content size_to_int_small int_to_size_of_nat)
  have "append_slice (buffer_vec b) (toStringPiece b) o2 = Inr o3"
    using o3 assms piece by (simp add: append_slice_def read_content)
  moreover have "fst (Buffer_swap b o3) = o3" by (simp add: Buffer_swap_def)
  ultimately show ?thesis using o1 o2 o3 n by (simp add: shrink_def)
qed


subsection \<open>Integers in network order\<close>

lemma read_front:
  assumes "buffer_inv b" "content b = d @ rest" "length d = n"
  shows "n \<le> readableBytes b" "checked_read (peek b) n (buffer_vec b) = Inr d"
    "\<exists>b'. retrieve n b = Inr b' \<and> buffer_inv b' \<and> content b' = rest"
  using assms retrieve_ok[OF assms(1), of n] by (auto simp: readableBytes_content read_content)

lemma readInt16_front:
  assumes "buffer_inv b" "content b = rev (le_bytes (x :: 16 word)) @ rest"
  shows "\<exists>b'. readInt16 b = Inr (x, b') \<and> buffer_inv b' \<and> content b' = rest"
  using read_front[OF assms, of 2]
  by (auto simp: readInt16_def peekInt16_def retrieveInt16_def networkToHost16_def bswap_def)

text \<open>
  The 32 bit conversion of \<^verbatim>\<open>Endian.h\<close> returns 16 bits: only the low half of the value
  comes back.
\<close>

lemma readInt32_front:
  assumes "buffer_inv b" "content b = rev (le_bytes (x :: 32 word)) @ rest"
  shows "\<exists>b'. readInt32 b = Inr (ucast (ucast x :: 16 word), b') \<and> buffer_inv b' \<and> content b' = rest"
  using read_front[OF assms, of 4]
  by (auto simp: readInt32_def peekInt32_def retrieveInt32_def networkToHost32_def bswap_def)

lemma readInt8_front:
  assumes "buffer_inv b" "content b = x # rest"
  shows "\<exists>b'. readInt8 b = Inr (x, b') \<and> buffer_inv b' \<and> content b' = rest"
  using read_front[of b "[x]" rest 1] assms
  by (auto simp: readInt8_def peekInt8_def retrieveInt8_def)

text \<open>
  Writing 64 bits keeps the high half only (\<open>hostToNetwork64\<close> returns 32 bits) and reading
  64 bits keeps the low 16 bits of what it finds.
\<close>

lemma le_bytes_ucast_64:
  "le_bytes (ucast (w :: 32 word) :: 64 word) = le_bytes w @ [0, 0, 0, 0]"
proof (rule nth_equalityI)
  show "length (le_bytes (ucast w :: 64 word)) = length (le_bytes w @ [0, 0, 0, 0])" by simp
next
  fix i assume "i < length (le_bytes (ucast w :: 64 word))"
  then have i: "i < 8" by simp
  show "le_bytes (ucast w :: 64 word) ! i = (le_bytes w @ [0, 0, 0, 0]) ! i"
  proof (cases "i < 4")
    case True
    then show ?thesis
      by (intro bit_word_eqI) (auto simp: nth_append bit_nth_le_bytes bit_simps dest: bit_imp_le_length)
  next
    case False
    then have "([0, 0, 0, 0] :: bytes) ! (i - 4) = 0"
      using i by (auto simp: nth_Cons split: nat.splits)
    moreover have "le_bytes (ucast w :: 64 word) ! i = 0"
      using i False by (intro bit_word_eqI) (auto simp: bit_nth_le_bytes bit_simps dest: bit_imp_le_length)
    ultimately show ?thesis using False by (simp add: nth_append)
  qed
qed

lemma hostToNetwork64_bytes:
  "le_bytes (ucast (hostToNetwork64 x) :: 64 word) = take 4 (rev (le_bytes x)) @ [0, 0, 0, 0]"
proof -
  have "hostToNetwork64 x = of_le_bytes (take 4 (rev (le_bytes x)))"
    using of_le_bytes_take[where 'a = 32, of "rev (le_bytes x)"]
    by (simp add: hostToNetwork64_def bswap_def ucast_of_le_bytes)
  moreover have "length (take 4 (rev (le_bytes x))) = 4" by simp
  ultimately show ?thesis by (simp only: le_bytes_ucast_64) simp
qed

lemma networkToHost64_of_le_bytes:
  assumes "length d = 8"
  shows "networkToHost64 (of_le_bytes d) = of_le_bytes (take 2 (rev d))"
  using assms of_le_bytes_take[where 'a = 16, of "rev d"]
  by (simp add: networkToHost64_def bswap_def ucast_of_le_bytes)

lemma readInt64_front:
  assumes "buffer_inv b" "content b = le_bytes (ucast (hostToNetwork64 x) :: 64 word) @ rest"
  shows "\<exists>b'. readInt64 b = Inr (0, b') \<and> buffer_inv b' \<and> content b' = rest"
proof -
  let ?d = "le_bytes (ucast (hostToNetwork64 x) :: 64 word)"
  have "take 2 (rev ?d) = [0, 0]" by (simp add: hostToNetwork64_bytes)
  moreover have "networkToHost64 (of_le_bytes ?d) = of_le_bytes (take 2 (rev ?d))"
    by (rule networkToHost64_of_le_bytes) simp
  ultimately have "networkToHost64 (of_le_bytes ?d) = 0" by simp
  then show ?thesis
    using read_front[OF assms, of 8]
    by (auto simp: readInt64_def peekInt64_def retrieveInt64_def)
qed

lemma appendInt_content:
  assumes "buffer_inv b" "capacity b + 8 \<le> vector_max_size"
  shows "\<exists>b'. appendInt8 x8 b = Inr b' \<and> buffer_inv b' \<and> content b' = content b @ [x8]"
    and "\<exists>b'. appendInt16 x16 b = Inr b' \<and> buffer_inv b' \<and> content b' = content b @ rev (le_bytes x16)"
    and "\<exists>b'. appendInt32 x32 b = Inr b' \<and> buffer_inv b' \<and> content b' = content b @ rev (le_bytes x32)"
    and "\<exists>b'. appendInt64 x64 b = Inr b' \<and> buffer_inv b' \<and>
              content b' = content b @ le_bytes (ucast (hostToNetwork64 x64) :: 64 word)"
proof -
  have *: "length d \<le> 8 \<Longrightarrow> \<exists>b'. append_data d b = Inr b' \<and> buffer_inv b' \<and> content b' = content b @ d" for d
    using append_data_ok[OF assms(1), of d] assms(2) by auto
  have "le_bytes x8 = [x8]" by (simp add: le_bytes_def)
  then show "\<exists>b'. appendInt8 x8 b = Inr b' \<and> buffer_inv b' \<and> content b' = content b @ [x8]"
    using *[of "[x8]"] by (simp add: appendInt8_def)
  show "\<exists>b'. appendInt16 x16 b = Inr b' \<and> buffer_inv b' \<and> content b' = content b @ rev (le_bytes x16)"
    using *[of "rev (le_bytes x16)"] by (simp add: appendInt16_def hostToNetwork16_def)
  show "\<exists>b'. appendInt32 x32 b = Inr b' \<and> buffer_inv b' \<and> content b' = content b @ rev (le_bytes x32)"
    using *[of "rev (le_bytes x32)"] by (simp add: appendInt32_def hostToNetwork32_def)
  show "\<exists>b'. appendInt64 x64 b = Inr b' \<and> buffer_inv b' \<and>
              content b' = content b @ le_bytes (ucast (hostToNetwork64 x64) :: 64 word)"
    using *[of "le_bytes (ucast (hostToNetwork64 x64) :: 64 word)"] by (simp add: appendInt64_def)
qed

lemma prependInt_content:
  assumes "buffer_inv b" "kCheapPrepend \<le> readerIndex b"
  shows "\<exists>b'. prependInt32 x32 b = Inr b' \<and> buffer_inv b' \<and> content b' = rev (le_bytes x32) @ content b"
    and "\<exists>b'. prependInt16 x16 b = Inr b' \<and> buffer_inv b' \<and> content b' = rev (le_bytes x16) @ content b"
  using prepend_ok[OF assms(1), of "rev (le_bytes x32)"] prepend_ok[OF assms(1), of "rev (le_bytes x16)"] assms(2)
  by (auto simp: prependInt32_def prependInt16_def hostToNetwork32_def hostToNetwork16_def kCheapPrepend_def)

lemma ucast_ucast_16: "(ucast (ucast (x :: 32 word) :: 16 word) :: 32 word) = x \<longleftrightarrow> x < 65536"
proof -
  have "(ucast (ucast x :: 16 word) :: 32 word) = take_bit 16 x"
    by (rule bit_word_eqI) (auto simp: bit_simps)
  moreover have "take_bit 16 x = x \<longleftrightarrow> x < 65536"
    by (simp add: take_bit_eq_mod word_less_nat_alt flip: word_unat_eq_iff)
       (simp add: word_unat_eq_iff unat_mod mod_eq_self_iff_div_eq_0 div_eq_0_iff)
  ultimately show ?thesis by simp
qed


section \<open>Properties\<close>

text \<open>A small buffer for the witnesses: eight bytes of prepend space and four writable bytes.\<close>

definition small_buffer :: buffer where
  "small_buffer = \<lparr>buffer_vec = replicate 12 0, readerIndex = 8, writerIndex = 8\<rparr>"

lemma small_buffer_facts [simp]:
  "buffer_inv small_buffer" "content small_buffer = []" "capacity small_buffer = 12"
  "writerIndex small_buffer = 8" "readerIndex small_buffer = 8"
  by (simp_all add: small_buffer_def buffer_inv_def content_def capacity_def
      kCheapPrepend_def vector_max_size_def)

text \<open>
  C1: A buffer constructed with any initial size behaves as a queue of bytes. In every run of
  \<open>append\<close> and \<open>retrieveAsString\<close> calls that never asks for more than is readable, all
  calls succeed (no assertion of \<^verbatim>\<open>Buffer.h\<close> fails), and the bytes taken out followed by the
  readable bytes are exactly the bytes appended, in order.
\<close>

theorem Buffer_stream_law:
  assumes "kCheapPrepend + n + length (puts ops) \<le> vector_max_size" "legal_ops 0 ops"
  shows "\<exists>b out b'. Buffer_ctor n = Inr b \<and> queue_run append_data retrieveAsString ops b = Inr (out, b') \<and>
           buffer_inv b' \<and> out @ content b' = puts ops"
proof -
  from assms have "kCheapPrepend + n \<le> vector_max_size" by simp
  then obtain b where b: "Buffer_ctor n = Inr b" "buffer_inv b" "content b = []" "capacity b = kCheapPrepend + n"
    using Buffer_ctor_ok by blast
  with bq.stream_law[of b ops] assms show ?thesis by auto
qed

theorem Buffer_stream_law_witness:
  "kCheapPrepend + 4 + length (puts [Put [1, 2, 3], Get 2, Put [4]]) \<le> vector_max_size \<and>
   legal_ops 0 [Put [1, 2, 3], Get 2, Put [4]] \<and>
   (\<exists>b out b'. Buffer_ctor 4 = Inr b \<and>
      queue_run append_data retrieveAsString [Put [1, 2, 3], Get 2, Put [4]] b = Inr (out, b') \<and>
      buffer_inv b' \<and> out @ content b' = [1, 2, 3, 4])"
  using Buffer_stream_law[of 4 "[Put [1, 2, 3], Get 2, Put [4]]"]
  by (simp add: kCheapPrepend_def vector_max_size_def)

text \<open>
  \<open>ensureWritableBytes\<close> (and with it \<open>makeSpace\<close>) either gives the requested room and
  leaves the readable bytes unchanged, by moving them to the front or by growing the vector,
  or raises the vector's length error because the vector would exceed its maximal size. No
  assertion can fail and no byte outside the vector is touched.
\<close>

theorem ensureWritableBytes_outcome:
  assumes "buffer_inv b" "n \<le> 2 ^ 63"
  shows "(\<exists>b'. ensureWritableBytes n b = Inr b' \<and> buffer_inv b' \<and> content b' = content b \<and>
               n \<le> writableBytes b') \<or>
         (ensureWritableBytes n b = Inl Length_error \<and> vector_max_size < writerIndex b + n)"
  by (rule ensureWritableBytes_cases[OF assms])

theorem ensureWritableBytes_outcome_witness:
  "buffer_inv small_buffer \<and>
   (\<exists>b'. ensureWritableBytes 5 small_buffer = Inr b' \<and> buffer_inv b' \<and> content b' = [] \<and> 5 \<le> writableBytes b')"
  using ensureWritableBytes_outcome[of small_buffer 5]
  by (simp add: vector_max_size_def)

text \<open>
  C26: \<open>readFd\<close> delivers what the kernel read: whatever the free space in the buffer, the
  bytes returned by \<^verbatim>\<open>readv\<close> (at most the two memory areas it was given) are appended to the
  readable bytes in order, part directly and part through the stack buffer, and the return
  value is their number.
\<close>

theorem readFd_appends:
  assumes "buffer_inv b" "readv (readFd_vec b) = Inr d" "length d \<le> sum_list (readFd_vec b)"
    and "capacity b + extrabuf_size \<le> vector_max_size"
  shows "\<exists>b'. readFd readv b = Inr (int (length d), None, b') \<and> buffer_inv b' \<and> content b' = content b @ d"
proof -
  have "length d - writableBytes b \<le> extrabuf_size"
    using assms(3) by (simp add: readFd_vec_def Let_def split: if_splits)
  then show ?thesis using readFd_data[of b d readv] assms(1,2,4) by simp
qed

theorem readFd_appends_witness:
  "buffer_inv small_buffer \<and> length [1, 2, 3, 4, 5, 6 :: byte] \<le> sum_list (readFd_vec small_buffer) \<and>
   (\<exists>b'. readFd (\<lambda>_. Inr [1, 2, 3, 4, 5, 6]) small_buffer = Inr (6, None, b') \<and> buffer_inv b' \<and>
         content b' = [1, 2, 3, 4, 5, 6])"
proof -
  have vec: "readFd_vec small_buffer = [4, 65536]"
    by (simp add: readFd_vec_def extrabuf_size_def writableBytes_def small_buffer_def)
  show ?thesis
    using readFd_appends[of small_buffer "\<lambda>_. Inr [1, 2, 3, 4, 5, 6]" "[1, 2, 3, 4, 5, 6]"]
    by (simp add: vec extrabuf_size_def vector_max_size_def)
qed

text \<open>
  \<open>findCRLF\<close> returns the position of the first \<^verbatim>\<open>\r\n\<close> of the readable bytes and null
  exactly when there is none; \<open>retrieveUntil\<close> with the position behind it then removes the
  line and its terminator and keeps the rest.
\<close>

theorem findCRLF_splits_line:
  assumes "buffer_inv b"
  shows "\<exists>r. findCRLF b = Inr r \<and> (case r of
      None \<Rightarrow> \<not> (\<exists>line rest. content b = line @ kCRLF @ rest)
    | Some p \<Rightarrow> \<exists>line rest b'. content b = line @ kCRLF @ rest \<and>
        (\<forall>line' rest'. content b = line' @ kCRLF @ rest' \<longrightarrow> length line \<le> length line') \<and>
        p = peek b + length line \<and>
        retrieveUntil (p + 2) b = Inr b' \<and> buffer_inv b' \<and> content b' = rest)"
proof -
  have two: "length kCRLF = 2" by (simp add: kCRLF_def)
  from findCRLF_correct[OF assms] obtain r where r: "findCRLF b = Inr r" and c: "case r of
      None \<Rightarrow> \<forall>j. j + 2 \<le> length (content b) \<longrightarrow> take 2 (drop j (content b)) \<noteq> kCRLF
    | Some p \<Rightarrow> readerIndex b \<le> p \<and> p + 2 \<le> writerIndex b \<and>
        take 2 (drop (p - readerIndex b) (content b)) = kCRLF \<and>
        (\<forall>j < p - readerIndex b. take 2 (drop j (content b)) \<noteq> kCRLF)" by blast
  have occurs: "take 2 (drop (length l) (content b)) = kCRLF" if "content b = l @ kCRLF @ r" for l r
    using that two by simp
  show ?thesis
  proof (cases r)
    case None
    with c have none: "j + 2 \<le> length (content b) \<Longrightarrow> take 2 (drop j (content b)) \<noteq> kCRLF" for j
      by simp
    have "False" if "content b = l @ kCRLF @ r" for l r
      using none[of "length l"] occurs[OF that] that two by simp
    then show ?thesis using None r by auto
  next
    case (Some p)
    define k where "k = p - readerIndex b"
    from c Some have p: "readerIndex b \<le> p" "p + 2 \<le> writerIndex b"
        and at: "take 2 (drop k (content b)) = kCRLF"
        and before: "\<And>j. j < k \<Longrightarrow> take 2 (drop j (content b)) \<noteq> kCRLF"
      by (auto simp: k_def)
    have kl: "k + 2 \<le> length (content b)" using p assms by (simp add: k_def length_content)
    define line where "line = take k (content b)"
    have split: "content b = line @ kCRLF @ drop (k + 2) (content b)"
      unfolding line_def
      by (metis append_take_drop_id at drop_drop add.commute)
    obtain b' where "retrieveUntil (p + 2) b = Inr b'" "buffer_inv b'"
        "content b' = drop (p + 2 - readerIndex b) (content b)"
      using retrieveUntil_ok[OF assms, of "p + 2"] p by auto
    moreover have "p + 2 - readerIndex b = k + 2" using p by (simp add: k_def)
    moreover have ll: "length line = k" using kl by (simp add: line_def)
    moreover have "length line \<le> length l" if "content b = l @ kCRLF @ r" for l r
      using before[of "length l"] occurs[OF that] ll by force
    moreover have "p = peek b + length line" using p ll by (simp add: k_def peek_def)
    ultimately have "content b = line @ kCRLF @ drop (k + 2) (content b) \<and>
        (\<forall>l r. content b = l @ kCRLF @ r \<longrightarrow> length line \<le> length l) \<and> p = peek b + length line \<and>
        retrieveUntil (p + 2) b = Inr b' \<and> buffer_inv b' \<and> content b' = drop (k + 2) (content b)"
      using split by metis
    then show ?thesis using r Some by auto
  qed
qed

theorem findCRLF_splits_line_witness:
  "let b = \<lparr>buffer_vec = replicate 8 0 @ [65, 13, 10, 66], readerIndex = 8, writerIndex = 12\<rparr>
   in buffer_inv b \<and> findCRLF b = Inr (Some 9) \<and>
      (\<exists>line rest b'. content b = line @ kCRLF @ rest \<and>
        (\<forall>line' rest'. content b = line' @ kCRLF @ rest' \<longrightarrow> length line \<le> length line') \<and>
        9 = peek b + length line \<and> retrieveUntil (9 + 2) b = Inr b' \<and> buffer_inv b' \<and> content b' = rest)"
proof -
  define b where "b = \<lparr>buffer_vec = replicate 8 0 @ [65, 13, 10, 66], readerIndex = 8, writerIndex = 12\<rparr>"
  have inv: "buffer_inv b" by (simp add: b_def buffer_inv_def kCheapPrepend_def vector_max_size_def)
  have f: "findCRLF b = Inr (Some 9)"
    by (simp add: b_def findCRLF_def peek_def beginWrite_def checked_read_def mem_read_def kCRLF_def Let_def)
  show ?thesis using findCRLF_splits_line[OF inv] inv f by (simp only: Let_def b_def[symmetric]) simp
qed

text \<open>
  An 8 or 16 bit integer appended to a buffer in network order and read back is the same
  integer, wherever it stands in the stream: reading it needs exactly its bytes at the front
  and leaves the bytes behind it.
\<close>

theorem int8_int16_roundtrip:
  assumes "buffer_inv b" "content b = []" "capacity b + 16 \<le> vector_max_size"
  shows "\<exists>b1 b2 b3 b4. appendInt16 x b = Inr b1 \<and> appendInt8 y b1 = Inr b2 \<and>
           readInt16 b2 = Inr (x, b3) \<and> readInt8 b3 = Inr (y, b4) \<and> content b4 = []"
proof -
  obtain b1 where b1: "appendInt16 x b = Inr b1" "buffer_inv b1" "content b1 = rev (le_bytes x)"
      "capacity b1 \<le> capacity b + 2"
    using append_data_ok[OF assms(1), of "rev (le_bytes x)"] assms(2,3)
    by (auto simp: appendInt16_def hostToNetwork16_def)
  have "capacity b1 + 8 \<le> vector_max_size" using b1(4) assms(3) by simp
  then obtain b2 where b2: "appendInt8 y b1 = Inr b2" "buffer_inv b2" "content b2 = rev (le_bytes x) @ [y]"
    using appendInt_content(1)[OF b1(2)] b1(3) by metis
  obtain b3 where "readInt16 b2 = Inr (x, b3)" "buffer_inv b3" "content b3 = [y]"
    using readInt16_front[OF b2(2,3)] by blast
  with readInt8_front[of b3 y "[]"] b1(1) b2(1) show ?thesis by auto
qed

theorem int8_int16_roundtrip_witness:
  "\<exists>b1 b2 b3 b4. appendInt16 0xBEEF small_buffer = Inr b1 \<and> appendInt8 7 b1 = Inr b2 \<and>
     readInt16 b2 = Inr (0xBEEF, b3) \<and> readInt8 b3 = Inr (7, b4) \<and> content b4 = []"
  using int8_int16_roundtrip[of small_buffer "0xBEEF" 7] by (simp add: vector_max_size_def)

text \<open>
  C37: A 32 bit integer appended with \<open>appendInt32\<close> and read back with \<open>readInt32\<close> returns
  the low 16 bits of the value, since \<open>networkToHost32\<close> of \<^verbatim>\<open>Endian.h\<close> returns
  \<open>uint16_t\<close>; the round trip is the identity exactly on the values below 65536.
\<close>

theorem int32_roundtrip_iff_small:
  assumes "buffer_inv b" "content b = []" "capacity b + 8 \<le> vector_max_size"
  shows "\<exists>b1 b2 y. appendInt32 x b = Inr b1 \<and> readInt32 b1 = Inr (y, b2) \<and> content b2 = [] \<and>
           y = ucast (ucast x :: 16 word) \<and> (y = x \<longleftrightarrow> x < 65536)"
proof -
  obtain b1 where b1: "appendInt32 x b = Inr b1" "buffer_inv b1" "content b1 = rev (le_bytes x) @ []"
    using appendInt_content(3)[OF assms(1,3), of x] assms(2) by auto
  with readInt32_front[OF b1(2,3)] show ?thesis by (auto simp: ucast_ucast_16)
qed

theorem int32_roundtrip_iff_small_witness:
  "\<exists>b1 b2. appendInt32 65537 small_buffer = Inr b1 \<and> readInt32 b1 = Inr (1, b2) \<and> content b2 = []"
  using int32_roundtrip_iff_small[of small_buffer 65537] by (simp add: vector_max_size_def)

text \<open>
  A 64 bit integer appended with \<open>appendInt64\<close> loses its low 32 bits on the wire
  (\<open>hostToNetwork64\<close> returns \<open>uint32_t\<close>), and \<open>readInt64\<close> then returns 0 whatever was
  written (\<open>networkToHost64\<close> returns \<open>uint16_t\<close>).
\<close>

theorem int64_roundtrip_is_zero:
  assumes "buffer_inv b" "content b = []" "capacity b + 8 \<le> vector_max_size"
  shows "\<exists>b1 b2. appendInt64 x b = Inr b1 \<and> content b1 = take 4 (rev (le_bytes x)) @ [0, 0, 0, 0] \<and>
           readInt64 b1 = Inr (0, b2) \<and> content b2 = []"
proof -
  obtain b1 where b1: "appendInt64 x b = Inr b1" "buffer_inv b1"
      "content b1 = le_bytes (ucast (hostToNetwork64 x) :: 64 word) @ []"
    using appendInt_content(4)[OF assms(1,3), of x] assms(2) by auto
  with readInt64_front[OF b1(2,3)] show ?thesis by (auto simp: hostToNetwork64_bytes)
qed

theorem int64_roundtrip_is_zero_witness:
  "\<exists>b1 b2. appendInt64 42 small_buffer = Inr b1 \<and> content b1 = [0, 0, 0, 0, 0, 0, 0, 0] \<and>
           readInt64 b1 = Inr (0, b2) \<and> content b2 = []"
  using int64_roundtrip_is_zero[of small_buffer 42]
  by (simp add: vector_max_size_def le_bytes_def upt_rec)

end
