(* ===== verification/BufferOps.thy ===== *)
theory BufferOps
  imports Buffer
begin

text \<open>
  The public interface of \<^verbatim>\<open>tcp.muduo/Buffer.h\<close> as a whole. A buffer that a client can get from
  the constructor and the operations is well formed, and an operation on it ends with a well formed buffer, a
  failed assertion or the length error of the vector: none of them reads or writes outside of the vector.
\<close>

section \<open>Operations as data\<close>

datatype buffer_op =
    Op_retrieve nat | Op_retrieveUntil nat | Op_retrieveAll
  | Op_retrieveInt8 | Op_retrieveInt16 | Op_retrieveInt32 | Op_retrieveInt64
  | Op_retrieveAsString nat | Op_retrieveAllAsString
  | Op_readInt8 | Op_readInt16 | Op_readInt32 | Op_readInt64
  | Op_append bytes | Op_appendInt8 "8 word" | Op_appendInt16 "16 word" | Op_appendInt32 "32 word" | Op_appendInt64 "64 word"
  | Op_prepend bytes | Op_prependInt8 "8 word" | Op_prependInt16 "16 word" | Op_prependInt32 "32 word" | Op_prependInt64 "64 word"
  | Op_ensureWritableBytes nat | Op_hasWritten nat | Op_unwrite nat | Op_shrink nat | Op_swap buffer
  | Op_readFd "int + bytes"
  | Op_findCRLF | Op_findCRLF_from nat | Op_findEOL | Op_findEOL_from nat
  | Op_peekInt8 | Op_peekInt16 | Op_peekInt32 | Op_peekInt64

definition res_map :: "('a \<Rightarrow> 'b) \<Rightarrow> 'a res \<Rightarrow> 'b res" where
  "res_map f r = res_bind r (\<lambda>x. Inr (f x))"

text \<open>What the operations return is left out here; those that only look at the buffer give it back as it is.\<close>

fun run_buffer_op :: "buffer_op \<Rightarrow> buffer \<Rightarrow> buffer res" where
  "run_buffer_op (Op_retrieve n) b = retrieve n b"
| "run_buffer_op (Op_retrieveUntil p) b = retrieveUntil p b"
| "run_buffer_op Op_retrieveAll b = Inr (retrieveAll b)"
| "run_buffer_op Op_retrieveInt8 b = retrieveInt8 b"
| "run_buffer_op Op_retrieveInt16 b = retrieveInt16 b"
| "run_buffer_op Op_retrieveInt32 b = retrieveInt32 b"
| "run_buffer_op Op_retrieveInt64 b = retrieveInt64 b"
| "run_buffer_op (Op_retrieveAsString n) b = res_map snd (retrieveAsString n b)"
| "run_buffer_op Op_retrieveAllAsString b = res_map snd (retrieveAllAsString b)"
| "run_buffer_op Op_readInt8 b = res_map snd (readInt8 b)"
| "run_buffer_op Op_readInt16 b = res_map snd (readInt16 b)"
| "run_buffer_op Op_readInt32 b = res_map snd (readInt32 b)"
| "run_buffer_op Op_readInt64 b = res_map snd (readInt64 b)"
| "run_buffer_op (Op_append d) b = append_data d b"
| "run_buffer_op (Op_appendInt8 x) b = appendInt8 x b"
| "run_buffer_op (Op_appendInt16 x) b = appendInt16 x b"
| "run_buffer_op (Op_appendInt32 x) b = appendInt32 x b"
| "run_buffer_op (Op_appendInt64 x) b = appendInt64 x b"
| "run_buffer_op (Op_prepend d) b = prepend d b"
| "run_buffer_op (Op_prependInt8 x) b = prependInt8 x b"
| "run_buffer_op (Op_prependInt16 x) b = prependInt16 x b"
| "run_buffer_op (Op_prependInt32 x) b = prependInt32 x b"
| "run_buffer_op (Op_prependInt64 x) b = prependInt64 x b"
| "run_buffer_op (Op_ensureWritableBytes n) b = ensureWritableBytes n b"
| "run_buffer_op (Op_hasWritten n) b = hasWritten n b"
| "run_buffer_op (Op_unwrite n) b = unwrite n b"
| "run_buffer_op (Op_shrink reserve) b = shrink reserve b"
| "run_buffer_op (Op_swap rhs) b = Inr (fst (Buffer_swap b rhs))"
| "run_buffer_op (Op_readFd answer) b = res_map (snd \<circ> snd) (readFd (\<lambda>_. answer) b)"
| "run_buffer_op Op_findCRLF b = res_map (\<lambda>_. b) (findCRLF b)"
| "run_buffer_op (Op_findCRLF_from start) b = res_map (\<lambda>_. b) (findCRLF_from start b)"
| "run_buffer_op Op_findEOL b = res_map (\<lambda>_. b) (findEOL b)"
| "run_buffer_op (Op_findEOL_from start) b = res_map (\<lambda>_. b) (findEOL_from start b)"
| "run_buffer_op Op_peekInt8 b = res_map (\<lambda>_. b) (peekInt8 b)"
| "run_buffer_op Op_peekInt16 b = res_map (\<lambda>_. b) (peekInt16 b)"
| "run_buffer_op Op_peekInt32 b = res_map (\<lambda>_. b) (peekInt32 b)"
| "run_buffer_op Op_peekInt64 b = res_map (\<lambda>_. b) (peekInt64 b)"

text \<open>
  The arguments on which the size arithmetic does not wrap: data in memory and requests are at most half of the address
  space; the buffer swapped with is well formed; \<^verbatim>\<open>readv\<close> reads no more than it has room for; \<^verbatim>\<open>shrink\<close> is for contents whose
  length an \<^verbatim>\<open>int\<close> holds. All other operations take any argument.
\<close>

fun fits :: "buffer_op \<Rightarrow> buffer \<Rightarrow> bool" where
  "fits (Op_append d) b \<longleftrightarrow> length d \<le> 2 ^ 63"
| "fits (Op_ensureWritableBytes n) b \<longleftrightarrow> n \<le> 2 ^ 63"
| "fits (Op_shrink reserve) b \<longleftrightarrow> length (content b) < 2 ^ 31 \<and> reserve < 2 ^ 62"
| "fits (Op_swap rhs) b \<longleftrightarrow> buffer_inv rhs"
| "fits (Op_readFd (Inr d)) b \<longleftrightarrow> length d \<le> sum_list (readFd_vec b)"
| "fits _ b \<longleftrightarrow> True"

section \<open>Sound results\<close>

fun sound_error :: "fault \<Rightarrow> bool" where
  "sound_error (Assert_failed msg) = True"
| "sound_error Length_error = True"
| "sound_error _ = False"

definition sound :: "('a \<Rightarrow> bool) \<Rightarrow> 'a res \<Rightarrow> bool" where
  "sound P r = (case r of Inl e \<Rightarrow> sound_error e | Inr x \<Rightarrow> P x)"

lemma sound_Inr [simp]: "sound P (Inr x) = P x"
  by (simp add: sound_def)

lemma sound_Inl [simp]: "sound P (Inl e) = sound_error e"
  by (simp add: sound_def)

lemma sound_require [simp]: "sound P (require c msg r) \<longleftrightarrow> (c \<longrightarrow> sound P r)"
  by (simp add: require_def)

lemma sound_bind: "sound Q r \<Longrightarrow> (\<And>x. Q x \<Longrightarrow> sound P (f x)) \<Longrightarrow> sound P (res_bind r f)"
  by (cases r) simp_all

lemma sound_map [simp]: "sound P (res_map f r) = sound (P \<circ> f) r"
  by (cases r) (simp_all add: res_map_def)

named_theorems sound_ops "the operations end soundly on well formed buffers"

lemma retrieve_sound [sound_ops]: "buffer_inv b \<Longrightarrow> sound buffer_inv (retrieve n b)"
  using retrieve_ok[of b n] retrieve_too_much[of b n] by (cases "n \<le> length (content b)") auto

lemma retrieveUntil_sound [sound_ops]: "buffer_inv b \<Longrightarrow> sound buffer_inv (retrieveUntil p b)"
  by (simp add: retrieveUntil_def retrieve_sound)

lemma retrieveAsString_sound [sound_ops]: "buffer_inv b \<Longrightarrow> sound (buffer_inv \<circ> snd) (retrieveAsString n b)"
  using retrieveAsString_ok[of b n]
  by (cases "n \<le> length (content b)") (auto simp: retrieveAsString_def readableBytes_content)

text \<open>A number is read only when enough bytes are there.\<close>

lemma peek_sound:
  assumes "buffer_inv b"
  shows "sound (\<lambda>_. True) (peekInt64 b)" "sound (\<lambda>_. True) (peekInt32 b)" "sound (\<lambda>_. True) (peekInt16 b)" "sound (\<lambda>_. True) (peekInt8 b)"
  using assms by (auto simp: peekInt64_def peekInt32_def peekInt16_def peekInt8_def readableBytes_content read_content)

lemma read_sound [sound_ops]:
  assumes "buffer_inv b"
  shows "sound (buffer_inv \<circ> snd) (readInt64 b)" "sound (buffer_inv \<circ> snd) (readInt32 b)"
    "sound (buffer_inv \<circ> snd) (readInt16 b)" "sound (buffer_inv \<circ> snd) (readInt8 b)"
  unfolding readInt64_def readInt32_def readInt16_def readInt8_def retrieveInt64_def retrieveInt32_def retrieveInt16_def retrieveInt8_def
  using assms by (auto intro!: sound_bind[OF peek_sound(1)] sound_bind[OF peek_sound(2)] sound_bind[OF peek_sound(3)]
      sound_bind[OF peek_sound(4)] sound_bind[OF retrieve_sound])

lemma find_sound:
  assumes "buffer_inv b"
  shows "sound (\<lambda>_. True) (findCRLF b)" "sound (\<lambda>_. True) (findEOL b)"
    "sound (\<lambda>_. True) (findCRLF_from start b)" "sound (\<lambda>_. True) (findEOL_from start b)"
  using findCRLF_correct[OF assms] findEOL_correct[OF assms] buffer_bounds[OF assms]
  by (auto simp: findCRLF_from_def findEOL_from_def checked_read_def beginWrite_def Let_def)

lemma sound_look: "sound (\<lambda>_. True) r \<Longrightarrow> P b \<Longrightarrow> sound (P \<circ> (\<lambda>_. b)) r"
  by (cases r) simp_all

lemma ensureWritableBytes_sound:
  "buffer_inv b \<Longrightarrow> n \<le> 2 ^ 63 \<Longrightarrow> sound (\<lambda>b'. buffer_inv b' \<and> n \<le> writableBytes b') (ensureWritableBytes n b)"
  using ensureWritableBytes_cases[of b n] by auto

lemma sound_weaken: "sound P r \<Longrightarrow> (\<And>x. P x \<Longrightarrow> Q x) \<Longrightarrow> sound Q r"
  by (cases r) simp_all

lemma hasWritten_sound [sound_ops]:
  assumes "buffer_inv b"
  shows "sound buffer_inv (hasWritten n b)"
  using assms buffer_bounds[OF assms] by (auto simp: hasWritten_def buffer_invD) (auto simp: buffer_inv_def)

lemma append_data_sound [sound_ops]:
  assumes "buffer_inv b" "length d \<le> 2 ^ 63"
  shows "sound buffer_inv (append_data d b)"
  unfolding append_data_def
proof (rule sound_bind[OF ensureWritableBytes_sound[OF assms]], elim conjE)
  fix b1 assume b1: "buffer_inv b1" "length d \<le> writableBytes b1"
  then have "writerIndex b1 + length d \<le> length (buffer_vec b1)" using buffer_bounds[OF b1(1)] by (simp add: buffer_defs)
  moreover from this b1(1) have "buffer_inv (b1\<lparr>buffer_vec := mem_write (writerIndex b1) d (buffer_vec b1)\<rparr>)"
    by (simp add: buffer_inv_def)
  ultimately show "sound buffer_inv (res_bind (checked_write (beginWrite b1) d (buffer_vec b1)) (\<lambda>v. hasWritten (length d) (b1\<lparr>buffer_vec := v\<rparr>)))"
    by (simp add: beginWrite_def hasWritten_sound)
qed

lemma prepend_sound [sound_ops]: "buffer_inv b \<Longrightarrow> sound buffer_inv (prepend d b)"
  using prepend_ok[of b d] prepend_too_much[of b d] by (cases "length d \<le> readerIndex b") auto

lemma unwrite_sound [sound_ops]: "buffer_inv b \<Longrightarrow> sound buffer_inv (unwrite n b)"
  using unwrite_ok[of b n] by (cases "n \<le> length (content b)") (auto simp: unwrite_def readableBytes_content)

lemma readFd_sound:
  assumes inv: "buffer_inv b" and ans: "\<And>d. answer = Inr d \<Longrightarrow> length d \<le> sum_list (readFd_vec b)"
  shows "sound (buffer_inv \<circ> (snd \<circ> snd)) (readFd (\<lambda>_. answer) b)"
proof (cases answer)
  case (Inr d)
  let ?w = "writableBytes b"
  have fit: "writerIndex b + ?w = length (buffer_vec b)" using inv buffer_bounds[OF inv] by (simp add: buffer_defs)
  show ?thesis
  proof (cases "length d \<le> ?w")
    case True
    then show ?thesis using Inr write_behind[OF inv True] fit buffer_bounds[OF inv] by (simp add: readFd_def Let_def)
  next
    case False
    let ?b1 = "b\<lparr>buffer_vec := mem_write (writerIndex b) (take ?w d) (buffer_vec b), writerIndex := length (buffer_vec b)\<rparr>"
    have "length d \<le> ?w + extrabuf_size" using ans[OF Inr] False by (simp add: readFd_vec_def Let_def split: if_splits)
    then have "length (drop ?w d) \<le> 2 ^ 63" by (simp add: extrabuf_size_def)
    moreover have "buffer_inv ?b1" using write_behind[OF inv, of "take ?w d"] False fit by (simp add: Let_def min_def)
    ultimately have "sound buffer_inv (append_data (drop ?w d) ?b1)" by (intro append_data_sound)
    then show ?thesis using Inr False fit by (auto simp: readFd_def Let_def intro!: sound_bind)
  qed
qed (use inv in \<open>simp add: readFd_def Let_def\<close>)

section \<open>The buffers a client can have\<close>

inductive buffer_made :: "buffer \<Rightarrow> bool" where
  made: "Buffer_ctor n = Inr b \<Longrightarrow> n \<le> 2 ^ 63 \<Longrightarrow> buffer_made b"
| used: "buffer_made b \<Longrightarrow> fits op b \<Longrightarrow> run_buffer_op op b = Inr b' \<Longrightarrow> buffer_made b'"

lemma run_buffer_op_sound:
  assumes "buffer_inv b" "fits op b"
  shows "sound buffer_inv (run_buffer_op op b)"
proof (cases op)
  case (Op_readFd answer)
  then show ?thesis using assms readFd_sound[OF assms(1), of answer] by (cases answer) auto
next
  case (Op_shrink reserve)
  then show ?thesis using assms shrink_ok[OF assms(1), of reserve] by auto
next
  case (Op_ensureWritableBytes n)
  then show ?thesis using assms sound_weaken[OF ensureWritableBytes_sound] by auto
qed (use assms retrieveAll_ok[OF assms(1)] peek_sound[OF assms(1)] find_sound[OF assms(1)] in
    \<open>auto intro!: sound_ops sound_look simp: retrieveInt8_def retrieveInt16_def retrieveInt32_def retrieveInt64_def retrieveAllAsString_def
      appendInt8_def appendInt16_def appendInt32_def appendInt64_def prependInt8_def prependInt16_def prependInt32_def prependInt64_def
      Buffer_swap_def buffer_inv_def Let_def\<close>)

lemma buffer_made_inv: "buffer_made b \<Longrightarrow> buffer_inv b"
proof (induction rule: buffer_made.induct)
  case (made n b)
  then have "kCheapPrepend + n \<le> vector_max_size"
    by (simp add: Buffer_ctor_def kCheapPrepend_def size_add_def vector_max_size_def split: if_splits)
  then show ?case using Buffer_ctor_ok made(1) by fastforce
next
  case (used b op b')
  then show ?case using run_buffer_op_sound[of b op] by simp
qed

text \<open>
  C2: Type soundness of the whole interface of \<^verbatim>\<open>Buffer\<close>, for arguments on which the size arithmetic does not wrap (\<open>fits\<close>).
  Every buffer that a client can get from the constructor, with a size of at most half of the address space, by any sequence of the operations
  with such arguments is well formed (the reader index is not behind the writer index, which is within
  the vector), and every operation on it, with such arguments, ends with a well formed buffer again, with a failed
  assertion, or with the length error of the vector. None of them accesses memory outside of the vector. Without the
  condition this is false: \<open>ensureWritableBytes_wraps\<close> below.
\<close>

theorem Buffer_type_soundness:
  assumes "buffer_made b" "fits op b"
  shows "buffer_inv b \<and>
    (case run_buffer_op op b of
       Inr b' \<Rightarrow> buffer_inv b'
     | Inl e \<Rightarrow> e = Length_error \<or> (\<exists>msg. e = Assert_failed msg))"
proof -
  have inv: "buffer_inv b" using buffer_made_inv[OF assms(1)] .
  have "sound_error e \<longleftrightarrow> e = Length_error \<or> (\<exists>msg. e = Assert_failed msg)" for e by (cases e) auto
  then show ?thesis using inv run_buffer_op_sound[OF inv assms(2)] by (simp add: sound_def split: sum.splits)
qed

text \<open>Five bytes make the vector grow; a sixth one cannot be taken out.\<close>

theorem Buffer_type_soundness_witness:
  "\<exists>b b'. Buffer_ctor 4 = Inr b \<and> run_buffer_op (Op_append [1, 2, 3, 4, 5]) b = Inr b' \<and> buffer_inv b' \<and> content b' = [1, 2, 3, 4, 5] \<and>
     run_buffer_op (Op_retrieve 6) b' = Inl (Assert_failed ''len <= readableBytes()'')"
proof -
  obtain b where b: "Buffer_ctor 4 = Inr b" "buffer_inv b" "content b = []" "capacity b = 12"
    using Buffer_ctor_ok[of 4] by (auto simp: kCheapPrepend_def vector_max_size_def)
  obtain b' where b': "append_data [1, 2, 3, 4, 5] b = Inr b'" "content b' = [1, 2, 3, 4, 5]"
    using append_data_ok[OF b(2), of "[1, 2, 3, 4, 5]"] b(3,4) by (auto simp: vector_max_size_def)
  have "buffer_made b" by (rule buffer_made.made[OF b(1)]) simp
  from Buffer_type_soundness[OF this, of "Op_append [1, 2, 3, 4, 5]"] have "buffer_inv b'" using b'(1) by simp
  then show ?thesis using b(1) b' retrieve_too_much[of b' 6] by simp
qed

text \<open>
  The bound on the request is needed: the sum in \<^verbatim>\<open>makeSpace\<close> wraps, and a request close to the size of the
  address space makes the vector smaller than the content and passes the final assertion.
\<close>

theorem ensureWritableBytes_wraps:
  "let b = \<lparr>buffer_vec = replicate 12 0, readerIndex = 8, writerIndex = 12\<rparr>
   in buffer_inv b \<and> (\<exists>b'. ensureWritableBytes (2 ^ 64 - 9) b = Inr b' \<and> length (buffer_vec b') = 3 \<and> writerIndex b' = 12)"
  by (simp add: Let_def buffer_inv_def kCheapPrepend_def vector_max_size_def ensureWritableBytes_def makeSpace_def writableBytes_def
      prependableBytes_def size_add_def size_sub_def vec_resize_def)

end
