(* ===== verification/Slice.thy ===== *)
theory Slice
  imports Prelude "HOL-Library.Sublist"
begin

text \<open>
  \<^verbatim>\<open>common/Slice.h\<close>: a pointer and a length, modelled by the bytes it points to. The
  comparison is the one of \<^verbatim>\<open>memcmp\<close> on the common prefix, then by length; the theory shows
  that it is the lexicographic order, so slices can be used as ordered keys.
\<close>

type_synonym slice = bytes

definition Slice_size :: "slice \<Rightarrow> nat" where
  "Slice_size s = length s"

definition Slice_empty :: "slice \<Rightarrow> bool" where
  "Slice_empty s \<longleftrightarrow> Slice_size s = 0"

definition Slice_index :: "slice \<Rightarrow> nat \<Rightarrow> byte res" where
  "Slice_index s i = require (i < Slice_size s) ''i < size()'' (Inr (s ! i))"

definition Slice_clear :: "slice \<Rightarrow> slice" where
  "Slice_clear s = []"

definition Slice_ToString :: "slice \<Rightarrow> bytes" where
  "Slice_ToString s = take (Slice_size s) s"

definition Slice_compare :: "slice \<Rightarrow> slice \<Rightarrow> int" where
  "Slice_compare a b =
     (let sz = (if Slice_size a < Slice_size b then Slice_size a else Slice_size b);
          ret = memcmp (take sz a) (take sz b)
      in if ret < 0 \<or> (ret = 0 \<and> Slice_size a < Slice_size b) then -1
         else if ret > 0 \<or> (ret = 0 \<and> Slice_size a > Slice_size b) then 1
         else 0)"

definition Slice_starts_with :: "slice \<Rightarrow> slice \<Rightarrow> bool" where
  "Slice_starts_with a b \<longleftrightarrow>
     Slice_size a \<ge> Slice_size b \<and> memcmp (take (Slice_size b) a) b = 0"

definition Slice_eq :: "slice \<Rightarrow> slice \<Rightarrow> bool" where
  "Slice_eq s1 s2 = (if Slice_compare s1 s2 = 0 then True else False)"

definition Slice_neq :: "slice \<Rightarrow> slice \<Rightarrow> bool" where
  "Slice_neq s1 s2 \<longleftrightarrow> \<not> Slice_eq s1 s2"

section \<open>Comparison is the lexicographic order\<close>

lemma Slice_compare_Cons:
  "Slice_compare (x # a) (y # b) =
     (if x < y then -1 else if y < x then 1 else Slice_compare a b)"
  by (auto simp: Slice_compare_def Slice_size_def Let_def)

lemma Slice_compare_Nil:
  "Slice_compare [] b = (if b = [] then 0 else -1)"
  "Slice_compare a [] = (if a = [] then 0 else 1)"
  by (auto simp: Slice_compare_def Slice_size_def Let_def)

lemma Slice_compare_less: "Slice_compare a b = -1 \<longleftrightarrow> ord_class.lexordp a b"
proof (induction a arbitrary: b)
  case Nil
  then show ?case by (cases b) (auto simp: Slice_compare_Nil)
next
  case (Cons x a)
  then show ?case by (cases b) (auto simp: Slice_compare_Nil Slice_compare_Cons)
qed

lemma Slice_compare_equal: "Slice_compare a b = 0 \<longleftrightarrow> a = b"
proof (induction a arbitrary: b)
  case Nil
  then show ?case by (cases b) (auto simp: Slice_compare_Nil)
next
  case (Cons x a)
  then show ?case by (cases b) (auto simp: Slice_compare_Nil Slice_compare_Cons)
qed

lemma Slice_compare_sym: "Slice_compare b a = - Slice_compare a b"
proof (induction a arbitrary: b)
  case Nil
  then show ?case by (cases b) (auto simp: Slice_compare_Nil)
next
  case (Cons x a)
  then show ?case by (cases b) (auto simp: Slice_compare_Nil Slice_compare_Cons)
qed

lemma Slice_compare_range: "Slice_compare a b \<in> {-1, 0, 1}"
  by (simp add: Slice_compare_def Let_def)

section \<open>Properties\<close>

text \<open>
  C32: \<open>Slice::compare\<close> is the lexicographic order on byte strings: it returns \<open>-1\<close>, \<open>0\<close> or
  \<open>1\<close>, negative exactly when the first slice precedes the second lexicographically; the
  equality operator is equality of the bytes, and \<open>starts_with\<close> is the prefix relation.
\<close>

theorem Slice_compare_lexicographic:
  "Slice_compare a b = (if ord_class.lexordp a b then -1 else if a = b then 0 else 1) \<and>
   (Slice_eq a b \<longleftrightarrow> a = b) \<and> (Slice_neq a b \<longleftrightarrow> a \<noteq> b) \<and> (Slice_starts_with a b \<longleftrightarrow> prefix b a)"
proof -
  have "Slice_compare a b = (if ord_class.lexordp a b then -1 else if a = b then 0 else 1)"
    using Slice_compare_range[of a b] Slice_compare_less[of a b] Slice_compare_equal[of a b] by auto
  moreover have "Slice_starts_with a b \<longleftrightarrow> prefix b a"
    by (auto simp: Slice_starts_with_def Slice_size_def memcmp_eq_0 take_is_prefix prefix_def)
       (metis append_take_drop_id)+
  moreover have "Slice_eq a b \<longleftrightarrow> a = b" "Slice_neq a b \<longleftrightarrow> a \<noteq> b"
    by (simp_all add: Slice_eq_def Slice_neq_def Slice_compare_equal)
  ultimately show ?thesis by blast
qed

end
