(* ===== verification/FixedBuffer.thy ===== *)
theory FixedBuffer
  imports Prelude
begin

text \<open>
  The fixed-size character buffers of the logging code. There are two versions in the
  repository: \<^verbatim>\<open>common/FixedBuffer.h\<close> at the top level, used by \<^verbatim>\<open>logging/LogStream.h\<close>,
  and \<^verbatim>\<open>PracticeMuduo/common/FixedBuffer.h\<close>, used by the logger of the network library. The
  memory \<open>data_[SIZE]\<close> is a list of length \<open>SIZE\<close> and \<open>cur_\<close> an offset; a copy that leaves
  the array is a fault. The two versions differ in \<open>available()\<close>: the second one returns the
  size of the array, not the room left.
\<close>

definition kSmallBuffer :: nat where "kSmallBuffer = 4000"
definition kLargeBuffer :: nat where "kLargeBuffer = 4000 * 1000"

record 'a fixed_buffer =
  fb_data :: "'a list"
  fb_cur :: nat

definition fb_inv :: "'a fixed_buffer \<Rightarrow> bool" where
  "fb_inv b \<longleftrightarrow> fb_cur b \<le> length (fb_data b)"

definition fb_text :: "'a fixed_buffer \<Rightarrow> 'a list" where
  "fb_text b = take (fb_cur b) (fb_data b)"

section \<open>Operations common to both versions\<close>

definition FixedBuffer_ctor :: "'a list \<Rightarrow> 'a fixed_buffer" where
  "FixedBuffer_ctor raw = \<lparr>fb_data = raw, fb_cur = 0\<rparr>"

definition fb_empty :: "'a fixed_buffer \<Rightarrow> bool" where
  "fb_empty b \<longleftrightarrow> fb_cur b = 0"

definition fb_full :: "'a fixed_buffer \<Rightarrow> bool" where
  "fb_full b \<longleftrightarrow> fb_cur b = length (fb_data b)"

definition fb_length :: "'a fixed_buffer \<Rightarrow> nat" where
  "fb_length b = fb_cur b"

definition fb_add :: "nat \<Rightarrow> 'a fixed_buffer \<Rightarrow> 'a fixed_buffer" where
  "fb_add len b = b\<lparr>fb_cur := fb_cur b + len\<rparr>"

definition fb_reset :: "'a fixed_buffer \<Rightarrow> 'a fixed_buffer" where
  "fb_reset b = b\<lparr>fb_cur := 0\<rparr>"

definition fb_ToString :: "'a fixed_buffer \<Rightarrow> 'a list res" where
  "fb_ToString b = checked_read 0 (fb_length b) (fb_data b)"

definition fb_bzero :: "'a::zero fixed_buffer \<Rightarrow> 'a fixed_buffer" where
  "fb_bzero b = b\<lparr>fb_data := replicate (length (fb_data b)) 0\<rparr>"

text \<open>Copying into the array at the current position, the body of every \<open>append\<close>.\<close>

definition fb_memcpy :: "'a list \<Rightarrow> 'a fixed_buffer \<Rightarrow> 'a fixed_buffer res" where
  "fb_memcpy str b =
     res_bind (checked_write (fb_cur b) str (fb_data b)) (\<lambda>d.
     Inr (b\<lparr>fb_data := d, fb_cur := fb_cur b + length str\<rparr>))"

text \<open>\<^verbatim>\<open>int len = str.size(); if (len > available()) len = available();\<close>: the length is narrowed to an \<^verbatim>\<open>int\<close> first.\<close>

definition clipped_len :: "nat \<Rightarrow> nat \<Rightarrow> int" where
  "clipped_len n avail = (let len = size_to_int n in if len > int avail then int avail else len)"

text \<open>\<^verbatim>\<open>memcpy\<close> converts a negative length to a huge one.\<close>

definition fb_memcpy_len :: "int \<Rightarrow> 'a list \<Rightarrow> 'a fixed_buffer \<Rightarrow> 'a fixed_buffer res" where
  "fb_memcpy_len len str b = (if len < 0 then Inl (Out_of_bounds ''memcpy'') else fb_memcpy (take (nat len) str) b)"

section \<open>The top-level version\<close>

definition old_available :: "'a fixed_buffer \<Rightarrow> nat" where
  "old_available b = length (fb_data b) - fb_length b"

text \<open>\<open>bzero\<close> copies from the null pointer.\<close>

definition old_bzero :: "'a fixed_buffer \<Rightarrow> 'a fixed_buffer res" where
  "old_bzero b = Inl (Null_pointer ''memcpy(data_, 0, sizeof(data_))'')"

text \<open>The loop over \<^verbatim>\<open>int i\<close> copies nothing when the length is negative.\<close>

definition old_append_string :: "'a list \<Rightarrow> 'a fixed_buffer \<Rightarrow> 'a fixed_buffer res" where
  "old_append_string str b = fb_memcpy (take (nat (clipped_len (length str) (old_available b))) str) b"

definition old_append_cstr :: "'a list \<Rightarrow> 'a fixed_buffer \<Rightarrow> 'a fixed_buffer res" where
  "old_append_cstr str b = fb_memcpy_len (clipped_len (length str) (old_available b)) str b"

definition old_append :: "'a list \<Rightarrow> 'a fixed_buffer \<Rightarrow> 'a fixed_buffer res" where
  "old_append buf b =
     (if length buf < old_available b then fb_memcpy buf b else Inr b)"

definition old_empty :: "'a fixed_buffer \<Rightarrow> bool" where
  "old_empty b \<longleftrightarrow> fb_cur b = 0"

definition old_full :: "'a fixed_buffer \<Rightarrow> bool" where
  "old_full b \<longleftrightarrow> fb_cur b = length (fb_data b)"

text \<open>\<open>debugString\<close> writes a null character behind the text; the returned pointer is to the C string of the array.\<close>

definition old_debugString :: "char fixed_buffer \<Rightarrow> (string \<times> char fixed_buffer) res" where
  "old_debugString b =
     res_bind (checked_write (fb_cur b) [CHR 0x00] (fb_data b)) (\<lambda>d.
       Inr (takeWhile (\<lambda>c. c \<noteq> CHR 0x00) d, b\<lparr>fb_data := d\<rparr>))"

section \<open>The version of the network library\<close>

definition fb_available :: "'a fixed_buffer \<Rightarrow> nat" where
  "fb_available b = length (fb_data b)"

definition fb_append_string :: "'a list \<Rightarrow> 'a fixed_buffer \<Rightarrow> 'a fixed_buffer res" where
  "fb_append_string str b = fb_memcpy (take (nat (clipped_len (length str) (fb_available b))) str) b"

definition fb_append_cstr :: "'a list \<Rightarrow> 'a fixed_buffer \<Rightarrow> 'a fixed_buffer res" where
  "fb_append_cstr str b = fb_memcpy_len (clipped_len (length str) (fb_available b)) str b"

definition fb_append :: "'a list \<Rightarrow> 'a fixed_buffer \<Rightarrow> 'a fixed_buffer res" where
  "fb_append buf b =
     (let len = (if length buf > fb_available b then fb_available b else length buf)
      in fb_memcpy (take len buf) b)"

section \<open>Lemmas\<close>

lemma fb_memcpy_ok:
  assumes "fb_cur b + length str \<le> length (fb_data b)"
  shows "\<exists>b'. fb_memcpy str b = Inr b' \<and> fb_inv b' \<and> fb_text b' = fb_text b @ str \<and>
              length (fb_data b') = length (fb_data b) \<and> fb_cur b' = fb_cur b + length str"
  using assms by (simp add: fb_memcpy_def fb_inv_def fb_text_def mem_write_def)

lemma fb_memcpy_overflow:
  "length (fb_data b) < fb_cur b + length str \<Longrightarrow> fb_memcpy str b = Inl (Out_of_bounds ''write'')"
  by (simp add: fb_memcpy_def checked_write_def)

lemma length_fb_text: "fb_inv b \<Longrightarrow> length (fb_text b) = fb_length b"
  by (simp add: fb_inv_def fb_text_def fb_length_def)

text \<open>Below \<^verbatim>\<open>INT_MAX\<close> the narrowing changes nothing.\<close>

lemma take_clipped: "length str < 2 ^ 31 \<Longrightarrow> take (nat (clipped_len (length str) n)) str = take n str"
  by (simp add: clipped_len_def size_to_int_small Let_def)

lemma fb_append_string_small: "length str < 2 ^ 31 \<Longrightarrow> fb_append_string str b = fb_append str b"
  by (simp add: fb_append_string_def take_clipped fb_append_def Let_def)

text \<open>An append that truncates to the room left is total.\<close>

lemma old_append_string_ok:
  assumes "fb_inv b" "length str < 2 ^ 31"
  shows "\<exists>b'. old_append_string str b = Inr b' \<and> fb_inv b' \<and>
              fb_text b' = take (length (fb_data b)) (fb_text b @ str) \<and>
              length (fb_data b') = length (fb_data b)"
proof -
  define s where "s = take (old_available b) str"
  have "fb_cur b + length s \<le> length (fb_data b)"
    using assms by (simp add: s_def old_available_def fb_inv_def fb_length_def)
  then obtain b' where b': "fb_memcpy s b = Inr b'" "fb_inv b'" "fb_text b' = fb_text b @ s"
      "length (fb_data b') = length (fb_data b)"
    using fb_memcpy_ok[of b s] by blast
  have "fb_text b @ s = take (length (fb_data b)) (fb_text b @ str)"
    using assms by (simp add: s_def old_available_def length_fb_text) (simp add: fb_text_def fb_inv_def min_def)
  moreover have "old_append_string str b = fb_memcpy s b"
    using assms(2) by (simp add: old_append_string_def s_def take_clipped)
  ultimately show ?thesis using b' by simp
qed

lemma fb_append_cases:
  assumes "fb_inv b"
  shows "fb_append buf b =
    (if fb_cur b + min (length buf) (length (fb_data b)) \<le> length (fb_data b)
     then fb_memcpy (take (length (fb_data b)) buf) b else Inl (Out_of_bounds ''write''))"
  using fb_memcpy_overflow[of b "take (length (fb_data b)) buf"]
  by (auto simp: fb_append_def fb_available_def Let_def min_def)

section \<open>Properties\<close>

text \<open>
  The top-level fixed buffer is memory safe and truncates: from any reachable state,
  appending a string of less than $2^{31}$ characters never leaves the array, and the text becomes the old text followed by
  the string, cut at the size of the array. The raw append is all or nothing.
\<close>

theorem top_level_FixedBuffer_append:
  assumes "fb_inv b" "length str < 2 ^ 31"
  shows "(\<exists>b'. old_append_string str b = Inr b' \<and> fb_inv b' \<and>
               fb_text b' = take (length (fb_data b)) (fb_text b @ str)) \<and>
         (\<exists>b'. old_append str b = Inr b' \<and> fb_inv b' \<and>
               fb_text b' = (if length (fb_text b) + length str < length (fb_data b)
                             then fb_text b @ str else fb_text b))"
proof (cases "length str < old_available b")
  case True
  then have "fb_cur b + length str \<le> length (fb_data b)"
    by (simp add: old_available_def fb_length_def)
  with fb_memcpy_ok[OF this] True old_append_string_ok[OF assms] assms show ?thesis
    by (auto simp: old_append_def length_fb_text old_available_def)
next
  case False
  with old_append_string_ok[OF assms] assms show ?thesis
    by (auto simp: old_append_def length_fb_text old_available_def)
qed

theorem top_level_FixedBuffer_append_witness:
  "let b = \<lparr>fb_data = ''........'', fb_cur = 6\<rparr>
   in fb_inv b \<and> (\<exists>b'. old_append_string ''abc'' b = Inr b' \<and> fb_inv b' \<and> fb_text b' = ''......ab'')"
  using top_level_FixedBuffer_append[of "\<lparr>fb_data = ''........'', fb_cur = 6\<rparr>" "''abc''"]
  by (simp add: fb_inv_def fb_text_def)

text \<open>
  From $2^{31}$ characters on the length is negative as an \<^verbatim>\<open>int\<close>: a \<^verbatim>\<open>std::string\<close> of up to $2^{32}$ characters
  is dropped, and for a C string \<^verbatim>\<open>memcpy\<close> is called with a length near the size of the address space.
\<close>

lemma size_to_int_negative:
  assumes "2 ^ 31 \<le> n" "n < 2 ^ 32"
  shows "size_to_int n < 0"
proof -
  have "size_to_int n = signed_take_bit 31 (int n)" using assms by (simp add: size_to_int_def sint_uint uint_nat unat_of_nat)
  also have "\<dots> = (int n + 2 ^ 31) mod 2 ^ 32 - 2 ^ 31" by (simp add: signed_take_bit_eq_take_bit_shift take_bit_eq_mod)
  also have "(int n + 2 ^ 31) mod 2 ^ 32 = int n - 2 ^ 31"
    using assms mod_pos_pos_trivial[of "int n - 2 ^ 31" "2 ^ 32"] mod_add_self2[of "int n - 2 ^ 31" "2 ^ 32"] by (simp add: add.commute)
  finally show ?thesis using assms(2) by simp
qed

theorem huge_strings:
  assumes "fb_inv b" "2 ^ 31 \<le> length str" "length str < 2 ^ 32"
  shows "old_append_string str b = Inr b \<and> old_append_cstr str b = Inl (Out_of_bounds ''memcpy'')"
  using size_to_int_negative[OF assms(2,3)] assms(1)
  by (simp add: old_append_string_def old_append_cstr_def clipped_len_def fb_memcpy_len_def fb_memcpy_def fb_inv_def mem_write_def Let_def)

text \<open>
  In the network library's fixed buffer \<open>available()\<close> is the size of the whole array, so
  \<open>append\<close> only succeeds when the bytes it copies fit behind the text already there, and
  writes outside the array in every other case; the check in front of the copy never
  protects a buffer that already holds text.
\<close>

theorem FixedBuffer_append_overflows:
  assumes "fb_inv b" "length buf \<le> length (fb_data b)"
  shows "if fb_length b + length buf \<le> length (fb_data b)
         then \<exists>b'. fb_append buf b = Inr b' \<and> fb_inv b' \<and> fb_text b' = fb_text b @ buf
         else fb_append buf b = Inl (Out_of_bounds ''write'')"
  using fb_append_cases[OF assms(1), of buf] assms fb_memcpy_ok[of b buf]
  by (auto simp: fb_length_def)

theorem FixedBuffer_append_overflows_witness:
  "let b = \<lparr>fb_data = ''........'', fb_cur = 6\<rparr>
   in fb_inv b \<and> fb_available b = 8 \<and> fb_append ''abc'' b = Inl (Out_of_bounds ''write'')"
  using FixedBuffer_append_overflows[of "\<lparr>fb_data = ''........'', fb_cur = 6\<rparr>" "''abc''"]
  by (simp add: fb_inv_def fb_available_def fb_length_def)

text \<open>
  \<open>debugString\<close> gives the text of the buffer and does not change it, unless the buffer is full: then it writes
  the null character behind the array.
\<close>

theorem debugString_of_full_buffer:
  assumes "fb_inv b" "CHR 0x00 \<notin> set (fb_text b)"
  shows "if old_full b then old_debugString b = Inl (Out_of_bounds ''write'')
    else \<exists>b'. old_debugString b = Inr (fb_text b, b') \<and> fb_text b' = fb_text b \<and> fb_inv b'"
proof (cases "old_full b")
  case False
  let ?d = "take (fb_cur b) (fb_data b) @ CHR 0x00 # drop (fb_cur b + 1) (fb_data b)"
  have lt: "fb_cur b < length (fb_data b)" using False assms(1) by (simp add: old_full_def fb_inv_def)
  then have "old_debugString b = Inr (takeWhile (\<lambda>c. c \<noteq> CHR 0x00) ?d, b\<lparr>fb_data := ?d\<rparr>)"
    by (simp add: old_debugString_def checked_write_def mem_write_def)
  moreover have "takeWhile (\<lambda>c. c \<noteq> CHR 0x00) ?d = fb_text b"
  proof -
    have "\<forall>c \<in> set (fb_text b). c \<noteq> CHR 0x00" using assms(2) by auto
    then show ?thesis unfolding fb_text_def by (subst takeWhile_append2) auto
  qed
  moreover have "fb_text (b\<lparr>fb_data := ?d\<rparr>) = fb_text b" "fb_inv (b\<lparr>fb_data := ?d\<rparr>)"
    using lt by (simp_all add: fb_text_def fb_inv_def)
  ultimately show ?thesis using False by simp
qed (simp add: old_full_def old_debugString_def checked_write_def)

theorem debugString_of_full_buffer_witness:
  "old_debugString \<lparr>fb_data = ''ab'', fb_cur = 2\<rparr> = Inl (Out_of_bounds ''write'')"
  using debugString_of_full_buffer[of "\<lparr>fb_data = ''ab'', fb_cur = 2\<rparr>"] by (simp add: fb_inv_def fb_text_def old_full_def)

end
