(* ===== verification/LogStream.thy ===== *)
theory LogStream
  imports FixedBuffer "HOL-Library.Signed_Division"
begin

text \<open>
  \<^verbatim>\<open>logging.muduo/LogStream.cpp\<close> (and its older copy \<^verbatim>\<open>logging/LogStream.cpp\<close>): formatting
  of integers and pointers into the buffer of a log line. The division and remainder of C++
  truncate (\<open>sdiv\<close>, \<open>smod\<close>), and the digit table is indexed with a signed remainder. The
  theory shows that the conversion is the decimal (hexadecimal) notation of every value, and
  that it fits into the room that is checked for.
\<close>

section \<open>Conversion\<close>

definition digits :: string where "digits = ''9876543210123456789''"

definition digitsHex :: string where "digitsHex = ''0123456789ABCDEF''"

definition zero_at :: "int \<Rightarrow> char" where
  "zero_at lsd = digits ! nat (9 + lsd)"

text \<open>The do-while loop of \<open>convert\<close>: the characters in the order they are stored.\<close>

function convert_loop :: "int \<Rightarrow> string" where
  "convert_loop i =
     (let lsd = i smod 10; i' = i sdiv 10
      in zero_at lsd # (if i' \<noteq> 0 then convert_loop i' else []))"
  by pat_completeness auto
termination
  by (relation "measure (\<lambda>i. nat \<bar>i\<bar>)") (auto simp: signed_divide_int_def abs_mult abs_sgn_eq)

declare convert_loop.simps [simp del]

definition convert :: "int \<Rightarrow> string" where
  "convert value = rev (convert_loop value @ (if value < 0 then ''-'' else []))"

function hex_loop :: "nat \<Rightarrow> string" where
  "hex_loop i =
     (let lsd = i mod 16; i' = i div 16
      in digitsHex ! lsd # (if i' \<noteq> 0 then hex_loop i' else []))"
  by pat_completeness auto
termination
  by (relation "measure id") auto

declare hex_loop.simps [simp del]

definition convertHex :: "nat \<Rightarrow> string" where
  "convertHex value = rev (hex_loop value)"

section \<open>The stream\<close>

type_synonym log_stream = "char fixed_buffer"

definition kMaxNumericSize :: nat where "kMaxNumericSize = 32"

definition NUL :: char where "NUL = CHR 0x00"

text \<open>\<open>convert\<close> terminates its text with a null character behind the end.\<close>

definition formatInteger :: "int \<Rightarrow> log_stream \<Rightarrow> log_stream res" where
  "formatInteger v b =
     (if fb_available b \<ge> kMaxNumericSize
      then res_bind (checked_write (fb_cur b) (convert v @ [NUL]) (fb_data b)) (\<lambda>d.
           Inr (fb_add (length (convert v)) (b\<lparr>fb_data := d\<rparr>)))
      else Inr b)"

definition put_bool :: "bool \<Rightarrow> log_stream \<Rightarrow> log_stream res" where
  "put_bool v b = fb_append (if v then ''1'' else ''0'') b"

text \<open>\<open>operator<<(int)\<close> uses \<^verbatim>\<open>snprintf("%d")\<close>, which writes the same decimal text.\<close>

definition put_int :: "int \<Rightarrow> log_stream \<Rightarrow> log_stream res" where
  "put_int v b =
     (if fb_available b \<ge> kMaxNumericSize
      then res_bind (checked_write (fb_cur b) (convert v @ [NUL]) (fb_data b)) (\<lambda>d.
           Inr (fb_add (length (convert v)) (b\<lparr>fb_data := d\<rparr>)))
      else Inr b)"

definition put_short :: "int \<Rightarrow> log_stream \<Rightarrow> log_stream res" where
  "put_short v b = put_int v b"

definition put_uint :: "int \<Rightarrow> log_stream \<Rightarrow> log_stream res" where
  "put_uint v b = formatInteger v b"

definition put_ushort :: "int \<Rightarrow> log_stream \<Rightarrow> log_stream res" where
  "put_ushort v b = put_uint v b"

definition put_long :: "int \<Rightarrow> log_stream \<Rightarrow> log_stream res" where
  "put_long v b = formatInteger v b"

definition put_ulong :: "int \<Rightarrow> log_stream \<Rightarrow> log_stream res" where
  "put_ulong v b = formatInteger v b"

definition put_longlong :: "int \<Rightarrow> log_stream \<Rightarrow> log_stream res" where
  "put_longlong v b = formatInteger v b"

definition put_ulonglong :: "int \<Rightarrow> log_stream \<Rightarrow> log_stream res" where
  "put_ulonglong v b = formatInteger v b"

definition put_pointer :: "nat \<Rightarrow> log_stream \<Rightarrow> log_stream res" where
  "put_pointer v b =
     (if fb_available b \<ge> kMaxNumericSize
      then (let s = ''0x'' @ convertHex v
            in res_bind (checked_write (fb_cur b) s (fb_data b)) (\<lambda>d.
               Inr (fb_add (length s) (b\<lparr>fb_data := d\<rparr>))))
      else Inr b)"

text \<open>\<open>g\<close> is what \<^verbatim>\<open>%.12g\<close> makes of the number. \<^verbatim>\<open>snprintf\<close> writes at most 31 characters and a null
  character, but returns the length of the whole text.\<close>

definition put_double :: "string \<Rightarrow> log_stream \<Rightarrow> log_stream res" where
  "put_double g b =
     (if fb_available b \<ge> kMaxNumericSize
      then res_bind (checked_write (fb_cur b) (take (kMaxNumericSize - 1) g @ [NUL]) (fb_data b)) (\<lambda>d.
           Inr (fb_add (length g) (b\<lparr>fb_data := d\<rparr>)))
      else Inr b)"

definition put_float :: "string \<Rightarrow> log_stream \<Rightarrow> log_stream res" where
  "put_float g b = put_double g b"

definition put_char :: "char \<Rightarrow> log_stream \<Rightarrow> log_stream res" where
  "put_char v b = fb_append [v] b"

definition put_cstr :: "string \<Rightarrow> log_stream \<Rightarrow> log_stream res" where
  "put_cstr p b = fb_append p b"

definition put_string :: "string \<Rightarrow> log_stream \<Rightarrow> log_stream res" where
  "put_string str b = fb_append_string str b"

definition LogStream_append :: "string \<Rightarrow> log_stream \<Rightarrow> log_stream res" where
  "LogStream_append data b = fb_append data b"

definition resetBuffer :: "log_stream \<Rightarrow> log_stream" where
  "resetBuffer b = fb_reset b"

text \<open>\<open>Fmt\<close>: a formatted value in 32 bytes; the text \<^verbatim>\<open>snprintf\<close> produces is an argument.\<close>

definition Fmt_ctor :: "string \<Rightarrow> string res" where
  "Fmt_ctor txt = require (length txt < 32) ''length_ < sizeof buf_'' (Inr txt)"

definition put_Fmt :: "string \<Rightarrow> log_stream \<Rightarrow> log_stream res" where
  "put_Fmt fmt b = LogStream_append fmt b"

text \<open>The older copy of the stream, on the top-level buffer.\<close>

definition old_formatInteger :: "int \<Rightarrow> log_stream \<Rightarrow> log_stream res" where
  "old_formatInteger v b =
     (if old_available b \<ge> kMaxNumericSize
      then res_bind (checked_write (fb_cur b) (convert v @ [NUL]) (fb_data b)) (\<lambda>d.
           Inr (fb_add (length (convert v)) (b\<lparr>fb_data := d\<rparr>)))
      else Inr b)"

definition old_put_pointer :: "nat \<Rightarrow> log_stream \<Rightarrow> log_stream res" where
  "old_put_pointer v b =
     (if old_available b \<ge> kMaxNumericSize
      then (let s = ''0x'' @ convertHex v
            in res_bind (checked_write (fb_cur b) s (fb_data b)) (\<lambda>d.
               Inr (fb_add (length s) (b\<lparr>fb_data := d\<rparr>))))
      else Inr b)"

section \<open>Decimal and hexadecimal notation\<close>

fun show_base :: "string \<Rightarrow> nat \<Rightarrow> nat \<Rightarrow> string" where
  "show_base ds base n =
     (if base < 2 \<or> n < base then [ds ! (n mod base)]
      else show_base ds base (n div base) @ [ds ! (n mod base)])"

declare show_base.simps [simp del]

definition dec_digits :: string where "dec_digits = ''0123456789''"

definition decimal :: "int \<Rightarrow> string" where
  "decimal v = (if v < 0 then ''-'' else []) @ show_base dec_digits 10 (nat \<bar>v\<bar>)"

definition digit_value :: "char \<Rightarrow> nat" where
  "digit_value c = of_char c - 48"

definition read_nat :: "string \<Rightarrow> nat" where
  "read_nat s = foldl (\<lambda>acc c. 10 * acc + digit_value c) 0 s"

definition read_int :: "string \<Rightarrow> int" where
  "read_int s = (case s of [] \<Rightarrow> 0
     | c # cs \<Rightarrow> if c = CHR ''-'' then - int (read_nat cs) else int (read_nat s))"

lemma zero_at_smod: "zero_at (i smod 10) = dec_digits ! (nat \<bar>i\<bar> mod 10)"
proof -
  define k where "k = nat (\<bar>i\<bar> mod 10)"
  have k: "k < 10" by (simp add: k_def nat_less_iff)
  have m: "nat \<bar>i\<bar> mod 10 = k" by (simp add: k_def nat_mod_distrib)
  have z: "zero_at (int j) = dec_digits ! j \<and> zero_at (- int j) = dec_digits ! j" if "j < 10" for j
  proof -
    have "j \<in> {0, 1, 2, 3, 4, 5, 6, 7, 8, 9}" using that by auto
    then show ?thesis by (elim insertE emptyE) (simp_all add: zero_at_def digits_def dec_digits_def)
  qed
  have "i smod 10 = int k \<or> i smod 10 = - int k"
    by (cases "0 \<le> i") (auto simp: signed_modulo_int_def k_def sgn_if)
  with z[OF k] m show ?thesis by auto
qed

lemma abs_sdiv_10: "nat \<bar>i sdiv 10\<bar> = nat \<bar>i\<bar> div 10"
  by (cases "i = 0")
     (simp_all add: signed_divide_int_def abs_mult abs_sgn_eq nat_div_distrib)

lemma convert_loop_decimal: "convert_loop i = rev (show_base dec_digits 10 (nat \<bar>i\<bar>))"
proof (induction i rule: convert_loop.induct)
  case (1 i)
  have z: "i sdiv 10 = 0 \<longleftrightarrow> nat \<bar>i\<bar> < 10"
    using abs_sdiv_10[of i] by (auto simp: div_eq_0_iff)
  show ?case
  proof (cases "i sdiv 10 = 0")
    case True
    then show ?thesis
      using z by (simp add: convert_loop.simps[of i] show_base.simps[of _ _ "nat \<bar>i\<bar>"] zero_at_smod Let_def)
  next
    case False
    then show ?thesis
      using z "1.IH" by (simp add: convert_loop.simps[of i] show_base.simps[of _ _ "nat \<bar>i\<bar>"]
          zero_at_smod abs_sdiv_10 Let_def)
  qed
qed

lemma convert_decimal: "convert v = decimal v"
  by (simp add: convert_def decimal_def convert_loop_decimal)

lemma hex_loop_show: "hex_loop i = rev (show_base digitsHex 16 i)"
proof (induction i rule: hex_loop.induct)
  case (1 i)
  then show ?case
    by (cases "i < 16") (auto simp: hex_loop.simps[of i] show_base.simps[of _ _ i] Let_def)
qed

lemma convertHex_show: "convertHex v = show_base digitsHex 16 v"
  by (simp add: convertHex_def hex_loop_show)

lemma length_show_base: "2 \<le> base \<Longrightarrow> 0 < k \<Longrightarrow> n < base ^ k \<Longrightarrow> length (show_base ds base n) \<le> k"
proof (induction k arbitrary: n)
  case (Suc k)
  show ?case
  proof (cases "n < base")
    case True
    then show ?thesis by (simp add: show_base.simps[of _ _ n])
  next
    case False
    then have "0 < k" using Suc.prems by (cases k) auto
    moreover have "n div base < base ^ k"
      using Suc.prems by (simp add: less_mult_imp_div_less mult.commute)
    ultimately show ?thesis
      using Suc False by (simp add: show_base.simps[of _ _ n])
  qed
qed simp

lemma digit_value_dec: "k < 10 \<Longrightarrow> digit_value (dec_digits ! k) = k"
proof -
  assume "k < 10"
  then have "k \<in> {0, 1, 2, 3, 4, 5, 6, 7, 8, 9}" by auto
  then show ?thesis by (elim insertE emptyE) (simp_all add: digit_value_def dec_digits_def)
qed

lemma read_nat_snoc: "read_nat (s @ [c]) = 10 * read_nat s + digit_value c"
  by (simp add: read_nat_def)

lemma read_nat_show: "read_nat (show_base dec_digits 10 n) = n"
proof (induction n rule: less_induct)
  case (less n)
  show ?case
  proof (cases "n < 10")
    case True
    then show ?thesis by (simp add: show_base.simps[of _ _ n] read_nat_def digit_value_dec)
  next
    case False
    then show ?thesis
      using less by (simp add: show_base.simps[of _ _ n] read_nat_snoc digit_value_dec)
  qed
qed

lemma hd_show_dec: "show_base dec_digits 10 n \<noteq> [] \<and> hd (show_base dec_digits 10 n) \<noteq> CHR ''-''"
proof (induction n rule: less_induct)
  case (less n)
  have d: "dec_digits ! k \<noteq> CHR ''-''" if "k < 10" for k
    using digit_value_dec[OF that] that by (auto simp: digit_value_def dec_digits_def nth_Cons' split: if_splits)
  show ?case
  proof (cases "n < 10")
    case True
    then show ?thesis using d by (simp add: show_base.simps[of _ _ n])
  next
    case False
    then show ?thesis using less[of "n div 10"] by (simp add: show_base.simps[of _ _ n])
  qed
qed

lemma read_int_decimal: "read_int (decimal v) = v"
proof (cases "v < 0")
  case True
  then show ?thesis by (simp add: decimal_def read_int_def read_nat_show)
next
  case False
  obtain c cs where s: "show_base dec_digits 10 (nat v) = c # cs" "c \<noteq> CHR ''-''"
    using hd_show_dec[of "nat v"] by (cases "show_base dec_digits 10 (nat v)") auto
  then show ?thesis
    using False read_nat_show[of "nat v"] by (simp add: decimal_def read_int_def)
qed

lemma length_convert:
  assumes "- (2 ^ 63) \<le> v" "v < 2 ^ 64"
  shows "length (convert v) \<le> 20"
proof (cases "v < 0")
  case True
  then have "nat \<bar>v\<bar> < 10 ^ 19" using assms by simp
  then show ?thesis
    using True length_show_base[of 10 19 "nat \<bar>v\<bar>" dec_digits] by (simp add: convert_decimal decimal_def)
next
  case False
  then have "nat \<bar>v\<bar> < 10 ^ 20" using assms by simp
  then show ?thesis
    using False length_show_base[of 10 20 "nat \<bar>v\<bar>" dec_digits] by (simp add: convert_decimal decimal_def)
qed

lemma length_convertHex: "v < 2 ^ 64 \<Longrightarrow> length (convertHex v) \<le> 16"
  using length_show_base[of 16 16 v digitsHex] by (simp add: convertHex_show)


section \<open>Properties\<close>

text \<open>
  C33: \<open>convert\<close> writes the decimal notation of every value of every integer type it is
  instantiated with (negative values included, the most negative one too), the text reads back
  as the value, and together with its terminator it fits into the \<open>kMaxNumericSize\<close>
  characters that \<open>formatInteger\<close> checks for; \<open>convertHex\<close> writes the hexadecimal notation.
\<close>

theorem convert_is_decimal:
  assumes "- (2 ^ 63) \<le> v" "v < 2 ^ 64" "p < 2 ^ 64"
  shows "convert v = decimal v \<and> read_int (convert v) = v \<and>
         length (convert v @ [NUL]) \<le> kMaxNumericSize \<and>
         convertHex p = show_base digitsHex 16 p \<and> length (''0x'' @ convertHex p) \<le> kMaxNumericSize"
  using length_convert[OF assms(1,2)] length_convertHex[OF assms(3)]
  by (simp add: convert_decimal read_int_decimal convertHex_show kMaxNumericSize_def)

theorem convert_is_decimal_witness:
  "convert (- 9223372036854775808) = ''-9223372036854775808'' \<and>
   read_int (convert (- 9223372036854775808)) = - 9223372036854775808"
proof -
  have "decimal (- 9223372036854775808) = ''-9223372036854775808''"
    by (simp add: decimal_def show_base.simps dec_digits_def)
  moreover from convert_is_decimal[of "- 9223372036854775808" 0]
  have "convert (- 9223372036854775808) = decimal (- 9223372036854775808) \<and>
        read_int (convert (- 9223372036854775808)) = - 9223372036854775808" by (simp add: read_int_decimal)
  ultimately show ?thesis by metis
qed

text \<open>
  Integers and pointers inserted into the older log stream never leave the buffer: with
  less than \<open>kMaxNumericSize\<close> characters left the value is dropped, otherwise its text is
  appended to the line.
\<close>

theorem old_LogStream_integers_safe:
  assumes "fb_inv b" "- (2 ^ 63) \<le> v" "v < 2 ^ 64" "p < 2 ^ 64"
  shows "(\<exists>b'. old_formatInteger v b = Inr b' \<and> fb_inv b' \<and>
           fb_text b' = fb_text b @ (if kMaxNumericSize \<le> old_available b then decimal v else [])) \<and>
         (\<exists>b'. old_put_pointer p b = Inr b' \<and> fb_inv b' \<and>
           fb_text b' = fb_text b @
             (if kMaxNumericSize \<le> old_available b then ''0x'' @ show_base digitsHex 16 p else []))"
proof (cases "kMaxNumericSize \<le> old_available b")
  case True
  have "length (convert v) \<le> 20" "length (convertHex p) \<le> 16"
    using length_convert length_convertHex assms by auto
  then show ?thesis
    using True assms(1)
    by (auto simp: old_formatInteger_def old_put_pointer_def old_available_def fb_length_def fb_inv_def
        fb_text_def fb_add_def kMaxNumericSize_def mem_write_def convert_decimal convertHex_show Let_def)
next
  case False
  then show ?thesis using assms by (simp add: old_formatInteger_def old_put_pointer_def)
qed

theorem old_LogStream_integers_safe_witness:
  "let b = \<lparr>fb_data = replicate 40 (CHR ''.''), fb_cur = 0\<rparr>
   in fb_inv b \<and> (\<exists>b'. old_formatInteger (-42) b = Inr b' \<and> fb_inv b' \<and> fb_text b' = ''-42'')"
proof -
  have "decimal (-42) = ''-42''" by (simp add: decimal_def show_base.simps dec_digits_def)
  then show ?thesis
    using old_LogStream_integers_safe[of "\<lparr>fb_data = replicate 40 (CHR ''.''), fb_cur = 0\<rparr>" "-42" 0]
    by (simp add: fb_inv_def fb_text_def old_available_def fb_length_def kMaxNumericSize_def)
qed

text \<open>A floating-point number with room for \<open>kMaxNumericSize\<close> characters is appended as printed.\<close>

lemma put_double_ok:
  assumes "length g < kMaxNumericSize" "fb_cur b + kMaxNumericSize \<le> length (fb_data b)"
  shows "\<exists>b'. put_double g b = Inr b' \<and> fb_inv b' \<and> fb_text b' = fb_text b @ g"
  using assms by (simp add: put_double_def fb_available_def fb_add_def fb_inv_def fb_text_def mem_write_def kMaxNumericSize_def)

end
