(* ===== verification/OldLogStream.thy ===== *)
theory OldLogStream
  imports LogStream
begin

text \<open>
  The first version of the log stream, \<^verbatim>\<open>logging/LogStream.h\<close> and \<^verbatim>\<open>LogStream.cpp\<close>, on the top-level
  \<^verbatim>\<open>FixedBuffer\<close>, operator by operator. The stream drops what does not fit, and the theory shows which text a
  sequence of insertions leaves and that none writes outside the buffer.
\<close>

section \<open>The operators\<close>

definition old_kSmallBuffer :: nat where "old_kSmallBuffer = 4000"

definition old_put_bool :: "bool \<Rightarrow> log_stream \<Rightarrow> log_stream res" where
  "old_put_bool v b = old_append (if v then ''1'' else ''0'') b"

definition old_put_int :: "int \<Rightarrow> log_stream \<Rightarrow> log_stream res" where
  "old_put_int v b = old_formatInteger v b"

definition old_put_uint :: "int \<Rightarrow> log_stream \<Rightarrow> log_stream res" where
  "old_put_uint v b = old_formatInteger v b"

definition old_put_short :: "int \<Rightarrow> log_stream \<Rightarrow> log_stream res" where
  "old_put_short v b = old_put_int v b"

definition old_put_ushort :: "int \<Rightarrow> log_stream \<Rightarrow> log_stream res" where
  "old_put_ushort v b = old_put_uint v b"

definition old_put_long :: "int \<Rightarrow> log_stream \<Rightarrow> log_stream res" where
  "old_put_long v b = old_formatInteger v b"

definition old_put_ulong :: "int \<Rightarrow> log_stream \<Rightarrow> log_stream res" where
  "old_put_ulong v b = old_formatInteger v b"

definition old_put_longlong :: "int \<Rightarrow> log_stream \<Rightarrow> log_stream res" where
  "old_put_longlong v b = old_formatInteger v b"

definition old_put_ulonglong :: "int \<Rightarrow> log_stream \<Rightarrow> log_stream res" where
  "old_put_ulonglong v b = old_formatInteger v b"

text \<open>\<open>text\<close> is what \<^verbatim>\<open>%.12g\<close> makes of the number. \<^verbatim>\<open>snprintf\<close> writes at most 31 characters and a null
  character, but returns the length of the whole text.\<close>

definition old_put_double :: "string \<Rightarrow> log_stream \<Rightarrow> log_stream res" where
  "old_put_double g b =
     (if old_available b \<ge> kMaxNumericSize
      then res_bind (checked_write (fb_cur b) (take (kMaxNumericSize - 1) g @ [NUL]) (fb_data b)) (\<lambda>d.
           Inr (fb_add (length g) (b\<lparr>fb_data := d\<rparr>)))
      else Inr b)"

definition old_put_float :: "string \<Rightarrow> log_stream \<Rightarrow> log_stream res" where
  "old_put_float g b = old_put_double g b"

definition old_put_char :: "char \<Rightarrow> log_stream \<Rightarrow> log_stream res" where
  "old_put_char v b = old_append [v] b"

definition old_put_cstr :: "string \<Rightarrow> log_stream \<Rightarrow> log_stream res" where
  "old_put_cstr p b = old_append p b"

definition old_put_string :: "string \<Rightarrow> log_stream \<Rightarrow> log_stream res" where
  "old_put_string str b = old_append_string str b"

definition old_LogStream_append :: "string \<Rightarrow> log_stream \<Rightarrow> log_stream res" where
  "old_LogStream_append data b = old_append data b"

definition old_resetBuffer :: "log_stream \<Rightarrow> log_stream" where
  "old_resetBuffer b = fb_reset b"

section \<open>What a line becomes\<close>

datatype log_item =
    I_bool bool | I_short int | I_ushort int | I_int int | I_uint int | I_long int | I_ulong int | I_longlong int | I_ulonglong int
  | I_pointer nat | I_double string | I_float string | I_char char | I_cstr string | I_string string | I_data string | I_reset

fun old_put :: "log_item \<Rightarrow> log_stream \<Rightarrow> log_stream res" where
  "old_put (I_bool v) b = old_put_bool v b"
| "old_put (I_short v) b = old_put_short v b"
| "old_put (I_ushort v) b = old_put_ushort v b"
| "old_put (I_int v) b = old_put_int v b"
| "old_put (I_uint v) b = old_put_uint v b"
| "old_put (I_long v) b = old_put_long v b"
| "old_put (I_ulong v) b = old_put_ulong v b"
| "old_put (I_longlong v) b = old_put_longlong v b"
| "old_put (I_ulonglong v) b = old_put_ulonglong v b"
| "old_put (I_pointer p) b = old_put_pointer p b"
| "old_put (I_double g) b = old_put_double g b"
| "old_put (I_float g) b = old_put_float g b"
| "old_put (I_char c) b = old_put_char c b"
| "old_put (I_cstr s) b = old_put_cstr s b"
| "old_put (I_string s) b = old_put_string s b"
| "old_put (I_data s) b = old_LogStream_append s b"
| "old_put I_reset b = Inr (old_resetBuffer b)"

text \<open>The values of the C++ types; \<^verbatim>\<open>%.12g\<close> makes less than 32 characters. The length of a \<^verbatim>\<open>std::string\<close> must fit into
  the \<^verbatim>\<open>int\<close> that it is converted to (\<open>huge_strings\<close> shows what happens otherwise).\<close>

fun item_ok :: "log_item \<Rightarrow> bool" where
  "item_ok (I_short v) \<longleftrightarrow> - (2 ^ 15) \<le> v \<and> v < 2 ^ 15"
| "item_ok (I_ushort v) \<longleftrightarrow> 0 \<le> v \<and> v < 2 ^ 16"
| "item_ok (I_int v) \<longleftrightarrow> - (2 ^ 31) \<le> v \<and> v < 2 ^ 31"
| "item_ok (I_uint v) \<longleftrightarrow> 0 \<le> v \<and> v < 2 ^ 32"
| "item_ok (I_long v) \<longleftrightarrow> - (2 ^ 63) \<le> v \<and> v < 2 ^ 63"
| "item_ok (I_ulong v) \<longleftrightarrow> 0 \<le> v \<and> v < 2 ^ 64"
| "item_ok (I_longlong v) \<longleftrightarrow> - (2 ^ 63) \<le> v \<and> v < 2 ^ 63"
| "item_ok (I_ulonglong v) \<longleftrightarrow> 0 \<le> v \<and> v < 2 ^ 64"
| "item_ok (I_pointer p) \<longleftrightarrow> p < 2 ^ 64"
| "item_ok (I_double g) \<longleftrightarrow> length g < 32"
| "item_ok (I_float g) \<longleftrightarrow> length g < 32"
| "item_ok (I_string s) \<longleftrightarrow> length s < 2 ^ 31"
| "item_ok _ \<longleftrightarrow> True"

text \<open>A number is written if 32 characters are left, other data if it leaves a character free, a
  \<^verbatim>\<open>std::string\<close> is cut at the end of the buffer.\<close>

definition add_number :: "nat \<Rightarrow> string \<Rightarrow> string \<Rightarrow> string" where
  "add_number n s line = (if length line + 32 \<le> n then line @ s else line)"

definition add_data :: "nat \<Rightarrow> string \<Rightarrow> string \<Rightarrow> string" where
  "add_data n s line = (if length line + length s < n then line @ s else line)"

fun add_item :: "nat \<Rightarrow> log_item \<Rightarrow> string \<Rightarrow> string" where
  "add_item n (I_bool v) line = add_data n (if v then ''1'' else ''0'') line"
| "add_item n (I_short v) line = add_number n (decimal v) line"
| "add_item n (I_ushort v) line = add_number n (decimal v) line"
| "add_item n (I_int v) line = add_number n (decimal v) line"
| "add_item n (I_uint v) line = add_number n (decimal v) line"
| "add_item n (I_long v) line = add_number n (decimal v) line"
| "add_item n (I_ulong v) line = add_number n (decimal v) line"
| "add_item n (I_longlong v) line = add_number n (decimal v) line"
| "add_item n (I_ulonglong v) line = add_number n (decimal v) line"
| "add_item n (I_pointer p) line = add_number n (''0x'' @ show_base digitsHex 16 p) line"
| "add_item n (I_double g) line = add_number n g line"
| "add_item n (I_float g) line = add_number n g line"
| "add_item n (I_char c) line = add_data n [c] line"
| "add_item n (I_cstr s) line = add_data n s line"
| "add_item n (I_string s) line = take n (line @ s)"
| "add_item n (I_data s) line = add_data n s line"
| "add_item n I_reset line = []"

definition holds :: "nat \<Rightarrow> string \<Rightarrow> log_stream \<Rightarrow> bool" where
  "holds n line b \<longleftrightarrow> fb_inv b \<and> length (fb_data b) = n \<and> fb_text b = line"

text \<open>The three ways in which an operator changes the stream.\<close>

lemma write_number_ok:
  assumes "holds n line b" "old_available b \<ge> kMaxNumericSize" "length s \<le> 31" "length z \<le> 1"
  shows "\<exists>b'. res_bind (checked_write (fb_cur b) (s @ z) (fb_data b)) (\<lambda>d. Inr (fb_add (length s) (b\<lparr>fb_data := d\<rparr>))) = Inr b' \<and>
    holds n (line @ s) b'"
  using assms by (auto simp: holds_def old_available_def fb_length_def fb_inv_def fb_text_def fb_add_def kMaxNumericSize_def mem_write_def)

lemma available_line: "holds n line b \<Longrightarrow> kMaxNumericSize \<le> old_available b \<longleftrightarrow> length line + 32 \<le> n"
  using length_fb_text[of b] by (auto simp: holds_def old_available_def kMaxNumericSize_def)

lemma old_formatInteger_line:
  assumes "holds n line b" "- (2 ^ 63) \<le> v" "v < 2 ^ 64"
  shows "\<exists>b'. old_formatInteger v b = Inr b' \<and> holds n (add_number n (decimal v) line) b'"
  using assms write_number_ok[OF assms(1), of "convert v" "[NUL]"] length_convert[OF assms(2,3)] available_line[OF assms(1)]
  by (auto simp: old_formatInteger_def add_number_def convert_decimal)

lemma old_put_pointer_line:
  assumes "holds n line b" "p < 2 ^ 64"
  shows "\<exists>b'. old_put_pointer p b = Inr b' \<and> holds n (add_number n (''0x'' @ show_base digitsHex 16 p) line) b'"
  using assms write_number_ok[OF assms(1), of "''0x'' @ convertHex p" "[]"] length_convertHex[OF assms(2)] available_line[OF assms(1)]
  by (auto simp: old_put_pointer_def add_number_def convertHex_show Let_def)

lemma old_put_double_line:
  assumes "holds n line b" "length g < 32"
  shows "\<exists>b'. old_put_double g b = Inr b' \<and> holds n (add_number n g line) b'"
  using assms write_number_ok[OF assms(1), of g "[NUL]"] available_line[OF assms(1)]
  by (auto simp: old_put_double_def add_number_def kMaxNumericSize_def)

lemma old_append_line:
  assumes "holds n line b"
  shows "\<exists>b'. old_append s b = Inr b' \<and> holds n (add_data n s line) b'"
proof (cases "length s < old_available b")
  case True
  then have "fb_cur b + length s \<le> length (fb_data b)" by (simp add: old_available_def fb_length_def)
  from fb_memcpy_ok[OF this] show ?thesis using True assms length_fb_text[of b]
    by (auto simp: old_append_def add_data_def holds_def old_available_def)
next
  case False
  then show ?thesis using assms length_fb_text[of b] by (auto simp: old_append_def add_data_def holds_def old_available_def)
qed

lemma old_append_string_line:
  assumes "holds n line b" "length s < 2 ^ 31"
  shows "\<exists>b'. old_append_string s b = Inr b' \<and> holds n (take n (line @ s)) b'"
  using old_append_string_ok[of b s] assms by (auto simp: holds_def)

lemma old_reset_line: "holds n line b \<Longrightarrow> holds n [] (old_resetBuffer b)"
  by (simp add: holds_def old_resetBuffer_def fb_reset_def fb_inv_def fb_text_def)

lemmas old_line_lemmas = old_formatInteger_line old_put_pointer_line old_put_double_line old_append_line old_append_string_line old_reset_line

lemmas old_put_defs = old_put_bool_def old_put_short_def old_put_ushort_def old_put_int_def old_put_uint_def old_put_long_def
  old_put_ulong_def old_put_longlong_def old_put_ulonglong_def old_put_float_def old_put_char_def old_put_cstr_def
  old_put_string_def old_LogStream_append_def

lemma old_put_line:
  assumes "holds n line b" "item_ok i"
  shows "\<exists>b'. old_put i b = Inr b' \<and> holds n (add_item n i line) b'"
  using assms by (cases i) (simp_all add: old_put_defs old_line_lemmas old_line_lemmas[simplified])

text \<open>
  C28: The first log stream never writes outside its buffer, whatever values are inserted and in whatever
  order, as long as every \<^verbatim>\<open>std::string\<close> has less than $2^{31}$ characters: the line is what the insertions that still fit have added, numbers as a whole or not
  at all, and it is never longer than the buffer.
\<close>

theorem old_LogStream_lines:
  assumes "list_all item_ok items" "length raw = old_kSmallBuffer"
  shows "\<exists>b'. res_fold old_put items (FixedBuffer_ctor raw) = Inr b' \<and> fb_inv b' \<and> fb_text b' = fold (add_item old_kSmallBuffer) items [] \<and>
    length (fb_text b') \<le> old_kSmallBuffer"
proof -
  have "\<exists>b'. res_fold old_put items b = Inr b' \<and> holds n (fold (add_item n) items line) b'" if "holds n line b" "list_all item_ok items" for n line b
    using that
  proof (induction items arbitrary: line b)
    case (Cons i items)
    then show ?case using old_put_line[of n line b i] by fastforce
  qed simp
  moreover have "holds old_kSmallBuffer [] (FixedBuffer_ctor raw)" using assms(2) by (simp add: holds_def fb_inv_def fb_text_def FixedBuffer_ctor_def)
  ultimately show ?thesis using assms(1) length_fb_text by (fastforce simp: holds_def fb_inv_def fb_length_def)
qed

theorem old_LogStream_lines_witness:
  "\<exists>b'. res_fold old_put [I_cstr ''n='', I_int (-42), I_char (CHR '' ''), I_pointer 255, I_bool True]
      (FixedBuffer_ctor (replicate old_kSmallBuffer (CHR ''.''))) = Inr b' \<and> fb_text b' = ''n=-42 0xFF1''"
proof -
  have "decimal (-42) = ''-42''" "show_base digitsHex 16 255 = ''FF''"
    by (simp_all add: decimal_def show_base.simps dec_digits_def digitsHex_def)
  then show ?thesis
    using old_LogStream_lines[of "[I_cstr ''n='', I_int (-42), I_char (CHR '' ''), I_pointer 255, I_bool True]"
        "replicate old_kSmallBuffer (CHR ''.'')"]
    by (auto simp: add_data_def add_number_def old_kSmallBuffer_def simp del: res_fold.simps)
qed

end
