(* ===== verification/Timestamp.thy ===== *)
theory Timestamp
  imports LogStream "HOL-Library.Log_Nat" Complex_Main
begin

text \<open>
  \<^verbatim>\<open>TimerQueue.muduo/Timestamp.h\<close> and \<^verbatim>\<open>Timestamp.cc\<close>: a time stamp is the number of
  microseconds since the epoch. The conversions to and from seconds go through \<open>double\<close>; a
  double is the rational number it stands for, and the result of every floating-point
  operation is rounded to 53 significant bits, ties to even (\<open>dbl\<close>). Overflow and subnormal
  numbers are outside the range of the times that occur.
\<close>

section \<open>Doubles\<close>

definition round_half_even :: "rat \<Rightarrow> int" where
  "round_half_even x =
     (let f = \<lfloor>x\<rfloor>; d = x - of_int f
      in if d < 1 / 2 then f else if d > 1 / 2 then f + 1 else if even f then f else f + 1)"

definition pow2 :: "int \<Rightarrow> rat" where
  "pow2 e = (if 0 \<le> e then 2 ^ nat e else 1 / 2 ^ nat (- e))"

text \<open>The binary exponent: \<open>2 ^ e \<le> \<bar>x\<bar> < 2 ^ (e + 1)\<close>.\<close>

definition rat_exponent :: "rat \<Rightarrow> int" where
  "rat_exponent x =
     (let (n, d) = quotient_of \<bar>x\<bar>; k = bitlen n - bitlen d
      in if of_int d * pow2 k \<le> of_int n then k else k - 1)"

definition dbl :: "rat \<Rightarrow> rat" where
  "dbl x = (if x = 0 then 0
            else let ulp = pow2 (rat_exponent x - 52) in of_int (round_half_even (x / ulp)) * ulp)"

text \<open>\<open>static_cast<int64_t>\<close> of a double truncates.\<close>

definition trunc :: "rat \<Rightarrow> int" where
  "trunc x = (if 0 \<le> x then \<lfloor>x\<rfloor> else \<lceil>x\<rceil>)"

section \<open>Time stamps\<close>

type_synonym timestamp = int

definition kMicroSecondsPerSecond :: int where "kMicroSecondsPerSecond = 1000 * 1000"

definition invalid :: timestamp where "invalid = 0"

definition valid :: "timestamp \<Rightarrow> bool" where "valid t \<longleftrightarrow> t > 0"

definition secondsSinceEpoch :: "timestamp \<Rightarrow> int" where
  "secondsSinceEpoch t = t sdiv kMicroSecondsPerSecond"

definition fromUnixTime :: "int \<Rightarrow> int \<Rightarrow> timestamp" where
  "fromUnixTime t microseconds = t * kMicroSecondsPerSecond + microseconds"

text \<open>\<open>now()\<close>: the result of \<^verbatim>\<open>gettimeofday\<close> is an argument.\<close>

definition Timestamp_now :: "int \<times> int \<Rightarrow> timestamp" where
  "Timestamp_now tv = fst tv * kMicroSecondsPerSecond + snd tv"

definition timestamp_less :: "timestamp \<Rightarrow> timestamp \<Rightarrow> bool" where
  "timestamp_less lhs rhs \<longleftrightarrow> lhs < rhs"

definition timeDifference :: "timestamp \<Rightarrow> timestamp \<Rightarrow> rat" where
  "timeDifference high low =
     (let diff = high - low in dbl (dbl (of_int diff) / of_int kMicroSecondsPerSecond))"

definition addTime :: "timestamp \<Rightarrow> rat \<Rightarrow> timestamp" where
  "addTime t seconds =
     (let delta = trunc (dbl (seconds * of_int kMicroSecondsPerSecond)) in t + delta)"

section \<open>Printing\<close>

text \<open>The conversions \<^verbatim>\<open>%0wd\<close> and \<^verbatim>\<open>%wd\<close> of \<^verbatim>\<open>printf\<close>.\<close>

definition pad_zero :: "nat \<Rightarrow> int \<Rightarrow> string" where
  "pad_zero w v =
     (let ds = decimal \<bar>v\<bar>; sign = (if v < 0 then ''-'' else [])
      in sign @ replicate (w - length sign - length ds) (CHR ''0'') @ ds)"

definition pad_blank :: "nat \<Rightarrow> int \<Rightarrow> string" where
  "pad_blank w v = (let ds = decimal v in replicate (w - length ds) (CHR '' '') @ ds)"

text \<open>\<^verbatim>\<open>snprintf\<close> with a size of \<open>n\<close> keeps at most \<open>n - 1\<close> characters.\<close>

definition snprintf :: "nat \<Rightarrow> string \<Rightarrow> string" where
  "snprintf n txt = take (n - 1) txt"

definition Timestamp_toString :: "timestamp \<Rightarrow> string" where
  "Timestamp_toString t =
     (let seconds = t sdiv kMicroSecondsPerSecond; microseconds = t smod kMicroSecondsPerSecond
      in snprintf 31 (decimal seconds @ ''.'' @ pad_zero 6 microseconds))"

text \<open>
  \<^verbatim>\<open>gmtime_r\<close>: year, month (1 to 12), day, hour, minute and second of a number of seconds
  since the epoch in the proleptic Gregorian calendar.
\<close>

record tm =
  tm_year :: int
  tm_mon :: int
  tm_mday :: int
  tm_hour :: int
  tm_min :: int
  tm_sec :: int

definition civil_from_days :: "int \<Rightarrow> int \<times> int \<times> int" where
  "civil_from_days days =
     (let z = days + 719468;
          era = z div 146097;
          doe = z mod 146097;
          yoe = (doe - doe div 1460 + doe div 36524 - doe div 146096) div 365;
          doy = doe - (365 * yoe + yoe div 4 - yoe div 100);
          mp = (5 * doy + 2) div 153;
          d = doy - (153 * mp + 2) div 5 + 1;
          m = (if mp < 10 then mp + 3 else mp - 9)
      in (yoe + era * 400 + (if m \<le> 2 then 1 else 0), m, d))"

definition gmtime :: "int \<Rightarrow> tm" where
  "gmtime seconds =
     (let (y, m, d) = civil_from_days (seconds div 86400); s = seconds mod 86400
      in \<lparr>tm_year = y, tm_mon = m, tm_mday = d,
          tm_hour = s div 3600, tm_min = s mod 3600 div 60, tm_sec = s mod 60\<rparr>)"

definition Timestamp_toFormattedString :: "bool \<Rightarrow> timestamp \<Rightarrow> string" where
  "Timestamp_toFormattedString showMicroseconds t =
     (let seconds = t sdiv kMicroSecondsPerSecond;
          tm_time = gmtime seconds;
          date = pad_blank 4 (tm_year tm_time) @ pad_zero 2 (tm_mon tm_time) @ pad_zero 2 (tm_mday tm_time) @
                 '' '' @ pad_zero 2 (tm_hour tm_time) @ '':'' @ pad_zero 2 (tm_min tm_time) @
                 '':'' @ pad_zero 2 (tm_sec tm_time)
      in snprintf 32
           (if showMicroseconds
            then date @ ''.'' @ pad_zero 6 (t smod kMicroSecondsPerSecond)
            else date))"

section \<open>Lemmas\<close>

lemma pow2_neg_mult: "e \<le> 0 \<Longrightarrow> x / pow2 e = x * 2 ^ nat (- e)"
  by (cases "e = 0") (simp_all add: pow2_def)

lemma round_half_even_of_int [simp]: "round_half_even (of_int n) = n"
  by (simp add: round_half_even_def Let_def)

lemma rat_exponent_of_int:
  assumes "n \<noteq> 0" "\<bar>n\<bar> < 2 ^ 53"
  shows "rat_exponent (of_int n) \<le> 52"
proof -
  have "quotient_of \<bar>of_int n :: rat\<bar> = (\<bar>n\<bar>, 1)"
    by (metis Rat.of_int_def of_int_abs quotient_of_int)
  moreover have "bitlen \<bar>n\<bar> \<le> 53"
    using assms bitlen_le_iff_power[of "\<bar>n\<bar>" 53] by simp
  moreover have "bitlen 1 = 1" by (simp add: bitlen_alt_def)
  ultimately show ?thesis by (simp add: rat_exponent_def Let_def)
qed

text \<open>Integers below \<open>2 ^ 53\<close> are exact.\<close>

lemma dbl_of_int:
  assumes "\<bar>n\<bar> < 2 ^ 53"
  shows "dbl (of_int n) = of_int n"
proof (cases "n = 0")
  case True
  then show ?thesis by (simp add: dbl_def)
next
  case False
  define e where "e = rat_exponent (of_int n) - 52"
  have "e \<le> 0" using rat_exponent_of_int[OF False assms] by (simp add: e_def)
  then have q: "of_int n / pow2 e = (of_int (n * 2 ^ nat (- e)) :: rat)"
    by (simp add: pow2_neg_mult)
  have "pow2 e \<noteq> 0" by (simp add: pow2_def)
  then have "of_int (n * 2 ^ nat (- e)) * pow2 e = (of_int n :: rat)"
    using q by (metis nonzero_divide_eq_eq)
  then show ?thesis
    using False q by (simp add: dbl_def Let_def flip: e_def of_int_mult of_int_power)
qed

lemma trunc_of_int [simp]: "trunc (of_int n) = n"
  by (simp add: trunc_def)

lemma addTime_exact:
  assumes "seconds * of_int kMicroSecondsPerSecond = of_int m" "\<bar>m\<bar> < 2 ^ 53"
  shows "addTime t seconds = t + m"
  using assms by (simp add: addTime_def dbl_of_int)

lemma round_half_even_nonneg: "0 \<le> x \<Longrightarrow> 0 \<le> round_half_even x"
  by (auto simp: round_half_even_def Let_def)

lemma dbl_nonneg: "0 \<le> x \<Longrightarrow> 0 \<le> dbl x"
proof -
  assume "0 \<le> x"
  moreover have "0 < pow2 e" for e by (simp add: pow2_def)
  ultimately show ?thesis
    by (auto simp: dbl_def Let_def less_imp_le intro!: mult_nonneg_nonneg round_half_even_nonneg divide_nonneg_pos)
qed

lemma addTime_ge: "0 \<le> seconds \<Longrightarrow> t \<le> addTime t seconds"
  using dbl_nonneg[of "seconds * of_int kMicroSecondsPerSecond"]
  by (simp add: addTime_def trunc_def kMicroSecondsPerSecond_def)

end
