(* ===== verification/LoopThread.thy ===== *)
theory LoopThread
  imports Prelude
begin

text \<open>
  One loop per thread: an \<^verbatim>\<open>EventLoop\<close> remembers the thread that created it
  (\<^verbatim>\<open>pid_\<close>), and the members that must run in that thread check it first. The
  identity of the calling thread, \<^verbatim>\<open>tid()\<close>, is an argument of the operations.
\<close>

type_synonym thread_id = nat

definition isInLoopThread :: "thread_id \<Rightarrow> thread_id \<Rightarrow> bool" where
  "isInLoopThread callerId pid \<longleftrightarrow> callerId = pid"

definition assertInLoopThread :: "thread_id \<Rightarrow> thread_id \<Rightarrow> 'a res \<Rightarrow> 'a res" where
  "assertInLoopThread callerId pid k =
     (if \<not> isInLoopThread callerId pid then Inl (Log_fatal ''AssertInLoopThread failed'') else k)"

lemma assertInLoopThread_same [simp, res_simps]: "assertInLoopThread p p k = k"
  by (simp add: assertInLoopThread_def isInLoopThread_def)

lemma assertInLoopThread_eq_Inr [simp, res_simps]:
  "assertInLoopThread c p k = Inr x \<longleftrightarrow> c = p \<and> k = Inr x"
  by (simp add: assertInLoopThread_def isInLoopThread_def)

end
