(* ===== verification/TimerQueue.thy ===== *)
theory TimerQueue
  imports Timestamp LoopThread "HOL-Library.Product_Lexorder"
begin

text \<open>
  The timer queue (\<^verbatim>\<open>Timer.h\<close>, \<^verbatim>\<open>TimerId.h\<close>, \<^verbatim>\<open>TimerQueue.h\<close>, \<^verbatim>\<open>TimerQueue.cpp\<close>).
  Timers are heap objects: the heap maps the addresses of live \<^verbatim>\<open>Timer\<close> objects to them, a
  dereference of any other address is a fault. \<^verbatim>\<open>std::set\<close> of pairs is a finite set with the
  lexicographic order. The allocator, the clock and the timer file descriptor are part of the
  state or arguments: \<open>new_timer\<close> asks an allocator for an address, \<open>tq_clock\<close> is what
  \<^verbatim>\<open>Timestamp::now()\<close> reads, \<open>tq_armed\<close> is the time at which the timer descriptor becomes
  readable. A callback is any program over the queue's interface: it adds timers, cancels
  timers and lets time pass, and it may choose what to do by looking at the queue.
\<close>

section \<open>Timers\<close>

record timer =
  tcallback :: nat
  expiration :: timestamp
  interval :: rat
  repeat :: bool
  sequence :: int

record timer_id =
  id_timer :: nat
  id_sequence :: int

definition TimerId_default :: timer_id where
  "TimerId_default = \<lparr>id_timer = 0, id_sequence = 0\<rparr>"

definition AtomicPointer_incrementAndGet :: "int \<Rightarrow> int \<times> int" where
  "AtomicPointer_incrementAndGet rep = (rep + 1, rep + 1)"

definition Timer_ctor :: "nat \<Rightarrow> timestamp \<Rightarrow> rat \<Rightarrow> int \<Rightarrow> timer" where
  "Timer_ctor cb when ival seq =
     \<lparr>tcallback = cb, expiration = when, interval = ival, repeat = (ival > 0), sequence = seq\<rparr>"

definition Timer_restart :: "timestamp \<Rightarrow> timer \<Rightarrow> timer" where
  "Timer_restart now t =
     (if repeat t then t\<lparr>expiration := addTime now (interval t)\<rparr>
      else t\<lparr>expiration := invalid\<rparr>)"

section \<open>The queue\<close>

type_synonym entry = "timestamp \<times> nat"
type_synonym active_timer = "nat \<times> int"

record timer_queue =
  tq_pid :: thread_id
  tq_timerfd :: int
  tq_heap :: "nat \<Rightarrow> timer option"
  tq_numCreated :: int
  timers :: "entry set"
  callingExpiredTimers :: bool
  expired :: "entry list"
  activeTimers :: "active_timer set"
  cancelingTimers :: "active_timer set"
  tq_clock :: timestamp
  tq_armed :: "timestamp option"
  tq_fired :: "nat list"

text \<open>\<^verbatim>\<open>reinterpret_cast<Timer*>(UINTPTR_MAX)\<close>\<close>

definition UINTPTR_MAX :: nat where "UINTPTR_MAX = 2 ^ 64 - 1"

text \<open>The second component of \<^verbatim>\<open>ActiveTimer\<close> is an \<^verbatim>\<open>int\<close>: the sequence number, a
  \<^verbatim>\<open>long\<close>, is truncated.\<close>

definition to_int32 :: "int \<Rightarrow> int" where
  "to_int32 x = sint (word_of_int x :: 32 word)"

definition createTimerfd :: "int \<Rightarrow> int res" where
  "createTimerfd fd = (if fd < 0 then Inl (Log_fatal ''failed int timerfd_create'') else Inr fd)"

text \<open>The delay as \<^verbatim>\<open>struct timespec\<close>: seconds and nanoseconds.\<close>

definition howMuchTimeFromNow :: "timestamp \<Rightarrow> timestamp \<Rightarrow> int \<times> int" where
  "howMuchTimeFromNow when now =
     (let microseconds = when - now;
          microseconds = (if microseconds < 100 then 100 else microseconds)
      in (microseconds sdiv kMicroSecondsPerSecond, (microseconds smod kMicroSecondsPerSecond) * 1000))"

text \<open>
  \<^verbatim>\<open>timerfd_settime\<close> on a relative one-shot delay: it fails on a malformed \<^verbatim>\<open>timespec\<close>, a
  zero delay disarms, every other delay replaces the previous one.
\<close>

definition timerfd_settime :: "int \<times> int \<Rightarrow> timestamp \<Rightarrow> (unit + timestamp option)" where
  "timerfd_settime ts now =
     (if fst ts < 0 \<or> snd ts < 0 \<or> snd ts \<ge> 1000000000 then Inl ()
      else if ts = (0, 0) then Inr None
      else Inr (Some (now + fst ts * kMicroSecondsPerSecond + snd ts div 1000)))"

definition resetTimerfd :: "timestamp \<Rightarrow> timer_queue \<Rightarrow> timer_queue res" where
  "resetTimerfd expir q =
     (case timerfd_settime (howMuchTimeFromNow expir (tq_clock q)) (tq_clock q) of
        Inl _ \<Rightarrow> Inl (Log_fatal ''timerfd_settime()'')
      | Inr armed \<Rightarrow> Inr (q\<lparr>tq_armed := armed\<rparr>))"

text \<open>Reading the descriptor consumes an expiration; when there is none the error is logged.\<close>

definition readTimerfd :: "timer_queue \<Rightarrow> timer_queue" where
  "readTimerfd q =
     (case tq_armed q of
        Some t \<Rightarrow> if t \<le> tq_clock q then q\<lparr>tq_armed := None\<rparr> else q
      | None \<Rightarrow> q)"

definition TimerQueue_ctor :: "thread_id \<Rightarrow> int \<Rightarrow> timestamp \<Rightarrow> timer_queue res" where
  "TimerQueue_ctor pid fd now = res_bind (createTimerfd fd) (\<lambda>fd.
     Inr \<lparr>tq_pid = pid, tq_timerfd = fd, tq_heap = Map.empty, tq_numCreated = 0, timers = {},
          callingExpiredTimers = False, expired = [], activeTimers = {}, cancelingTimers = {},
          tq_clock = now, tq_armed = None, tq_fired = []\<rparr>)"

definition deref :: "nat \<Rightarrow> timer_queue \<Rightarrow> (timer \<Rightarrow> 'a res) \<Rightarrow> 'a res" where
  "deref a q k = (case tq_heap q a of None \<Rightarrow> Inl (Null_pointer ''Timer'') | Some t \<Rightarrow> k t)"

definition delete_timer :: "nat \<Rightarrow> timer_queue \<Rightarrow> timer_queue res" where
  "delete_timer a q = deref a q (\<lambda>_. Inr (q\<lparr>tq_heap := (tq_heap q)(a := None)\<rparr>))"

text \<open>The destructor deletes the timers of \<^verbatim>\<open>timers_\<close>.\<close>

definition TimerQueue_dtor :: "timer_queue \<Rightarrow> timer_queue res" where
  "TimerQueue_dtor q = res_fold (\<lambda>e. delete_timer (snd e)) (sorted_list_of_set (timers q)) q"

definition tq_insert :: "thread_id \<Rightarrow> nat \<Rightarrow> timer_queue \<Rightarrow> (bool \<times> timer_queue) res" where
  "tq_insert tid a q =
     assertInLoopThread tid (tq_pid q)
     (require (card (timers q) = card (activeTimers q)) ''timers_.size() == activeTimers_.size()''
     (deref a q (\<lambda>t.
      let when = expiration t;
          earliestChanged = (timers q = {} \<or> timestamp_less when (fst (Min (timers q))))
      in require ((when, a) \<notin> timers q) ''result.second''
        (let q1 = q\<lparr>timers := insert (when, a) (timers q)\<rparr>;
             av = (a, to_int32 (sequence t))
         in require (av \<notin> activeTimers q1) ''result.second''
           (let q2 = q1\<lparr>activeTimers := insert av (activeTimers q1)\<rparr>
            in require (card (timers q2) = card (activeTimers q2)) ''timers_.size() == activeTimers_.size()''
              (Inr (earliestChanged, q2)))))))"

definition addTimerInLoop :: "thread_id \<Rightarrow> nat \<Rightarrow> timer_queue \<Rightarrow> timer_queue res" where
  "addTimerInLoop tid a q =
     assertInLoopThread tid (tq_pid q)
     (res_bind (tq_insert tid a q) (\<lambda>(earliestChanged, q1).
      if earliestChanged then deref a q1 (\<lambda>t. resetTimerfd (expiration t) q1) else Inr q1))"

text \<open>
  \<^verbatim>\<open>new Timer(cb, when, interval)\<close>: the allocator gives an address or throws
  \<^verbatim>\<open>std::bad_alloc\<close>; it may look at the number of timers made so far and at the live ones.
\<close>

type_synonym allocator = "int \<Rightarrow> (nat \<Rightarrow> timer option) \<Rightarrow> nat option"

definition bad_alloc :: fault where "bad_alloc = Abort ''std::bad_alloc''"

definition new_timer :: "allocator \<Rightarrow> nat \<Rightarrow> timestamp \<Rightarrow> rat \<Rightarrow> timer_queue \<Rightarrow> (timer_id \<times> timer_queue) res" where
  "new_timer alloc cb when ival q =
     (case alloc (tq_numCreated q) (tq_heap q) of
        None \<Rightarrow> Inl bad_alloc
      | Some a \<Rightarrow>
          (let (seq, n) = AtomicPointer_incrementAndGet (tq_numCreated q)
           in Inr (\<lparr>id_timer = a, id_sequence = seq\<rparr>,
                   q\<lparr>tq_heap := (tq_heap q)(a \<mapsto> Timer_ctor cb when ival seq), tq_numCreated := n\<rparr>)))"

text \<open>\<^verbatim>\<open>addTimer\<close> called in the loop's thread: \<^verbatim>\<open>runInLoop\<close> runs the functor at once.\<close>

definition addTimer :: "thread_id \<Rightarrow> allocator \<Rightarrow> nat \<Rightarrow> timestamp \<Rightarrow> rat \<Rightarrow> timer_queue \<Rightarrow> (timer_id \<times> timer_queue) res" where
  "addTimer tid alloc cb when ival q =
     res_bind (new_timer alloc cb when ival q) (\<lambda>(tid_new, q1).
     res_bind (addTimerInLoop tid (id_timer tid_new) q1) (\<lambda>q2. Inr (tid_new, q2)))"

definition cancelInLoop :: "thread_id \<Rightarrow> timer_id \<Rightarrow> timer_queue \<Rightarrow> timer_queue res" where
  "cancelInLoop tid timerId q =
     assertInLoopThread tid (tq_pid q)
     (require (card (timers q) = card (activeTimers q)) ''timers_.size() == activeTimers_.size()''
     (let tm = (id_timer timerId, to_int32 (id_sequence timerId))
      in res_bind
        (if tm \<in> activeTimers q then
           deref (fst tm) q (\<lambda>t.
             let en = (expiration t, fst tm)
             in require (en \<in> timers q) ''n == 1''
               (res_bind (delete_timer (fst tm) (q\<lparr>timers := timers q - {en}\<rparr>)) (\<lambda>q1.
                Inr (q1\<lparr>activeTimers := activeTimers q1 - {tm}\<rparr>))))
         else if callingExpiredTimers q then
           Inr (q\<lparr>cancelingTimers := insert tm (cancelingTimers q)\<rparr>)
         else Inr q)
        (\<lambda>q'. require (card (timers q') = card (activeTimers q')) ''timers_.size() == activeTimers_.size()''
          (Inr q'))))"

definition erase_active :: "entry \<Rightarrow> timer_queue \<Rightarrow> timer_queue res" where
  "erase_active e q = deref (snd e) q (\<lambda>t.
     let av = (snd e, to_int32 (sequence t))
     in require (av \<in> activeTimers q) ''n == 1'' (Inr (q\<lparr>activeTimers := activeTimers q - {av}\<rparr>)))"

definition getExpired :: "timestamp \<Rightarrow> timer_queue \<Rightarrow> timer_queue res" where
  "getExpired now q =
     require (card (timers q) = card (activeTimers q)) ''timers_.size() == activeTimers_.size()''
     (let sentry = (now, UINTPTR_MAX);
          before = {e \<in> timers q. e < sentry};
          rest = {e \<in> timers q. \<not> e < sentry}
      in require (rest = {} \<or> timestamp_less now (fst (Min rest))) ''end == timers_.end() || now < end->first''
        (let q1 = q\<lparr>expired := sorted_list_of_set before, timers := rest\<rparr>
         in res_bind (res_fold erase_active (expired q1) q1) (\<lambda>q2.
            require (card (timers q2) = card (activeTimers q2)) ''timers_.size() == activeTimers_.size()''
            (Inr q2))))"

section \<open>Callbacks and expiration\<close>

text \<open>
  What a timer callback can do with the queue: add a timer with its callback, cancel a timer by
  its identifier, and take time. The program of a callback may depend on the queue it finds.
\<close>

datatype tq_op =
    Op_add nat timestamp rat
  | Op_cancel timer_id
  | Op_elapse nat

type_synonym behaviour = "nat \<Rightarrow> timer_queue \<Rightarrow> tq_op list"

fun exec_op :: "thread_id \<Rightarrow> allocator \<Rightarrow> tq_op \<Rightarrow> timer_queue \<Rightarrow> timer_queue res" where
  "exec_op tid alloc (Op_add cb when ival) q = res_bind (addTimer tid alloc cb when ival q) (\<lambda>(_, q1). Inr q1)"
| "exec_op tid alloc (Op_cancel i) q = cancelInLoop tid i q"
| "exec_op tid alloc (Op_elapse d) q = Inr (q\<lparr>tq_clock := tq_clock q + int d\<rparr>)"

definition Timer_run :: "thread_id \<Rightarrow> allocator \<Rightarrow> behaviour \<Rightarrow> timer \<Rightarrow> timer_queue \<Rightarrow> timer_queue res" where
  "Timer_run tid alloc beh t q =
     res_fold (exec_op tid alloc) (beh (tcallback t) q) (q\<lparr>tq_fired := tq_fired q @ [tcallback t]\<rparr>)"

definition reset_one :: "thread_id \<Rightarrow> timestamp \<Rightarrow> entry \<Rightarrow> timer_queue \<Rightarrow> timer_queue res" where
  "reset_one tid now e q = deref (snd e) q (\<lambda>t.
     if repeat t \<and> (snd e, to_int32 (sequence t)) \<notin> cancelingTimers q
     then res_bind (tq_insert tid (snd e) (q\<lparr>tq_heap := (tq_heap q)(snd e \<mapsto> Timer_restart now t)\<rparr>))
            (\<lambda>(_, q1). Inr q1)
     else delete_timer (snd e) q)"

definition tq_reset :: "thread_id \<Rightarrow> timestamp \<Rightarrow> timer_queue \<Rightarrow> timer_queue res" where
  "tq_reset tid now q =
     res_bind (res_fold (reset_one tid now) (expired q) q) (\<lambda>q1.
     res_bind (if timers q1 \<noteq> {} then deref (snd (Min (timers q1))) q1 (\<lambda>t. Inr (expiration t))
               else Inr invalid) (\<lambda>nextExpire.
     if valid nextExpire then resetTimerfd nextExpire q1 else Inr q1))"

definition TimerQueue_handleRead :: "thread_id \<Rightarrow> allocator \<Rightarrow> behaviour \<Rightarrow> timestamp \<Rightarrow> timer_queue \<Rightarrow> timer_queue res" where
  "TimerQueue_handleRead tid alloc beh pollReturnTime q =
     assertInLoopThread tid (tq_pid q)
     (let now = tq_clock q
      in res_bind (getExpired pollReturnTime (readTimerfd q)) (\<lambda>q1.
         let q2 = q1\<lparr>callingExpiredTimers := True, cancelingTimers := {}\<rparr>
         in res_bind (res_fold (\<lambda>e q. deref (snd e) q (\<lambda>t. Timer_run tid alloc beh t q)) (expired q2) q2) (\<lambda>q3.
            tq_reset tid now (q3\<lparr>callingExpiredTimers := False\<rparr>))))"

section \<open>Runs\<close>

text \<open>
  The queue as the rest of the program drives it. \<open>Ev_loop\<close>: the loop's thread calls
  \<^verbatim>\<open>addTimer\<close> or \<^verbatim>\<open>cancel\<close> (or time passes). \<open>Ev_other\<close>: another thread calls \<^verbatim>\<open>addTimer\<close>,
  which makes the timer and queues the functor; \<open>Ev_functor\<close>: the loop runs the oldest such
  functor. \<open>Ev_read\<close>: the timer
  descriptor is readable and \<^verbatim>\<open>poll\<close> returned at the given time.
\<close>

datatype tq_event =
    Ev_loop tq_op
  | Ev_other nat timestamp rat
  | Ev_functor
  | Ev_read nat

fun tq_event_step :: "allocator \<Rightarrow> behaviour \<Rightarrow> tq_event \<Rightarrow> timer_queue \<times> nat list \<Rightarrow> (timer_queue \<times> nat list) res" where
  "tq_event_step alloc beh (Ev_loop op) (q, pending) =
     res_bind (exec_op (tq_pid q) alloc op q) (\<lambda>q1. Inr (q1, pending))"
| "tq_event_step alloc beh (Ev_other cb when ival) (q, pending) =
     res_bind (new_timer alloc cb when ival q) (\<lambda>(i, q1). Inr (q1, pending @ [id_timer i]))"
| "tq_event_step alloc beh Ev_functor (q, []) = Inr (q, [])"
| "tq_event_step alloc beh Ev_functor (q, a # pending) =
     res_bind (addTimerInLoop (tq_pid q) a q) (\<lambda>q1. Inr (q1, pending))"
| "tq_event_step alloc beh (Ev_read t) (q, pending) =
     res_bind (TimerQueue_handleRead (tq_pid q) alloc beh (int t) q) (\<lambda>q1. Inr (q1, pending))"

section \<open>Invariant\<close>

text \<open>
  \<open>tq_inv E P q\<close>: every entry of \<^verbatim>\<open>timers_\<close> is a live timer under its current expiration time,
  \<^verbatim>\<open>activeTimers_\<close> lists the same timers, and apart from them exactly the timers at the
  addresses \<open>E\<close> (taken out by \<^verbatim>\<open>getExpired\<close>) and \<open>P\<close> (made by \<^verbatim>\<open>addTimer\<close> in another thread,
  the functor still pending) are live.
\<close>

definition active_of :: "(nat \<Rightarrow> timer option) \<Rightarrow> entry \<Rightarrow> active_timer" where
  "active_of h e = (snd e, to_int32 (sequence (the (h (snd e)))))"

definition tq_inv :: "nat set \<Rightarrow> nat set \<Rightarrow> timer_queue \<Rightarrow> bool" where
  "tq_inv E P q \<longleftrightarrow>
     finite (timers q) \<and>
     (\<forall>e \<in> timers q. \<exists>t. tq_heap q (snd e) = Some t \<and> expiration t = fst e) \<and>
     activeTimers q = active_of (tq_heap q) ` timers q \<and>
     dom (tq_heap q) = snd ` timers q \<union> E \<union> P \<and>
     snd ` timers q \<inter> (E \<union> P) = {} \<and> E \<inter> P = {} \<and>
     (\<forall>a t. tq_heap q a = Some t \<longrightarrow> a < UINTPTR_MAX \<and> (repeat t \<longleftrightarrow> interval t > 0))"

text \<open>What the code relies on from \<^verbatim>\<open>operator new\<close>: addresses of live objects are not given out.\<close>

definition good_alloc :: "allocator \<Rightarrow> bool" where
  "good_alloc alloc \<longleftrightarrow> (\<forall>n h a. alloc n h = Some a \<longrightarrow> h a = None \<and> 0 < a \<and> a < UINTPTR_MAX)"

text \<open>The descriptor wakes the loop in time for an expiration: at the latest then, or 100
  microseconds after the present when it is already due.\<close>

definition armed_for :: "timer_queue \<Rightarrow> timestamp \<Rightarrow> bool" where
  "armed_for q e \<longleftrightarrow> (\<exists>t. tq_armed q = Some t \<and> t \<le> max e (tq_clock q + 100))"

section \<open>The invariant is kept\<close>

lemma deref_Some [simp]: "tq_heap q a = Some t \<Longrightarrow> deref a q k = k t"
  by (simp add: deref_def)

lemma deref_eq_Inr [simp]: "deref a q k = Inr x \<longleftrightarrow> (\<exists>t. tq_heap q a = Some t \<and> k t = Inr x)"
  by (simp add: deref_def split: option.split)

lemma tq_invD:
  assumes "tq_inv E P q"
  shows "finite (timers q)"
    and "\<And>e a. (e, a) \<in> timers q \<Longrightarrow> \<exists>t. tq_heap q a = Some t \<and> expiration t = e"
    and "activeTimers q = active_of (tq_heap q) ` timers q"
    and "dom (tq_heap q) = snd ` timers q \<union> E \<union> P"
    and "snd ` timers q \<inter> (E \<union> P) = {}" and "E \<inter> P = {}"
    and "\<And>a t. tq_heap q a = Some t \<Longrightarrow> a < UINTPTR_MAX"
    and "\<And>a t. tq_heap q a = Some t \<Longrightarrow> repeat t \<longleftrightarrow> interval t > 0"
  using assms unfolding tq_inv_def by fastforce+

lemma tq_invI:
  assumes "finite (timers q)"
    and "\<And>e. e \<in> timers q \<Longrightarrow> \<exists>t. tq_heap q (snd e) = Some t \<and> expiration t = fst e"
    and "activeTimers q = active_of (tq_heap q) ` timers q"
    and "dom (tq_heap q) = snd ` timers q \<union> E \<union> P"
    and "snd ` timers q \<inter> (E \<union> P) = {}" and "E \<inter> P = {}"
    and "\<And>a t. tq_heap q a = Some t \<Longrightarrow> a < UINTPTR_MAX"
    and "\<And>a t. tq_heap q a = Some t \<Longrightarrow> repeat t \<longleftrightarrow> interval t > 0"
  shows "tq_inv E P q"
  using assms unfolding tq_inv_def by simp

lemma active_of_inj:
  assumes "tq_inv E P q"
  shows "inj_on (active_of (tq_heap q)) (timers q)"
proof (rule inj_onI)
  fix x y
  assume "x \<in> timers q" "y \<in> timers q" "active_of (tq_heap q) x = active_of (tq_heap q) y"
  then show "x = y"
    by (cases x; cases y) (auto simp: active_of_def dest!: tq_invD(2)[OF assms])
qed

lemma tq_inv_card: "tq_inv E P q \<Longrightarrow> card (timers q) = card (activeTimers q)"
  by (simp add: tq_invD(3) active_of_inj card_image)

lemma active_of_upd:
  "a \<notin> snd ` T \<Longrightarrow> active_of (h(a := x)) ` T = active_of h ` T"
  by (rule image_cong[OF refl]) (auto simp: active_of_def)

lemma tq_inv_insert:
  assumes "tq_inv E P q" "a \<in> E \<union> P" "tq_heap q a = Some t"
  shows "tq_inv (E - {a}) (P - {a})
           (q\<lparr>timers := insert (expiration t, a) (timers q),
              activeTimers := insert (a, to_int32 (sequence t)) (activeTimers q)\<rparr>)"
  using assms by (auto simp: tq_inv_def active_of_def)

lemma tq_inv_delete:
  assumes "tq_inv E P q" "a \<in> E"
  shows "tq_inv (E - {a}) P (q\<lparr>tq_heap := (tq_heap q)(a := None)\<rparr>)"
proof -
  from assms have "a \<notin> snd ` timers q" by (auto simp: tq_inv_def)
  with assms show ?thesis by (auto simp: tq_inv_def active_of_upd; force)
qed

lemma tq_inv_restart:
  assumes "tq_inv E P q" "a \<in> E" "tq_heap q a = Some t"
  shows "tq_inv E P (q\<lparr>tq_heap := (tq_heap q)(a \<mapsto> Timer_restart now t)\<rparr>)"
proof -
  from assms have "a \<notin> snd ` timers q" by (auto simp: tq_inv_def)
  with assms show ?thesis
    by (auto simp: tq_inv_def active_of_upd Timer_restart_def; force)
qed

lemma tq_inv_new:
  assumes "tq_inv E P q" "tq_heap q a = None" "a < UINTPTR_MAX"
  shows "tq_inv E (insert a P)
           (q\<lparr>tq_heap := (tq_heap q)(a \<mapsto> Timer_ctor cb when ival s), tq_numCreated := n\<rparr>)"
proof -
  from assms have "a \<notin> snd ` timers q \<union> E \<union> P" by (auto simp: tq_inv_def)
  with assms show ?thesis
    by (auto simp: tq_inv_def active_of_upd Timer_ctor_def; force)
qed

lemma tq_inv_cong:
  "tq_inv E P q \<Longrightarrow> timers q' = timers q \<Longrightarrow> activeTimers q' = activeTimers q \<Longrightarrow>
   tq_heap q' = tq_heap q \<Longrightarrow> tq_inv E P q'"
  by (simp add: tq_inv_def)

section \<open>Operations succeed\<close>

lemma tq_insert_ok:
  assumes inv: "tq_inv E P q" and a: "a \<in> E \<union> P" "tq_heap q a = Some t"
  shows "tq_insert (tq_pid q) a q =
           Inr (timers q = {} \<or> expiration t < fst (Min (timers q)),
                q\<lparr>timers := insert (expiration t, a) (timers q),
                   activeTimers := insert (a, to_int32 (sequence t)) (activeTimers q)\<rparr>)"
proof -
  have "(expiration t, a) \<notin> timers q" using tq_invD(5)[OF inv] a by force
  moreover have "(a, to_int32 (sequence t)) \<notin> activeTimers q"
    using tq_invD(3,5)[OF inv] a by (auto simp: active_of_def)
  moreover note tq_inv_card[OF inv] tq_inv_card[OF tq_inv_insert[OF inv a]]
  ultimately show ?thesis
    using a by (simp add: tq_insert_def timestamp_less_def Let_def)
qed

lemma signed_div_pos: "0 < m \<Longrightarrow> m sdiv 1000000 = m div 1000000" for m :: int
  by (simp add: signed_divide_int_eq_divide_int)

lemma signed_mod_pos: "0 < m \<Longrightarrow> m smod 1000000 = m mod 1000000" for m :: int
  by (simp add: signed_modulo_int_eq_modulo_int)

lemma settime_micros:
  assumes "100 \<le> m"
  shows "timerfd_settime (m sdiv kMicroSecondsPerSecond, (m smod kMicroSecondsPerSecond) * 1000) now
           = Inr (Some (now + m))"
proof -
  have k: "kMicroSecondsPerSecond = 1000000" by (simp add: kMicroSecondsPerSecond_def)
  have "0 \<le> m div 1000000" using assms by (simp add: pos_imp_zdiv_nonneg_iff)
  moreover have "0 \<le> m mod 1000000" "m mod 1000000 < 1000000" by simp_all
  moreover have e: "m = 1000000 * (m div 1000000) + m mod 1000000" by simp
  moreover have "\<not> (m div 1000000 = 0 \<and> m mod 1000000 = 0)" using assms e by linarith
  ultimately show ?thesis
    using assms unfolding timerfd_settime_def k by (auto simp: signed_div_pos signed_mod_pos)
qed

lemma howMuchTimeFromNow_settime:
  "timerfd_settime (howMuchTimeFromNow when now) now = Inr (Some (max when (now + 100)))"
proof -
  define m where "m = (if when - now < 100 then 100 else when - now)"
  have "100 \<le> m" "now + m = max when (now + 100)" by (auto simp: m_def)
  then show ?thesis
    using settime_micros[of m now] by (simp add: howMuchTimeFromNow_def Let_def m_def)
qed

lemma resetTimerfd_eq:
  "resetTimerfd expir q = Inr (q\<lparr>tq_armed := Some (max expir (tq_clock q + 100))\<rparr>)"
  by (simp add: resetTimerfd_def howMuchTimeFromNow_settime)

text \<open>What the operations that a callback performs leave unchanged.\<close>

definition tq_frame :: "nat set \<Rightarrow> timer_queue \<Rightarrow> timer_queue \<Rightarrow> bool" where
  "tq_frame E q q' \<longleftrightarrow>
     (\<forall>a \<in> E. tq_heap q' a = tq_heap q a) \<and> expired q' = expired q \<and> tq_pid q' = tq_pid q \<and>
     callingExpiredTimers q' = callingExpiredTimers q \<and> tq_clock q \<le> tq_clock q' \<and>
     tq_fired q' = tq_fired q"

definition armed_upto :: "timestamp \<Rightarrow> timer_queue \<Rightarrow> bool" where
  "armed_upto b q \<longleftrightarrow> (\<forall>e \<in> timers q. fst e \<le> b \<longrightarrow> armed_for q (fst e))"

lemma armed_for_mono: "armed_for q e0 \<Longrightarrow> e0 \<le> e \<Longrightarrow> armed_for q e"
  by (auto simp: armed_for_def intro: order_trans[OF _ max.mono])

lemma addTimerInLoop_ok:
  assumes inv: "tq_inv E P q" and a: "a \<in> P" "tq_heap q a = Some t"
  shows "\<exists>q'. addTimerInLoop (tq_pid q) a q = Inr q' \<and> tq_inv E (P - {a}) q' \<and> tq_frame E q q' \<and>
           timers q' = insert (expiration t, a) (timers q) \<and> tq_heap q' = tq_heap q \<and>
           cancelingTimers q' = cancelingTimers q \<and>
           (\<forall>b. armed_upto b q \<longrightarrow> armed_upto b q')"
proof -
  have a': "a \<in> E \<union> P" using a by simp
  have E: "E - {a} = E" using tq_invD(6)[OF inv] a by blast
  let ?q = "q\<lparr>timers := insert (expiration t, a) (timers q),
              activeTimers := insert (a, to_int32 (sequence t)) (activeTimers q)\<rparr>"
  note ins = tq_insert_ok[OF inv a' a(2)] and inv' = tq_inv_insert[OF inv a' a(2)]
  show ?thesis
  proof (cases "timers q = {} \<or> expiration t < fst (Min (timers q))")
    case True
    let ?q' = "?q\<lparr>tq_armed := Some (max (expiration t) (tq_clock q + 100))\<rparr>"
    have "addTimerInLoop (tq_pid q) a q = Inr ?q'"
      using True a by (simp add: addTimerInLoop_def ins resetTimerfd_eq)
    moreover have "tq_inv E (P - {a}) ?q'" using tq_inv_cong[OF inv', of ?q'] E by simp
    moreover have "expiration t \<le> fst e" if "e \<in> timers q" for e
      using True that Min_le[OF tq_invD(1)[OF inv] that] by (auto simp: less_eq_prod_def)
    then have "armed_upto b ?q'" for b
      by (fastforce simp: armed_upto_def armed_for_def max_def)
    ultimately show ?thesis by (intro exI[of _ ?q']) (simp add: tq_frame_def)
  next
    case False
    then obtain e0 where e0: "e0 \<in> timers q" "fst e0 \<le> expiration t"
      using Min_in[OF tq_invD(1)[OF inv]] by (metis linorder_not_less)
    have "addTimerInLoop (tq_pid q) a q = Inr ?q"
      using False by (simp add: addTimerInLoop_def ins)
    moreover have "armed_upto b ?q" if b: "armed_upto b q" for b
      unfolding armed_upto_def
    proof (intro ballI impI)
      fix e assume e: "e \<in> timers ?q" "fst e \<le> b"
      show "armed_for ?q (fst e)"
      proof (cases "e = (expiration t, a)")
        case True
        then have "armed_for q (fst e0)" using b e0 e by (auto simp: armed_upto_def)
        then show ?thesis using e0 True armed_for_mono[of q "fst e0" "expiration t"] by (simp add: armed_for_def)
      next
        case False
        then show ?thesis using b e by (auto simp: armed_upto_def armed_for_def)
      qed
    qed
    ultimately show ?thesis using inv' E by (intro exI[of _ ?q]) (simp add: tq_frame_def)
  qed
qed

lemma addTimer_ok:
  assumes inv: "tq_inv E P q" and al: "good_alloc alloc"
  shows "addTimer (tq_pid q) alloc cb when ival q = Inl bad_alloc \<or>
    (\<exists>i q'. addTimer (tq_pid q) alloc cb when ival q = Inr (i, q') \<and> tq_inv E P q' \<and> tq_frame E q q' \<and>
       tq_heap q (id_timer i) = None \<and> tq_heap q' = (tq_heap q)(id_timer i \<mapsto> Timer_ctor cb when ival (id_sequence i)) \<and>
       timers q' = insert (when, id_timer i) (timers q) \<and> cancelingTimers q' = cancelingTimers q \<and>
       (\<forall>b. armed_upto b q \<longrightarrow> armed_upto b q'))"
proof (cases "alloc (tq_numCreated q) (tq_heap q)")
  case None
  then show ?thesis by (simp add: addTimer_def new_timer_def)
next
  case (Some a)
  then have a: "tq_heap q a = None" "a < UINTPTR_MAX" using al by (auto simp: good_alloc_def)
  define q1 where "q1 = q\<lparr>tq_heap := (tq_heap q)(a \<mapsto> Timer_ctor cb when ival (tq_numCreated q + 1)),
                          tq_numCreated := tq_numCreated q + 1\<rparr>"
  have inv1: "tq_inv E (insert a P) q1" unfolding q1_def by (rule tq_inv_new[OF inv a])
  have n: "new_timer alloc cb when ival q = Inr (\<lparr>id_timer = a, id_sequence = tq_numCreated q + 1\<rparr>, q1)"
    using Some by (simp add: new_timer_def AtomicPointer_incrementAndGet_def q1_def)
  have aEP: "a \<notin> E" "a \<notin> P" using tq_invD(4)[OF inv] a by auto
  from addTimerInLoop_ok[OF inv1, of a "Timer_ctor cb when ival (tq_numCreated q + 1)"]
  obtain q' where "addTimerInLoop (tq_pid q1) a q1 = Inr q'" "tq_inv E (insert a P - {a}) q'"
    "tq_frame E q1 q'" "timers q' = insert (when, a) (timers q1)" "tq_heap q' = tq_heap q1"
    "cancelingTimers q' = cancelingTimers q1" "\<forall>b. armed_upto b q1 \<longrightarrow> armed_upto b q'"
    by (auto simp: q1_def Timer_ctor_def)
  then show ?thesis using a aEP
    by (auto simp: addTimer_def n q1_def tq_frame_def armed_upto_def armed_for_def)
qed

lemma snd_inj:
  assumes "tq_inv E P q"
  shows "inj_on snd (timers q)"
proof (rule inj_onI)
  fix x y
  assume "x \<in> timers q" "y \<in> timers q" "snd x = snd y"
  then show "x = y" by (cases x; cases y) (auto dest!: tq_invD(2)[OF assms])
qed

lemma tq_inv_remove:
  assumes inv: "tq_inv E P q" and e: "e \<in> timers q"
  shows "tq_inv E P (q\<lparr>timers := timers q - {e}, tq_heap := (tq_heap q)(snd e := None),
                        activeTimers := activeTimers q - {active_of (tq_heap q) e}\<rparr>)"
proof -
  have img: "snd ` (timers q - {e}) = snd ` timers q - {snd e}"
    using e inj_on_image_set_diff[OF snd_inj[OF inv], of "timers q" "{e}"] by simp
  then have "active_of ((tq_heap q)(snd e := None)) ` (timers q - {e}) = active_of (tq_heap q) ` (timers q - {e})"
    by (intro active_of_upd) simp
  also have "\<dots> = activeTimers q - {active_of (tq_heap q) e}"
    using e inj_on_image_set_diff[OF active_of_inj[OF inv], of "timers q" "{e}"] tq_invD(3)[OF inv] by simp
  finally have act: "active_of ((tq_heap q)(snd e := None)) ` (timers q - {e}) =
    activeTimers q - {active_of (tq_heap q) e}" .
  have "snd e \<notin> E \<union> P" using e tq_invD(5)[OF inv] by blast
  then have dom: "dom ((tq_heap q)(snd e := None)) = snd ` (timers q - {e}) \<union> E \<union> P"
    using img tq_invD(4)[OF inv] by auto
  have live: "\<exists>t. ((tq_heap q)(snd e := None)) (snd x) = Some t \<and> expiration t = fst x"
    if "x \<in> timers q - {e}" for x
  proof -
    have "snd x \<noteq> snd e" using that img by (metis DiffE imageI singletonI)
    then show ?thesis using that tq_invD(2)[OF inv, of "fst x" "snd x"] by simp
  qed
  show ?thesis
    unfolding tq_inv_def
    using tq_invD(1,6)[OF inv] tq_invD(5)[OF inv] tq_invD(7,8)[OF inv] img dom live act
    by (simp add: Int_Un_distrib) blast
qed

lemma cancelInLoop_ok:
  assumes inv: "tq_inv E P q"
  shows "\<exists>q'. cancelInLoop (tq_pid q) i q = Inr q' \<and> tq_inv E P q' \<and> tq_frame E q q' \<and>
           (let av = (id_timer i, to_int32 (id_sequence i)) in
            timers q' = {e \<in> timers q. active_of (tq_heap q) e \<noteq> av} \<and>
            cancelingTimers q' = (if callingExpiredTimers q \<and> av \<notin> activeTimers q
              then insert av (cancelingTimers q) else cancelingTimers q)) \<and>
           (\<forall>b. armed_upto b q \<longrightarrow> armed_upto b q')"
proof -
  define av where "av = (id_timer i, to_int32 (id_sequence i))"
  note c = tq_inv_card[OF inv]
  show ?thesis
  proof (cases "av \<in> activeTimers q")
    case True
    then obtain e where e: "e \<in> timers q" "av = active_of (tq_heap q) e"
      using tq_invD(3)[OF inv] by auto
    have f: "fst av = snd e" using e(2) by (simp add: active_of_def)
    obtain t0 where "tq_heap q (snd e) = Some t0 \<and> expiration t0 = fst e"
      using tq_invD(2)[OF inv, of "fst e" "snd e"] e(1) by fastforce
    with f obtain t where t: "tq_heap q (fst av) = Some t" "(expiration t, fst av) = e" "snd e = fst av"
      by (metis prod.collapse)
    let ?q = "q\<lparr>timers := timers q - {e}, tq_heap := (tq_heap q)(snd e := None),
                activeTimers := activeTimers q - {active_of (tq_heap q) e}\<rparr>"
    note inv' = tq_inv_remove[OF inv e(1)]
    have "cancelInLoop (tq_pid q) i q = Inr ?q"
      using True e(1) c tq_inv_card[OF inv'] unfolding cancelInLoop_def av_def[symmetric]
      by (simp add: Let_def delete_timer_def t flip: e(2))
    moreover have "{x \<in> timers q. active_of (tq_heap q) x \<noteq> av} = timers q - {e}"
      using e active_of_inj[OF inv] by (auto dest: inj_onD)
    moreover have "snd e \<notin> E" using e tq_invD(5)[OF inv] by blast
    ultimately show ?thesis using inv' True
      by (intro exI[of _ ?q]) (auto simp: tq_frame_def armed_upto_def armed_for_def simp flip: av_def)
  next
    case False
    then have "{x \<in> timers q. active_of (tq_heap q) x \<noteq> av} = timers q"
      using tq_invD(3)[OF inv] by auto
    moreover have "tq_inv E P (q\<lparr>cancelingTimers := C\<rparr>)" for C by (rule tq_inv_cong[OF inv]) auto
    ultimately show ?thesis
      using False c inv unfolding cancelInLoop_def av_def[symmetric]
      by (auto simp: Let_def tq_frame_def armed_upto_def armed_for_def)
  qed
qed

lemma exec_op_ok:
  assumes inv: "tq_inv E P q" and al: "good_alloc alloc"
  shows "exec_op (tq_pid q) alloc op q = Inl bad_alloc \<or>
    (\<exists>q'. exec_op (tq_pid q) alloc op q = Inr q' \<and> tq_inv E P q' \<and> tq_frame E q q' \<and>
       (\<forall>b. armed_upto b q \<longrightarrow> armed_upto b q'))"
proof (cases op)
  case (Op_add cb w ival)
  then show ?thesis using addTimer_ok[OF inv al, of cb w ival] by auto
next
  case (Op_cancel i)
  then show ?thesis using cancelInLoop_ok[OF inv, of i] by auto
next
  case (Op_elapse d)
  let ?q = "q\<lparr>tq_clock := tq_clock q + int d\<rparr>"
  have "tq_inv E P ?q" by (rule tq_inv_cong[OF inv]) auto
  then show ?thesis
    using Op_elapse by (fastforce simp: tq_frame_def armed_upto_def armed_for_def)
qed

section \<open>Expiration\<close>

definition due :: "timestamp \<Rightarrow> timer_queue \<Rightarrow> entry set" where
  "due now q = {e \<in> timers q. fst e \<le> now}"

lemma erase_active_fold:
  assumes "set es \<subseteq> T" "distinct es" "inj_on (active_of (tq_heap q)) T"
    and "\<forall>e \<in> T. tq_heap q (snd e) \<noteq> None" "activeTimers q = active_of (tq_heap q) ` T"
  shows "res_fold erase_active es q = Inr (q\<lparr>activeTimers := active_of (tq_heap q) ` (T - set es)\<rparr>)"
  using assms
proof (induction es arbitrary: T q)
  case Nil
  then show ?case by simp
next
  case (Cons e es)
  then obtain t where t: "tq_heap q (snd e) = Some t" by fastforce
  let ?q = "q\<lparr>activeTimers := active_of (tq_heap q) ` (T - {e})\<rparr>"
  have "activeTimers q - {active_of (tq_heap q) e} = active_of (tq_heap q) ` (T - {e})"
    using Cons.prems inj_on_image_set_diff[of "active_of (tq_heap q)" T T "{e}"] by auto
  moreover have "active_of (tq_heap q) e \<in> activeTimers q" using Cons.prems by auto
  ultimately have "erase_active e q = Inr ?q"
    using t by (simp add: erase_active_def active_of_def Let_def)
  moreover have "res_fold erase_active es ?q = Inr (?q\<lparr>activeTimers := active_of (tq_heap ?q) ` (T - {e} - set es)\<rparr>)"
    using Cons.prems by (intro Cons.IH) (auto intro: inj_on_subset)
  ultimately show ?case by (simp add: Diff_insert2[symmetric] Diff_insert[symmetric])
qed

lemma before_sentry:
  assumes "tq_inv E P q" "e \<in> timers q"
  shows "e < (now, UINTPTR_MAX) \<longleftrightarrow> fst e \<le> now"
proof -
  have "snd e < UINTPTR_MAX"
    using tq_invD(2)[OF assms(1), of "fst e" "snd e"] tq_invD(7)[OF assms(1)] assms(2) by fastforce
  then show ?thesis by (auto simp: less_prod_def' )
qed

lemma getExpired_eq:
  fixes now :: timestamp
  assumes inv: "tq_inv {} P q"
  defines "q' \<equiv> q\<lparr>expired := sorted_list_of_set (due now q), timers := timers q - due now q,
                  activeTimers := active_of (tq_heap q) ` (timers q - due now q)\<rparr>"
  shows "getExpired now q = Inr q'" and "tq_inv (snd ` due now q) P q'"
proof -
  have fin: "finite (due now q)" using tq_invD(1)[OF inv] by (simp add: due_def)
  have sub: "due now q \<subseteq> timers q" by (auto simp: due_def)
  have sets: "{e \<in> timers q. e < (now, UINTPTR_MAX)} = due now q"
    "{e \<in> timers q. \<not> e < (now, UINTPTR_MAX)} = timers q - due now q"
    using before_sentry[OF inv] by (auto simp: due_def)
  have inj: "snd ` (timers q - due now q) = snd ` timers q - snd ` due now q"
    using inj_on_image_set_diff[OF snd_inj[OF inv] Diff_subset sub] .
  show inv': "tq_inv (snd ` due now q) P q'"
  proof (rule tq_invI)
    show "\<exists>t. tq_heap q' (snd e) = Some t \<and> expiration t = fst e" if "e \<in> timers q'" for e
      using that tq_invD(2)[OF inv, of "fst e" "snd e"] by (simp add: q'_def)
    show "dom (tq_heap q') = snd ` timers q' \<union> snd ` due now q \<union> P"
      using tq_invD(4)[OF inv] sub by (auto simp: q'_def inj)
    show "snd ` timers q' \<inter> (snd ` due now q \<union> P) = {}" "snd ` due now q \<inter> P = {}"
      using tq_invD(5)[OF inv] sub by (auto simp: q'_def inj)
  qed (use tq_invD(1,7,8)[OF inv] in \<open>auto simp: q'_def\<close>)
  let ?q1 = "q\<lparr>expired := sorted_list_of_set (due now q), timers := timers q - due now q\<rparr>"
  have fold: "res_fold erase_active (sorted_list_of_set (due now q)) ?q1 = Inr q'"
    using erase_active_fold[of "sorted_list_of_set (due now q)" "timers q" ?q1] tq_invD(2,3)[OF inv]
      active_of_inj[OF inv] fin sub by (fastforce simp: q'_def)
  have "now < fst e" if "e \<in> timers q - due now q" for e using that by (auto simp: due_def)
  then have "timers q - due now q = {} \<or> now < fst (Min (timers q - due now q))"
    using Min_in[of "timers q - due now q"] tq_invD(1)[OF inv] by blast
  then show "getExpired now q = Inr q'"
    using tq_inv_card[OF inv] tq_inv_card[OF inv'] fold
    unfolding getExpired_def Let_def sets timestamp_less_def by simp
qed

text \<open>The callbacks: every operation keeps the timers that wait in \<^verbatim>\<open>expired_\<close>.\<close>

lemma tq_frame_trans: "tq_frame E q1 q2 \<Longrightarrow> tq_frame E q2 q3 \<Longrightarrow> tq_frame E q1 q3"
  by (auto simp: tq_frame_def)

lemma tq_frame_refl: "tq_frame E q q"
  by (simp add: tq_frame_def)

lemma exec_ops_ok:
  assumes inv: "tq_inv E P q" and al: "good_alloc alloc"
  shows "res_fold (exec_op (tq_pid q) alloc) ops q = Inl bad_alloc \<or>
    (\<exists>q'. res_fold (exec_op (tq_pid q) alloc) ops q = Inr q' \<and> tq_inv E P q' \<and> tq_frame E q q' \<and>
       (\<forall>b. armed_upto b q \<longrightarrow> armed_upto b q'))"
proof (rule res_fold_invariant_or)
  show "tq_inv E P q \<and> tq_frame E q q \<and> (\<forall>b. armed_upto b q \<longrightarrow> armed_upto b q)"
    using inv by (simp add: tq_frame_refl)
next
  fix op q1
  assume q1: "tq_inv E P q1 \<and> tq_frame E q q1 \<and> (\<forall>b. armed_upto b q \<longrightarrow> armed_upto b q1)"
  then have "tq_pid q = tq_pid q1" by (simp add: tq_frame_def)
  then show "exec_op (tq_pid q) alloc op q1 = Inl bad_alloc \<or>
    (\<exists>q'. exec_op (tq_pid q) alloc op q1 = Inr q' \<and> tq_inv E P q' \<and> tq_frame E q q' \<and>
       (\<forall>b. armed_upto b q \<longrightarrow> armed_upto b q'))"
    using exec_op_ok[of E P q1 alloc op] q1 al tq_frame_trans by metis
qed

definition callback_at :: "timer_queue \<Rightarrow> entry \<Rightarrow> nat" where
  "callback_at q e = tcallback (the (tq_heap q (snd e)))"

lemma run_expired_ok:
  assumes "tq_inv E P q" "good_alloc alloc" "snd ` set es \<subseteq> E"
  shows "res_fold (\<lambda>e q'. deref (snd e) q' (\<lambda>t. Timer_run (tq_pid q) alloc beh t q')) es q = Inl bad_alloc \<or>
    (\<exists>q'. res_fold (\<lambda>e q'. deref (snd e) q' (\<lambda>t. Timer_run (tq_pid q) alloc beh t q')) es q = Inr q' \<and>
       tq_inv E P q' \<and> tq_frame E (q\<lparr>tq_fired := tq_fired q @ map (callback_at q) es\<rparr>) q' \<and>
       (\<forall>b. armed_upto b q \<longrightarrow> armed_upto b q'))"
  using assms
proof (induction es arbitrary: q)
  case Nil
  then show ?case by (simp add: tq_frame_refl)
next
  case (Cons e es)
  have "snd e \<in> dom (tq_heap q)" using tq_invD(4)[OF Cons.prems(1)] Cons.prems(3) by auto
  then obtain t where t: "tq_heap q (snd e) = Some t" by blast
  let ?q = "q\<lparr>tq_fired := tq_fired q @ [tcallback t]\<rparr>"
  have inv: "tq_inv E P ?q" by (rule tq_inv_cong[OF Cons.prems(1)]) auto
  have arm: "armed_upto b ?q = armed_upto b q" for b by (simp add: armed_upto_def armed_for_def)
  consider "Timer_run (tq_pid q) alloc beh t q = Inl bad_alloc"
    | q1 where "Timer_run (tq_pid q) alloc beh t q = Inr q1" "tq_inv E P q1" "tq_frame E ?q q1"
        "\<forall>b. armed_upto b q \<longrightarrow> armed_upto b q1"
    using exec_ops_ok[OF inv Cons.prems(2), of "beh (tcallback t) q"] by (auto simp: Timer_run_def arm)
  then show ?case
  proof cases
    case 1
    then show ?thesis using t by simp
  next
    case 2
    have "map (callback_at q1) es = map (callback_at q) es"
      using 2(3) Cons.prems(3) by (auto simp: callback_at_def tq_frame_def)
    moreover have "tq_pid q1 = tq_pid q" using 2(3) by (simp add: tq_frame_def)
    moreover have "callback_at q e = tcallback t" using t by (simp add: callback_at_def)
    ultimately show ?thesis
      using Cons.IH[OF 2(2) Cons.prems(2)] Cons.prems(3) t 2 by (auto simp: tq_frame_def)
  qed
qed

section \<open>Restarting and arming\<close>

text \<open>An expired timer is kept when it repeats and was not cancelled by a callback.\<close>

definition kept :: "timer_queue \<Rightarrow> active_timer set \<Rightarrow> entry \<Rightarrow> bool" where
  "kept q canceled e =
     (let t = the (tq_heap q (snd e)) in repeat t \<and> (snd e, to_int32 (sequence t)) \<notin> canceled)"

definition renewed :: "timestamp \<Rightarrow> timer_queue \<Rightarrow> entry \<Rightarrow> entry" where
  "renewed now q e = (addTime now (interval (the (tq_heap q (snd e)))), snd e)"

definition after_reset :: "timestamp \<Rightarrow> timer_queue \<Rightarrow> active_timer set \<Rightarrow> entry \<Rightarrow> timer option" where
  "after_reset now q canceled e =
     (if kept q canceled e
      then Some ((the (tq_heap q (snd e)))\<lparr>expiration := fst (renewed now q e)\<rparr>) else None)"

lemma reset_one_ok:
  assumes inv: "tq_inv E P q" and a: "snd e \<in> E"
  shows "\<exists>q'. reset_one (tq_pid q) now e q = Inr q' \<and> tq_inv (E - {snd e}) P q' \<and>
    tq_heap q' = (tq_heap q)(snd e := after_reset now q (cancelingTimers q) e) \<and>
    timers q' = timers q \<union> (if kept q (cancelingTimers q) e then {renewed now q e} else {}) \<and>
    q'\<lparr>tq_heap := tq_heap q, timers := timers q, activeTimers := activeTimers q\<rparr> = q"
proof -
  have "snd e \<in> dom (tq_heap q)" using tq_invD(4)[OF inv] a by auto
  then obtain t where t: "tq_heap q (snd e) = Some t" by blast
  have P: "P - {snd e} = P" using tq_invD(6)[OF inv] a by blast
  show ?thesis
  proof (cases "kept q (cancelingTimers q) e")
    case True
    let ?q1 = "q\<lparr>tq_heap := (tq_heap q)(snd e \<mapsto> Timer_restart now t)\<rparr>"
    have inv1: "tq_inv E P ?q1" by (rule tq_inv_restart[OF inv a t])
    have a1: "snd e \<in> E \<union> P" "tq_heap ?q1 (snd e) = Some (Timer_restart now t)" using a by auto
    show ?thesis
      using True t tq_insert_ok[OF inv1 a1] tq_inv_insert[OF inv1 a1]
      by (auto simp: reset_one_def kept_def after_reset_def renewed_def Timer_restart_def P)
  next
    case False
    then show ?thesis
      using t tq_inv_delete[OF inv a]
      by (auto simp: reset_one_def kept_def after_reset_def delete_timer_def)
  qed
qed

lemma reset_fold_ok:
  assumes "tq_inv (snd ` set es) P q" "distinct (map snd es)"
  shows "\<exists>q'. res_fold (reset_one (tq_pid q) now) es q = Inr q' \<and> tq_inv {} P q' \<and>
    (\<forall>e \<in> set es. tq_heap q' (snd e) = after_reset now q (cancelingTimers q) e) \<and>
    (\<forall>a. a \<notin> snd ` set es \<longrightarrow> tq_heap q' a = tq_heap q a) \<and>
    timers q' = timers q \<union> renewed now q ` {e \<in> set es. kept q (cancelingTimers q) e} \<and>
    q'\<lparr>tq_heap := tq_heap q, timers := timers q, activeTimers := activeTimers q\<rparr> = q"
  using assms
proof (induction es arbitrary: q)
  case Nil
  then show ?case by simp
next
  case (Cons e es)
  let ?C = "cancelingTimers q"
  obtain q1 where q1: "reset_one (tq_pid q) now e q = Inr q1" "tq_inv (snd ` set (e # es) - {snd e}) P q1"
    "tq_heap q1 = (tq_heap q)(snd e := after_reset now q ?C e)"
    "timers q1 = timers q \<union> (if kept q ?C e then {renewed now q e} else {})"
    "q1\<lparr>tq_heap := tq_heap q, timers := timers q, activeTimers := activeTimers q\<rparr> = q"
    using reset_one_ok[OF Cons.prems(1), of e] by auto
  have pid: "tq_pid q1 = tq_pid q" "cancelingTimers q1 = ?C" using q1(5) by (metis timer_queue.surjective timer_queue.simps)+
  have inv1: "tq_inv (snd ` set es) P q1" using q1(2) Cons.prems(2) by simp
  have same: "snd x \<noteq> snd e" if "x \<in> set es" for x using that Cons.prems(2) by (metis distinct.simps(2) image_eqI list.set_map list.simps(9))
  then have ren: "renewed now q1 x = renewed now q x" "kept q1 C x = kept q C x"
    "after_reset now q1 C x = after_reset now q C x" if "x \<in> set es" for x C
    using that q1(3) by (simp_all add: renewed_def kept_def after_reset_def)
  have img: "renewed now q1 ` {x \<in> set es. kept q1 C x} = renewed now q ` {x \<in> set es. kept q C x}" for C
    using ren by (intro image_cong) auto
  obtain q' where q': "res_fold (reset_one (tq_pid q1) now) es q1 = Inr q'" "tq_inv {} P q'"
    "\<forall>x \<in> set es. tq_heap q' (snd x) = after_reset now q ?C x"
    "\<forall>a. a \<notin> snd ` set es \<longrightarrow> tq_heap q' a = tq_heap q1 a"
    "timers q' = timers q1 \<union> renewed now q ` {x \<in> set es. kept q ?C x}"
    "q'\<lparr>tq_heap := tq_heap q1, timers := timers q1, activeTimers := activeTimers q1\<rparr> = q1"
    using Cons.IH[OF inv1] Cons.prems(2) ren(3) img pid(2) by auto
  have "q'\<lparr>tq_heap := tq_heap q, timers := timers q, activeTimers := activeTimers q\<rparr> =
     (q'\<lparr>tq_heap := tq_heap q1, timers := timers q1, activeTimers := activeTimers q1\<rparr>)
       \<lparr>tq_heap := tq_heap q, timers := timers q, activeTimers := activeTimers q\<rparr>" by simp
  also have "\<dots> = q" unfolding q'(6) q1(5) ..
  finally have "q'\<lparr>tq_heap := tq_heap q, timers := timers q, activeTimers := activeTimers q\<rparr> = q" .
  moreover have "tq_heap q' (snd e) = after_reset now q ?C e"
    using q'(4) q1(3) Cons.prems(2) by simp
  ultimately show ?case
    using q1 q' same pid by (intro exI[of _ q']) auto
qed

text \<open>The earliest timer.\<close>

lemma earliest_timer:
  assumes "tq_inv E P q" "timers q \<noteq> {}"
  shows "Min (timers q) \<in> timers q" "\<And>e. e \<in> timers q \<Longrightarrow> fst (Min (timers q)) \<le> fst e"
    "\<exists>t. tq_heap q (snd (Min (timers q))) = Some t \<and> expiration t = fst (Min (timers q))"
proof -
  show m: "Min (timers q) \<in> timers q" using assms(2) tq_invD(1)[OF assms(1)] by simp
  show "fst (Min (timers q)) \<le> fst e" if "e \<in> timers q" for e
    using Min_le[OF tq_invD(1)[OF assms(1)] that] by (auto simp: less_eq_prod_def)
  show "\<exists>t. tq_heap q (snd (Min (timers q))) = Some t \<and> expiration t = fst (Min (timers q))"
    using tq_invD(2)[OF assms(1), of "fst (Min (timers q))" "snd (Min (timers q))"] m by auto
qed

text \<open>A timer that is renewed is not due before \<open>now\<close>, so that an invalid time is that of an old timer.\<close>

lemma renewed_not_before:
  assumes "tq_inv E P q" "E = snd ` set (expired q)" "kept q C x" "x \<in> set (expired q)"
  shows "now \<le> fst (renewed now q x)"
proof -
  have "snd x \<in> dom (tq_heap q)" using tq_invD(4)[OF assms(1)] assms(2,4) by auto
  then show ?thesis using assms(3) tq_invD(8)[OF assms(1)] by (auto simp: kept_def renewed_def intro!: addTime_ge)
qed

text \<open>The descriptor is set for the earliest timer, at the earliest 100 microseconds from now; a time of 0 is not set.\<close>

definition armed_earliest :: "timer_queue \<Rightarrow> bool" where
  "armed_earliest q \<longleftrightarrow> (timers q \<noteq> {} \<and> 0 < fst (Min (timers q)) \<longrightarrow> tq_armed q = Some (max (fst (Min (timers q))) (tq_clock q + 100)))"

text \<open>The end of \<open>reset\<close>: after the expired timers are renewed, the descriptor is armed for the earliest timer.\<close>

lemma reset_arms:
  assumes fold: "res_fold (reset_one (tq_pid q) now) (expired q) q = Inr q1" and inv: "tq_inv {} P q1"
    and old: "\<And>e. 0 < now \<Longrightarrow> armed_upto 0 q \<Longrightarrow> e \<in> timers q1 \<Longrightarrow> \<not> valid (fst e) \<Longrightarrow> armed_for q1 (fst e)"
  shows "\<exists>a q'. q' = q1\<lparr>tq_armed := a\<rparr> \<and> tq_reset (tq_pid q) now q = Inr q' \<and> armed_earliest q' \<and>
    (0 < now \<and> armed_upto 0 q \<longrightarrow> (\<forall>e \<in> timers q'. armed_for q' (fst e)))"
proof (cases "timers q1 = {}")
  case True
  then have "tq_reset (tq_pid q) now q = Inr q1" using fold by (simp add: tq_reset_def valid_def invalid_def)
  then show ?thesis using True by (intro exI[of _ "tq_armed q1"] exI[of _ q1]) (simp add: armed_earliest_def)
next
  case False
  let ?m = "Min (timers q1)"
  note m = earliest_timer[OF inv False]
  obtain t where t: "tq_heap q1 (snd ?m) = Some t" "expiration t = fst ?m" using m(3) by blast
  show ?thesis
  proof (cases "valid (fst ?m)")
    case True
    let ?a = "Some (max (fst ?m) (tq_clock q1 + 100))"
    have "tq_reset (tq_pid q) now q = Inr (q1\<lparr>tq_armed := ?a\<rparr>)" using True False fold t by (simp add: tq_reset_def resetTimerfd_eq)
    moreover have "armed_for (q1\<lparr>tq_armed := ?a\<rparr>) (fst e)" if "e \<in> timers q1" for e
      using m(2)[OF that] by (auto simp: armed_for_def max_def)
    ultimately show ?thesis by (intro exI[of _ ?a] exI[of _ "q1\<lparr>tq_armed := ?a\<rparr>"]) (simp add: armed_earliest_def)
  next
    case invalid: False
    have "tq_reset (tq_pid q) now q = Inr q1" using invalid False fold t by (simp add: tq_reset_def)
    moreover have "armed_for q1 (fst e)" if "0 < now" "armed_upto 0 q" "e \<in> timers q1" for e
      using armed_for_mono[OF old[OF that(1,2) m(1) invalid] m(2)[OF that(3)]] .
    ultimately show ?thesis using invalid by (intro exI[of _ "tq_armed q1"] exI[of _ q1]) (simp add: armed_earliest_def valid_def)
  qed
qed

lemma tq_reset_ok:
  fixes now :: timestamp
  assumes inv: "tq_inv (snd ` set (expired q)) P q" and d: "distinct (map snd (expired q))"
  shows "\<exists>q'. tq_reset (tq_pid q) now q = Inr q' \<and> tq_inv {} P q' \<and>
    (\<forall>e \<in> set (expired q). tq_heap q' (snd e) = after_reset now q (cancelingTimers q) e) \<and>
    (\<forall>a. a \<notin> snd ` set (expired q) \<longrightarrow> tq_heap q' a = tq_heap q a) \<and>
    timers q' = timers q \<union> renewed now q ` {e \<in> set (expired q). kept q (cancelingTimers q) e} \<and>
    cancelingTimers q' = cancelingTimers q \<and> tq_fired q' = tq_fired q \<and> tq_pid q' = tq_pid q \<and>
    tq_clock q' = tq_clock q \<and> armed_earliest q' \<and>
    (0 < now \<and> armed_upto 0 q \<longrightarrow> (\<forall>e \<in> timers q'. armed_for q' (fst e)))"
proof -
  obtain q1 where q1: "res_fold (reset_one (tq_pid q) now) (expired q) q = Inr q1" "tq_inv {} P q1"
    "\<forall>e \<in> set (expired q). tq_heap q1 (snd e) = after_reset now q (cancelingTimers q) e"
    "\<forall>a. a \<notin> snd ` set (expired q) \<longrightarrow> tq_heap q1 a = tq_heap q a"
    "timers q1 = timers q \<union> renewed now q ` {e \<in> set (expired q). kept q (cancelingTimers q) e}"
    "q1\<lparr>tq_heap := tq_heap q, timers := timers q, activeTimers := activeTimers q\<rparr> = q"
    using reset_fold_ok[OF inv d] by blast
  have same: "cancelingTimers q1 = cancelingTimers q" "tq_fired q1 = tq_fired q" "tq_pid q1 = tq_pid q"
    "tq_clock q1 = tq_clock q" "tq_armed q1 = tq_armed q"
    using q1(6) by (metis timer_queue.surjective timer_queue.simps)+
  have "armed_for q1 (fst e)" if "0 < now" "armed_upto 0 q" "e \<in> timers q1" "\<not> valid (fst e)" for e
  proof -
    have "now \<le> fst (renewed now q x)" if "x \<in> set (expired q)" "kept q (cancelingTimers q) x" for x
      using renewed_not_before[OF inv refl that(2,1)] .
    then have "e \<in> timers q" using that q1(5) by (fastforce simp: valid_def)
    then have "armed_for q (fst e)" using that by (simp add: armed_upto_def valid_def)
    then show ?thesis using same by (simp add: armed_for_def)
  qed
  from reset_arms[OF q1(1,2) this] obtain a q' where q': "q' = q1\<lparr>tq_armed := a\<rparr>" "tq_reset (tq_pid q) now q = Inr q'" "armed_earliest q'"
    "0 < now \<and> armed_upto 0 q \<longrightarrow> (\<forall>e \<in> timers q'. armed_for q' (fst e))" by blast
  moreover have "tq_inv {} P q'" unfolding q'(1) by (rule tq_inv_cong[OF q1(2)]) auto
  ultimately show ?thesis using q1 same by (intro exI[of _ q']) simp
qed

lemma sorted_due:
  assumes "tq_inv E P q"
  shows "set (sorted_list_of_set (due now q)) = due now q"
    and "distinct (map snd (sorted_list_of_set (due now q)))"
proof -
  have fin: "finite (due now q)" using tq_invD(1)[OF assms] by (simp add: due_def)
  then show s: "set (sorted_list_of_set (due now q)) = due now q" by simp
  have "inj_on snd (due now q)" by (rule inj_on_subset[OF snd_inj[OF assms]]) (auto simp: due_def)
  then show "distinct (map snd (sorted_list_of_set (due now q)))"
    using fin by (simp add: distinct_map)
qed

text \<open>The first half of \<open>handleRead\<close>: the due timers are taken out, and what is left to do with them.\<close>

lemma handleRead_start:
  assumes inv: "tq_inv {} P q"
  shows "\<exists>q2. TimerQueue_handleRead (tq_pid q) alloc beh prt q =
      res_bind (res_fold (\<lambda>e q. deref (snd e) q (\<lambda>t. Timer_run (tq_pid q2) alloc beh t q)) (sorted_list_of_set (due prt q)) q2) (\<lambda>q3.
        tq_reset (tq_pid q) (tq_clock q) (q3\<lparr>callingExpiredTimers := False\<rparr>)) \<and>
    tq_inv (snd ` due prt q) P q2 \<and> tq_pid q2 = tq_pid q \<and> expired q2 = sorted_list_of_set (due prt q) \<and> tq_fired q2 = tq_fired q \<and>
    tq_heap q2 = tq_heap q \<and> tq_clock q2 = tq_clock q \<and> (0 \<le> prt \<longrightarrow> armed_upto 0 q2)"
proof -
  define r where "r = readTimerfd q"
  have r: "tq_heap r = tq_heap q" "timers r = timers q" "tq_fired r = tq_fired q" "tq_pid r = tq_pid q"
    "tq_clock r = tq_clock q" "activeTimers r = activeTimers q" "due prt r = due prt q"
    by (auto simp: r_def readTimerfd_def due_def split: option.split)
  have invr: "tq_inv {} P r" using tq_inv_cong[OF inv] r by simp
  let ?q1 = "r\<lparr>expired := sorted_list_of_set (due prt q), timers := timers r - due prt r,
               activeTimers := active_of (tq_heap r) ` (timers r - due prt r)\<rparr>"
  note g = getExpired_eq[OF invr, of prt, unfolded r(7)]
  define q2 where "q2 = ?q1\<lparr>callingExpiredTimers := True, cancelingTimers := {}\<rparr>"
  have "tq_inv (snd ` due prt q) P q2" unfolding q2_def using tq_inv_cong[OF g(2)] by (simp add: r)
  moreover have q2: "tq_pid q2 = tq_pid q" "expired q2 = sorted_list_of_set (due prt q)" "tq_fired q2 = tq_fired q" "tq_heap q2 = tq_heap q"
    "tq_clock q2 = tq_clock q" by (simp_all add: q2_def r)
  moreover have "TimerQueue_handleRead (tq_pid q) alloc beh prt q =
    res_bind (res_fold (\<lambda>e q. deref (snd e) q (\<lambda>t. Timer_run (tq_pid q2) alloc beh t q)) (sorted_list_of_set (due prt q)) q2) (\<lambda>q3.
      tq_reset (tq_pid q) (tq_clock q) (q3\<lparr>callingExpiredTimers := False\<rparr>))"
    using g(1) by (simp add: TimerQueue_handleRead_def q2(1) r flip: r_def) (simp add: q2_def r)
  moreover have "armed_upto 0 q2" if "0 \<le> prt" using that by (auto simp: armed_upto_def q2_def r due_def)
  ultimately show ?thesis by (intro exI[of _ q2]) simp
qed

lemma handleRead_ok:
  assumes inv: "tq_inv {} P q" and al: "good_alloc alloc"
  shows "TimerQueue_handleRead (tq_pid q) alloc beh prt q = Inl bad_alloc \<or>
   (\<exists>q'. TimerQueue_handleRead (tq_pid q) alloc beh prt q = Inr q' \<and> tq_inv {} P q' \<and>
      tq_fired q' = tq_fired q @ map (callback_at q) (sorted_list_of_set (due prt q)) \<and>
      (\<forall>e \<in> due prt q. tq_heap q' (snd e) = after_reset (tq_clock q) q (cancelingTimers q') e) \<and>
      tq_pid q' = tq_pid q \<and> tq_clock q \<le> tq_clock q' \<and> armed_earliest q' \<and>
      (0 \<le> prt \<and> 0 < tq_clock q \<longrightarrow> (\<forall>e \<in> timers q'. armed_for q' (fst e))))"
proof -
  let ?E = "snd ` due prt q"
  let ?es = "sorted_list_of_set (due prt q)"
  obtain q2 where H: "TimerQueue_handleRead (tq_pid q) alloc beh prt q =
      res_bind (res_fold (\<lambda>e q. deref (snd e) q (\<lambda>t. Timer_run (tq_pid q2) alloc beh t q)) ?es q2) (\<lambda>q3.
        tq_reset (tq_pid q) (tq_clock q) (q3\<lparr>callingExpiredTimers := False\<rparr>))"
    and inv2: "tq_inv ?E P q2" and q2: "tq_pid q2 = tq_pid q" "expired q2 = ?es" "tq_fired q2 = tq_fired q" "tq_heap q2 = tq_heap q"
      "tq_clock q2 = tq_clock q" "0 \<le> prt \<longrightarrow> armed_upto 0 q2" using handleRead_start[OF inv] by blast
  have Es: "snd ` set ?es \<subseteq> ?E" using sorted_due[OF inv] by simp
  consider "res_fold (\<lambda>e q. deref (snd e) q (\<lambda>t. Timer_run (tq_pid q2) alloc beh t q)) ?es q2 = Inl bad_alloc"
    | q3 where "res_fold (\<lambda>e q. deref (snd e) q (\<lambda>t. Timer_run (tq_pid q2) alloc beh t q)) ?es q2 = Inr q3"
       "tq_inv ?E P q3" "tq_frame ?E (q2\<lparr>tq_fired := tq_fired q2 @ map (callback_at q2) ?es\<rparr>) q3"
       "\<forall>b. armed_upto b q2 \<longrightarrow> armed_upto b q3"
    using run_expired_ok[OF inv2 al Es] by blast
  then show ?thesis
  proof cases
    case 1
    then show ?thesis by (simp add: H)
  next
    case 2
    define q4 where "q4 = q3\<lparr>callingExpiredTimers := False\<rparr>"
    have f: "expired q4 = ?es" "tq_pid q4 = tq_pid q" "tq_clock q \<le> tq_clock q4"
      "tq_fired q4 = tq_fired q @ map (callback_at q) ?es" "\<And>a. a \<in> ?E \<Longrightarrow> tq_heap q4 a = tq_heap q a"
      using 2(3) q2 by (auto simp: tq_frame_def q4_def callback_at_def)
    have inv4: "tq_inv (snd ` set (expired q4)) P q4"
      using tq_inv_cong[OF 2(2), of q4] f(1) sorted_due(1)[OF inv] by (simp add: q4_def)
    have d4: "distinct (map snd (expired q4))" using f(1) sorted_due(2)[OF inv] by simp
    have same: "after_reset n q4 C e = after_reset n q C e" if "e \<in> due prt q" for n C e
      using f(5)[of "snd e"] that by (simp add: after_reset_def kept_def renewed_def)
    have arm: "armed_upto 0 q4" if "0 \<le> prt" using that 2(4) q2(6) by (auto simp: armed_upto_def armed_for_def q4_def)
    show ?thesis
      using tq_reset_ok[OF inv4 d4, of "tq_clock q"] 2(1) f same arm sorted_due(1)[OF inv] by (auto simp: H simp flip: q4_def)
  qed
qed

section \<open>Every run\<close>

definition tq_ok :: "timer_queue \<times> nat list \<Rightarrow> bool" where
  "tq_ok s \<longleftrightarrow> (case s of (q, pending) \<Rightarrow>
     tq_inv {} (set pending) q \<and> distinct pending \<and> 0 < tq_clock q \<and> (\<forall>e \<in> timers q. armed_for q (fst e)))"

lemma armed_all_iff: "(\<forall>e \<in> timers q. armed_for q (fst e)) \<longleftrightarrow> (\<forall>b. armed_upto b q)"
  by (auto simp: armed_upto_def)

text \<open>A timer made by another thread waits, on the heap, for its functor; the functor adds it.\<close>

lemma tq_other_ok:
  assumes ok: "tq_ok (q, pending)" and al: "good_alloc alloc"
  shows "tq_event_step alloc beh (Ev_other cb w ival) (q, pending) = Inl bad_alloc \<or>
    (\<exists>s'. tq_event_step alloc beh (Ev_other cb w ival) (q, pending) = Inr s' \<and> tq_ok s')"
proof (cases "alloc (tq_numCreated q) (tq_heap q)")
  case None
  then show ?thesis by (simp add: new_timer_def)
next
  case (Some a)
  have inv: "tq_inv {} (set pending) q" using ok by (simp add: tq_ok_def)
  from Some have a: "tq_heap q a = None" "a < UINTPTR_MAX" using al by (auto simp: good_alloc_def)
  then have "a \<notin> set pending" using tq_invD(4)[OF inv] by auto
  then show ?thesis
    using Some tq_inv_new[OF inv a] ok by (simp add: new_timer_def AtomicPointer_incrementAndGet_def tq_ok_def armed_for_def)
qed

lemma tq_functor_ok:
  assumes ok: "tq_ok (q, pending)"
  shows "\<exists>s'. tq_event_step alloc beh Ev_functor (q, pending) = Inr s' \<and> tq_ok s'"
proof (cases pending)
  case Nil
  then show ?thesis using ok by simp
next
  case (Cons a pending')
  have inv: "tq_inv {} (set pending) q" and arm: "\<forall>b. armed_upto b q" using ok by (simp_all add: tq_ok_def armed_all_iff)
  have "a \<in> dom (tq_heap q)" using tq_invD(4)[OF inv] Cons by auto
  then obtain t where "tq_heap q a = Some t" by blast
  from addTimerInLoop_ok[OF inv _ this] obtain q' where
    "addTimerInLoop (tq_pid q) a q = Inr q'" "tq_inv {} (set pending - {a}) q'" "tq_frame {} q q'" "\<forall>b. armed_upto b q'"
    using Cons arm by auto
  then show ?thesis using Cons ok by (auto simp: tq_ok_def armed_all_iff tq_frame_def)
qed

lemma tq_event_step_ok:
  assumes ok: "tq_ok s" and al: "good_alloc alloc"
  shows "tq_event_step alloc beh ev s = Inl bad_alloc \<or>
    (\<exists>s'. tq_event_step alloc beh ev s = Inr s' \<and> tq_ok s')"
proof -
  obtain q pending where s: "s = (q, pending)" by (cases s)
  have inv: "tq_inv {} (set pending) q" and d: "distinct pending" and c: "0 < tq_clock q" and arm: "\<forall>b. armed_upto b q"
    using ok by (simp_all add: s tq_ok_def armed_all_iff)
  show ?thesis
  proof (cases ev)
    case (Ev_loop op)
    then show ?thesis
      using exec_op_ok[OF inv al, of op] d c arm by (fastforce simp: s tq_ok_def armed_all_iff tq_frame_def)
  next
    case (Ev_other cb w ival)
    then show ?thesis using tq_other_ok[OF _ al] ok s by simp
  next
    case Ev_functor
    then show ?thesis using tq_functor_ok ok s by blast
  next
    case (Ev_read t)
    then show ?thesis
      using handleRead_ok[OF inv al, of beh "int t"] d c by (fastforce simp: s tq_ok_def)
  qed
qed

text \<open>
  C3: From its construction on, whatever timers are added from the loop's thread or from others,
  cancelled, or expire, and whatever the timer callbacks do with the queue, no assertion of
  \<^verbatim>\<open>TimerQueue.cpp\<close> fails and no deleted timer is touched (the only way to stop is an
  allocation failure); \<^verbatim>\<open>timers_\<close> and \<^verbatim>\<open>activeTimers_\<close> always hold the same live timers, and
  the timer descriptor is always armed early enough for each of them.
\<close>

theorem TimerQueue_runs_safely:
  assumes "good_alloc alloc" "0 \<le> fd" "0 < now"
  shows "\<exists>q0. TimerQueue_ctor pid fd now = Inr q0 \<and>
    (res_fold (tq_event_step alloc beh) evs (q0, []) = Inl bad_alloc \<or>
     (\<exists>q pending. res_fold (tq_event_step alloc beh) evs (q0, []) = Inr (q, pending) \<and>
        tq_inv {} (set pending) q \<and> (\<forall>e \<in> timers q. armed_for q (fst e))))"
proof -
  obtain q0 where q0: "TimerQueue_ctor pid fd now = Inr q0" "tq_ok (q0, [])"
    using assms(2,3) by (auto simp: TimerQueue_ctor_def createTimerfd_def tq_ok_def tq_inv_def)
  have "res_fold (tq_event_step alloc beh) evs (q0, []) = Inl bad_alloc \<or>
    (\<exists>s'. res_fold (tq_event_step alloc beh) evs (q0, []) = Inr s' \<and> tq_ok s')"
    by (rule res_fold_invariant_or) (use q0 tq_event_step_ok assms(1) in blast)+
  with q0 show ?thesis by (fastforce simp: tq_ok_def)
qed

text \<open>The live timers whose functor is not pending are the ones in \<^verbatim>\<open>timers_\<close>, under their time.\<close>

lemma timers_iff_heap:
  assumes "tq_inv {} P q" "a \<notin> P"
  shows "tq_heap q a = None \<Longrightarrow> a \<notin> snd ` timers q" "tq_heap q a = Some t \<Longrightarrow> (expiration t, a) \<in> timers q"
proof -
  show "a \<notin> snd ` timers q" if "tq_heap q a = None" using assms(1) that by (auto simp: tq_inv_def)
  show "(expiration t, a) \<in> timers q" if h: "tq_heap q a = Some t"
  proof -
    have "a \<in> snd ` timers q" using assms h unfolding tq_inv_def by blast
    then obtain e where e: "e \<in> timers q" "snd e = a" by auto
    then show ?thesis using assms(1) h unfolding tq_inv_def by (metis option.inject prod.collapse)
  qed
qed

text \<open>
  C20: When the timer descriptor is readable, \<^verbatim>\<open>handleRead\<close> runs the callback of every timer due
  at the time the poll returned, each exactly once, in the order of their expiration times, and
  no other, unless the memory is exhausted; afterwards a one-shot timer and a timer that a callback cancelled
  meanwhile are deleted and no longer in \<^verbatim>\<open>timers_\<close>, and every other repeating timer is in \<^verbatim>\<open>timers_\<close> again for the
  time of the call plus its interval; and the timer descriptor is set for the earliest timer that is then
  in \<^verbatim>\<open>timers_\<close>, at the earliest 100 microseconds from now, if there is one and its time is valid.
\<close>

theorem handleRead_fires_due_timers:
  assumes "tq_inv {} P q" "good_alloc alloc"
  shows "TimerQueue_handleRead (tq_pid q) alloc beh prt q = Inl bad_alloc \<or> (\<exists>q' es. TimerQueue_handleRead (tq_pid q) alloc beh prt q = Inr q' \<and>
      sorted es \<and> distinct es \<and> set es = {e \<in> timers q. fst e \<le> prt} \<and>
      tq_fired q' = tq_fired q @ map (\<lambda>e. tcallback (the (tq_heap q (snd e)))) es \<and>
      (\<forall>e \<in> set es. \<exists>t. tq_heap q (snd e) = Some t \<and>
         (if repeat t \<and> (snd e, to_int32 (sequence t)) \<notin> cancelingTimers q'
          then tq_heap q' (snd e) = Some (t\<lparr>expiration := addTime (tq_clock q) (interval t)\<rparr>) \<and> (addTime (tq_clock q) (interval t), snd e) \<in> timers q'
          else tq_heap q' (snd e) = None \<and> snd e \<notin> snd ` timers q')) \<and>
      (timers q' \<noteq> {} \<and> 0 < fst (Min (timers q')) \<longrightarrow> tq_armed q' = Some (max (fst (Min (timers q'))) (tq_clock q' + 100))))"
proof (cases "TimerQueue_handleRead (tq_pid q) alloc beh prt q = Inl bad_alloc")
  case True
  then show ?thesis ..
next
  case False
  then obtain q' where q': "TimerQueue_handleRead (tq_pid q) alloc beh prt q = Inr q'" "tq_inv {} P q'"
    "tq_fired q' = tq_fired q @ map (callback_at q) (sorted_list_of_set (due prt q))"
    "\<forall>e \<in> due prt q. tq_heap q' (snd e) = after_reset (tq_clock q) q (cancelingTimers q') e" "armed_earliest q'"
    using handleRead_ok[OF assms(1,2), of beh prt] by blast
  define es where "es = sorted_list_of_set (due prt q)"
  have es: "sorted es" "distinct es" "set es = due prt q"
    using sorted_due(1)[OF assms(1)] by (simp_all add: es_def)
  have "\<exists>t. tq_heap q (snd e) = Some t \<and>
         (if repeat t \<and> (snd e, to_int32 (sequence t)) \<notin> cancelingTimers q'
          then tq_heap q' (snd e) = Some (t\<lparr>expiration := addTime (tq_clock q) (interval t)\<rparr>) \<and> (addTime (tq_clock q) (interval t), snd e) \<in> timers q'
          else tq_heap q' (snd e) = None \<and> snd e \<notin> snd ` timers q')" if e: "e \<in> set es" for e
  proof -
    have d: "e \<in> due prt q" and m: "(fst e, snd e) \<in> timers q" using e es(3) by (auto simp: due_def)
    obtain t where t: "tq_heap q (snd e) = Some t" using tq_invD(2)[OF assms(1) m] by auto
    have p: "snd e \<notin> P" using assms(1) m by (force simp: tq_inv_def)
    have "tq_heap q' (snd e) = (if repeat t \<and> (snd e, to_int32 (sequence t)) \<notin> cancelingTimers q'
        then Some (t\<lparr>expiration := addTime (tq_clock q) (interval t)\<rparr>) else None)"
      using q'(4) d t by (fastforce simp: after_reset_def kept_def renewed_def Let_def)
    moreover note timers_iff_heap[OF q'(2) p]
    ultimately show ?thesis using t by auto
  qed
  then show ?thesis
    using q'(1,3,5) es unfolding callback_at_def es_def[symmetric] due_def[symmetric] armed_earliest_def
    by (intro disjI2 exI[of _ q'] exI[of _ es] conjI) simp_all
qed

text \<open>
  \<^verbatim>\<open>cancelInLoop\<close> removes exactly the timer that the identifier names: every entry with
  another address or another (truncated) sequence number stays, so an identifier of a deleted
  timer does not cancel a new timer at the same address. While callbacks run, an identifier that
  is not active is remembered, so that a repeating timer that cancels itself is not restarted.
\<close>

theorem cancelInLoop_exact:
  assumes "tq_inv E P q"
  shows "\<exists>q'. cancelInLoop (tq_pid q) i q = Inr q' \<and> tq_inv E P q' \<and>
    timers q' = {e \<in> timers q. \<not> (snd e = id_timer i \<and>
        to_int32 (sequence (the (tq_heap q (snd e)))) = to_int32 (id_sequence i))} \<and>
    (callingExpiredTimers q \<and> (id_timer i, to_int32 (id_sequence i)) \<notin> activeTimers q \<longrightarrow>
       (id_timer i, to_int32 (id_sequence i)) \<in> cancelingTimers q')"
  using cancelInLoop_ok[OF assms, of i] by (fastforce simp: active_of_def Let_def)

section \<open>Witnesses\<close>

definition demo_alloc :: allocator where
  "demo_alloc n h = (let a = 8 * nat (n + 1) in if n < 1000 \<and> 0 < a \<and> h a = None then Some a else None)"

lemma good_demo_alloc: "good_alloc demo_alloc"
  by (auto simp: good_alloc_def demo_alloc_def Let_def UINTPTR_MAX_def split: if_splits)

definition demo_timer :: timer where
  "demo_timer = \<lparr>tcallback = 3, expiration = 1000, interval = 2, repeat = True, sequence = 1\<rparr>"

definition demo_queue :: timer_queue where
  "demo_queue = \<lparr>tq_pid = 1, tq_timerfd = 5, tq_heap = [8 \<mapsto> demo_timer], tq_numCreated = 1, timers = {(1000, 8)},
     callingExpiredTimers = False, expired = [], activeTimers = {(8, 1)}, cancelingTimers = {},
     tq_clock = 1500, tq_armed = Some 1000, tq_fired = []\<rparr>"

lemma demo_queue_inv: "tq_inv {} {} demo_queue"
  by (auto simp: tq_inv_def demo_queue_def demo_timer_def active_of_def to_int32_def UINTPTR_MAX_def)

theorem TimerQueue_runs_safely_witness:
  "\<exists>q0. TimerQueue_ctor 1 5 100 = Inr q0 \<and>
    (res_fold (tq_event_step demo_alloc (\<lambda>cb q. [Op_elapse 7])) [Ev_other 1 5 2, Ev_functor, Ev_read 200] (q0, []) = Inl bad_alloc \<or>
     (\<exists>q pending. res_fold (tq_event_step demo_alloc (\<lambda>cb q. [Op_elapse 7])) [Ev_other 1 5 2, Ev_functor, Ev_read 200] (q0, []) = Inr (q, pending) \<and>
        tq_inv {} (set pending) q \<and> (\<forall>e \<in> timers q. armed_for q (fst e))))"
  by (rule TimerQueue_runs_safely[OF good_demo_alloc]) simp_all

lemma demo_queue_simps:
  "tq_pid demo_queue = 1" "tq_heap demo_queue 8 = Some demo_timer" "tq_clock demo_queue = 1500"
  "tq_fired demo_queue = []" "{e \<in> timers demo_queue. fst e \<le> 1200} = {(1000, 8)}"
  "timers demo_queue = {(1000, 8)}" "to_int32 1 = 1"
  by (auto simp: demo_queue_def to_int32_def)

theorem handleRead_fires_due_timers_witness:
  "TimerQueue_handleRead 1 demo_alloc (\<lambda>cb q. [Op_cancel \<lparr>id_timer = 8, id_sequence = 1\<rparr>]) 1200 demo_queue = Inl bad_alloc \<or>
   (\<exists>q'. TimerQueue_handleRead 1 demo_alloc (\<lambda>cb q. [Op_cancel \<lparr>id_timer = 8, id_sequence = 1\<rparr>]) 1200 demo_queue = Inr q' \<and>
      tq_fired q' = [3] \<and>
      (if (8, 1) \<notin> cancelingTimers q' then (addTime 1500 2, 8) \<in> timers q' else 8 \<notin> snd ` timers q') \<and>
      (timers q' \<noteq> {} \<and> 0 < fst (Min (timers q')) \<longrightarrow> tq_armed q' = Some (max (fst (Min (timers q'))) (tq_clock q' + 100))))"
  (is "?f = _ \<or> ?R")
proof -
  have "?R" if ne: "?f \<noteq> Inl bad_alloc"
  proof -
    obtain q' es where r: "?f = Inr q'" "distinct es" "set es = {(1000 :: timestamp, 8 :: nat)}"
      "tq_fired q' = [] @ map (\<lambda>e. tcallback (the (tq_heap demo_queue (snd e)))) es"
      "\<forall>e \<in> set es. \<exists>t. tq_heap demo_queue (snd e) = Some t \<and>
         (if repeat t \<and> (snd e, to_int32 (sequence t)) \<notin> cancelingTimers q'
          then tq_heap q' (snd e) = Some (t\<lparr>expiration := addTime 1500 (interval t)\<rparr>) \<and> (addTime 1500 (interval t), snd e) \<in> timers q'
          else tq_heap q' (snd e) = None \<and> snd e \<notin> snd ` timers q')"
      "timers q' \<noteq> {} \<and> 0 < fst (Min (timers q')) \<longrightarrow> tq_armed q' = Some (max (fst (Min (timers q'))) (tq_clock q' + 100))"
      using handleRead_fires_due_timers[OF demo_queue_inv good_demo_alloc,
        of "\<lambda>cb q. [Op_cancel \<lparr>id_timer = 8, id_sequence = 1\<rparr>]" 1200] ne
      unfolding demo_queue_simps(1,3-5) by blast
    have "length es = 1" using distinct_card[OF r(2)] unfolding r(3) by simp
    then have "es = [(1000, 8)]" using r(3) by (cases es) auto
    then have "tq_fired q' = [3]" using r(4) demo_queue_simps(2) by (simp add: demo_timer_def)
    moreover have "if (8, 1) \<notin> cancelingTimers q' then (addTime 1500 2, 8) \<in> timers q' else 8 \<notin> snd ` timers q'"
      using r(5) demo_queue_simps(2,7) unfolding r(3) by (simp add: demo_timer_def split: if_splits)
    ultimately show ?thesis using r(1,6) by blast
  qed
  then show ?thesis by blast
qed

theorem cancelInLoop_exact_witness:
  "\<exists>q'. cancelInLoop 1 \<lparr>id_timer = 8, id_sequence = 1\<rparr> demo_queue = Inr q' \<and> timers q' = {}"
proof -
  have e: "{e \<in> timers demo_queue. \<not> (snd e = 8 \<and>
        to_int32 (sequence (the (tq_heap demo_queue (snd e)))) = to_int32 1)} = {}"
    unfolding demo_queue_simps(6) by (auto simp: demo_queue_simps(2) demo_timer_def)
  then show ?thesis
    using cancelInLoop_exact[OF demo_queue_inv, of "\<lparr>id_timer = 8, id_sequence = 1\<rparr>"]
    unfolding demo_queue_simps(1) timer_id.select_convs e by blast
qed

end
