(* ===== verification/Channel.thy ===== *)
theory Channel
  imports LogStream LoopThread
begin

unbundle bit_operations_syntax

text \<open>
  A channel (\<^verbatim>\<open>reactor.muduo/Channel.h\<close>, \<^verbatim>\<open>Channel.cpp\<close>): one file descriptor, the events it is
  interested in, the events that happened, and its callbacks. Event masks are 32 bit words, as
  the \<^verbatim>\<open>int\<close>s of the source are. Which callbacks are set is recorded as flags; running one is
  the business of the owner, so \<open>handleEvent\<close> yields the callbacks it invokes, in order.
\<close>

type_synonym events = "32 word"

definition POLLIN :: events where "POLLIN = 0x001"
definition POLLPRI :: events where "POLLPRI = 0x002"
definition POLLOUT :: events where "POLLOUT = 0x004"
definition POLLERR :: events where "POLLERR = 0x008"
definition POLLHUP :: events where "POLLHUP = 0x010"
definition POLLNVAL :: events where "POLLNVAL = 0x020"
definition POLLRDHUP :: events where "POLLRDHUP = 0x2000"

lemmas poll_flags = POLLIN_def POLLPRI_def POLLOUT_def POLLERR_def POLLHUP_def POLLNVAL_def POLLRDHUP_def

definition kReadEvent :: events where "kReadEvent = POLLIN OR POLLPRI"
definition kWriteEvent :: events where "kWriteEvent = POLLOUT"
definition kNoneEvent :: events where "kNoneEvent = 0"

datatype event_call = CloseCallback | ErrorCallback | ReadCallback | WriteCallback

record channel =
  ch_fd :: int
  ch_events :: events
  ch_revents :: events
  ch_index :: int
  ch_tied :: bool
  ch_eventHandling :: bool
  ch_addedToLoop :: bool
  ch_callbacks :: "event_call set"

definition Channel_ctor :: "int \<Rightarrow> channel" where
  "Channel_ctor fd = \<lparr>ch_fd = fd, ch_events = 0, ch_revents = 0, ch_index = -1, ch_tied = False,
     ch_eventHandling = False, ch_addedToLoop = False, ch_callbacks = {}\<rparr>"

definition Channel_dtor :: "channel \<Rightarrow> unit res" where
  "Channel_dtor c = require (\<not> ch_addedToLoop c) ''!addedToLoop_''
     (require (\<not> ch_eventHandling c) ''!eventHandling_'' (Inr ()))"

definition Channel_tie :: "channel \<Rightarrow> channel" where
  "Channel_tie c = c\<lparr>ch_tied := True\<rparr>"

definition set_callback :: "event_call \<Rightarrow> channel \<Rightarrow> channel" where
  "set_callback k c = c\<lparr>ch_callbacks := insert k (ch_callbacks c)\<rparr>"

definition set_revents :: "events \<Rightarrow> channel \<Rightarrow> channel" where
  "set_revents revt c = c\<lparr>ch_revents := revt\<rparr>"

definition set_index :: "int \<Rightarrow> channel \<Rightarrow> channel" where
  "set_index i c = c\<lparr>ch_index := i\<rparr>"

text \<open>The new event mask of \<^verbatim>\<open>enableReading\<close>, \<dots>, \<^verbatim>\<open>disableAll\<close>; each is followed by
  \<^verbatim>\<open>update()\<close>.\<close>

definition enableReading :: "channel \<Rightarrow> channel" where
  "enableReading c = c\<lparr>ch_events := ch_events c OR kReadEvent\<rparr>"

definition enableWriting :: "channel \<Rightarrow> channel" where
  "enableWriting c = c\<lparr>ch_events := ch_events c OR kWriteEvent\<rparr>"

definition disableReading :: "channel \<Rightarrow> channel" where
  "disableReading c = c\<lparr>ch_events := ch_events c OR NOT kReadEvent\<rparr>"

definition disableWriting :: "channel \<Rightarrow> channel" where
  "disableWriting c = c\<lparr>ch_events := ch_events c OR NOT kWriteEvent\<rparr>"

definition disableAll :: "channel \<Rightarrow> channel" where
  "disableAll c = c\<lparr>ch_events := kNoneEvent\<rparr>"

definition isWriting :: "channel \<Rightarrow> bool" where
  "isWriting c \<longleftrightarrow> ch_events c AND kWriteEvent \<noteq> 0"

definition isNoneEvent :: "channel \<Rightarrow> bool" where
  "isNoneEvent c \<longleftrightarrow> ch_events c = kNoneEvent"

definition call_if :: "bool \<Rightarrow> event_call \<Rightarrow> channel \<Rightarrow> event_call list" where
  "call_if b k c = (if b \<and> k \<in> ch_callbacks c then [k] else [])"

text \<open>The callbacks that \<^verbatim>\<open>handleEventWithGuard\<close> invokes: the masks tested are those of
  \<^verbatim>\<open>revents_\<close>, which only the poller changes. How they are run, with \<^verbatim>\<open>eventHandling_\<close>, is \<open>handleEventWithGuard_run\<close>.\<close>

definition handleEventWithGuard :: "channel \<Rightarrow> event_call list" where
  "handleEventWithGuard c =
     (let revents = ch_revents c
      in call_if (revents AND POLLHUP \<noteq> 0 \<and> \<not> (revents AND POLLIN \<noteq> 0)) CloseCallback c @
         call_if (revents AND (POLLERR OR POLLNVAL) \<noteq> 0) ErrorCallback c @
         call_if (revents AND (POLLIN OR POLLPRI OR POLLRDHUP) \<noteq> 0) ReadCallback c @
         call_if (revents AND POLLOUT \<noteq> 0) WriteCallback c)"

text \<open>\<open>owner_alive\<close>: whether \<^verbatim>\<open>tie_.lock()\<close> gives the owner.\<close>

definition handleEvent :: "bool \<Rightarrow> channel \<Rightarrow> event_call list" where
  "handleEvent owner_alive c =
     (if ch_tied c then (if owner_alive then handleEventWithGuard c else [])
      else handleEventWithGuard c)"

definition flag_text :: "events \<Rightarrow> events \<Rightarrow> string \<Rightarrow> string" where
  "flag_text ev flag s = (if ev AND flag \<noteq> 0 then s else [])"

definition eventsToString :: "int \<Rightarrow> events \<Rightarrow> string" where
  "eventsToString fd ev =
     decimal fd @ '': '' @ flag_text ev POLLIN ''IN '' @ flag_text ev POLLPRI ''PRI '' @
     flag_text ev POLLOUT ''OUT '' @ flag_text ev POLLHUP ''HUP '' @ flag_text ev POLLRDHUP ''RDHUP'' @
     flag_text ev POLLERR ''ERR '' @ flag_text ev POLLNVAL ''NVAL ''"

definition Channel_eventsToString :: "channel \<Rightarrow> string" where
  "Channel_eventsToString c = eventsToString (ch_fd c) (ch_events c)"

definition Channel_reventsToString :: "channel \<Rightarrow> string" where
  "Channel_reventsToString c = eventsToString (ch_fd c) (ch_revents c)"

section \<open>Event masks\<close>

lemma mask_OR: "(a OR b) AND c = (a AND c) OR (b AND c)" for a b c :: "'a::len word"
  by (rule bit_word_eqI) (auto simp: bit_simps)

lemma word_OR_eq_0: "a OR b = 0 \<longleftrightarrow> a = 0 \<and> b = 0" for a b :: "'a::len word"
  by (metis or_eq_0_iff)

lemma NOT_AND_self: "NOT a AND a = 0" for a :: "'a::len word"
  by (rule bit_word_eqI) (auto simp: bit_simps)

lemma isWriting_disableWriting [simp]: "isWriting (disableWriting c) = isWriting c"
  by (simp add: isWriting_def disableWriting_def mask_OR NOT_AND_self)

lemma isWriting_enableWriting [simp]: "isWriting (enableWriting c)"
proof -
  have "kWriteEvent \<noteq> 0" by (simp add: kWriteEvent_def POLLOUT_def)
  then show ?thesis by (simp add: isWriting_def enableWriting_def mask_OR word_OR_eq_0)
qed

text \<open>
  The \<^verbatim>\<open>disable\<close> operations of a channel do not disable. \<^verbatim>\<open>disableWriting\<close> leaves the write
  interest as it was and, like \<^verbatim>\<open>disableReading\<close>, turns every other event on: both use
  \<^verbatim>\<open>events_ |= ~mask\<close>. After \<^verbatim>\<open>disableReading\<close> the channel is always writing.
\<close>

theorem disable_operations_do_not_disable:
  "isWriting (disableWriting c) = isWriting c \<and>
   ch_events (disableWriting c) AND kReadEvent = kReadEvent \<and>
   ch_events (disableReading c) AND kReadEvent = ch_events c AND kReadEvent \<and>
   isWriting (disableReading c)"
proof -
  have "NOT kWriteEvent AND kReadEvent = kReadEvent" "NOT kReadEvent AND kWriteEvent = kWriteEvent"
    "kWriteEvent \<noteq> 0"
    by (simp_all add: kWriteEvent_def kReadEvent_def poll_flags)
  moreover have "(ch_events c AND kReadEvent) OR kReadEvent = kReadEvent"
    by (rule bit_word_eqI) (auto simp: bit_simps)
  ultimately show ?thesis
    by (simp add: isWriting_def disableWriting_def disableReading_def mask_OR NOT_AND_self word_OR_eq_0)
qed

section \<open>Running the callbacks\<close>

text \<open>
  \<^verbatim>\<open>handleEventWithGuard\<close> as it runs on a state that has the channel (\<open>chan\<close> reads it, \<open>upd\<close> changes it):
  \<^verbatim>\<open>eventHandling_\<close> is set meanwhile, and whether a callback is there is tested when its turn comes.
\<close>

definition dispatch :: "('s \<Rightarrow> channel) \<Rightarrow> (event_call \<Rightarrow> 's \<Rightarrow> 's res) \<Rightarrow> (events \<Rightarrow> bool) \<Rightarrow> event_call \<Rightarrow> 's \<Rightarrow> 's res" where
  "dispatch chan run test k s = (if test (ch_revents (chan s)) \<and> k \<in> ch_callbacks (chan s) then run k s else Inr s)"

definition handleEventWithGuard_run :: "('s \<Rightarrow> channel) \<Rightarrow> ((channel \<Rightarrow> channel) \<Rightarrow> 's \<Rightarrow> 's) \<Rightarrow> (event_call \<Rightarrow> 's \<Rightarrow> 's res) \<Rightarrow> 's \<Rightarrow> 's res" where
  "handleEventWithGuard_run chan upd run s =
     res_bind (dispatch chan run (\<lambda>r. r AND POLLHUP \<noteq> 0 \<and> \<not> (r AND POLLIN \<noteq> 0)) CloseCallback (upd (\<lambda>c. c\<lparr>ch_eventHandling := True\<rparr>) s)) (\<lambda>s1.
     res_bind (dispatch chan run (\<lambda>r. r AND (POLLERR OR POLLNVAL) \<noteq> 0) ErrorCallback s1) (\<lambda>s2.
     res_bind (dispatch chan run (\<lambda>r. r AND (POLLIN OR POLLPRI OR POLLRDHUP) \<noteq> 0) ReadCallback s2) (\<lambda>s3.
     res_bind (dispatch chan run (\<lambda>r. r AND POLLOUT \<noteq> 0) WriteCallback s3) (\<lambda>s4.
       Inr (upd (\<lambda>c. c\<lparr>ch_eventHandling := False\<rparr>) s4)))))"

text \<open>Callbacks that keep the reported events and the registered callbacks are run as the list \<open>handleEventWithGuard\<close> says.\<close>

lemma dispatch_call_if:
  assumes "\<And>k s s'. run k s = Inr s' \<Longrightarrow> ch_revents (chan s') = ch_revents (chan s) \<and> ch_callbacks (chan s') = ch_callbacks (chan s)"
    and "ch_revents (chan s) = ch_revents c" "ch_callbacks (chan s) = ch_callbacks c"
    and "\<And>s'. ch_revents (chan s') = ch_revents c \<Longrightarrow> ch_callbacks (chan s') = ch_callbacks c \<Longrightarrow> f s' = res_fold run ks s'"
  shows "res_bind (dispatch chan run test k s) f = res_fold run (call_if (test (ch_revents c)) k c @ ks) s"
proof (cases "run k s")
  case (Inr s')
  then show ?thesis using assms(1)[OF Inr] assms(2-4) by (simp add: dispatch_def call_if_def)
qed (use assms(2-4) in \<open>simp add: dispatch_def call_if_def\<close>)

lemma dispatch_nested: "res_bind (res_bind m f) g = res_bind m (\<lambda>x. res_bind (f x) g)"
  by (cases m) simp_all

lemma res_bind_return: "res_bind m Inr = m"
  by (cases m) simp_all

theorem handleEventWithGuard_runs:
  assumes "\<And>f s. chan (upd f s) = f (chan s)"
    and "\<And>k s s'. run k s = Inr s' \<Longrightarrow> ch_revents (chan s') = ch_revents (chan s) \<and> ch_callbacks (chan s') = ch_callbacks (chan s)"
  shows "handleEventWithGuard_run chan upd run s =
    res_bind (res_fold run (handleEventWithGuard (chan s)) (upd (\<lambda>c. c\<lparr>ch_eventHandling := True\<rparr>) s)) (\<lambda>s'.
      Inr (upd (\<lambda>c. c\<lparr>ch_eventHandling := False\<rparr>) s'))"
proof -
  let ?s = "upd (\<lambda>c. c\<lparr>ch_eventHandling := True\<rparr>) s"
  have "res_bind (dispatch chan run (\<lambda>r. r AND POLLHUP \<noteq> 0 \<and> \<not> (r AND POLLIN \<noteq> 0)) CloseCallback ?s) (\<lambda>s1.
     res_bind (dispatch chan run (\<lambda>r. r AND (POLLERR OR POLLNVAL) \<noteq> 0) ErrorCallback s1) (\<lambda>s2.
     res_bind (dispatch chan run (\<lambda>r. r AND (POLLIN OR POLLPRI OR POLLRDHUP) \<noteq> 0) ReadCallback s2) (\<lambda>s3.
     res_bind (dispatch chan run (\<lambda>r. r AND POLLOUT \<noteq> 0) WriteCallback s3) Inr))) =
    res_fold run (handleEventWithGuard (chan s) @ []) ?s"
    unfolding handleEventWithGuard_def Let_def append_assoc
    by (intro dispatch_call_if[OF assms(2)]) (simp_all add: assms(1))
  then show ?thesis unfolding handleEventWithGuard_run_def append_Nil2 by (simp add: res_bind_return flip: dispatch_nested)
qed

text \<open>A callback must not destroy the channel: the assertion of the destructor on \<^verbatim>\<open>eventHandling_\<close> fails.\<close>

theorem destroyed_while_handled:
  assumes "\<And>f s. chan (upd f s) = f (chan s)"
    and "\<And>k s s'. run k s = Inr s' \<Longrightarrow> ch_revents (chan s') = ch_revents (chan s) \<and> ch_callbacks (chan s') = ch_callbacks (chan s)"
    and "handleEventWithGuard (chan s) = k # ks" "\<not> ch_addedToLoop (chan s)" "\<And>s. run k s = res_bind (Channel_dtor (chan s)) (\<lambda>_. Inr s)"
  shows "handleEventWithGuard_run chan upd run s = Inl (Assert_failed ''!eventHandling_'')"
  using handleEventWithGuard_runs[of chan upd run s] assms by (simp add: Channel_dtor_def)

end
