(* ===== verification/PollerSpec.thy ===== *)
theory PollerSpec
  imports Channel
begin

text \<open>
  What the event loop and its channels rely on from a poller (\<^verbatim>\<open>reactor.muduo/Poller.h\<close>): after
  \<^verbatim>\<open>updateChannel\<close> the kernel watches the descriptor for exactly the events the channel asks
  for, after \<^verbatim>\<open>removeChannel\<close> for none, and other descriptors are not affected.
\<close>

text \<open>What is done to channels: \<open>Set_events p f\<close> is one of \<^verbatim>\<open>enableReading\<close>, \dots, \<^verbatim>\<open>disableAll\<close> on
  the channel at \<open>p\<close>; \<open>Remove_channel p\<close> is \<^verbatim>\<open>disableAll\<close> followed by \<^verbatim>\<open>remove\<close>.\<close>

datatype chan_op =
    Set_events nat "events \<Rightarrow> events"
  | Remove_channel nat

definition run_chan_op :: "(nat \<Rightarrow> events \<Rightarrow> 's \<Rightarrow> 's res) \<Rightarrow> (nat \<Rightarrow> 's \<Rightarrow> 's res) \<Rightarrow> ('s \<Rightarrow> nat \<Rightarrow> events) \<Rightarrow>
    chan_op \<Rightarrow> 's \<Rightarrow> 's res" where
  "run_chan_op set_events remove chan_events op s = (case op of
     Set_events p f \<Rightarrow> set_events p (f (chan_events s p)) s
   | Remove_channel p \<Rightarrow> res_bind (set_events p 0 s) (remove p))"

definition op_channel :: "chan_op \<Rightarrow> nat" where
  "op_channel op = (case op of Set_events p f \<Rightarrow> p | Remove_channel p \<Rightarrow> p)"

locale poller =
  fixes set_events :: "nat \<Rightarrow> events \<Rightarrow> 's \<Rightarrow> 's res"
    and remove :: "nat \<Rightarrow> 's \<Rightarrow> 's res"
    and inv :: "'s \<Rightarrow> bool"
    and chan_fd :: "'s \<Rightarrow> nat \<Rightarrow> int option"
    and chan_events :: "'s \<Rightarrow> nat \<Rightarrow> events"
    and registered :: "'s \<Rightarrow> int \<Rightarrow> nat option"
    and watched :: "'s \<Rightarrow> int \<Rightarrow> events"
  assumes set_events_ok:
    "inv s \<Longrightarrow> chan_fd s p = Some fd \<Longrightarrow> registered s fd = None \<or> registered s fd = Some p \<Longrightarrow>
       \<exists>s'. set_events p ev s = Inr s' \<and> inv s' \<and> chan_fd s' = chan_fd s \<and>
         chan_events s' = (chan_events s)(p := ev) \<and>
         registered s' = (registered s)(fd \<mapsto> p) \<and> watched s' = (watched s)(fd := ev)"
    and remove_ok:
    "inv s \<Longrightarrow> chan_fd s p = Some fd \<Longrightarrow> registered s fd = Some p \<Longrightarrow> chan_events s p = 0 \<Longrightarrow>
       \<exists>s'. remove p s = Inr s' \<and> inv s' \<and> chan_fd s' = chan_fd s \<and>
         chan_events s' = chan_events s \<and>
         registered s' = (registered s)(fd := None) \<and> watched s' = (watched s)(fd := 0)"
    and registered_fd: "inv s \<Longrightarrow> registered s fd = Some p \<Longrightarrow> chan_fd s p = Some fd"
begin

definition consistent :: "'s \<Rightarrow> bool" where
  "consistent s \<longleftrightarrow> inv s \<and>
     (\<forall>fd. watched s fd = (case registered s fd of None \<Rightarrow> 0 | Some p \<Rightarrow> chan_events s p))"

text \<open>Descriptors of different channels are different, as those of open files are.\<close>

definition distinct_fds :: "'s \<Rightarrow> bool" where
  "distinct_fds s \<longleftrightarrow> (\<forall>p q fd. chan_fd s p = Some fd \<and> chan_fd s q = Some fd \<longrightarrow> p = q)"

lemma registered_self:
  assumes "inv s" "distinct_fds s" "chan_fd s p = Some fd"
  shows "registered s fd = None \<or> registered s fd = Some p"
proof (cases "registered s fd")
  case (Some q)
  then have "chan_fd s q = Some fd" by (rule registered_fd[OF assms(1)])
  then show ?thesis using assms(2,3) Some by (auto simp: distinct_fds_def)
qed simp

lemma set_events_consistent:
  assumes "consistent s" "distinct_fds s" "chan_fd s p = Some fd"
  shows "\<exists>s'. set_events p ev s = Inr s' \<and> consistent s' \<and> chan_fd s' = chan_fd s \<and>
           chan_events s' = (chan_events s)(p := ev) \<and> registered s' = (registered s)(fd \<mapsto> p)"
proof -
  have inv: "inv s" using assms(1) by (simp add: consistent_def)
  obtain s' where s': "set_events p ev s = Inr s'" "inv s'" "chan_fd s' = chan_fd s"
    "chan_events s' = (chan_events s)(p := ev)" "registered s' = (registered s)(fd \<mapsto> p)"
    "watched s' = (watched s)(fd := ev)"
    using set_events_ok[OF inv assms(3) registered_self[OF inv assms(2,3)]] by blast
  have "watched s' fd' = (case registered s' fd' of None \<Rightarrow> 0 | Some q \<Rightarrow> chan_events s' q)" for fd'
  proof (cases "fd' = fd")
    case True
    then show ?thesis using s' by simp
  next
    case False
    then have "registered s fd' \<noteq> Some p" using registered_fd[OF inv, of fd' p] assms(3) by auto
    then show ?thesis using False s' assms(1) by (auto simp: consistent_def split: option.splits)
  qed
  with s' show ?thesis by (auto simp: consistent_def)
qed

lemma remove_consistent:
  assumes "consistent s" "chan_fd s p = Some fd" "registered s fd = Some p" "chan_events s p = 0"
  shows "\<exists>s'. remove p s = Inr s' \<and> consistent s' \<and> chan_fd s' = chan_fd s"
proof -
  have inv: "inv s" using assms(1) by (simp add: consistent_def)
  obtain s' where "remove p s = Inr s'" "inv s'" "chan_fd s' = chan_fd s" "chan_events s' = chan_events s"
    "registered s' = (registered s)(fd := None)" "watched s' = (watched s)(fd := 0)"
    using remove_ok[OF inv assms(2-4)] by blast
  then show ?thesis using assms(1) by (auto simp: consistent_def split: option.splits)
qed

text \<open>Every sequence of operations on channels succeeds and ends with the kernel watching
  exactly what the registered channels ask for.\<close>

lemma run_consistent:
  assumes "consistent s" "distinct_fds s"
    and "\<forall>op \<in> set ops. \<exists>fd. chan_fd s (op_channel op) = Some fd"
  shows "\<exists>s'. res_fold (run_chan_op set_events remove chan_events) ops s = Inr s' \<and> consistent s' \<and> chan_fd s' = chan_fd s"
proof (rule res_fold_invariant)
  show "consistent s \<and> chan_fd s = chan_fd s" using assms by simp
next
  fix op s1
  assume op: "op \<in> set ops" and s1: "consistent s1 \<and> chan_fd s1 = chan_fd s"
  have d: "distinct_fds s1" using s1 assms(2) by (simp add: distinct_fds_def)
  show "\<exists>s'. run_chan_op set_events remove chan_events op s1 = Inr s' \<and> consistent s' \<and> chan_fd s' = chan_fd s"
  proof (cases op)
    case (Set_events p f)
    then obtain fd where "chan_fd s1 p = Some fd" using assms(3) op s1 by (fastforce simp: op_channel_def)
    then show ?thesis
      using set_events_consistent[OF _ d, of p fd "f (chan_events s1 p)"] s1 Set_events by (auto simp: run_chan_op_def)
  next
    case (Remove_channel p)
    then obtain fd where fd: "chan_fd s1 p = Some fd" using assms(3) op s1 by (fastforce simp: op_channel_def)
    obtain s2 where "set_events p 0 s1 = Inr s2" "consistent s2" "chan_fd s2 = chan_fd s1"
      "chan_events s2 = (chan_events s1)(p := 0)" "registered s2 = (registered s1)(fd \<mapsto> p)"
      using set_events_consistent[OF _ d fd] s1 by blast
    then show ?thesis
      using remove_consistent[of s2 p fd] fd s1 Remove_channel by (auto simp: run_chan_op_def)
  qed
qed

end

end
