(* ===== verification/EPollPoller.thy ===== *)
theory EPollPoller
  imports PollerSpec
begin

text \<open>
  The default poller (\<^verbatim>\<open>reactor.muduo/EPollPoller.cpp\<close>, \<^verbatim>\<open>Poller.cpp\<close>, \<^verbatim>\<open>DefaultPoller.cpp\<close>) and
  the parts of \<^verbatim>\<open>Channel\<close> and \<^verbatim>\<open>EventLoop\<close> that call it. The state holds the channel objects of
  the loop, the poller's map from descriptors to channels, and the interest list of the kernel's
  epoll instance, on which \<open>epoll_ctl\<close> acts as documented: adding a descriptor that is closed or
  present and changing or deleting one that is absent fail.
\<close>

definition kNew :: int where "kNew = -1"
definition kAdded :: int where "kAdded = 1"
definition kDeleted :: int where "kDeleted = 2"
definition kInitEventListSize :: nat where "kInitEventListSize = 16"

lemmas k_defs = kNew_def kAdded_def kDeleted_def

record epoll_poller =
  ep_pid :: thread_id
  ep_chan :: "nat \<Rightarrow> channel option"
  ep_channels :: "int \<Rightarrow> nat option"
  ep_interest :: "int \<Rightarrow> (events \<times> nat) option"
  ep_open :: "int set"
  ep_listsize :: nat

datatype epoll_op = EPOLL_CTL_ADD | EPOLL_CTL_MOD | EPOLL_CTL_DEL

definition epoll_ctl :: "epoll_op \<Rightarrow> int \<Rightarrow> events \<times> nat \<Rightarrow> epoll_poller \<Rightarrow> epoll_poller option" where
  "epoll_ctl op fd ev s =
     (if fd \<notin> ep_open s then None
      else case op of
        EPOLL_CTL_ADD \<Rightarrow> if ep_interest s fd = None then Some (s\<lparr>ep_interest := (ep_interest s)(fd \<mapsto> ev)\<rparr>) else None
      | EPOLL_CTL_MOD \<Rightarrow> if ep_interest s fd \<noteq> None then Some (s\<lparr>ep_interest := (ep_interest s)(fd \<mapsto> ev)\<rparr>) else None
      | EPOLL_CTL_DEL \<Rightarrow> if ep_interest s fd \<noteq> None then Some (s\<lparr>ep_interest := (ep_interest s)(fd := None)\<rparr>) else None)"

definition EPollPoller_ctor :: "thread_id \<Rightarrow> int \<Rightarrow> epoll_poller res" where
  "EPollPoller_ctor pid epollfd =
     (if epollfd < 0 then Inl (Log_fatal ''EPollPoller::EPollPoller'')
      else Inr \<lparr>ep_pid = pid, ep_chan = Map.empty, ep_channels = Map.empty, ep_interest = Map.empty,
                ep_open = {}, ep_listsize = kInitEventListSize\<rparr>)"

definition newDefaultPoller :: "thread_id \<Rightarrow> int \<Rightarrow> epoll_poller res" where
  "newDefaultPoller pid epollfd = EPollPoller_ctor pid epollfd"

definition operationToString :: "epoll_op \<Rightarrow> string" where
  "operationToString op = (case op of EPOLL_CTL_ADD \<Rightarrow> ''ADD'' | EPOLL_CTL_DEL \<Rightarrow> ''DEL'' | EPOLL_CTL_MOD \<Rightarrow> ''MODE'')"

definition with_chan :: "nat \<Rightarrow> epoll_poller \<Rightarrow> (channel \<Rightarrow> 'a res) \<Rightarrow> 'a res" where
  "with_chan p s k = (case ep_chan s p of None \<Rightarrow> Inl (Null_pointer ''Channel'') | Some c \<Rightarrow> k c)"

definition ep_set_index :: "int \<Rightarrow> nat \<Rightarrow> epoll_poller \<Rightarrow> epoll_poller" where
  "ep_set_index i p s = s\<lparr>ep_chan := (ep_chan s)(p := map_option (set_index i) (ep_chan s p))\<rparr>"

definition ep_update :: "epoll_op \<Rightarrow> nat \<Rightarrow> epoll_poller \<Rightarrow> epoll_poller res" where
  "ep_update op p s = with_chan p s (\<lambda>c.
     case epoll_ctl op (ch_fd c) (ch_events c, p) s of
       Some s' \<Rightarrow> Inr s'
     | None \<Rightarrow> if op = EPOLL_CTL_DEL then Inr s
               else Inl (Log_fatal (''epoll_ctl op='' @ operationToString op)))"

definition ep_updateChannel :: "thread_id \<Rightarrow> nat \<Rightarrow> epoll_poller \<Rightarrow> epoll_poller res" where
  "ep_updateChannel tid p s =
     assertInLoopThread tid (ep_pid s)
     (with_chan p s (\<lambda>c.
      let index = ch_index c; fd = ch_fd c
      in if index = kNew \<or> index = kDeleted then
           res_bind
             (if index = kNew then
                require (ep_channels s fd = None) ''channels_.find(fd) == channels_.end()''
                  (Inr (s\<lparr>ep_channels := (ep_channels s)(fd \<mapsto> p)\<rparr>))
              else
                require (ep_channels s fd \<noteq> None) ''channels_.find(fd) != channels_.end()''
                  (require (ep_channels s fd = Some p) ''channels_[fd] == channel'' (Inr s)))
             (\<lambda>s1. ep_update EPOLL_CTL_ADD p (ep_set_index kAdded p s1))
         else
           require (ep_channels s fd \<noteq> None) ''channels_.find(fd) != channels_.end()''
           (let s1 = s\<lparr>ep_channels := (ep_channels s)(fd \<mapsto> p)\<rparr>
            in require (index = kAdded) ''index == kAdded''
              (if isNoneEvent c then
                 res_bind (ep_update EPOLL_CTL_DEL p s1) (\<lambda>s2. Inr (ep_set_index kDeleted p s2))
               else ep_update EPOLL_CTL_MOD p s1))))"

definition ep_removeChannel :: "thread_id \<Rightarrow> nat \<Rightarrow> epoll_poller \<Rightarrow> epoll_poller res" where
  "ep_removeChannel tid p s =
     assertInLoopThread tid (ep_pid s)
     (with_chan p s (\<lambda>c.
      let fd = ch_fd c; index = ch_index c
      in require (ep_channels s fd \<noteq> None) ''channels_.find(fd) != channels_.end()''
        (require (ep_channels s fd = Some p) ''channels_[fd] == channel''
        (require (isNoneEvent c) ''channel->isNoneEvent()''
        (require (index = kAdded \<or> index = kDeleted) ''index == kAdded || index == kDeleted''
         (let s1 = s\<lparr>ep_channels := (ep_channels s)(fd := None)\<rparr>
          in res_bind (if index = kAdded then ep_update EPOLL_CTL_DEL p s1 else Inr s1)
               (\<lambda>s2. Inr (ep_set_index kNew p s2))))))))"

definition Poller_hasChannel :: "thread_id \<Rightarrow> nat \<Rightarrow> epoll_poller \<Rightarrow> bool res" where
  "Poller_hasChannel tid p s = assertInLoopThread tid (ep_pid s)
     (with_chan p s (\<lambda>c. Inr (ep_channels s (ch_fd c) = Some p)))"

section \<open>Channel::update and Channel::remove\<close>

definition Channel_update :: "thread_id \<Rightarrow> nat \<Rightarrow> epoll_poller \<Rightarrow> epoll_poller res" where
  "Channel_update tid p s = with_chan p s (\<lambda>c.
     assertInLoopThread tid (ep_pid s)
     (ep_updateChannel tid p (s\<lparr>ep_chan := (ep_chan s)(p \<mapsto> c\<lparr>ch_addedToLoop := True\<rparr>)\<rparr>)))"

definition Channel_set :: "thread_id \<Rightarrow> (channel \<Rightarrow> channel) \<Rightarrow> nat \<Rightarrow> epoll_poller \<Rightarrow> epoll_poller res" where
  "Channel_set tid f p s = with_chan p s (\<lambda>c. Channel_update tid p (s\<lparr>ep_chan := (ep_chan s)(p \<mapsto> f c)\<rparr>))"

definition Channel_remove :: "thread_id \<Rightarrow> nat \<Rightarrow> epoll_poller \<Rightarrow> epoll_poller res" where
  "Channel_remove tid p s = with_chan p s (\<lambda>c.
     require (isNoneEvent c) ''isNoneEvent()''
     (assertInLoopThread tid (ep_pid s)
      (ep_removeChannel tid p (s\<lparr>ep_chan := (ep_chan s)(p \<mapsto> c\<lparr>ch_addedToLoop := False\<rparr>)\<rparr>))))"

section \<open>Waiting\<close>

text \<open>
  \<open>epoll_wait\<close> reports at most as many events as the list has room for, each a pair of an event
  mask and the pointer given to \<open>epoll_ctl\<close>; its result is an argument: an error number or the
  events.
\<close>

definition fill_one :: "events \<times> nat \<Rightarrow> nat list \<times> epoll_poller \<Rightarrow> (nat list \<times> epoll_poller) res" where
  "fill_one e r = (case r of (active, s) \<Rightarrow> with_chan (snd e) s (\<lambda>c.
     require (ep_channels s (ch_fd c) \<noteq> None) ''it != channels_.end()''
     (require (ep_channels s (ch_fd c) = Some (snd e)) ''it->second == channel''
      (Inr (active @ [snd e],
            s\<lparr>ep_chan := (ep_chan s)(snd e \<mapsto> set_revents (fst e) c)\<rparr>)))))"

definition ep_fillActiveChannels :: "(events \<times> nat) list \<Rightarrow> epoll_poller \<Rightarrow> (nat list \<times> epoll_poller) res" where
  "ep_fillActiveChannels evs s =
     require (length evs \<le> ep_listsize s) ''numEvents <= events_.size()''
     (res_fold fill_one evs ([], s))"

definition ep_poll :: "(int + (events \<times> nat) list) \<Rightarrow> epoll_poller \<Rightarrow> (nat list \<times> epoll_poller) res" where
  "ep_poll result s =
     (case result of
        Inl _ \<Rightarrow> Inr ([], s)
      | Inr evs \<Rightarrow>
          if 0 < length evs then
            res_bind (ep_fillActiveChannels evs s) (\<lambda>(active, s1).
              Inr (active, if length evs = ep_listsize s1 then s1\<lparr>ep_listsize := ep_listsize s1 * 2\<rparr> else s1))
          else Inr ([], s))"

section \<open>Invariant\<close>

definition ep_inv :: "epoll_poller \<Rightarrow> bool" where
  "ep_inv s \<longleftrightarrow>
     (\<forall>p c. ep_chan s p = Some c \<longrightarrow>
        ch_index c \<in> {kNew, kAdded, kDeleted} \<and>
        (ch_index c = kNew \<longleftrightarrow> ep_channels s (ch_fd c) \<noteq> Some p) \<and>
        (ch_index c = kDeleted \<longrightarrow> isNoneEvent c) \<and> ch_fd c \<in> ep_open s) \<and>
     (\<forall>fd p. ep_channels s fd = Some p \<longrightarrow> (\<exists>c. ep_chan s p = Some c \<and> ch_fd c = fd)) \<and>
     (\<forall>fd. ep_interest s fd =
        (case ep_channels s fd of
           None \<Rightarrow> None
         | Some p \<Rightarrow> (case ep_chan s p of
             None \<Rightarrow> None
           | Some c \<Rightarrow> if ch_index c = kAdded then Some (ch_events c, p) else None)))"

lemma with_chan_Some [simp]: "ep_chan s p = Some c \<Longrightarrow> with_chan p s k = k c"
  by (simp add: with_chan_def)

lemma ep_invD:
  assumes "ep_inv s"
  shows "\<And>p c. ep_chan s p = Some c \<Longrightarrow> ch_index c = kNew \<or> ch_index c = kAdded \<or> ch_index c = kDeleted"
    and "\<And>p c. ep_chan s p = Some c \<Longrightarrow> ch_index c = kNew \<longleftrightarrow> ep_channels s (ch_fd c) \<noteq> Some p"
    and "\<And>p c. ep_chan s p = Some c \<Longrightarrow> ch_index c = kDeleted \<Longrightarrow> isNoneEvent c"
    and "\<And>p c. ep_chan s p = Some c \<Longrightarrow> ch_fd c \<in> ep_open s"
    and "\<And>fd p. ep_channels s fd = Some p \<Longrightarrow> \<exists>c. ep_chan s p = Some c \<and> ch_fd c = fd"
    and "\<And>fd. ep_channels s fd = None \<Longrightarrow> ep_interest s fd = None"
    and "\<And>fd p c. ep_channels s fd = Some p \<Longrightarrow> ep_chan s p = Some c \<Longrightarrow>
           ep_interest s fd = (if ch_index c = kAdded then Some (ch_events c, p) else None)"
  using assms unfolding ep_inv_def by auto

lemma ep_invI:
  assumes "\<And>p c. ep_chan s p = Some c \<Longrightarrow> ch_index c \<in> {kNew, kAdded, kDeleted} \<and>
             (ch_index c = kDeleted \<longrightarrow> isNoneEvent c) \<and> ch_fd c \<in> ep_open s"
    and "\<And>p c. ep_chan s p = Some c \<Longrightarrow> ch_index c = kNew \<longleftrightarrow> ep_channels s (ch_fd c) \<noteq> Some p"
    and "\<And>fd p. ep_channels s fd = Some p \<Longrightarrow> \<exists>c. ep_chan s p = Some c \<and> ch_fd c = fd"
    and "\<And>fd. ep_interest s fd =
        (case ep_channels s fd of
           None \<Rightarrow> None
         | Some p \<Rightarrow> (case ep_chan s p of
             None \<Rightarrow> None
           | Some c \<Rightarrow> if ch_index c = kAdded then Some (ch_events c, p) else None))"
  shows "ep_inv s"
  unfolding ep_inv_def
  by (intro conjI allI impI; (rule assms(2) | rule assms(3) | rule assms(4) | (drule assms(1), simp)))

lemma k_distinct [simp]: "kNew \<noteq> kAdded" "kAdded \<noteq> kNew" "kNew \<noteq> kDeleted" "kDeleted \<noteq> kNew"
  "kAdded \<noteq> kDeleted" "kDeleted \<noteq> kAdded"
  by (simp_all add: k_defs)

text \<open>A change of one channel: it is registered under its descriptor (\<open>x = Some p\<close>) or taken out (\<open>x = None\<close>), and
  the kernel is told what it now asks for.\<close>

definition ep_change :: "nat \<Rightarrow> channel \<Rightarrow> channel \<Rightarrow> nat option \<Rightarrow> epoll_poller \<Rightarrow> epoll_poller \<Rightarrow> bool" where
  "ep_change p c c' x s s' \<longleftrightarrow>
     ep_chan s p = Some c \<and> (ep_channels s (ch_fd c) = None \<or> ep_channels s (ch_fd c) = Some p) \<and>
     ch_fd c' = ch_fd c \<and> (x = None \<or> x = Some p) \<and> (ch_index c' = kNew \<longleftrightarrow> x = None) \<and>
     ch_index c' \<in> {kNew, kAdded, kDeleted} \<and> (ch_index c' = kDeleted \<longrightarrow> isNoneEvent c') \<and>
     ep_chan s' = (ep_chan s)(p \<mapsto> c') \<and> ep_channels s' = (ep_channels s)(ch_fd c := x) \<and>
     ep_interest s' = (ep_interest s)(ch_fd c := (if ch_index c' = kAdded then Some (ch_events c', p) else None)) \<and>
     ep_open s' = ep_open s"

lemma ep_change_chan:
  assumes "ep_inv s" "ep_change p c c' x s s'" "ep_chan s' q = Some d"
  shows "ch_index d = kNew \<longleftrightarrow> ep_channels s' (ch_fd d) \<noteq> Some q"
    and "ch_index d \<in> {kNew, kAdded, kDeleted} \<and> (ch_index d = kDeleted \<longrightarrow> isNoneEvent d) \<and> ch_fd d \<in> ep_open s'"
proof -
  have "(ch_index d = kNew \<longleftrightarrow> ep_channels s' (ch_fd d) \<noteq> Some q) \<and>
    ch_index d \<in> {kNew, kAdded, kDeleted} \<and> (ch_index d = kDeleted \<longrightarrow> isNoneEvent d) \<and> ch_fd d \<in> ep_open s'"
  proof (cases "q = p")
    case True
    then have "d = c'" using assms(2,3) by (simp add: ep_change_def)
    moreover have "ch_fd c \<in> ep_open s" using ep_invD(4)[OF assms(1)] assms(2) by (auto simp: ep_change_def)
    ultimately show ?thesis using assms(2) True by (auto simp: ep_change_def)
  next
    case False
    then have d: "ep_chan s q = Some d" using assms(2,3) by (simp add: ep_change_def)
    show ?thesis using ep_invD(1-4)[OF assms(1) d] assms(2) False by (auto simp: ep_change_def)
  qed
  then show "ch_index d = kNew \<longleftrightarrow> ep_channels s' (ch_fd d) \<noteq> Some q"
    "ch_index d \<in> {kNew, kAdded, kDeleted} \<and> (ch_index d = kDeleted \<longrightarrow> isNoneEvent d) \<and> ch_fd d \<in> ep_open s'" by blast+
qed

lemma ep_change_channels:
  assumes "ep_inv s" "ep_change p c c' x s s'" "ep_channels s' fd = Some q"
  shows "\<exists>d. ep_chan s' q = Some d \<and> ch_fd d = fd"
proof (cases "fd = ch_fd c")
  case False
  then have "ep_channels s fd = Some q" using assms(2,3) by (simp add: ep_change_def)
  from ep_invD(5)[OF assms(1) this] show ?thesis using assms(2) by (auto simp: ep_change_def)
qed (use assms(2,3) in \<open>auto simp: ep_change_def\<close>)

lemma ep_change_interest:
  assumes inv: "ep_inv s" and ch: "ep_change p c c' x s s'"
  shows "ep_interest s' fd =
    (case ep_channels s' fd of
       None \<Rightarrow> None
     | Some p \<Rightarrow> (case ep_chan s' p of
         None \<Rightarrow> None
       | Some c \<Rightarrow> if ch_index c = kAdded then Some (ch_events c, p) else None))"
proof (cases "fd = ch_fd c")
  case True
  then show ?thesis using ch by (auto simp: ep_change_def)
next
  case False
  show ?thesis
  proof (cases "ep_channels s fd")
    case None
    then show ?thesis using False ep_invD(6)[OF inv None] ch by (auto simp: ep_change_def)
  next
    case (Some q)
    then obtain d where "ep_chan s q = Some d" "ch_fd d = fd" using ep_invD(5)[OF inv] by blast
    then show ?thesis using False Some ch ep_invD(7)[OF inv Some] by (auto simp: ep_change_def)
  qed
qed

lemma ep_inv_change:
  assumes "ep_inv s" "ep_change p c c' x s s'"
  shows "ep_inv s'"
  using ep_change_chan(2)[OF assms] ep_change_chan(1)[OF assms] ep_change_channels[OF assms] ep_change_interest[OF assms]
  by (rule ep_invI)

lemma ep_inv_registered:
  assumes inv: "ep_inv s" and c: "ep_chan s p = Some c" "ep_channels s (ch_fd c) = None \<or> ep_channels s (ch_fd c) = Some p"
    and c': "ch_fd c' = ch_fd c" "ch_index c' = kAdded \<or> ch_index c' = kDeleted \<and> isNoneEvent c'"
    and s': "ep_chan s' = (ep_chan s)(p \<mapsto> c')" "ep_channels s' = (ep_channels s)(ch_fd c \<mapsto> p)"
      "ep_interest s' = (ep_interest s)(ch_fd c := (if ch_index c' = kAdded then Some (ch_events c', p) else None))"
      "ep_open s' = ep_open s"
  shows "ep_inv s'"
  by (rule ep_inv_change[OF inv, of p c c' "Some p"]) (use c c' s' in \<open>auto simp: ep_change_def\<close>)

lemma ep_inv_unregistered:
  assumes inv: "ep_inv s" and c: "ep_chan s p = Some c" "ep_channels s (ch_fd c) = Some p"
    and c': "ch_fd c' = ch_fd c" "ch_index c' = kNew"
    and s': "ep_chan s' = (ep_chan s)(p \<mapsto> c')" "ep_channels s' = (ep_channels s)(ch_fd c := None)"
      "ep_interest s' = (ep_interest s)(ch_fd c := None)" "ep_open s' = ep_open s"
  shows "ep_inv s'"
  by (rule ep_inv_change[OF inv, of p c c' None]) (use c c' s' in \<open>auto simp: ep_change_def\<close>)

section \<open>The poller keeps its contract\<close>

definition ep_set_events :: "nat \<Rightarrow> events \<Rightarrow> epoll_poller \<Rightarrow> epoll_poller res" where
  "ep_set_events p ev s = Channel_set (ep_pid s) (\<lambda>c. c\<lparr>ch_events := ev\<rparr>) p s"

definition ep_remove :: "nat \<Rightarrow> epoll_poller \<Rightarrow> epoll_poller res" where
  "ep_remove p s = Channel_remove (ep_pid s) p s"

definition ep_chan_fd :: "epoll_poller \<Rightarrow> nat \<Rightarrow> int option" where
  "ep_chan_fd s p = map_option ch_fd (ep_chan s p)"

definition ep_chan_events :: "epoll_poller \<Rightarrow> nat \<Rightarrow> events" where
  "ep_chan_events s p = (case ep_chan s p of None \<Rightarrow> 0 | Some c \<Rightarrow> ch_events c)"

definition ep_watched :: "epoll_poller \<Rightarrow> int \<Rightarrow> events" where
  "ep_watched s fd = (case ep_interest s fd of None \<Rightarrow> 0 | Some e \<Rightarrow> fst e)"

lemma ep_set_events_eq:
  assumes inv: "ep_inv s" and c: "ep_chan s p = Some c"
    and r: "ep_channels s (ch_fd c) = None \<or> ep_channels s (ch_fd c) = Some p"
  shows "\<exists>idx. (idx = kAdded \<or> idx = kDeleted \<and> ev = 0) \<and>
    ep_set_events p ev s =
      Inr (s\<lparr>ep_chan := (ep_chan s)(p \<mapsto> c\<lparr>ch_events := ev, ch_addedToLoop := True, ch_index := idx\<rparr>),
             ep_channels := (ep_channels s)(ch_fd c \<mapsto> p),
             ep_interest := (ep_interest s)(ch_fd c := (if idx = kAdded then Some (ev, p) else None))\<rparr>)"
proof -
  note open_fd = ep_invD(4)[OF inv c]
  note defs = ep_set_events_def Channel_set_def Channel_update_def ep_updateChannel_def ep_update_def
    ep_set_index_def set_index_def epoll_ctl_def isNoneEvent_def kNoneEvent_def Let_def with_chan_def
  have idx3: "ch_index c = kNew \<or> ch_index c = kAdded \<or> ch_index c = kDeleted" by (rule ep_invD(1)[OF inv c])
  have old: "ep_interest s (ch_fd c) = (if ch_index c = kAdded then Some (ch_events c, p) else None)"
    using r ep_invD(6)[OF inv, of "ch_fd c"] ep_invD(7)[OF inv, of "ch_fd c" p c] ep_invD(2)[OF inv c] c
    by auto
  have reg: "ep_channels s (ch_fd c) = (if ch_index c = kNew then None else Some p)"
    using r ep_invD(2)[OF inv c] by auto
  consider (fresh) "ch_index c = kNew" | (deleted) "ch_index c = kDeleted"
    | (off) "ch_index c = kAdded" "ev = 0" | (on) "ch_index c = kAdded" "ev \<noteq> 0"
    using idx3 by blast
  then show ?thesis
  proof cases
    case fresh
    then show ?thesis using c open_fd old reg by (intro exI[of _ kAdded]) (simp add: defs)
  next
    case deleted
    then show ?thesis using c open_fd old reg by (intro exI[of _ kAdded]) (simp add: defs fun_upd_idem)
  next
    case off
    then show ?thesis using c open_fd old reg by (intro exI[of _ kDeleted]) (simp add: defs)
  next
    case on
    then have same: "c\<lparr>ch_events := ev, ch_addedToLoop := True, ch_index := kAdded\<rparr> = c\<lparr>ch_events := ev, ch_addedToLoop := True\<rparr>"
      by (cases c) simp
    show ?thesis using on c open_fd old reg
      by (intro exI[of _ kAdded] conjI disjI1 refl, subst same) (simp add: defs)
  qed
qed

lemma ep_set_events_ok:
  assumes inv: "ep_inv s" and c: "ep_chan s p = Some c"
    and r: "ep_channels s (ch_fd c) = None \<or> ep_channels s (ch_fd c) = Some p"
  shows "\<exists>s'. ep_set_events p ev s = Inr s' \<and> ep_inv s' \<and> ep_chan_fd s' = ep_chan_fd s \<and>
         ep_chan_events s' = (ep_chan_events s)(p := ev) \<and>
         ep_channels s' = (ep_channels s)(ch_fd c \<mapsto> p) \<and> ep_watched s' = (ep_watched s)(ch_fd c := ev)"
proof -
  obtain idx where idx: "idx = kAdded \<or> idx = kDeleted \<and> ev = 0" and
    eq: "ep_set_events p ev s =
      Inr (s\<lparr>ep_chan := (ep_chan s)(p \<mapsto> c\<lparr>ch_events := ev, ch_addedToLoop := True, ch_index := idx\<rparr>),
             ep_channels := (ep_channels s)(ch_fd c \<mapsto> p),
             ep_interest := (ep_interest s)(ch_fd c := (if idx = kAdded then Some (ev, p) else None))\<rparr>)"
    (is "_ = Inr ?s")
    using ep_set_events_eq[OF assms] by blast
  define c' where "c' = c\<lparr>ch_events := ev, ch_addedToLoop := True, ch_index := idx\<rparr>"
  have "ep_inv ?s"
    by (rule ep_inv_registered[OF inv c r, of c'])
      (use idx in \<open>auto simp: c'_def isNoneEvent_def kNoneEvent_def\<close>)
  moreover have "ep_chan_fd ?s = ep_chan_fd s" "ep_chan_events ?s = (ep_chan_events s)(p := ev)"
    "ep_watched ?s = (ep_watched s)(ch_fd c := ev)"
    using c idx by (auto simp: ep_chan_fd_def ep_chan_events_def ep_watched_def fun_eq_iff)
  ultimately show ?thesis using eq by auto
qed

lemma ep_remove_ok:
  assumes inv: "ep_inv s" and c: "ep_chan s p = Some c"
    and r: "ep_channels s (ch_fd c) = Some p" and ev: "ch_events c = 0"
  shows "\<exists>s'. ep_remove p s = Inr s' \<and> ep_inv s' \<and> ep_chan_fd s' = ep_chan_fd s \<and>
         ep_chan_events s' = ep_chan_events s \<and>
         ep_channels s' = (ep_channels s)(ch_fd c := None) \<and> ep_watched s' = (ep_watched s)(ch_fd c := 0)"
proof -
  define c' where "c' = c\<lparr>ch_addedToLoop := False, ch_index := kNew\<rparr>"
  define s' where "s' = s\<lparr>ep_chan := (ep_chan s)(p \<mapsto> c'), ep_channels := (ep_channels s)(ch_fd c := None),
                          ep_interest := (ep_interest s)(ch_fd c := None)\<rparr>"
  have new: "ch_index c = kNew \<longleftrightarrow> False" using ep_invD(2)[OF inv c] r by simp
  have old: "ep_interest s (ch_fd c) = (if ch_index c = kAdded then Some (ch_events c, p) else None)"
    by (rule ep_invD(7)[OF inv r c])
  have "ep_remove p s = Inr s'"
  proof (cases "ch_index c = kAdded")
    case True
    then show ?thesis
      using c r ev old ep_invD(4)[OF inv c]
      by (simp add: ep_remove_def Channel_remove_def ep_removeChannel_def ep_update_def epoll_ctl_def
          ep_set_index_def set_index_def isNoneEvent_def kNoneEvent_def Let_def s'_def c'_def)
  next
    case False
    then have "(ep_interest s)(ch_fd c := None) = ep_interest s" using old by auto
    then show ?thesis
      using False c r ev ep_invD(1)[OF inv c] new
      by (simp add: ep_remove_def Channel_remove_def ep_removeChannel_def ep_set_index_def
          set_index_def isNoneEvent_def kNoneEvent_def Let_def s'_def c'_def)
  qed
  moreover have "ep_inv s'"
    by (rule ep_inv_unregistered[OF inv c r, of c']) (simp_all add: s'_def c'_def)
  moreover have "ep_chan_fd s' = ep_chan_fd s" "ep_chan_events s' = ep_chan_events s"
    "ep_watched s' = (ep_watched s)(ch_fd c := 0)" "ep_channels s' = (ep_channels s)(ch_fd c := None)"
    using c by (auto simp: s'_def c'_def ep_chan_fd_def ep_chan_events_def ep_watched_def fun_eq_iff)
  ultimately show ?thesis by blast
qed

interpretation ep: poller ep_set_events ep_remove ep_inv ep_chan_fd ep_chan_events ep_channels ep_watched
proof
  fix s p fd ev
  assume inv: "ep_inv s" and fd: "ep_chan_fd s p = Some fd"
    and r: "ep_channels s fd = None \<or> ep_channels s fd = Some p"
  from fd obtain c where c: "ep_chan s p = Some c" "ch_fd c = fd" by (auto simp: ep_chan_fd_def)
  then show "\<exists>s'. ep_set_events p ev s = Inr s' \<and> ep_inv s' \<and> ep_chan_fd s' = ep_chan_fd s \<and>
     ep_chan_events s' = (ep_chan_events s)(p := ev) \<and> ep_channels s' = (ep_channels s)(fd \<mapsto> p) \<and>
     ep_watched s' = (ep_watched s)(fd := ev)"
    using ep_set_events_ok[OF inv c(1)] r by simp
next
  fix s p fd
  assume inv: "ep_inv s" and fd: "ep_chan_fd s p = Some fd" and r: "ep_channels s fd = Some p"
    and ev: "ep_chan_events s p = 0"
  from fd obtain c where c: "ep_chan s p = Some c" "ch_fd c = fd" by (auto simp: ep_chan_fd_def)
  then show "\<exists>s'. ep_remove p s = Inr s' \<and> ep_inv s' \<and> ep_chan_fd s' = ep_chan_fd s \<and>
     ep_chan_events s' = ep_chan_events s \<and> ep_channels s' = (ep_channels s)(fd := None) \<and>
     ep_watched s' = (ep_watched s)(fd := 0)"
    using ep_remove_ok[OF inv c(1)] r ev by (simp add: ep_chan_events_def)
next
  fix s fd p
  assume "ep_inv s" "ep_channels s fd = Some p"
  then show "ep_chan_fd s p = Some fd" using ep_invD(5) by (fastforce simp: ep_chan_fd_def)
qed


section \<open>Delivering events\<close>

text \<open>Two states that differ only in the \<^verbatim>\<open>revents_\<close> of the channels.\<close>

definition same_but_revents :: "epoll_poller \<Rightarrow> epoll_poller \<Rightarrow> bool" where
  "same_but_revents s s' \<longleftrightarrow>
     (\<forall>p. map_option (set_revents 0) (ep_chan s' p) = map_option (set_revents 0) (ep_chan s p)) \<and>
     s'\<lparr>ep_chan := ep_chan s\<rparr> = s"

lemma same_but_revents_chan:
  assumes "same_but_revents s s'" "ep_chan s p = Some c"
  shows "\<exists>r. ep_chan s' p = Some (set_revents r c)"
proof -
  have "map_option (set_revents 0) (ep_chan s' p) = Some (set_revents 0 c)"
    using assms by (simp add: same_but_revents_def)
  then obtain c' where "ep_chan s' p = Some c'" "set_revents 0 c' = set_revents 0 c" by auto
  then show ?thesis by (intro exI[of _ "ch_revents c'"]) (cases c; cases c'; simp add: set_revents_def)
qed

lemma same_but_revents_fields:
  "same_but_revents s s' \<Longrightarrow> ep_channels s' = ep_channels s \<and> ep_interest s' = ep_interest s \<and>
   ep_listsize s' = ep_listsize s \<and> ep_open s' = ep_open s \<and> ep_pid s' = ep_pid s"
  unfolding same_but_revents_def by (metis epoll_poller.surjective epoll_poller.simps)

lemma fill_ok:
  assumes "same_but_revents s s1" "\<forall>e \<in> set evs. \<exists>c. ep_chan s (snd e) = Some c \<and> ep_channels s (ch_fd c) = Some (snd e)"
    and "distinct (map snd evs)"
  shows "\<exists>s'. res_fold fill_one evs (act, s1) = Inr (act @ map snd evs, s') \<and> same_but_revents s s' \<and>
    (\<forall>e \<in> set evs. map_option ch_revents (ep_chan s' (snd e)) = Some (fst e)) \<and>
    (\<forall>p. p \<notin> snd ` set evs \<longrightarrow> ep_chan s' p = ep_chan s1 p)"
  using assms
proof (induction evs arbitrary: s1 act)
  case Nil
  then show ?case by simp
next
  case (Cons e evs)
  then obtain c where c: "ep_chan s (snd e) = Some c" "ep_channels s (ch_fd c) = Some (snd e)" by auto
  obtain r where r: "ep_chan s1 (snd e) = Some (set_revents r c)"
    using same_but_revents_chan[OF Cons.prems(1) c(1)] by blast
  let ?s2 = "s1\<lparr>ep_chan := (ep_chan s1)(snd e \<mapsto> set_revents (fst e) c)\<rparr>"
  have step: "fill_one e (act, s1) = Inr (act @ [snd e], ?s2)"
    using r c same_but_revents_fields[OF Cons.prems(1)] by (simp add: fill_one_def set_revents_def)
  have s2: "same_but_revents s ?s2"
    using Cons.prems(1) c(1) by (auto simp: same_but_revents_def set_revents_def)
  have "\<forall>e \<in> set evs. \<exists>c. ep_chan s (snd e) = Some c \<and> ep_channels s (ch_fd c) = Some (snd e)"
    using Cons.prems(2) by simp
  from Cons.IH[OF s2 this, of "act @ [snd e]"] Cons.prems(3) obtain s' where
    "res_fold fill_one evs (act @ [snd e], ?s2) = Inr (act @ [snd e] @ map snd evs, s')" "same_but_revents s s'"
    "\<forall>e \<in> set evs. map_option ch_revents (ep_chan s' (snd e)) = Some (fst e)"
    "\<forall>p. p \<notin> snd ` set evs \<longrightarrow> ep_chan s' p = ep_chan ?s2 p"
    by auto
  with step Cons.prems(3) show ?case by (auto simp: set_revents_def)
qed

lemma ep_inv_cong:
  assumes "ep_inv s" "ep_chan s' = ep_chan s" "ep_channels s' = ep_channels s"
    "ep_interest s' = ep_interest s" "ep_open s' = ep_open s"
  shows "ep_inv s'"
  using assms(1) unfolding ep_inv_def assms(2-5) .

lemma ep_inv_same_but_revents:
  assumes inv: "ep_inv s" and same: "same_but_revents s s'"
  shows "ep_inv s'"
proof -
  note fields = same_but_revents_fields[OF same]
  have orig: "\<exists>c0 r. ep_chan s p = Some c0 \<and> c = set_revents r c0" if "ep_chan s' p = Some c" for p c
  proof -
    have "map_option (set_revents 0) (ep_chan s p) = Some (set_revents 0 c)"
      using same that unfolding same_but_revents_def by (metis option.simps(9))
    then obtain c0 where "ep_chan s p = Some c0" by auto
    then show ?thesis using same_but_revents_chan[OF same] that by fastforce
  qed
  show ?thesis
  proof (rule ep_invI)
    fix p c assume "ep_chan s' p = Some c"
    then obtain c0 r where c0: "ep_chan s p = Some c0" "c = set_revents r c0" using orig by blast
    then show "ch_index c \<in> {kNew, kAdded, kDeleted} \<and> (ch_index c = kDeleted \<longrightarrow> isNoneEvent c) \<and> ch_fd c \<in> ep_open s'"
      using ep_invD(1,3,4)[OF inv c0(1)] fields by (simp add: set_revents_def isNoneEvent_def)
    show "(ch_index c = kNew) = (ep_channels s' (ch_fd c) \<noteq> Some p)"
      using ep_invD(2)[OF inv c0(1)] c0(2) fields by (simp add: set_revents_def)
  next
    fix fd p assume "ep_channels s' fd = Some p"
    then obtain c where "ep_chan s p = Some c" "ch_fd c = fd" using ep_invD(5)[OF inv] fields by auto
    then show "\<exists>c. ep_chan s' p = Some c \<and> ch_fd c = fd"
      using same_but_revents_chan[OF same] by (fastforce simp: set_revents_def)
  next
    fix fd
    show "ep_interest s' fd = (case ep_channels s' fd of None \<Rightarrow> None
         | Some p \<Rightarrow> (case ep_chan s' p of None \<Rightarrow> None
           | Some c \<Rightarrow> if ch_index c = kAdded then Some (ch_events c, p) else None))"
    proof (cases "ep_channels s fd")
      case None
      then show ?thesis using ep_invD(6)[OF inv None] fields by simp
    next
      case (Some p)
      then obtain c where c: "ep_chan s p = Some c" using ep_invD(5)[OF inv] by blast
      obtain r where "ep_chan s' p = Some (set_revents r c)" using same_but_revents_chan[OF same c] by blast
      then show ?thesis using Some fields ep_invD(7)[OF inv Some c] by (simp add: set_revents_def)
    qed
  qed
qed

lemma ep_poll_ok:
  assumes "ep_inv s" "length evs \<le> ep_listsize s" "distinct (map snd evs)"
    and "\<forall>e \<in> set evs. \<exists>fd mask. ep_interest s fd = Some (mask, snd e)"
  shows "\<exists>s'. ep_poll (Inr evs) s = Inr (map snd evs, s') \<and> ep_inv s' \<and>
    (\<forall>e \<in> set evs. map_option ch_revents (ep_chan s' (snd e)) = Some (fst e)) \<and>
    (\<forall>p. p \<notin> snd ` set evs \<longrightarrow> ep_chan s' p = ep_chan s p) \<and>
    ep_listsize s' = (if evs \<noteq> [] \<and> length evs = ep_listsize s then 2 * ep_listsize s else ep_listsize s) \<and>
    (\<forall>p c. ep_chan s p = Some c \<longrightarrow> (\<exists>r. ep_chan s' p = Some (set_revents r c)))"
proof -
  have reg: "\<forall>e \<in> set evs. \<exists>c. ep_chan s (snd e) = Some c \<and> ep_channels s (ch_fd c) = Some (snd e)"
  proof
    fix e assume "e \<in> set evs"
    then obtain fd mask where i: "ep_interest s fd = Some (mask, snd e)" using assms(4) by blast
    then obtain p where p: "ep_channels s fd = Some p" using ep_invD(6)[OF assms(1), of fd] by (cases "ep_channels s fd") auto
    then obtain c where "ep_chan s p = Some c" "ch_fd c = fd" using ep_invD(5)[OF assms(1)] by blast
    then show "\<exists>c. ep_chan s (snd e) = Some c \<and> ep_channels s (ch_fd c) = Some (snd e)"
      using ep_invD(7)[OF assms(1) p] i p by (auto split: if_splits)
  qed
  have refl: "same_but_revents s s" by (simp add: same_but_revents_def)
  obtain s1 where s1: "res_fold fill_one evs ([], s) = Inr (map snd evs, s1)" "same_but_revents s s1"
    "\<forall>e \<in> set evs. map_option ch_revents (ep_chan s1 (snd e)) = Some (fst e)"
    "\<forall>p. p \<notin> snd ` set evs \<longrightarrow> ep_chan s1 p = ep_chan s p"
    using fill_ok[OF refl reg assms(3), of "[]"] by auto
  have inv1: "ep_inv s1" by (rule ep_inv_same_but_revents[OF assms(1) s1(2)])
  have l: "ep_listsize s1 = ep_listsize s" using same_but_revents_fields[OF s1(2)] by simp
  have inv2: "ep_inv (s1\<lparr>ep_listsize := n\<rparr>)" for n by (rule ep_inv_cong[OF inv1]) simp_all
  show ?thesis
  proof (cases "evs = []")
    case True
    then show ?thesis using assms(1) same_but_revents_chan[OF refl] by (simp add: ep_poll_def)
  next
    case False
    let ?s2 = "if length evs = ep_listsize s1 then s1\<lparr>ep_listsize := ep_listsize s1 * 2\<rparr> else s1"
    have "ep_poll (Inr evs) s = Inr (map snd evs, ?s2)"
      using False s1(1) assms(2) by (simp add: ep_poll_def ep_fillActiveChannels_def)
    moreover have "ep_inv ?s2" "ep_chan ?s2 = ep_chan s1"
      "ep_listsize ?s2 = (if evs \<noteq> [] \<and> length evs = ep_listsize s then 2 * ep_listsize s else ep_listsize s)"
      using inv1 inv2 False l by simp_all
    moreover have "\<forall>p c. ep_chan s p = Some c \<longrightarrow> (\<exists>r. ep_chan s1 p = Some (set_revents r c))" using same_but_revents_chan[OF s1(2)] by blast
    ultimately show ?thesis using s1(3,4) by auto
  qed
qed

text \<open>
  C25: When \<^verbatim>\<open>epoll_wait\<close> reports events of descriptors on the interest list (at most as many as
  its list has room for), \<^verbatim>\<open>poll\<close> hands every reported channel, and no other, to the loop in the
  order of the report, with the reported mask as its \<^verbatim>\<open>revents_\<close>; no assertion of
  \<^verbatim>\<open>fillActiveChannels\<close> fails, and a full event list is doubled.
\<close>

theorem EPollPoller_poll_delivers:
  assumes "ep_inv s" "length evs \<le> ep_listsize s" "distinct (map snd evs)"
    and "\<forall>e \<in> set evs. \<exists>fd mask. ep_interest s fd = Some (mask, snd e)"
  shows "\<exists>s'. ep_poll (Inr evs) s = Inr (map snd evs, s') \<and> ep_inv s' \<and>
    (\<forall>e \<in> set evs. map_option ch_revents (ep_chan s' (snd e)) = Some (fst e)) \<and>
    (\<forall>p. p \<notin> snd ` set evs \<longrightarrow> ep_chan s' p = ep_chan s p) \<and>
    ep_listsize s' = (if evs \<noteq> [] \<and> length evs = ep_listsize s then 2 * ep_listsize s else ep_listsize s)"
  using ep_poll_ok[OF assms] by blast

section \<open>Witnesses\<close>

definition demo_poller :: epoll_poller where
  "demo_poller = \<lparr>ep_pid = 1, ep_chan = [100 \<mapsto> (Channel_ctor 7)\<lparr>ch_events := 3, ch_index := 1\<rparr>, 200 \<mapsto> Channel_ctor 8],
     ep_channels = [7 \<mapsto> 100], ep_interest = [7 \<mapsto> (3, 100)], ep_open = {7, 8}, ep_listsize = 16\<rparr>"

lemma demo_poller_inv: "ep_inv demo_poller"
  by (rule ep_invI) (auto simp: demo_poller_def Channel_ctor_def k_defs isNoneEvent_def split: if_splits option.splits)


theorem EPollPoller_poll_delivers_witness:
  "\<exists>s'. ep_poll (Inr [(1, 100)]) demo_poller = Inr ([100], s') \<and> ep_inv s' \<and>
    map_option ch_revents (ep_chan s' 100) = Some 1 \<and> ep_listsize s' = 16"
proof -
  have "\<forall>e \<in> set [(1 :: events, 100 :: nat)]. \<exists>fd mask. ep_interest demo_poller fd = Some (mask, snd e)"
    by (auto simp: demo_poller_def)
  moreover have "ep_listsize demo_poller = 16" by (simp add: demo_poller_def)
  ultimately show ?thesis
    using EPollPoller_poll_delivers[OF demo_poller_inv, of "[(1, 100)]"] by auto
qed

end
