(* ===== verification/PollPoller.thy ===== *)
theory PollPoller
  imports PollerSpec
begin

text \<open>
  The poller on \<^verbatim>\<open>poll(2)\<close> (\<^verbatim>\<open>reactor.muduo/PollPoller.cpp\<close>). The \<^verbatim>\<open>pollfd\<close> structures lie in a
  vector, a channel's index is its position there, and a disabled channel is marked by the
  descriptor \<open>- fd - 1\<close>, which \<^verbatim>\<open>poll\<close> ignores. \<^verbatim>\<open>events\<close> and \<^verbatim>\<open>revents\<close> are \<^verbatim>\<open>short\<close>s.
\<close>

record pollfd =
  pf_fd :: int
  pf_events :: "16 word"
  pf_revents :: "16 word"

record poll_poller =
  pp_pid :: thread_id
  pp_chan :: "nat \<Rightarrow> channel option"
  pp_channels :: "int \<Rightarrow> nat option"
  pollfds :: "pollfd list"

definition PollPoller_ctor :: "thread_id \<Rightarrow> poll_poller" where
  "PollPoller_ctor pid = \<lparr>pp_pid = pid, pp_chan = Map.empty, pp_channels = Map.empty, pollfds = []\<rparr>"

definition pp_with_chan :: "nat \<Rightarrow> poll_poller \<Rightarrow> (channel \<Rightarrow> 'a res) \<Rightarrow> 'a res" where
  "pp_with_chan p s k = (case pp_chan s p of None \<Rightarrow> Inl (Null_pointer ''Channel'') | Some c \<Rightarrow> k c)"

definition pp_upd_chan :: "nat \<Rightarrow> channel \<Rightarrow> poll_poller \<Rightarrow> poll_poller" where
  "pp_upd_chan p c s = s\<lparr>pp_chan := (pp_chan s)(p \<mapsto> c)\<rparr>"

text \<open>The loop of \<^verbatim>\<open>fillActiveChannels\<close> over the vector from position \<open>i\<close> on, \<open>n\<close> events to go.\<close>

fun pp_fill :: "nat \<Rightarrow> pollfd list \<Rightarrow> poll_poller \<Rightarrow> (pollfd list \<times> nat list \<times> poll_poller) res" where
  "pp_fill n [] s = Inr ([], [], s)"
| "pp_fill n (pfd # pfds) s =
     (if n = 0 then Inr (pfd # pfds, [], s)
      else if sint (pf_revents pfd) > 0 then
        (case pp_channels s (pf_fd pfd) of
           None \<Rightarrow> Inl (Assert_failed ''it != channels_.end()'')
         | Some p \<Rightarrow> pp_with_chan p s (\<lambda>c.
             res_bind (pp_fill (n - 1) pfds (pp_upd_chan p (set_revents (scast (pf_revents pfd)) c) s))
               (\<lambda>(pfds', active, s'). Inr (pfd\<lparr>pf_revents := 0\<rparr> # pfds', p # active, s'))))
      else res_bind (pp_fill n pfds s) (\<lambda>(pfds', active, s'). Inr (pfd # pfds', active, s')))"

definition pp_fillActiveChannels :: "nat \<Rightarrow> poll_poller \<Rightarrow> (nat list \<times> poll_poller) res" where
  "pp_fillActiveChannels numEvents s =
     res_bind (pp_fill numEvents (pollfds s) s) (\<lambda>(pfds, active, s'). Inr (active, s'\<lparr>pollfds := pfds\<rparr>))"

text \<open>The answer of \<^verbatim>\<open>poll\<close>: an error, or the \<^verbatim>\<open>revents\<close> it writes; it returns the number of
  structures whose \<^verbatim>\<open>revents\<close> are not zero.\<close>

definition pp_poll :: "int + 16 word list \<Rightarrow> poll_poller \<Rightarrow> (nat list \<times> poll_poller) res" where
  "pp_poll answer s =
     (case answer of
        Inl _ \<Rightarrow> Inr ([], s)
      | Inr revents \<Rightarrow>
          (let s1 = s\<lparr>pollfds := map2 (\<lambda>pfd r. pfd\<lparr>pf_revents := r\<rparr>) (pollfds s) revents\<rparr>;
               numEvents = length (filter (\<lambda>r. r \<noteq> 0) revents)
           in if numEvents > 0 then pp_fillActiveChannels numEvents s1 else Inr ([], s1)))"

definition pp_updateChannel :: "thread_id \<Rightarrow> nat \<Rightarrow> poll_poller \<Rightarrow> poll_poller res" where
  "pp_updateChannel tid p s =
     assertInLoopThread tid (pp_pid s)
     (pp_with_chan p s (\<lambda>c.
      let fd = ch_fd c
      in if ch_index c < 0 then
           (let pfd = \<lparr>pf_fd = fd, pf_events = ucast (ch_events c), pf_revents = ucast (ch_revents c)\<rparr>;
                s1 = s\<lparr>pollfds := pollfds s @ [pfd]\<rparr>;
                s2 = pp_upd_chan p (set_index (size_to_int (length (pollfds s1) - 1)) c) s1
            in Inr (s2\<lparr>pp_channels := (pp_channels s2)(fd \<mapsto> p)\<rparr>))
         else
           (let idx = ch_index c
            in require (0 \<le> idx \<and> idx < size_to_int (length (pollfds s))) ''idx >= 0 && idx < pollfds_.size()''
              (let pfd = pollfds s ! nat idx
               in require (pf_fd pfd = fd \<or> pf_fd pfd = - fd - 1) ''pfd.fd == fd || pfd.fd == -c->fd()-1''
                 (let pfd1 = pfd\<lparr>pf_events := ucast (ch_events c), pf_revents := ucast (ch_revents c)\<rparr>;
                      pfd2 = (if isNoneEvent c then pfd1\<lparr>pf_fd := - fd - 1\<rparr> else pfd1)
                  in Inr (s\<lparr>pollfds := (pollfds s)[nat idx := pfd2]\<rparr>))))))"

definition pp_removeChannel :: "thread_id \<Rightarrow> nat \<Rightarrow> poll_poller \<Rightarrow> poll_poller res" where
  "pp_removeChannel tid p s =
     assertInLoopThread tid (pp_pid s)
     (pp_with_chan p s (\<lambda>c.
      let idx = ch_index c; fd = ch_fd c; n = length (pollfds s)
      in require (0 \<le> idx \<and> nat idx < n) ''idx >= 0 && idx < pollfds_.size()''
        (let pfd = pollfds s ! nat idx
         in require (pf_fd pfd = - fd - 1 \<and> scast (pf_events pfd) = ch_events c)
              ''pfd.fd == -channel->fd() - 1 && pfd.events == channel->events()''
           (require (pp_channels s fd \<noteq> None) ''n == 1''
             (let s1 = s\<lparr>pp_channels := (pp_channels s)(fd := None)\<rparr>
              in if nat idx = n - 1 then Inr (s1\<lparr>pollfds := butlast (pollfds s1)\<rparr>)
                 else
                   (let channelAtEnd = pf_fd (last (pollfds s1));
                        s2 = s1\<lparr>pollfds := (pollfds s1)[nat idx := last (pollfds s1), n - 1 := pollfds s1 ! nat idx]\<rparr>;
                        channelAtEnd = (if channelAtEnd < 0 then - channelAtEnd - 1 else channelAtEnd)
                    in case pp_channels s2 channelAtEnd of
                         None \<Rightarrow> Inl (Null_pointer ''channels_[channelAtEnd]'')
                       | Some q \<Rightarrow> pp_with_chan q s2 (\<lambda>d.
                           Inr ((pp_upd_chan q (set_index idx d) s2)\<lparr>pollfds := butlast (pollfds s2)\<rparr>))))))))"

text \<open>\<^verbatim>\<open>enableReading\<close>, \dots with \<^verbatim>\<open>Channel::update\<close>, and \<^verbatim>\<open>Channel::remove\<close>, on this poller.\<close>

definition pp_set_events :: "nat \<Rightarrow> events \<Rightarrow> poll_poller \<Rightarrow> poll_poller res" where
  "pp_set_events p ev s = pp_with_chan p s (\<lambda>c.
     pp_updateChannel (pp_pid s) p (pp_upd_chan p (c\<lparr>ch_events := ev, ch_addedToLoop := True\<rparr>) s))"

definition pp_remove :: "nat \<Rightarrow> poll_poller \<Rightarrow> poll_poller res" where
  "pp_remove p s = pp_with_chan p s (\<lambda>c. require (isNoneEvent c) ''isNoneEvent()''
     (pp_removeChannel (pp_pid s) p (pp_upd_chan p (c\<lparr>ch_addedToLoop := False\<rparr>) s)))"

section \<open>Invariant\<close>

definition plain_fd :: "pollfd \<Rightarrow> int" where
  "plain_fd pfd = (if pf_fd pfd < 0 then - pf_fd pfd - 1 else pf_fd pfd)"

text \<open>The registered channels and the positions of the vector correspond one to one.\<close>

definition pp_inv :: "poll_poller \<Rightarrow> bool" where
  "pp_inv s \<longleftrightarrow>
     length (pollfds s) < 2 ^ 31 \<and>
     (\<forall>fd p. pp_channels s fd = Some p \<longrightarrow> 0 \<le> fd \<and>
        (\<exists>c. pp_chan s p = Some c \<and> ch_fd c = fd \<and> 0 \<le> ch_index c \<and> nat (ch_index c) < length (pollfds s) \<and>
             plain_fd (pollfds s ! nat (ch_index c)) = fd)) \<and>
     (\<forall>i < length (pollfds s). \<exists>p c. pp_channels s (plain_fd (pollfds s ! i)) = Some p \<and>
        pp_chan s p = Some c \<and> ch_index c = int i)"

lemma pp_with_chan_Some [simp]: "pp_chan s p = Some c \<Longrightarrow> pp_with_chan p s k = k c"
  by (simp add: pp_with_chan_def)

lemma pp_invD:
  assumes "pp_inv s"
  shows "length (pollfds s) < 2 ^ 31"
    and "\<And>fd p. pp_channels s fd = Some p \<Longrightarrow> 0 \<le> fd"
    and "\<And>fd p. pp_channels s fd = Some p \<Longrightarrow>
        \<exists>c. pp_chan s p = Some c \<and> ch_fd c = fd \<and> 0 \<le> ch_index c \<and> nat (ch_index c) < length (pollfds s) \<and>
            plain_fd (pollfds s ! nat (ch_index c)) = fd"
    and "\<And>i. i < length (pollfds s) \<Longrightarrow> \<exists>p c. pp_channels s (plain_fd (pollfds s ! i)) = Some p \<and>
        pp_chan s p = Some c \<and> ch_index c = int i"
  using assms unfolding pp_inv_def by blast+

lemma plain_fd_cases:
  "0 \<le> fd \<Longrightarrow> plain_fd pfd = fd \<longleftrightarrow> pf_fd pfd = fd \<or> pf_fd pfd = - fd - 1"
  by (auto simp: plain_fd_def)

text \<open>An update of a registered channel changes its structure in place.\<close>

lemma pp_set_events_registered:
  assumes inv: "pp_inv s" and c: "pp_channels s fd = Some p" "pp_chan s p = Some c"
  shows "pp_set_events p ev s = Inr (s\<lparr>
      pp_chan := (pp_chan s)(p \<mapsto> c\<lparr>ch_events := ev, ch_addedToLoop := True\<rparr>),
      pollfds := (pollfds s)[nat (ch_index c) :=
        (let pfd = (pollfds s ! nat (ch_index c))\<lparr>pf_events := ucast ev, pf_revents := ucast (ch_revents c)\<rparr>
         in if ev = 0 then pfd\<lparr>pf_fd := - fd - 1\<rparr> else pfd)]\<rparr>)"
proof -
  have r: "ch_fd c = fd" "0 \<le> ch_index c" "nat (ch_index c) < length (pollfds s)" "0 \<le> fd"
    "plain_fd (pollfds s ! nat (ch_index c)) = fd"
    using pp_invD(2,3)[OF inv c(1)] c(2) by auto
  have sz: "size_to_int (length (pollfds s)) = int (length (pollfds s))"
    by (rule size_to_int_small[OF pp_invD(1)[OF inv]])
  have "ch_index c < int (length (pollfds s))" using r by linarith
  moreover have "pf_fd (pollfds s ! nat (ch_index c)) = fd \<or> pf_fd (pollfds s ! nat (ch_index c)) = - fd - 1"
    using r(4,5) by (simp add: plain_fd_cases)
  ultimately show ?thesis
    using c(2) r by (simp add: pp_set_events_def pp_updateChannel_def pp_upd_chan_def Let_def sz
        isNoneEvent_def kNoneEvent_def)
qed

text \<open>What the kernel watches: the structures with a negative descriptor are ignored.\<close>

definition pp_watched :: "poll_poller \<Rightarrow> int \<Rightarrow> 16 word" where
  "pp_watched s fd = (case filter (\<lambda>pfd. pf_fd pfd = fd) (pollfds s) of [] \<Rightarrow> 0 | pfd # _ \<Rightarrow> pf_events pfd)"

lemma plain_fd_unique:
  assumes "pp_inv s" "i < length (pollfds s)" "plain_fd (pollfds s ! i) = fd" "pp_channels s fd = Some p" "pp_chan s p = Some c"
  shows "i = nat (ch_index c)"
  using pp_invD(4)[OF assms(1,2)] assms(3-5) by auto

lemma pp_inv_in_place:
  assumes inv: "pp_inv s" and c: "pp_channels s fd = Some p" "pp_chan s p = Some c"
    and c': "ch_fd c' = ch_fd c" "ch_index c' = ch_index c" and pfd: "plain_fd pfd = fd"
    and s': "pp_chan s' = (pp_chan s)(p \<mapsto> c')" "pp_channels s' = pp_channels s"
      "pollfds s' = (pollfds s)[nat (ch_index c) := pfd]"
  shows "pp_inv s'"
proof -
  have r: "ch_fd c = fd" "0 \<le> ch_index c" "nat (ch_index c) < length (pollfds s)"
    "plain_fd (pollfds s ! nat (ch_index c)) = fd"
    using pp_invD(3)[OF inv c(1)] c(2) by auto
  have same: "plain_fd (pollfds s' ! i) = plain_fd (pollfds s ! i)" if "i < length (pollfds s)" for i
    using that r pfd by (cases "i = nat (ch_index c)") (simp_all add: s')
  have len: "length (pollfds s') = length (pollfds s)" by (simp add: s')
  have chan: "\<exists>d'. pp_chan s' q = Some d' \<and> ch_fd d' = ch_fd d \<and> ch_index d' = ch_index d"
    if "pp_chan s q = Some d" for q d
    using that c(2) c' by (cases "q = p") (auto simp: s')
  show ?thesis
    unfolding pp_inv_def len s'(2)
  proof (intro conjI allI impI)
    fix fd' q assume q: "pp_channels s fd' = Some q"
    show "0 \<le> fd'" by (rule pp_invD(2)[OF inv q])
    obtain d where d: "pp_chan s q = Some d" "ch_fd d = fd'" "0 \<le> ch_index d" "nat (ch_index d) < length (pollfds s)"
      "plain_fd (pollfds s ! nat (ch_index d)) = fd'" using pp_invD(3)[OF inv q] by blast
    with chan[OF d(1)] same[OF d(4)]
    show "\<exists>c. pp_chan s' q = Some c \<and> ch_fd c = fd' \<and> 0 \<le> ch_index c \<and> nat (ch_index c) < length (pollfds s) \<and>
      plain_fd (pollfds s' ! nat (ch_index c)) = fd'" by auto
  next
    fix i assume i: "i < length (pollfds s)"
    obtain q d where "pp_channels s (plain_fd (pollfds s ! i)) = Some q" "pp_chan s q = Some d" "ch_index d = int i"
      using pp_invD(4)[OF inv i] by blast
    with chan same[OF i]
    show "\<exists>q d. pp_channels s (plain_fd (pollfds s' ! i)) = Some q \<and> pp_chan s' q = Some d \<and> ch_index d = int i"
      by metis
  qed (rule pp_invD(1)[OF inv])
qed

lemma pp_set_events_inv:
  assumes inv: "pp_inv s" and c: "pp_channels s fd = Some p" "pp_chan s p = Some c"
  shows "\<exists>s'. pp_set_events p ev s = Inr s' \<and> pp_inv s' \<and> pp_channels s' = pp_channels s \<and>
    pp_chan s' = (pp_chan s)(p \<mapsto> c\<lparr>ch_events := ev, ch_addedToLoop := True\<rparr>) \<and> length (pollfds s') = length (pollfds s) \<and>
    pf_fd (pollfds s' ! nat (ch_index c)) = (if ev = 0 then - fd - 1 else pf_fd (pollfds s ! nat (ch_index c))) \<and>
    pf_events (pollfds s' ! nat (ch_index c)) = ucast ev \<and>
    (\<forall>i. i \<noteq> nat (ch_index c) \<longrightarrow> pollfds s' ! i = pollfds s ! i)"
proof -
  have r: "nat (ch_index c) < length (pollfds s)" "plain_fd (pollfds s ! nat (ch_index c)) = fd" "0 \<le> fd"
    using pp_invD(2,3)[OF inv c(1)] c(2) by auto
  define pfd where "pfd = (let pfd = (pollfds s ! nat (ch_index c))\<lparr>pf_events := ucast ev, pf_revents := ucast (ch_revents c)\<rparr>
         in if ev = 0 then pfd\<lparr>pf_fd := - fd - 1\<rparr> else pfd)"
  define s' where "s' = s\<lparr>pp_chan := (pp_chan s)(p \<mapsto> c\<lparr>ch_events := ev, ch_addedToLoop := True\<rparr>),
      pollfds := (pollfds s)[nat (ch_index c) := pfd]\<rparr>"
  have "plain_fd pfd = fd" using r by (auto simp: plain_fd_def pfd_def Let_def)
  then have "pp_inv s'"
    by (intro pp_inv_in_place[OF inv c, of "c\<lparr>ch_events := ev, ch_addedToLoop := True\<rparr>" pfd]) (simp_all add: s'_def)
  moreover have "pp_set_events p ev s = Inr s'"
    using pp_set_events_registered[OF inv c, of ev] by (simp add: s'_def pfd_def)
  ultimately show ?thesis
    using r(1) by (intro exI[of _ s']) (simp add: s'_def, simp add: pfd_def Let_def)
qed

lemma pp_watched_marked:
  assumes inv: "pp_inv s" and c: "pp_channels s fd = Some p" "pp_chan s p = Some c"
    and m: "pf_fd (pollfds s ! nat (ch_index c)) = - fd - 1"
  shows "pp_watched s fd = 0"
proof -
  have "pf_fd pfd \<noteq> fd" if "pfd \<in> set (pollfds s)" for pfd
  proof
    assume eq: "pf_fd pfd = fd"
    from that obtain i where i: "i < length (pollfds s)" "pollfds s ! i = pfd" by (auto simp: in_set_conv_nth)
    have "0 \<le> fd" by (rule pp_invD(2)[OF inv c(1)])
    then have "plain_fd (pollfds s ! i) = fd" using eq i by (simp add: plain_fd_def)
    from plain_fd_unique[OF inv i(1) this c] show False using m i eq \<open>0 \<le> fd\<close> by simp
  qed
  then have "filter (\<lambda>pfd. pf_fd pfd = fd) (pollfds s) = []" by (simp add: filter_empty_conv)
  then show ?thesis by (simp add: pp_watched_def)
qed

text \<open>
  C40: A channel that was disabled (\<^verbatim>\<open>disableAll\<close>) on the \<^verbatim>\<open>poll\<close> poller stays deaf: enabling events
  on it again succeeds and stores the event mask, but the descriptor keeps its negative mark, so
  \<^verbatim>\<open>poll\<close> goes on ignoring it.
\<close>

theorem PollPoller_reenabled_channel_is_ignored:
  assumes "pp_inv s" "pp_channels s fd = Some p" "ev \<noteq> 0"
  shows "\<exists>s1 s2. pp_set_events p 0 s = Inr s1 \<and> pp_set_events p ev s1 = Inr s2 \<and> pp_inv s2 \<and>
    ch_events (the (pp_chan s2 p)) = ev \<and> pp_watched s2 fd = 0"
proof -
  obtain c where c: "pp_chan s p = Some c" using pp_invD(3)[OF assms(1,2)] by blast
  let ?c1 = "c\<lparr>ch_events := 0, ch_addedToLoop := True\<rparr>"
  obtain s1 where s1: "pp_set_events p 0 s = Inr s1" "pp_inv s1" "pp_channels s1 fd = Some p" "pp_chan s1 p = Some ?c1"
    "pf_fd (pollfds s1 ! nat (ch_index ?c1)) = - fd - 1"
    using pp_set_events_inv[OF assms(1,2) c, of 0] assms(2) by auto
  obtain s2 where s2: "pp_set_events p ev s1 = Inr s2" "pp_inv s2" "pp_channels s2 fd = Some p"
    "pp_chan s2 p = Some (?c1\<lparr>ch_events := ev, ch_addedToLoop := True\<rparr>)"
    "pf_fd (pollfds s2 ! nat (ch_index ?c1)) = - fd - 1"
    using pp_set_events_inv[OF s1(2-4), of ev] assms(3) s1(3,5) by auto
  have "pp_watched s2 fd = 0" by (rule pp_watched_marked[OF s2(2-4)]) (use s2(5) in simp)
  then show ?thesis using s1(1) s2 by auto
qed

section \<open>Removal\<close>

text \<open>Removing position \<open>k\<close> by moving the last element there.\<close>

definition swap_remove :: "nat \<Rightarrow> 'a list \<Rightarrow> 'a list" where
  "swap_remove k xs = (if k = length xs - 1 then butlast xs
     else butlast (xs[k := last xs, length xs - 1 := xs ! k]))"

lemma length_swap_remove [simp]: "length (swap_remove k xs) = length xs - 1"
  by (simp add: swap_remove_def)

lemma nth_swap_remove:
  assumes "k < length xs" "i < length xs - 1"
  shows "swap_remove k xs ! i = (if i = k then last xs else xs ! i)"
  using assms by (auto simp: swap_remove_def nth_butlast nth_list_update)

lemma pp_inv_drop_last:
  assumes inv: "pp_inv s" and p: "pp_channels s fd = Some p" "pp_chan s p = Some c"
    and k: "nat (ch_index c) = length (pollfds s) - 1"
    and s': "s' = s\<lparr>pp_channels := (pp_channels s)(fd := None), pollfds := butlast (pollfds s)\<rparr>"
  shows "pp_inv s'"
proof -
  let ?k = "nat (ch_index c)" and ?n = "length (pollfds s)"
  note s'_def = s' and True = k
  have r: "plain_fd (pollfds s ! ?k) = fd" using pp_invD(3)[OF inv p(1)] p(2) by auto
  show ?thesis
    unfolding pp_inv_def
  proof (intro conjI allI impI)
    show "length (pollfds s') < 2 ^ 31" using pp_invD(1)[OF inv] by (simp add: s'_def)
  next
    fix fd' q assume "pp_channels s' fd' = Some q"
    then have q: "pp_channels s fd' = Some q" "fd' \<noteq> fd" by (auto simp: s'_def split: if_splits)
    show "0 \<le> fd'" by (rule pp_invD(2)[OF inv q(1)])
    obtain d where d: "pp_chan s q = Some d" "ch_fd d = fd'" "0 \<le> ch_index d" "nat (ch_index d) < ?n"
      "plain_fd (pollfds s ! nat (ch_index d)) = fd'" using pp_invD(3)[OF inv q(1)] by blast
    have "nat (ch_index d) \<noteq> ?k" using d(5) r q(2) by auto
    then have "nat (ch_index d) < ?n - 1" using d(4) True by simp
    then show "\<exists>c. pp_chan s' q = Some c \<and> ch_fd c = fd' \<and> 0 \<le> ch_index c \<and> nat (ch_index c) < length (pollfds s') \<and>
      plain_fd (pollfds s' ! nat (ch_index c)) = fd'" using d by (simp add: s'_def nth_butlast)
  next
    fix i assume "i < length (pollfds s')"
    then have i: "i < ?n - 1" by (simp add: s'_def)
    then have i': "i < ?n" by simp
    obtain q d where q: "pp_channels s (plain_fd (pollfds s ! i)) = Some q" "pp_chan s q = Some d" "ch_index d = int i"
      using pp_invD(4)[OF inv i'] by blast
    have "plain_fd (pollfds s ! i) \<noteq> fd" using plain_fd_unique[OF inv i' _ p(1,2)] i True by auto
    then show "\<exists>q d. pp_channels s' (plain_fd (pollfds s' ! i)) = Some q \<and> pp_chan s' q = Some d \<and> ch_index d = int i"
      using q i by (simp add: s'_def nth_butlast)
  qed
qed

text \<open>The last structure takes the place of the removed one: the descriptors stay where their channels expect them.\<close>

definition pp_moved :: "int \<Rightarrow> channel \<Rightarrow> nat \<Rightarrow> channel \<Rightarrow> poll_poller \<Rightarrow> poll_poller" where
  "pp_moved fd c q d s = s\<lparr>pp_channels := (pp_channels s)(fd := None),
     pp_chan := (pp_chan s)(q \<mapsto> set_index (ch_index c) d), pollfds := swap_remove (nat (ch_index c)) (pollfds s)\<rparr>"

lemma pp_moved_channels:
  assumes inv: "pp_inv s" and p: "pp_channels s fd = Some p" "pp_chan s p = Some c"
    and k: "nat (ch_index c) < length (pollfds s) - 1"
    and q: "pp_channels s (plain_fd (last (pollfds s))) = Some q" "pp_chan s q = Some d" "ch_index d = int (length (pollfds s) - 1)"
    and q': "pp_channels s fd' = Some q'" "fd' \<noteq> fd"
  shows "\<exists>e. pp_chan (pp_moved fd c q d s) q' = Some e \<and> ch_fd e = fd' \<and> 0 \<le> ch_index e \<and>
    nat (ch_index e) < length (swap_remove (nat (ch_index c)) (pollfds s)) \<and>
    plain_fd (swap_remove (nat (ch_index c)) (pollfds s) ! nat (ch_index e)) = fd'"
proof -
  let ?k = "nat (ch_index c)" and ?n = "length (pollfds s)"
  have r: "0 \<le> ch_index c" "?k < ?n" "plain_fd (pollfds s ! ?k) = fd" using pp_invD(3)[OF inv p(1)] p(2) by auto
  have last: "last (pollfds s) = pollfds s ! (?n - 1)" using r(2) by (intro last_conv_nth) auto
  obtain e where e: "pp_chan s q' = Some e" "ch_fd e = fd'" "0 \<le> ch_index e" "nat (ch_index e) < ?n"
    "plain_fd (pollfds s ! nat (ch_index e)) = fd'" using pp_invD(3)[OF inv q'(1)] by blast
  show ?thesis
  proof (cases "q' = q")
    case True
    then have "e = d" using e q by simp
    moreover have "nat (ch_index d) = ?n - 1" unfolding q(3) by (rule nat_int)
    ultimately have "plain_fd (last (pollfds s)) = fd'" using e(5) last by simp
    then show ?thesis using True \<open>e = d\<close> e(2) r(1) k nth_swap_remove[OF r(2) k] by (simp add: pp_moved_def set_index_def)
  next
    case nq: False
    have "nat (ch_index e) \<noteq> ?k" using e(5) r(3) q'(2) by auto
    moreover have "nat (ch_index e) \<noteq> ?n - 1" using nq e(5) q'(1) q(1) last by auto
    ultimately show ?thesis using nq e nth_swap_remove[OF r(2), of "nat (ch_index e)"] by (simp add: pp_moved_def)
  qed
qed

lemma pp_moved_pollfds:
  assumes inv: "pp_inv s" and p: "pp_channels s fd = Some p" "pp_chan s p = Some c"
    and k: "nat (ch_index c) < length (pollfds s) - 1"
    and q: "pp_channels s (plain_fd (last (pollfds s))) = Some q" "pp_chan s q = Some d" "ch_index d = int (length (pollfds s) - 1)"
    and i: "i < length (pollfds s) - 1"
  shows "\<exists>q' e. pp_channels (pp_moved fd c q d s) (plain_fd (swap_remove (nat (ch_index c)) (pollfds s) ! i)) = Some q' \<and>
    pp_chan (pp_moved fd c q d s) q' = Some e \<and> ch_index e = int i"
proof -
  let ?k = "nat (ch_index c)" and ?n = "length (pollfds s)" and ?last = "last (pollfds s)"
  have r: "0 \<le> ch_index c" "?k < ?n" using pp_invD(3)[OF inv p(1)] p(2) by auto
  have n1: "?n - 1 < ?n" "i < ?n" using k i by simp_all
  have "?last = pollfds s ! (?n - 1)" using r(2) by (intro last_conv_nth) auto
  then have lastfd: "plain_fd ?last \<noteq> fd" using plain_fd_unique[OF inv n1(1) _ p(1,2)] k by auto
  show ?thesis
  proof (cases "i = ?k")
    case True
    then show ?thesis using q lastfd r nth_swap_remove[OF r(2) i] by (simp add: pp_moved_def set_index_def)
  next
    case nk: False
    obtain q' e where q': "pp_channels s (plain_fd (pollfds s ! i)) = Some q'" "pp_chan s q' = Some e" "ch_index e = int i"
      using pp_invD(4)[OF inv n1(2)] by blast
    have "plain_fd (pollfds s ! i) \<noteq> fd" using plain_fd_unique[OF inv n1(2) _ p(1,2)] nk by auto
    moreover have "q' \<noteq> q" using q q' i by auto
    ultimately show ?thesis using q' nk nth_swap_remove[OF r(2) i] by (simp add: pp_moved_def)
  qed
qed

lemma pp_inv_move_last:
  assumes inv: "pp_inv s" and p: "pp_channels s fd = Some p" "pp_chan s p = Some c"
    and k: "nat (ch_index c) < length (pollfds s) - 1"
    and q: "pp_channels s (plain_fd (last (pollfds s))) = Some q" "pp_chan s q = Some d" "ch_index d = int (length (pollfds s) - 1)"
    and s': "s' = s\<lparr>pp_channels := (pp_channels s)(fd := None),
        pp_chan := (pp_chan s)(q \<mapsto> set_index (ch_index c) d), pollfds := swap_remove (nat (ch_index c)) (pollfds s)\<rparr>"
  shows "pp_inv s'"
  unfolding pp_inv_def
proof (intro conjI allI impI)
  have s'_eq: "s' = pp_moved fd c q d s" by (simp add: s' pp_moved_def)
  show "length (pollfds s') < 2 ^ 31" using pp_invD(1)[OF inv] by (simp add: s')
  show "0 \<le> fd'" if "pp_channels s' fd' = Some q'" for fd' q'
    using that pp_invD(2)[OF inv, of fd' q'] by (simp add: s' split: if_splits)
  show "\<exists>e. pp_chan s' q' = Some e \<and> ch_fd e = fd' \<and> 0 \<le> ch_index e \<and> nat (ch_index e) < length (pollfds s') \<and>
      plain_fd (pollfds s' ! nat (ch_index e)) = fd'" if "pp_channels s' fd' = Some q'" for fd' q'
    using that pp_moved_channels[OF inv p k q, of fd' q'] by (simp add: s'_eq) (simp add: pp_moved_def split: if_splits)
  show "\<exists>q' e. pp_channels s' (plain_fd (pollfds s' ! i)) = Some q' \<and> pp_chan s' q' = Some e \<and> ch_index e = int i"
    if "i < length (pollfds s')" for i
    using that pp_moved_pollfds[OF inv p k q, of i] by (simp add: s'_eq) (simp add: pp_moved_def)
qed

text \<open>
  A disabled registered channel is removed: its structure leaves the vector, the last channel
  takes over its position, and the others stay where they are.
\<close>

lemma pp_removeChannel_ok:
  assumes inv: "pp_inv s" and p: "pp_channels s fd = Some p" "pp_chan s p = Some c" "ch_events c = 0"
    and pfd: "pf_fd (pollfds s ! nat (ch_index c)) = - fd - 1" "pf_events (pollfds s ! nat (ch_index c)) = 0"
  shows "\<exists>s'. pp_removeChannel (pp_pid s) p s = Inr s' \<and> pp_inv s' \<and>
    pp_channels s' = (pp_channels s)(fd := None) \<and> pollfds s' = swap_remove (nat (ch_index c)) (pollfds s) \<and>
    pp_chan s' p = Some c \<and> (\<forall>q. map_option (set_index 0) (pp_chan s' q) = map_option (set_index 0) (pp_chan s q)) \<and>
    pp_pid s' = pp_pid s"
proof -
  let ?k = "nat (ch_index c)" and ?n = "length (pollfds s)"
  have r: "ch_fd c = fd" "0 \<le> ch_index c" "?k < ?n" "plain_fd (pollfds s ! ?k) = fd"
    using pp_invD(3)[OF inv p(1)] p(2) by auto
  have guard: "pf_fd (pollfds s ! ?k) = - fd - 1 \<and> scast (pf_events (pollfds s ! ?k)) = ch_events c"
    using pfd p(3) by simp
  show ?thesis
  proof (cases "?k = ?n - 1")
    case True
    define s' where "s' = s\<lparr>pp_channels := (pp_channels s)(fd := None), pollfds := butlast (pollfds s)\<rparr>"
    have "pp_removeChannel (pp_pid s) p s = Inr s'"
      using True r p guard by (simp add: pp_removeChannel_def Let_def s'_def)
    moreover have "pp_inv s'" by (rule pp_inv_drop_last[OF inv p(1,2) True s'_def])
    ultimately show ?thesis using True p by (intro exI[of _ s']) (simp add: s'_def swap_remove_def)
  next
    case False
    then have k: "?k < ?n - 1" using r(3) by simp
    have n1: "?n - 1 < ?n" using k by simp
    have ne: "pollfds s \<noteq> []" using r(3) by auto
    let ?last = "last (pollfds s)"
    have last: "?last = pollfds s ! (?n - 1)" using ne by (rule last_conv_nth)
    obtain q d where q: "pp_channels s (plain_fd ?last) = Some q" "pp_chan s q = Some d" "ch_index d = int (?n - 1)"
      using pp_invD(4)[OF inv n1] last by metis
    have nd: "nat (ch_index d) = ?n - 1" unfolding q(3) by (rule nat_int)
    have lastfd: "plain_fd ?last \<noteq> fd" using plain_fd_unique[OF inv n1 _ p(1,2)] last k by auto
    have qp: "q \<noteq> p" using q p k by auto
    define s' where "s' = s\<lparr>pp_channels := (pp_channels s)(fd := None),
        pp_chan := (pp_chan s)(q \<mapsto> set_index (ch_index c) d), pollfds := swap_remove ?k (pollfds s)\<rparr>"
    have "pp_removeChannel (pp_pid s) p s = Inr s'"
      using False r p guard q lastfd
      by (simp add: pp_removeChannel_def pp_upd_chan_def Let_def s'_def swap_remove_def plain_fd_def[symmetric])
    moreover have "pp_inv s'" by (rule pp_inv_move_last[OF inv p(1,2) k q s'_def])
    ultimately show ?thesis using p q qp by (intro exI[of _ s']) (auto simp: s'_def set_index_def)
  qed
qed

text \<open>
  Removing a channel from the \<^verbatim>\<open>poll\<close> poller. After \<^verbatim>\<open>disableAll\<close>, \<^verbatim>\<open>remove\<close> succeeds, takes the
  channel out of the map and its structure out of the vector (the last one moves into the gap)
  and keeps the correspondence of channels and positions. But it does not reset the channel's
  index: every later \<^verbatim>\<open>enableReading\<close>, \dots on the removed channel fails an assertion.
\<close>

theorem PollPoller_removed_channel_unusable:
  assumes "pp_inv s" "pp_channels s fd = Some p"
  shows "\<exists>s1 s2. pp_set_events p 0 s = Inr s1 \<and> pp_remove p s1 = Inr s2 \<and> pp_inv s2 \<and>
    pp_channels s2 = (pp_channels s)(fd := None) \<and> length (pollfds s2) = length (pollfds s) - 1 \<and>
    (\<forall>ev. \<exists>what. pp_set_events p ev s2 = Inl (Assert_failed what))"
proof -
  obtain c where c: "pp_chan s p = Some c" "ch_fd c = fd" "0 \<le> ch_index c" using pp_invD(3)[OF assms] by blast
  define c1 where "c1 = c\<lparr>ch_events := 0, ch_addedToLoop := True\<rparr>"
  obtain s1 where s1: "pp_set_events p 0 s = Inr s1" "pp_inv s1" "pp_channels s1 = pp_channels s" "pp_chan s1 p = Some c1"
    "length (pollfds s1) = length (pollfds s)"
    "pf_fd (pollfds s1 ! nat (ch_index c)) = - fd - 1" "pf_events (pollfds s1 ! nat (ch_index c)) = 0"
    using pp_set_events_inv[OF assms c(1), of 0] by (auto simp: c1_def)
  define c2 where "c2 = c1\<lparr>ch_addedToLoop := False\<rparr>"
  define t where "t = pp_upd_chan p c2 s1"
  have ch1: "pp_channels s1 fd = Some p" using s1(3) assms(2) by simp
  have pl: "plain_fd (pollfds s1 ! nat (ch_index c)) = fd"
    using pp_invD(3)[OF s1(2) ch1] s1(4) by (auto simp: c1_def)
  have inv_t: "pp_inv t"
    using pp_inv_in_place[OF s1(2) ch1 s1(4), of c2 "pollfds s1 ! nat (ch_index c)" t] pl
    by (simp add: t_def pp_upd_chan_def c2_def c1_def list_update_id)
  have t: "pp_channels t fd = Some p" "pp_chan t p = Some c2" "ch_events c2 = 0" "pollfds t = pollfds s1" "pp_pid t = pp_pid s1"
    "ch_index c2 = ch_index c" "pp_channels t = pp_channels s"
    using ch1 s1(3) by (simp_all add: t_def pp_upd_chan_def c2_def c1_def)
  obtain s2 where s2: "pp_removeChannel (pp_pid t) p t = Inr s2" "pp_inv s2" "pp_channels s2 = (pp_channels s)(fd := None)"
    "length (pollfds s2) = length (pollfds s) - 1" "pp_chan s2 p = Some c2" "pp_pid s2 = pp_pid t"
    using pp_removeChannel_ok[OF inv_t t(1-3)] s1 t by auto
  have "pp_remove p s1 = Inr s2"
    using s2(1) s1(4) t(5) by (simp add: pp_remove_def t_def c2_def c1_def isNoneEvent_def kNoneEvent_def)
  moreover have "\<exists>what. pp_set_events p ev s2 = Inl (Assert_failed what)" for ev
  proof (cases "ch_index c < int (length (pollfds s2))")
    case True
    then have i: "nat (ch_index c) < length (pollfds s2)" using c(3) by linarith
    have "plain_fd (pollfds s2 ! nat (ch_index c)) \<noteq> fd"
      using pp_invD(4)[OF s2(2) i] s2(3) by auto
    then have "\<not> (pf_fd (pollfds s2 ! nat (ch_index c)) = fd \<or> pf_fd (pollfds s2 ! nat (ch_index c)) = - fd - 1)"
      using plain_fd_cases[OF pp_invD(2)[OF assms]] by auto
    then show ?thesis
      using True s2(5) c t(6) size_to_int_small[OF pp_invD(1)[OF s2(2)]]
      by (simp add: pp_set_events_def pp_updateChannel_def pp_upd_chan_def Let_def c2_def c1_def require_def)
  next
    case False
    then show ?thesis
      using s2(5) c t(6) size_to_int_small[OF pp_invD(1)[OF s2(2)]]
      by (simp add: pp_set_events_def pp_updateChannel_def pp_upd_chan_def Let_def c2_def c1_def require_def)
  qed
  ultimately show ?thesis using s1(1) s2 by blast
qed

section \<open>Witnesses\<close>

definition demo_poll :: poll_poller where
  "demo_poll = \<lparr>pp_pid = 1, pp_chan = [100 \<mapsto> (Channel_ctor 7)\<lparr>ch_events := 3, ch_index := 0\<rparr>],
     pp_channels = [7 \<mapsto> 100], pollfds = [\<lparr>pf_fd = 7, pf_events = 3, pf_revents = 0\<rparr>]\<rparr>"

lemma demo_poll_inv: "pp_inv demo_poll"
  by (auto simp: pp_inv_def demo_poll_def Channel_ctor_def plain_fd_def split: if_splits)

theorem PollPoller_reenabled_channel_is_ignored_witness:
  "\<exists>s1 s2. pp_set_events 100 0 demo_poll = Inr s1 \<and> pp_set_events 100 3 s1 = Inr s2 \<and> pp_inv s2 \<and>
    ch_events (the (pp_chan s2 100)) = 3 \<and> pp_watched s2 7 = 0"
  by (rule PollPoller_reenabled_channel_is_ignored[OF demo_poll_inv]) (simp_all add: demo_poll_def)

theorem PollPoller_removed_channel_unusable_witness:
  "\<exists>s1 s2. pp_set_events 100 0 demo_poll = Inr s1 \<and> pp_remove 100 s1 = Inr s2 \<and> pp_inv s2 \<and>
    pp_channels s2 = (pp_channels demo_poll)(7 := None) \<and> length (pollfds s2) = length (pollfds demo_poll) - 1 \<and>
    (\<forall>ev. \<exists>what. pp_set_events 100 ev s2 = Inl (Assert_failed what))"
  by (rule PollPoller_removed_channel_unusable[OF demo_poll_inv]) (simp add: demo_poll_def)

end
