(* ===== verification/EventLoop.thy ===== *)
theory EventLoop
  imports EPollPoller TimerQueue
begin

text \<open>
  The event loop (\<^verbatim>\<open>reactor.muduo/EventLoop.cpp\<close>), first as sequential operations on its state:
  queueing functors, waking the loop through the event descriptor, running the pending functors,
  one iteration of \<^verbatim>\<open>loop()\<close>, registering channels, timers. Functors are of a type variable; what
  a functor or a channel callback does is an argument. The threads that call these operations
  concurrently are the subject of the theory \<open>LoopThreads\<close>.
\<close>

definition kPollTimeMs :: int where "kPollTimeMs = 10000"

record 'f event_loop =
  el_pid :: thread_id
  el_looping :: bool
  el_quit :: bool
  el_eventHandling :: bool
  el_poller :: epoll_poller
  el_activeChannels :: "nat list"
  el_currentActiveChannel :: "nat option"
  el_wakeupFd :: int
  el_wakeupCount :: nat
  el_pendingFunctors :: "'f list"
  el_callingPendingFunctors :: bool

definition createEventfd :: "int \<Rightarrow> int res" where
  "createEventfd evtfd = (if evtfd < 0 then Inl (Log_fatal ''Failed int eventfd'') else Inr evtfd)"

text \<open>The constructor: the wakeup channel, here at address \<open>wc\<close>, is made and enabled for reading.
  The timer queue of the loop is modelled in its own theory.\<close>

definition EventLoop_ctor :: "thread_id \<Rightarrow> int \<Rightarrow> int \<Rightarrow> nat \<Rightarrow> 'f event_loop res" where
  "EventLoop_ctor tid epollfd evtfd wc =
     res_bind (newDefaultPoller tid epollfd) (\<lambda>poller0.
     res_bind (createEventfd evtfd) (\<lambda>fd.
       let poller1 = poller0\<lparr>ep_open := insert fd (ep_open poller0),
             ep_chan := (ep_chan poller0)(wc \<mapsto> set_callback ReadCallback (Channel_ctor fd))\<rparr>
       in res_bind (Channel_set tid enableReading wc poller1) (\<lambda>poller2.
         Inr \<lparr>el_pid = tid, el_looping = False, el_quit = False, el_eventHandling = False,
              el_poller = poller2, el_activeChannels = [], el_currentActiveChannel = None,
              el_wakeupFd = fd, el_wakeupCount = 0, el_pendingFunctors = [],
              el_callingPendingFunctors = False\<rparr>)))"

definition EventLoop_dtor :: "thread_id \<Rightarrow> nat \<Rightarrow> 'f event_loop \<Rightarrow> 'f event_loop res" where
  "EventLoop_dtor tid wc l =
     require (\<not> el_looping l) ''!looping_''
     (res_bind (Channel_set tid disableAll wc (el_poller l)) (\<lambda>poller1.
      res_bind (Channel_remove tid wc poller1) (\<lambda>poller2.
        Inr (l\<lparr>el_poller := poller2\<lparr>ep_open := ep_open poller2 - {el_wakeupFd l}\<rparr>\<rparr>))))"

text \<open>An event descriptor counts: a write of 1 adds 1 (or fails when the counter is full), a read
  returns the count and resets it (or fails when it is 0).\<close>

definition eventfd_max :: nat where "eventfd_max = 2 ^ 64 - 2"

definition wakeup :: "'f event_loop \<Rightarrow> 'f event_loop" where
  "wakeup l = (if el_wakeupCount l < eventfd_max then l\<lparr>el_wakeupCount := el_wakeupCount l + 1\<rparr> else l)"

definition EventLoop_handleRead :: "'f event_loop \<Rightarrow> 'f event_loop" where
  "EventLoop_handleRead l = l\<lparr>el_wakeupCount := 0\<rparr>"

definition queueInLoop :: "thread_id \<Rightarrow> 'f \<Rightarrow> 'f event_loop \<Rightarrow> 'f event_loop" where
  "queueInLoop tid cb l =
     (let l1 = l\<lparr>el_pendingFunctors := el_pendingFunctors l @ [cb]\<rparr>
      in if \<not> isInLoopThread tid (el_pid l1) \<or> el_callingPendingFunctors l1 then wakeup l1 else l1)"

definition runInLoop :: "thread_id \<Rightarrow> ('f \<Rightarrow> 'f event_loop \<Rightarrow> 'f event_loop res) \<Rightarrow> 'f \<Rightarrow> 'f event_loop \<Rightarrow> 'f event_loop res" where
  "runInLoop tid run cb l = (if isInLoopThread tid (el_pid l) then run cb l else Inr (queueInLoop tid cb l))"

definition EventLoop_quit :: "thread_id \<Rightarrow> 'f event_loop \<Rightarrow> 'f event_loop" where
  "EventLoop_quit tid l =
     (let l1 = l\<lparr>el_quit := True\<rparr> in if \<not> isInLoopThread tid (el_pid l1) then wakeup l1 else l1)"

definition EventLoop_updateChannel :: "thread_id \<Rightarrow> nat \<Rightarrow> 'f event_loop \<Rightarrow> 'f event_loop res" where
  "EventLoop_updateChannel tid p l = assertInLoopThread tid (el_pid l)
     (res_bind (ep_updateChannel tid p (el_poller l)) (\<lambda>poller. Inr (l\<lparr>el_poller := poller\<rparr>)))"

definition EventLoop_removeChannel :: "thread_id \<Rightarrow> nat \<Rightarrow> 'f event_loop \<Rightarrow> 'f event_loop res" where
  "EventLoop_removeChannel tid p l = assertInLoopThread tid (el_pid l)
     (require (el_eventHandling l \<longrightarrow> el_currentActiveChannel l = Some p \<or> p \<notin> set (el_activeChannels l))
        ''currentActiveChannel_ == c || c not active''
     (res_bind (ep_removeChannel tid p (el_poller l)) (\<lambda>poller. Inr (l\<lparr>el_poller := poller\<rparr>))))"

definition EventLoop_hasChannel :: "thread_id \<Rightarrow> nat \<Rightarrow> 'f event_loop \<Rightarrow> bool res" where
  "EventLoop_hasChannel tid p l = assertInLoopThread tid (el_pid l) (Poller_hasChannel tid p (el_poller l))"

definition doPendingFunctors :: "('f \<Rightarrow> 'f event_loop \<Rightarrow> 'f event_loop res) \<Rightarrow> 'f event_loop \<Rightarrow> 'f event_loop res" where
  "doPendingFunctors run l =
     (let l1 = l\<lparr>el_callingPendingFunctors := True\<rparr>;
          functors = el_pendingFunctors l1;
          l2 = l1\<lparr>el_pendingFunctors := []\<rparr>
      in res_bind (res_fold run functors l2) (\<lambda>l3. Inr (l3\<lparr>el_callingPendingFunctors := False\<rparr>)))"

text \<open>The lines that \<^verbatim>\<open>printActiveChannels\<close> logs.\<close>

definition printActiveChannels :: "int \<Rightarrow> 'f event_loop \<Rightarrow> string list res" where
  "printActiveChannels timerfd l =
     res_fold (\<lambda>p out. with_chan p (el_poller l) (\<lambda>ch. Inr (out @ [''{'' @ Channel_reventsToString ch @ ''}''])))
       (el_activeChannels l) [''timerQueue.timerfd = '' @ decimal timerfd]"

text \<open>
  One iteration of the loop. \<open>answer\<close> is what \<^verbatim>\<open>epoll_wait\<close> reports, \<open>alive\<close> tells for a channel
  whether the owner it is tied to still exists, \<open>call\<close> runs one callback of a channel.
\<close>

definition handle_active :: "(nat \<Rightarrow> bool) \<Rightarrow> (nat \<Rightarrow> event_call \<Rightarrow> 'f event_loop \<Rightarrow> 'f event_loop res) \<Rightarrow>
    nat \<Rightarrow> 'f event_loop \<Rightarrow> 'f event_loop res" where
  "handle_active alive call p l =
     (let l1 = l\<lparr>el_currentActiveChannel := Some p\<rparr>
      in with_chan p (el_poller l1) (\<lambda>c. res_fold (call p) (handleEvent (alive p) c) l1))"

definition loop_once :: "(nat \<Rightarrow> bool) \<Rightarrow> (nat \<Rightarrow> event_call \<Rightarrow> 'f event_loop \<Rightarrow> 'f event_loop res) \<Rightarrow>
    ('f \<Rightarrow> 'f event_loop \<Rightarrow> 'f event_loop res) \<Rightarrow> int + (events \<times> nat) list \<Rightarrow> 'f event_loop \<Rightarrow> 'f event_loop res" where
  "loop_once alive call run answer l =
     res_bind (ep_poll answer (el_poller l)) (\<lambda>(active, poller).
       let l1 = l\<lparr>el_poller := poller, el_activeChannels := active, el_eventHandling := True\<rparr>
       in res_bind (res_fold (handle_active alive call) active l1) (\<lambda>l2.
          doPendingFunctors run (l2\<lparr>el_currentActiveChannel := None, el_eventHandling := False\<rparr>)))"

text \<open>\<^verbatim>\<open>loop()\<close> against the first answers of the kernel: it stops when \<^verbatim>\<open>quit_\<close> is set, and the
  answers end while it is still running otherwise.\<close>

fun loop_iterate :: "(nat \<Rightarrow> bool) \<Rightarrow> (nat \<Rightarrow> event_call \<Rightarrow> 'f event_loop \<Rightarrow> 'f event_loop res) \<Rightarrow>
    ('f \<Rightarrow> 'f event_loop \<Rightarrow> 'f event_loop res) \<Rightarrow> (int + (events \<times> nat) list) list \<Rightarrow> 'f event_loop \<Rightarrow> 'f event_loop res" where
  "loop_iterate alive call run [] l = (if el_quit l then Inr (l\<lparr>el_looping := False\<rparr>) else Inr l)"
| "loop_iterate alive call run (answer # answers) l =
     (if el_quit l then Inr (l\<lparr>el_looping := False\<rparr>)
      else res_bind (loop_once alive call run answer l) (loop_iterate alive call run answers))"

definition EventLoop_loop :: "thread_id \<Rightarrow> (nat \<Rightarrow> bool) \<Rightarrow> (nat \<Rightarrow> event_call \<Rightarrow> 'f event_loop \<Rightarrow> 'f event_loop res) \<Rightarrow>
    ('f \<Rightarrow> 'f event_loop \<Rightarrow> 'f event_loop res) \<Rightarrow> (int + (events \<times> nat) list) list \<Rightarrow> 'f event_loop \<Rightarrow> 'f event_loop res" where
  "EventLoop_loop tid alive call run answers l =
     require (\<not> el_looping l) ''!looping_''
     (assertInLoopThread tid (el_pid l)
       (loop_iterate alive call run answers (l\<lparr>el_looping := True, el_quit := False\<rparr>)))"

section \<open>Timers\<close>

definition runAt :: "thread_id \<Rightarrow> allocator \<Rightarrow> timestamp \<Rightarrow> nat \<Rightarrow> timer_queue \<Rightarrow> (timer_id \<times> timer_queue) res" where
  "runAt tid alloc time cb q = addTimer tid alloc cb time 0 q"

definition runAfter :: "thread_id \<Rightarrow> allocator \<Rightarrow> rat \<Rightarrow> nat \<Rightarrow> timer_queue \<Rightarrow> (timer_id \<times> timer_queue) res" where
  "runAfter tid alloc delay cb q = (let when = addTime (tq_clock q) delay in runAt tid alloc when cb q)"

definition runEvery :: "thread_id \<Rightarrow> allocator \<Rightarrow> rat \<Rightarrow> nat \<Rightarrow> timer_queue \<Rightarrow> (timer_id \<times> timer_queue) res" where
  "runEvery tid alloc ival cb q = (let when = addTime (tq_clock q) ival in addTimer tid alloc cb when ival q)"

definition EventLoop_cancel :: "thread_id \<Rightarrow> timer_id \<Rightarrow> timer_queue \<Rightarrow> timer_queue res" where
  "EventLoop_cancel tid i q = cancelInLoop tid i q"

section \<open>Pending functors\<close>

text \<open>
  A functor may queue further functors: \<open>run\<close> appends \<open>nexts f\<close> to the pending functors.
\<close>

definition queues :: "('f \<Rightarrow> 'f list) \<Rightarrow> thread_id \<Rightarrow> 'f \<Rightarrow> 'f event_loop \<Rightarrow> 'f event_loop res" where
  "queues nexts tid f l = Inr (fold (queueInLoop tid) (nexts f) l)"

lemma queueInLoop_fields:
  "el_pendingFunctors (queueInLoop tid f l) = el_pendingFunctors l @ [f]"
  "el_callingPendingFunctors (queueInLoop tid f l) = el_callingPendingFunctors l"
  "el_pid (queueInLoop tid f l) = el_pid l" "el_poller (queueInLoop tid f l) = el_poller l"
  "el_callingPendingFunctors l \<or> tid \<noteq> el_pid l \<Longrightarrow> 0 < el_wakeupCount (queueInLoop tid f l)"
  "el_wakeupCount l \<le> el_wakeupCount (queueInLoop tid f l)"
  by (auto simp: queueInLoop_def wakeup_def isInLoopThread_def Let_def eventfd_max_def)

lemma fold_queueInLoop:
  "el_pendingFunctors (fold (queueInLoop tid) fs l) = el_pendingFunctors l @ fs \<and>
   el_callingPendingFunctors (fold (queueInLoop tid) fs l) = el_callingPendingFunctors l \<and>
   el_pid (fold (queueInLoop tid) fs l) = el_pid l \<and>
   el_wakeupCount l \<le> el_wakeupCount (fold (queueInLoop tid) fs l) \<and>
   (el_callingPendingFunctors l \<and> fs \<noteq> [] \<longrightarrow> 0 < el_wakeupCount (fold (queueInLoop tid) fs l))"
proof (induction fs arbitrary: l)
  case (Cons f fs)
  note q = queueInLoop_fields[where tid = tid and f = f and l = l]
  show ?case
    using Cons[of "queueInLoop tid f l"] q(1-3,5,6) by (auto intro: order_trans)
qed simp

lemma run_functors:
  assumes "el_callingPendingFunctors l"
  shows "\<exists>l'. res_fold (queues nexts tid) fs l = Inr l' \<and>
    el_pendingFunctors l' = el_pendingFunctors l @ concat (map nexts fs) \<and>
    el_callingPendingFunctors l' \<and> el_wakeupCount l \<le> el_wakeupCount l' \<and>
    (concat (map nexts fs) \<noteq> [] \<longrightarrow> 0 < el_wakeupCount l')"
  using assms
proof (induction fs arbitrary: l)
  case (Cons f fs)
  let ?l = "fold (queueInLoop tid) (nexts f) l"
  have f: "el_pendingFunctors ?l = el_pendingFunctors l @ nexts f" "el_callingPendingFunctors ?l"
    "el_wakeupCount l \<le> el_wakeupCount ?l" "nexts f \<noteq> [] \<longrightarrow> 0 < el_wakeupCount ?l"
    using fold_queueInLoop[of tid "nexts f" l] Cons.prems by auto
  obtain l' where "res_fold (queues nexts tid) fs ?l = Inr l'"
    "el_pendingFunctors l' = el_pendingFunctors ?l @ concat (map nexts fs)" "el_callingPendingFunctors l'"
    "el_wakeupCount ?l \<le> el_wakeupCount l'" "concat (map nexts fs) \<noteq> [] \<longrightarrow> 0 < el_wakeupCount l'"
    using Cons.IH[OF f(2)] by blast
  moreover have "queues nexts tid f l = Inr ?l" by (simp add: queues_def)
  ultimately show ?case using f by auto
qed simp

text \<open>
  \<^verbatim>\<open>doPendingFunctors\<close> runs the functors that were pending when it began, each once and in the
  order they were queued. Functors that they queue in turn are left for the next iteration, and
  for them the loop has been woken, so the next poll does not block.
\<close>

theorem doPendingFunctors_runs_snapshot:
  "\<exists>l'. doPendingFunctors (queues nexts (el_pid l)) l = Inr l' \<and>
     el_pendingFunctors l' = concat (map nexts (el_pendingFunctors l)) \<and>
     \<not> el_callingPendingFunctors l' \<and>
     (el_pendingFunctors l' = [] \<or> 0 < el_wakeupCount l')"
  using run_functors[of "l\<lparr>el_callingPendingFunctors := True, el_pendingFunctors := []\<rparr>" nexts "el_pid l" "el_pendingFunctors l"]
  by (auto simp: doPendingFunctors_def Let_def)

text \<open>
  A call of \<^verbatim>\<open>quit()\<close> that comes before \<^verbatim>\<open>loop()\<close> is lost: \<^verbatim>\<open>loop()\<close> resets \<^verbatim>\<open>quit_\<close>, so it does not
  stop before its first poll, whoever called \<^verbatim>\<open>quit()\<close>.
\<close>

theorem quit_before_loop_is_lost:
  assumes "\<not> el_looping l"
  shows "\<exists>l'. EventLoop_loop (el_pid l) alive call run [] (EventLoop_quit tid l) = Inr l' \<and>
    el_looping l' \<and> \<not> el_quit l'"
  using assms by (simp add: EventLoop_loop_def EventLoop_quit_def wakeup_def Let_def)

theorem quit_before_loop_is_lost_witness:
  "\<exists>l0 :: nat event_loop. EventLoop_ctor 1 3 4 100 = Inr l0 \<and>
     (\<exists>l'. EventLoop_loop (el_pid l0) (\<lambda>_. True) (\<lambda>_ _ l. Inr l) (\<lambda>_ l. Inr l) [] (EventLoop_quit 2 l0) = Inr l' \<and>
        el_looping l' \<and> \<not> el_quit l')"
proof -
  obtain l0 :: "nat event_loop" where l0: "EventLoop_ctor 1 3 4 100 = Inr l0" "\<not> el_looping l0"
    by (simp add: EventLoop_ctor_def newDefaultPoller_def EPollPoller_ctor_def createEventfd_def Channel_set_def
        Channel_update_def ep_updateChannel_def ep_update_def epoll_ctl_def ep_set_index_def set_index_def
        with_chan_def set_callback_def enableReading_def Channel_ctor_def k_defs Let_def)
  show ?thesis using quit_before_loop_is_lost[OF l0(2)] l0(1) by blast
qed

end
