(* ===== verification/Reactor.thy ===== *)
theory Reactor
  imports EventLoop
begin

text \<open>
  The reactor as a whole: the event loop of \<open>EventLoop\<close> over the poller of \<open>EPollPoller\<close> and the channels of
  \<open>Channel\<close>, driven by the answers of \<^verbatim>\<open>epoll_wait\<close>. The program on top of it is given by what its callbacks and functors do: they
  change the events of channels, remove channels from the loop (\<^verbatim>\<open>EventLoop::removeChannel\<close> with its assertion on the active channels)
  and queue functors. The wakeup channel has the callback of the loop itself.
\<close>

section \<open>What callbacks and functors do\<close>

datatype 'f action = On_channel chan_op | Queue 'f

text \<open>\<^verbatim>\<open>Channel::remove\<close> goes through \<^verbatim>\<open>EventLoop::removeChannel\<close>, which asserts that no other active channel is removed while events are handled.\<close>

definition loop_chan_op :: "chan_op \<Rightarrow> 'f event_loop \<Rightarrow> 'f event_loop res" where
  "loop_chan_op op l = (case op of
     Set_events p f \<Rightarrow> res_bind (ep_set_events p (f (ep_chan_events (el_poller l) p)) (el_poller l)) (\<lambda>s. Inr (l\<lparr>el_poller := s\<rparr>))
   | Remove_channel p \<Rightarrow> res_bind (ep_set_events p 0 (el_poller l)) (\<lambda>s.
       require (el_eventHandling l \<longrightarrow> el_currentActiveChannel l = Some p \<or> p \<notin> set (el_activeChannels l))
         ''currentActiveChannel_ == c || c not active''
       (res_bind (ep_remove p s) (\<lambda>s1. Inr (l\<lparr>el_poller := s1\<rparr>)))))"

definition act :: "'f action \<Rightarrow> 'f event_loop \<Rightarrow> 'f event_loop res" where
  "act a l = (case a of On_channel op \<Rightarrow> loop_chan_op op l | Queue f \<Rightarrow> Inr (queueInLoop (el_pid l) f l))"

definition react :: "'f action list \<Rightarrow> 'f event_loop \<Rightarrow> 'f event_loop res" where
  "react acts l = res_fold act acts l"

text \<open>The read callback of the wakeup channel is \<^verbatim>\<open>EventLoop::handleRead\<close>, the others are the program's.\<close>

definition channel_call :: "nat \<Rightarrow> (nat \<Rightarrow> event_call \<Rightarrow> 'f action list) \<Rightarrow> nat \<Rightarrow> event_call \<Rightarrow> 'f event_loop \<Rightarrow> 'f event_loop res" where
  "channel_call wc R p k l = (if p = wc then Inr (EventLoop_handleRead l) else react (R p k) l)"

definition iterate :: "nat \<Rightarrow> (nat \<Rightarrow> bool) \<Rightarrow> (nat \<Rightarrow> event_call \<Rightarrow> 'f action list) \<Rightarrow> ('f \<Rightarrow> 'f action list) \<Rightarrow> (events \<times> nat) list \<Rightarrow>
    'f event_loop \<Rightarrow> 'f event_loop res" where
  "iterate wc alive R F evs = loop_once alive (channel_call wc R) (\<lambda>f. react (F f)) (Inr evs)"

fun queued :: "'f action list \<Rightarrow> 'f list" where
  "queued [] = []"
| "queued (Queue f # as) = f # queued as"
| "queued (On_channel _ # as) = queued as"

text \<open>What the kernel may answer: events of watched descriptors, each at most once, at most as many as there is room for.\<close>

definition reported :: "(events \<times> nat) list \<Rightarrow> epoll_poller \<Rightarrow> bool" where
  "reported evs s \<longleftrightarrow> length evs \<le> ep_listsize s \<and> distinct (map snd evs) \<and> (\<forall>e \<in> set evs. \<exists>fd mask. ep_interest s fd = Some (mask, snd e))"

text \<open>The callbacks that an answer calls for, in order.\<close>

definition calls_of :: "(nat \<Rightarrow> bool) \<Rightarrow> (events \<times> nat) list \<Rightarrow> epoll_poller \<Rightarrow> (nat \<times> event_call) list" where
  "calls_of alive evs s =
     concat (map (\<lambda>(mask, p). map (Pair p) (handleEvent (alive p) (set_revents mask (the (ep_chan s p))))) evs)"

text \<open>The discipline of the program: it acts on channels that exist, and a callback removes no channel but its own; other channels are
  removed in functors.\<close>

definition acts_on :: "nat set \<Rightarrow> 'f action list \<Rightarrow> bool" where
  "acts_on D as \<longleftrightarrow> (\<forall>op. On_channel op \<in> set as \<longrightarrow> op_channel op \<in> D)"

definition removes_only :: "nat set \<Rightarrow> 'f action list \<Rightarrow> bool" where
  "removes_only Q as \<longleftrightarrow> (\<forall>q. On_channel (Remove_channel q) \<in> set as \<longrightarrow> q \<in> Q)"

definition disciplined :: "nat set \<Rightarrow> (nat \<Rightarrow> event_call \<Rightarrow> 'f action list) \<Rightarrow> ('f \<Rightarrow> 'f action list) \<Rightarrow> bool" where
  "disciplined D R F \<longleftrightarrow> (\<forall>p k. acts_on D (R p k) \<and> removes_only {p} (R p k)) \<and> (\<forall>f. acts_on D (F f))"

section \<open>Channel operations keep what dispatching looks at\<close>

definition ch_view :: "channel \<Rightarrow> int \<times> events \<times> bool \<times> event_call set" where
  "ch_view c = (ch_fd c, ch_revents c, ch_tied c, ch_callbacks c)"

definition view :: "epoll_poller \<Rightarrow> nat \<Rightarrow> (int \<times> events \<times> bool \<times> event_call set) option" where
  "view s p = map_option ch_view (ep_chan s p)"

lemma handleEvent_view: "ch_view c = ch_view d \<Longrightarrow> handleEvent b c = handleEvent b d"
  by (simp add: ch_view_def handleEvent_def handleEventWithGuard_def call_if_def)

definition poller_ok :: "epoll_poller \<Rightarrow> bool" where
  "poller_ok s \<longleftrightarrow> ep_inv s \<and> (\<forall>p q fd. ep_chan_fd s p = Some fd \<and> ep_chan_fd s q = Some fd \<longrightarrow> p = q)"

text \<open>The index of a channel and the interest list of the kernel determine each other.\<close>

lemma inv_watched: "ep_inv s \<Longrightarrow> ep_watched s fd = (case ep_channels s fd of None \<Rightarrow> 0 | Some p \<Rightarrow> ep_chan_events s p)"
proof (cases "ep_channels s fd")
  case (Some p)
  assume inv: "ep_inv s"
  then obtain c where c: "ep_chan s p = Some c" "ch_fd c = fd" using ep_invD(5)[OF inv Some] by blast
  have "ch_index c \<noteq> kNew" using ep_invD(2)[OF inv c(1)] c(2) Some by simp
  then have "ch_index c = kAdded \<or> ch_index c = kDeleted \<and> ch_events c = 0"
    using ep_invD(1,3)[OF inv c(1)] by (auto simp: isNoneEvent_def kNoneEvent_def)
  then show ?thesis using Some c ep_invD(7)[OF inv Some c(1)] by (auto simp: ep_watched_def ep_chan_events_def)
qed (use ep_invD(6) in \<open>simp add: ep_watched_def\<close>)

lemma poller_ok_consistent: "poller_ok s \<Longrightarrow> ep.consistent s" "poller_ok s \<Longrightarrow> ep.distinct_fds s"
  using inv_watched by (auto simp: poller_ok_def ep.consistent_def ep.distinct_fds_def)

lemma ep_set_events_view:
  assumes "poller_ok s" "ep_chan s p = Some c"
  shows "\<exists>s'. ep_set_events p ev s = Inr s' \<and> poller_ok s' \<and> view s' = view s \<and> ep_chan_events s' p = ev \<and>
    ep_channels s' (ch_fd c) = Some p"
proof -
  have inv: "ep_inv s" and fd: "ep_chan_fd s p = Some (ch_fd c)" using assms by (simp_all add: poller_ok_def ep_chan_fd_def)
  have r: "ep_channels s (ch_fd c) = None \<or> ep_channels s (ch_fd c) = Some p"
    using ep.registered_self[OF inv poller_ok_consistent(2)[OF assms(1)] fd] .
  obtain s' where s': "ep_set_events p ev s = Inr s'" "ep_inv s'" "ep_chan_fd s' = ep_chan_fd s" "ep_chan_events s' = (ep_chan_events s)(p := ev)"
    "ep_channels s' = (ep_channels s)(ch_fd c \<mapsto> p)"
    using ep_set_events_ok[OF inv assms(2) r] by blast
  have "view s' = view s" using ep_set_events_eq[OF inv assms(2) r, of ev] s'(1) assms(2) by (auto simp: view_def ch_view_def fun_eq_iff)
  then show ?thesis using s' assms(1) by (auto simp: poller_ok_def)
qed

lemma ep_remove_view:
  assumes "poller_ok s" "ep_chan s p = Some c" "ch_events c = 0" "ep_channels s (ch_fd c) = Some p"
  shows "\<exists>s'. ep_remove p s = Inr s' \<and> poller_ok s' \<and> view s' = view s"
proof -
  have inv: "ep_inv s" using assms(1) by (simp add: poller_ok_def)
  obtain s' where s': "ep_remove p s = Inr s'" "ep_inv s'" "ep_chan_fd s' = ep_chan_fd s"
    using ep_remove_ok[OF inv assms(2,4,3)] by blast
  have "view s' = view s"
    using s'(1) assms(2)
    by (auto simp: ep_remove_def Channel_remove_def ep_removeChannel_def ep_update_def epoll_ctl_def ep_set_index_def set_index_def
        view_def ch_view_def Let_def fun_eq_iff assertInLoopThread_def with_chan_def split: if_splits option.splits)
  then show ?thesis using s' assms(1) by (auto simp: poller_ok_def)
qed

section \<open>Reactions\<close>

text \<open>What a reaction keeps of the loop.\<close>

definition keeps :: "'f event_loop \<Rightarrow> 'f event_loop \<Rightarrow> bool" where
  "keeps l l' \<longleftrightarrow> poller_ok (el_poller l') \<and> view (el_poller l') = view (el_poller l) \<and> el_pid l' = el_pid l \<and>
     el_eventHandling l' = el_eventHandling l \<and> el_activeChannels l' = el_activeChannels l \<and>
     el_currentActiveChannel l' = el_currentActiveChannel l \<and> el_callingPendingFunctors l' = el_callingPendingFunctors l"

lemma keeps_trans: "keeps a b \<Longrightarrow> keeps b c \<Longrightarrow> keeps a c"
  by (simp add: keeps_def)

definition may_remove :: "'f event_loop \<Rightarrow> nat \<Rightarrow> bool" where
  "may_remove l q \<longleftrightarrow> (el_eventHandling l \<longrightarrow> el_currentActiveChannel l = Some q \<or> q \<notin> set (el_activeChannels l))"

lemma may_remove_keeps: "keeps l l' \<Longrightarrow> may_remove l' q = may_remove l q"
  by (simp add: keeps_def may_remove_def)

lemma view_dom: "view s = view s' \<Longrightarrow> dom (ep_chan s) = dom (ep_chan s')"
  unfolding view_def fun_eq_iff dom_def by (metis map_option_is_None)

lemma loop_chan_op_ok:
  assumes ok: "poller_ok (el_poller l)" and ex: "op_channel op \<in> dom (ep_chan (el_poller l))"
    and rm: "\<And>q. op = Remove_channel q \<Longrightarrow> may_remove l q"
  shows "\<exists>l'. loop_chan_op op l = Inr l' \<and> keeps l l' \<and> el_pendingFunctors l' = el_pendingFunctors l \<and> el_wakeupCount l' = el_wakeupCount l"
proof (cases op)
  case (Set_events p f)
  then obtain c where "ep_chan (el_poller l) p = Some c" using ex by (auto simp: op_channel_def)
  from ep_set_events_view[OF ok this, of "f (ep_chan_events (el_poller l) p)"]
  show ?thesis using Set_events by (auto simp: loop_chan_op_def keeps_def)
next
  case (Remove_channel p)
  then obtain c where c: "ep_chan (el_poller l) p = Some c" using ex by (auto simp: op_channel_def)
  obtain s where s: "ep_set_events p 0 (el_poller l) = Inr s" "poller_ok s" "view s = view (el_poller l)" "ep_chan_events s p = 0"
    "ep_channels s (ch_fd c) = Some p"
    using ep_set_events_view[OF ok c, of 0] by blast
  obtain c' where c': "ep_chan s p = Some c'" "ch_fd c' = ch_fd c"
    using s(3) c by (auto simp: view_def ch_view_def fun_eq_iff dest!: spec[of _ p])
  then obtain s1 where "ep_remove p s = Inr s1" "poller_ok s1" "view s1 = view s"
    using ep_remove_view[OF s(2) c'(1)] s(4,5) by (auto simp: ep_chan_events_def)
  then show ?thesis using Remove_channel s rm[OF Remove_channel] by (simp add: loop_chan_op_def keeps_def may_remove_def)
qed

lemma react_ok:
  assumes "poller_ok (el_poller l)" "acts_on (dom (ep_chan (el_poller l))) as" "\<And>q. On_channel (Remove_channel q) \<in> set as \<Longrightarrow> may_remove l q"
  shows "\<exists>l'. react as l = Inr l' \<and> keeps l l' \<and> el_pendingFunctors l' = el_pendingFunctors l @ queued as \<and>
    el_wakeupCount l \<le> el_wakeupCount l' \<and> (el_callingPendingFunctors l \<and> queued as \<noteq> [] \<longrightarrow> 0 < el_wakeupCount l')"
  using assms unfolding react_def
proof (induction as arbitrary: l)
  case Nil
  then show ?case by (simp add: keeps_def)
next
  case (Cons a as)
  obtain l1 where l1: "act a l = Inr l1" "keeps l l1" "el_pendingFunctors l1 = el_pendingFunctors l @ queued [a]"
    "el_wakeupCount l \<le> el_wakeupCount l1" "el_callingPendingFunctors l \<and> queued [a] \<noteq> [] \<longrightarrow> 0 < el_wakeupCount l1"
  proof (cases a)
    case (On_channel op)
    have "op_channel op \<in> dom (ep_chan (el_poller l))" using Cons.prems(2) On_channel by (simp add: acts_on_def)
    from loop_chan_op_ok[OF Cons.prems(1) this] Cons.prems(3) On_channel show thesis
      using that by (auto simp: act_def)
  next
    case (Queue f)
    note q = queueInLoop_fields[where tid = "el_pid l" and f = f and l = l]
    have "keeps l (queueInLoop (el_pid l) f l)"
      using Cons.prems(1) by (auto simp: keeps_def queueInLoop_def wakeup_def Let_def)
    then show thesis using that[of "queueInLoop (el_pid l) f l"] q Queue by (auto simp: act_def)
  qed
  have view: "view (el_poller l1) = view (el_poller l)" "poller_ok (el_poller l1)" using l1(2) by (simp_all add: keeps_def)
  have "acts_on (dom (ep_chan (el_poller l1))) as" using Cons.prems(2) view_dom[OF view(1)] by (simp add: acts_on_def)
  then obtain l' where l': "res_fold act as l1 = Inr l'" "keeps l1 l'" "el_pendingFunctors l' = el_pendingFunctors l1 @ queued as"
    "el_wakeupCount l1 \<le> el_wakeupCount l'" "el_callingPendingFunctors l1 \<and> queued as \<noteq> [] \<longrightarrow> 0 < el_wakeupCount l'"
    using Cons.IH[OF view(2)] Cons.prems(3) may_remove_keeps[OF l1(2)] by auto
  have "queued (a # as) = queued [a] @ queued as" by (cases a) simp_all
  moreover have "el_callingPendingFunctors l1 = el_callingPendingFunctors l" using l1(2) by (simp add: keeps_def)
  ultimately show ?case using l1 l' keeps_trans[OF l1(2) l'(2)] by auto
qed

section \<open>Dispatching\<close>

definition queued_by :: "nat \<Rightarrow> (nat \<Rightarrow> event_call \<Rightarrow> 'f action list) \<Rightarrow> (nat \<times> event_call) list \<Rightarrow> 'f list" where
  "queued_by wc R calls = concat (map (\<lambda>(p, k). if p = wc then [] else queued (R p k)) calls)"

lemma channel_calls_ok:
  assumes "\<And>k. acts_on D (R p k) \<and> removes_only {p} (R p k)"
    and "poller_ok (el_poller l)" "el_currentActiveChannel l = Some p" "dom (ep_chan (el_poller l)) = D"
  shows "\<exists>l'. res_fold (channel_call wc R p) ks l = Inr l' \<and> keeps l l' \<and>
    el_pendingFunctors l' = el_pendingFunctors l @ queued_by wc R (map (Pair p) ks)"
  using assms(2-)
proof (induction ks arbitrary: l)
  case Nil
  then show ?case by (simp add: keeps_def queued_by_def)
next
  case (Cons k ks)
  obtain l1 where l1: "channel_call wc R p k l = Inr l1" "keeps l l1" "el_pendingFunctors l1 = el_pendingFunctors l @ queued_by wc R [(p, k)]"
  proof (cases "p = wc")
    case True
    then show thesis
      using that[of "EventLoop_handleRead l"] Cons.prems(1) by (simp add: channel_call_def EventLoop_handleRead_def keeps_def queued_by_def)
  next
    case False
    have "may_remove l q" if "On_channel (Remove_channel q) \<in> set (R p k)" for q
      using assms(1)[of k] that Cons.prems(2) by (auto simp: removes_only_def may_remove_def)
    then obtain l1 where "react (R p k) l = Inr l1" "keeps l l1" "el_pendingFunctors l1 = el_pendingFunctors l @ queued (R p k)"
      using react_ok[OF Cons.prems(1), of "R p k"] assms(1)[of k] Cons.prems(3) by auto
    then show thesis using that[of l1] False by (simp add: channel_call_def queued_by_def)
  qed
  then have "poller_ok (el_poller l1)" "el_currentActiveChannel l1 = Some p" "dom (ep_chan (el_poller l1)) = D"
    using Cons.prems view_dom[of "el_poller l1" "el_poller l"] by (simp_all add: keeps_def)
  then obtain l' where "res_fold (channel_call wc R p) ks l1 = Inr l'" "keeps l1 l'"
    "el_pendingFunctors l' = el_pendingFunctors l1 @ queued_by wc R (map (Pair p) ks)"
    using Cons.IH by blast
  then show ?case using l1 keeps_trans[OF l1(2)] by (auto simp: queued_by_def)
qed

text \<open>The channels handled so far leave the views of the others as the poller set them.\<close>

lemma handle_all_ok:
  assumes R: "\<And>p k. acts_on D (R p k) \<and> removes_only {p} (R p k)"
    and "poller_ok (el_poller l)" "view (el_poller l) = view s" "dom (ep_chan s) = D" "set ps \<subseteq> D"
  shows "\<exists>l'. res_fold (handle_active alive (channel_call wc R)) ps l = Inr l' \<and> poller_ok (el_poller l') \<and> view (el_poller l') = view s \<and>
    el_pid l' = el_pid l \<and> el_callingPendingFunctors l' = el_callingPendingFunctors l \<and>
    el_pendingFunctors l' = el_pendingFunctors l @
      queued_by wc R (concat (map (\<lambda>p. map (Pair p) (handleEvent (alive p) (the (ep_chan s p)))) ps))"
  using assms(2-)
proof (induction ps arbitrary: l)
  case Nil
  then show ?case by (simp add: queued_by_def)
next
  case (Cons p ps)
  let ?l1 = "l\<lparr>el_currentActiveChannel := Some p\<rparr>"
  have dom: "dom (ep_chan (el_poller l)) = D" using view_dom[OF Cons.prems(2)] Cons.prems(3) by simp
  then obtain c where c: "ep_chan (el_poller l) p = Some c" using Cons.prems(4) by auto
  have "map_option ch_view (ep_chan s p) = Some (ch_view c)" using fun_cong[OF Cons.prems(2), of p] c by (simp add: view_def)
  then obtain d where d: "ep_chan s p = Some d" "ch_view c = ch_view d" by auto
  have h: "handleEvent (alive p) c = handleEvent (alive p) (the (ep_chan s p))" using handleEvent_view[OF d(2)] d(1) by simp
  obtain l2 where l2: "res_fold (channel_call wc R p) (handleEvent (alive p) c) ?l1 = Inr l2" "keeps ?l1 l2"
    "el_pendingFunctors l2 = el_pendingFunctors l @ queued_by wc R (map (Pair p) (handleEvent (alive p) c))"
    using channel_calls_ok[of D R p ?l1 wc "handleEvent (alive p) c"] R Cons.prems(1) dom by auto
  then have a: "handle_active alive (channel_call wc R) p l = Inr l2" using c by (simp add: handle_active_def with_chan_def Let_def)
  have k: "poller_ok (el_poller l2)" "view (el_poller l2) = view s" "el_pid l2 = el_pid l"
    "el_callingPendingFunctors l2 = el_callingPendingFunctors l"
    using l2(2) Cons.prems(2) by (simp_all add: keeps_def)
  obtain l' where "res_fold (handle_active alive (channel_call wc R)) ps l2 = Inr l'" "poller_ok (el_poller l')" "view (el_poller l') = view s"
    "el_pid l' = el_pid l2" "el_callingPendingFunctors l' = el_callingPendingFunctors l2"
    "el_pendingFunctors l' = el_pendingFunctors l2 @
      queued_by wc R (concat (map (\<lambda>p. map (Pair p) (handleEvent (alive p) (the (ep_chan s p)))) ps))"
    using Cons.IH[OF k(1,2) Cons.prems(3)] Cons.prems(4) by auto
  then show ?case using a k l2(3) h by (simp add: queued_by_def)
qed

lemma run_pending_ok:
  assumes F: "\<And>f. acts_on D (F f)"
    and "poller_ok (el_poller l)" "dom (ep_chan (el_poller l)) = D" "\<not> el_eventHandling l" "el_callingPendingFunctors l"
  shows "\<exists>l'. res_fold (\<lambda>f. react (F f)) fs l = Inr l' \<and> keeps l l' \<and>
    el_pendingFunctors l' = el_pendingFunctors l @ concat (map (\<lambda>f. queued (F f)) fs) \<and> el_wakeupCount l \<le> el_wakeupCount l' \<and>
    (concat (map (\<lambda>f. queued (F f)) fs) \<noteq> [] \<longrightarrow> 0 < el_wakeupCount l')"
  using assms(2-)
proof (induction fs arbitrary: l)
  case Nil
  then show ?case by (simp add: keeps_def)
next
  case (Cons f fs)
  have "acts_on (dom (ep_chan (el_poller l))) (F f)" using F Cons.prems(2) by simp
  from react_ok[OF Cons.prems(1) this] obtain l1 where l1: "react (F f) l = Inr l1" "keeps l l1"
    "el_pendingFunctors l1 = el_pendingFunctors l @ queued (F f)" "el_wakeupCount l \<le> el_wakeupCount l1"
    "queued (F f) \<noteq> [] \<longrightarrow> 0 < el_wakeupCount l1"
    using Cons.prems(3,4) by (auto simp: may_remove_def)
  then have "poller_ok (el_poller l1)" "dom (ep_chan (el_poller l1)) = D" "\<not> el_eventHandling l1" "el_callingPendingFunctors l1"
    using Cons.prems view_dom[of "el_poller l1" "el_poller l"] by (simp_all add: keeps_def)
  from Cons.IH[OF this] obtain l' where "res_fold (\<lambda>f. react (F f)) fs l1 = Inr l'" "keeps l1 l'"
    "el_pendingFunctors l' = el_pendingFunctors l1 @ concat (map (\<lambda>f. queued (F f)) fs)" "el_wakeupCount l1 \<le> el_wakeupCount l'"
    "concat (map (\<lambda>f. queued (F f)) fs) \<noteq> [] \<longrightarrow> 0 < el_wakeupCount l'"
    by blast
  then show ?case using l1 keeps_trans[OF l1(2)] by auto
qed

section \<open>An iteration\<close>

definition loop_ok :: "'f event_loop \<Rightarrow> bool" where
  "loop_ok l \<longleftrightarrow> poller_ok (el_poller l) \<and> \<not> el_callingPendingFunctors l"

lemma poll_view:
  assumes "poller_ok s" "reported evs s"
  shows "\<exists>s'. ep_poll (Inr evs) s = Inr (map snd evs, s') \<and> poller_ok s' \<and> dom (ep_chan s') = dom (ep_chan s) \<and> snd ` set evs \<subseteq> dom (ep_chan s) \<and>
    (\<forall>e \<in> set evs. handleEvent b (the (ep_chan s' (snd e))) = handleEvent b (set_revents (fst e) (the (ep_chan s (snd e)))))"
proof -
  have inv: "ep_inv s" using assms(1) by (simp add: poller_ok_def)
  obtain s' where s': "ep_poll (Inr evs) s = Inr (map snd evs, s')" "ep_inv s'"
    "\<forall>e \<in> set evs. map_option ch_revents (ep_chan s' (snd e)) = Some (fst e)" "\<forall>p. p \<notin> snd ` set evs \<longrightarrow> ep_chan s' p = ep_chan s p"
    "\<forall>p c. ep_chan s p = Some c \<longrightarrow> (\<exists>r. ep_chan s' p = Some (set_revents r c))"
    using ep_poll_ok[OF inv, of evs] assms(2) unfolding reported_def by blast
  have ex: "\<exists>c. ep_chan s (snd e) = Some c" if "e \<in> set evs" for e
  proof -
    obtain fd mask where i: "ep_interest s fd = Some (mask, snd e)" using assms(2) \<open>e \<in> set evs\<close> by (auto simp: reported_def)
    then obtain q where q: "ep_channels s fd = Some q" using ep_invD(6)[OF inv, of fd] by (cases "ep_channels s fd") auto
    then show ?thesis using ep_invD(5)[OF inv q] ep_invD(7)[OF inv q] i by (auto split: if_splits)
  qed
  have fd: "ep_chan_fd s' p = ep_chan_fd s p" for p
  proof (cases "ep_chan s p")
    case None
    then have "p \<notin> snd ` set evs" using ex by fastforce
    then show ?thesis using s'(4) by (simp add: ep_chan_fd_def)
  next
    case (Some c)
    then show ?thesis using s'(5) by (fastforce simp: ep_chan_fd_def set_revents_def)
  qed
  have dom: "dom (ep_chan s') = dom (ep_chan s)"
  proof -
    have "ep_chan s' p = None \<longleftrightarrow> ep_chan s p = None" for p using fd[of p] by (auto simp: ep_chan_fd_def)
    then show ?thesis by (auto simp: dom_def)
  qed
  have "handleEvent b (the (ep_chan s' (snd e))) = handleEvent b (set_revents (fst e) (the (ep_chan s (snd e))))" if e: "e \<in> set evs" for e
  proof -
    obtain c where c: "ep_chan s (snd e) = Some c" using ex[OF e] by blast
    then obtain r where r: "ep_chan s' (snd e) = Some (set_revents r c)" using s'(5) by blast
    then have "r = fst e" using s'(3) e by (auto simp: set_revents_def)
    then show ?thesis using c r by simp
  qed
  moreover have "poller_ok s'" using s'(2) fd assms(1) by (auto simp: poller_ok_def)
  moreover have "snd ` set evs \<subseteq> dom (ep_chan s)" using ex by auto
  ultimately show ?thesis using s'(1) dom by blast
qed

text \<open>What one iteration does to the functors.\<close>

definition functors_run :: "nat \<Rightarrow> (nat \<Rightarrow> bool) \<Rightarrow> (nat \<Rightarrow> event_call \<Rightarrow> 'f action list) \<Rightarrow> (events \<times> nat) list \<Rightarrow> 'f event_loop \<Rightarrow> 'f list" where
  "functors_run wc alive R evs l = el_pendingFunctors l @ queued_by wc R (calls_of alive evs (el_poller l))"

lemma iterate_ok:
  assumes ok: "loop_ok l" and prog: "disciplined (dom (ep_chan (el_poller l))) R F" and evs: "reported evs (el_poller l)"
  shows "\<exists>l'. iterate wc alive R F evs l = Inr l' \<and> loop_ok l' \<and> dom (ep_chan (el_poller l')) = dom (ep_chan (el_poller l)) \<and>
    el_pendingFunctors l' = concat (map (\<lambda>f. queued (F f)) (functors_run wc alive R evs l)) \<and>
    (el_pendingFunctors l' = [] \<or> 0 < el_wakeupCount l')"
proof -
  let ?D = "dom (ep_chan (el_poller l))"
  obtain s where s: "ep_poll (Inr evs) (el_poller l) = Inr (map snd evs, s)" "poller_ok s" "dom (ep_chan s) = ?D" "snd ` set evs \<subseteq> ?D"
    using poll_view[of "el_poller l" evs True] ok evs by (auto simp: loop_ok_def)
  have h: "handleEvent b (the (ep_chan s (snd e))) = handleEvent b (set_revents (fst e) (the (ep_chan (el_poller l) (snd e))))" if "e \<in> set evs" for e b
    using poll_view[of "el_poller l" evs b] ok evs s(1) that by (auto simp: loop_ok_def)
  let ?l1 = "l\<lparr>el_poller := s, el_activeChannels := map snd evs, el_eventHandling := True\<rparr>"
  have R: "acts_on ?D (R p k) \<and> removes_only {p} (R p k)" for p k using prog by (simp add: disciplined_def)
  have "concat (map (\<lambda>p. map (Pair p) (handleEvent (alive p) (the (ep_chan s p)))) (map snd evs)) = calls_of alive evs (el_poller l)"
    using h by (auto simp: calls_of_def comp_def split_beta intro!: arg_cong[of _ _ concat] map_cong)
  then obtain l2 where l2: "res_fold (handle_active alive (channel_call wc R)) (map snd evs) ?l1 = Inr l2" "poller_ok (el_poller l2)"
    "view (el_poller l2) = view s" "el_pid l2 = el_pid l" "el_callingPendingFunctors l2 = el_callingPendingFunctors l"
    "el_pendingFunctors l2 = functors_run wc alive R evs l"
    using handle_all_ok[of ?D R ?l1 s "map snd evs" alive wc] R s(2-4) by (auto simp: functors_run_def)
  let ?l3 = "l2\<lparr>el_currentActiveChannel := None, el_eventHandling := False\<rparr>"
  let ?l4 = "?l3\<lparr>el_callingPendingFunctors := True, el_pendingFunctors := []\<rparr>"
  have "dom (ep_chan (el_poller ?l4)) = ?D" using view_dom[OF l2(3)] s(3) by simp
  then obtain l5 where l5: "res_fold (\<lambda>f. react (F f)) (functors_run wc alive R evs l) ?l4 = Inr l5" "keeps ?l4 l5"
    "el_pendingFunctors l5 = concat (map (\<lambda>f. queued (F f)) (functors_run wc alive R evs l))"
    "concat (map (\<lambda>f. queued (F f)) (functors_run wc alive R evs l)) \<noteq> [] \<longrightarrow> 0 < el_wakeupCount l5"
    using run_pending_ok[of ?D F ?l4 "functors_run wc alive R evs l"] prog l2(2) by (auto simp: disciplined_def)
  let ?l6 = "l5\<lparr>el_callingPendingFunctors := False\<rparr>"
  have "iterate wc alive R F evs l = Inr ?l6"
    using s(1) l2(1,6) l5(1) by (simp add: iterate_def loop_once_def doPendingFunctors_def Let_def)
  moreover have "loop_ok ?l6" "dom (ep_chan (el_poller ?l6)) = ?D"
    using l5(2) view_dom[of "el_poller l5" "el_poller ?l4"] view_dom[OF l2(3)] s(3) by (auto simp: loop_ok_def keeps_def)
  ultimately show ?thesis using l5(3,4) by auto
qed

section \<open>Runs of the reactor\<close>

text \<open>A step is an iteration with an answer that the kernel may give in this state, or another thread that queues a functor.\<close>

inductive reactor_step :: "nat \<Rightarrow> (nat \<Rightarrow> bool) \<Rightarrow> (nat \<Rightarrow> event_call \<Rightarrow> 'f action list) \<Rightarrow> ('f \<Rightarrow> 'f action list) \<Rightarrow>
    'f event_loop \<Rightarrow> 'f event_loop \<Rightarrow> bool" for wc alive R F where
  iteration: "reported evs (el_poller l) \<Longrightarrow> iterate wc alive R F evs l = Inr l' \<Longrightarrow> reactor_step wc alive R F l l'"
| queue: "tid \<noteq> el_pid l \<Longrightarrow> reactor_step wc alive R F l (queueInLoop tid f l)"

lemma reactor_step_ok:
  assumes "reactor_step wc alive R F l l'" "loop_ok l \<and> disciplined (dom (ep_chan (el_poller l))) R F"
  shows "loop_ok l' \<and> dom (ep_chan (el_poller l')) = dom (ep_chan (el_poller l))"
  using assms
proof (induction rule: reactor_step.induct)
  case (iteration evs l l')
  then show ?case using iterate_ok[of l R F evs wc alive] by auto
next
  case (queue tid l f)
  then show ?case using queueInLoop_fields(2,4)[of tid f l] by (simp add: loop_ok_def)
qed

interpretation reactor: transition_system "reactor_step wc alive R F" "\<lambda>l. loop_ok l \<and> disciplined (dom (ep_chan (el_poller l))) R F" for wc alive R F
  by unfold_locales (use reactor_step_ok in fastforce)


definition demo_loop :: "nat event_loop" where
  "demo_loop = \<lparr>el_pid = 1, el_looping = True, el_quit = False, el_eventHandling = False,
     el_poller = \<lparr>ep_pid = 1, ep_chan = [100 \<mapsto> (Channel_ctor 7)\<lparr>ch_events := 3, ch_index := 1, ch_callbacks := {ReadCallback}\<rparr>], ep_channels = [7 \<mapsto> 100],
       ep_interest = [7 \<mapsto> (3, 100)], ep_open = {7}, ep_listsize = 16\<rparr>,
     el_activeChannels = [], el_currentActiveChannel = None, el_wakeupFd = 4, el_wakeupCount = 0, el_pendingFunctors = [5], el_callingPendingFunctors = False\<rparr>"


end
