(* ===== verification/LoopThreads.thy ===== *)
theory LoopThreads
  imports EventLoop "HOL-Library.Sublist"
begin

text \<open>
  The event loop and the threads that use it, interleaved. The loop's thread runs \<^verbatim>\<open>loop()\<close>:
  its program counter says where it is. Other threads call \<^verbatim>\<open>queueInLoop\<close> and \<^verbatim>\<open>quit\<close>: each call
  is two steps, the change of the shared state and the later write to the event descriptor;
  \<open>wakers\<close> counts the threads between the two. \<open>queued\<close> and \<open>executed\<close> record all functors that
  were queued and run.
\<close>

datatype 'f loop_pc =
    L_start
  | L_check
  | L_poll
  | L_handle
  | L_pend
  | L_run "'f list"
  | L_exit

record 'f loop_state =
  pc :: "'f loop_pc"
  pending :: "'f list"
  calling :: bool
  quitting :: bool
  wakeups :: nat
  wakers :: nat
  queued :: "'f list"
  executed :: "'f list"

definition initial_state :: "'f loop_state" where
  "initial_state = \<lparr>pc = L_start, pending = [], calling = False, quitting = False, wakeups = 0,
     wakers = 0, queued = [], executed = []\<rparr>"

definition push :: "'f \<Rightarrow> 'f loop_state \<Rightarrow> 'f loop_state" where
  "push f s = s\<lparr>pending := pending s @ [f], queued := queued s @ [f]\<rparr>"

definition wake :: "'f loop_state \<Rightarrow> 'f loop_state" where
  "wake s = (if wakeups s < eventfd_max then s\<lparr>wakeups := wakeups s + 1\<rparr> else s)"

text \<open>
  Steps of the loop's thread. \<^verbatim>\<open>poll\<close> returns when the event descriptor is readable
  (\<open>poll_woken\<close>), or for another descriptor or the timeout (\<open>poll_other\<close>). While it handles events
  and runs functors, the thread may queue functors and quit; \<^verbatim>\<open>queueInLoop\<close> then wakes the loop
  only if functors are being run. \<open>early\<close> says whether the thread may queue functors before it
  enters \<^verbatim>\<open>loop()\<close>.
\<close>

inductive loop_step :: "bool \<Rightarrow> 'f loop_state \<Rightarrow> 'f loop_state \<Rightarrow> bool" for early :: bool where
  early_queue: "early \<Longrightarrow> pc s = L_start \<Longrightarrow> loop_step early s (push f s)"
| enter_loop: "pc s = L_start \<Longrightarrow> loop_step early s (s\<lparr>pc := L_check, quitting := False\<rparr>)"
| continue: "pc s = L_check \<Longrightarrow> \<not> quitting s \<Longrightarrow> loop_step early s (s\<lparr>pc := L_poll\<rparr>)"
| leave_loop: "pc s = L_check \<Longrightarrow> quitting s \<Longrightarrow> loop_step early s (s\<lparr>pc := L_exit\<rparr>)"
| poll_woken: "pc s = L_poll \<Longrightarrow> 0 < wakeups s \<Longrightarrow> loop_step early s (s\<lparr>pc := L_handle\<rparr>)"
| poll_other: "pc s = L_poll \<Longrightarrow> loop_step early s (s\<lparr>pc := L_handle\<rparr>)"
| read_eventfd: "pc s = L_handle \<Longrightarrow> loop_step early s (s\<lparr>wakeups := 0\<rparr>)"
| queue_handling: "pc s = L_handle \<Longrightarrow>
    loop_step early s (if calling s then wake (push f s) else push f s)"
| quit_handling: "pc s = L_handle \<Longrightarrow> loop_step early s (s\<lparr>quitting := True\<rparr>)"
| begin_functors: "pc s = L_handle \<Longrightarrow> loop_step early s (s\<lparr>pc := L_pend, calling := True\<rparr>)"
| swap_functors: "pc s = L_pend \<Longrightarrow> loop_step early s (s\<lparr>pc := L_run (pending s), pending := []\<rparr>)"
| run_functor: "pc s = L_run (f # fs) \<Longrightarrow> loop_step early s (s\<lparr>pc := L_run fs, executed := executed s @ [f]\<rparr>)"
| queue_running: "pc s = L_run fs \<Longrightarrow>
    loop_step early s (if calling s then wake (push f s) else push f s)"
| quit_running: "pc s = L_run fs \<Longrightarrow> loop_step early s (s\<lparr>quitting := True\<rparr>)"
| end_functors: "pc s = L_run [] \<Longrightarrow> loop_step early s (s\<lparr>pc := L_check, calling := False\<rparr>)"

text \<open>Steps of other threads.\<close>

inductive other_step :: "'f loop_state \<Rightarrow> 'f loop_state \<Rightarrow> bool" where
  other_queue: "other_step s ((push f s)\<lparr>wakers := wakers s + 1\<rparr>)"
| other_quit: "other_step s (s\<lparr>quitting := True, wakers := wakers s + 1\<rparr>)"
| other_wakeup: "0 < wakers s \<Longrightarrow> other_step s ((wake s)\<lparr>wakers := wakers s - 1\<rparr>)"

inductive reachable :: "bool \<Rightarrow> 'f loop_state \<Rightarrow> bool" for early :: bool where
  init: "reachable early initial_state"
| loop: "reachable early s \<Longrightarrow> loop_step early s s' \<Longrightarrow> reachable early s'"
| other: "reachable early s \<Longrightarrow> other_step s s' \<Longrightarrow> reachable early s'"

section \<open>Invariants\<close>

definition running :: "'f loop_pc \<Rightarrow> 'f list" where
  "running p = (case p of L_run fs \<Rightarrow> fs | _ \<Rightarrow> [])"

definition fifo_inv :: "'f loop_state \<Rightarrow> bool" where
  "fifo_inv s \<longleftrightarrow> executed s @ running (pc s) @ pending s = queued s"

definition past_swap :: "'f loop_pc \<Rightarrow> bool" where
  "past_swap p \<longleftrightarrow> (case p of L_start \<Rightarrow> True | L_check \<Rightarrow> True | L_poll \<Rightarrow> True | L_run _ \<Rightarrow> True | _ \<Rightarrow> False)"

definition calling_inv :: "'f loop_state \<Rightarrow> bool" where
  "calling_inv s \<longleftrightarrow> calling s = (case pc s of L_pend \<Rightarrow> True | L_run _ \<Rightarrow> True | _ \<Rightarrow> False)"

definition wake_inv :: "'f loop_state \<Rightarrow> bool" where
  "wake_inv s \<longleftrightarrow> calling_inv s \<and>
     (past_swap (pc s) \<and> pending s \<noteq> [] \<longrightarrow> 0 < wakeups s \<or> 0 < wakers s) \<and>
     (pc s = L_poll \<and> quitting s \<longrightarrow> 0 < wakeups s \<or> 0 < wakers s)"

lemma wake_fields [simp]:
  "pc (wake s) = pc s" "pending (wake s) = pending s" "calling (wake s) = calling s"
  "quitting (wake s) = quitting s" "0 < wakeups (wake s)" "wakers (wake s) = wakers s"
  "queued (wake s) = queued s" "executed (wake s) = executed s"
  by (simp_all add: wake_def eventfd_max_def)

lemma push_fields [simp]:
  "pc (push f s) = pc s" "pending (push f s) = pending s @ [f]" "calling (push f s) = calling s"
  "quitting (push f s) = quitting s" "wakeups (push f s) = wakeups s" "wakers (push f s) = wakers s"
  "queued (push f s) = queued s @ [f]" "executed (push f s) = executed s"
  by (simp_all add: push_def)

lemmas pc_simps = running_def past_swap_def calling_inv_def

lemma fifo_step: "loop_step e s s' \<Longrightarrow> fifo_inv s \<Longrightarrow> fifo_inv s'"
  by (induction rule: loop_step.induct) (auto simp: fifo_inv_def pc_simps)

lemma fifo_other: "other_step s s' \<Longrightarrow> fifo_inv s \<Longrightarrow> fifo_inv s'"
  by (induction rule: other_step.induct) (auto simp: fifo_inv_def pc_simps)

lemma reachable_fifo: "reachable e s \<Longrightarrow> fifo_inv s"
  by (induction rule: reachable.induct)
    (auto simp: fifo_step fifo_other, simp add: fifo_inv_def initial_state_def running_def)

lemma wake_step: "loop_step False s s' \<Longrightarrow> wake_inv s \<Longrightarrow> wake_inv s'"
  by (induction rule: loop_step.induct) (auto simp: wake_inv_def pc_simps)

lemma wake_other: "other_step s s' \<Longrightarrow> wake_inv s \<Longrightarrow> wake_inv s'"
  by (induction rule: other_step.induct) (auto simp: wake_inv_def pc_simps)

lemma reachable_wake: "reachable False s \<Longrightarrow> wake_inv s"
  by (induction rule: reachable.induct)
    (auto simp: wake_step wake_other, simp add: wake_inv_def initial_state_def pc_simps)

text \<open>
  C6: In every interleaving of the loop with any number of other threads, the functors are run in
  the order in which they were queued, each exactly once: those already run, those taken by the
  running \<^verbatim>\<open>doPendingFunctors\<close> and those pending are together all that were queued, in order.
\<close>

theorem functors_run_once_in_order:
  assumes "reachable early s"
  shows "executed s @ running (pc s) @ pending s = queued s"
  using reachable_fifo[OF assms] by (simp add: fifo_inv_def)

text \<open>
  C16: No wakeup is lost. When the loop is at its poll and functors are pending or \<^verbatim>\<open>quit\<close> was
  called, the event descriptor is readable, so the poll returns, or a thread is just about to
  write to it. (The loop's own thread must not queue functors before \<^verbatim>\<open>loop()\<close>.)
\<close>

theorem no_lost_wakeup:
  assumes "reachable False s" "pc s = L_poll" "pending s \<noteq> [] \<or> quitting s"
  shows "0 < wakeups s \<or> 0 < wakers s"
  using reachable_wake[OF assms(1)] assms(2,3) by (auto simp: wake_inv_def past_swap_def)

text \<open>
  When the loop's own thread queues a functor before it enters \<^verbatim>\<open>loop()\<close>, the first poll blocks
  although the functor is pending: \<^verbatim>\<open>queueInLoop\<close> does not wake the loop, so the functor waits
  for another event or for the timeout of ten seconds.
\<close>

theorem early_functor_waits_for_timeout:
  "\<exists>s. reachable True s \<and> pc s = L_poll \<and> pending s = [f] \<and> wakeups s = 0 \<and> wakers s = 0"
proof -
  let ?s1 = "push f initial_state"
  let ?s2 = "?s1\<lparr>pc := L_check, quitting := False\<rparr>"
  let ?s3 = "?s2\<lparr>pc := L_poll\<rparr>"
  have "reachable True ?s1"
    by (rule reachable.loop[OF reachable.init early_queue]) (simp_all add: initial_state_def)
  then have "reachable True ?s2"
    by (rule reachable.loop[OF _ enter_loop]) (simp add: initial_state_def)
  then have "reachable True ?s3"
    by (rule reachable.loop[OF _ continue]) simp_all
  then show ?thesis by (intro exI[of _ ?s3]) (simp add: initial_state_def)
qed

section \<open>Progress\<close>

text \<open>
  A run of all threads from one state to another, with any steps in any order. The number counts the steps
  with which the loop's thread moves on in \<^verbatim>\<open>loop()\<close>; what it does at one place (handling the events of one poll,
  queueing functors, \<^verbatim>\<open>quit\<close>) and the steps of the other threads are not counted.
\<close>

inductive loop_run :: "nat \<Rightarrow> 'f loop_state \<Rightarrow> 'f loop_state \<Rightarrow> bool" where
  stop: "loop_run 0 s s"
| advance: "loop_step False s s1 \<Longrightarrow> pc s1 \<noteq> pc s \<Longrightarrow> loop_run n s1 s' \<Longrightarrow> loop_run (Suc n) s s'"
| stay: "loop_step False s s1 \<Longrightarrow> pc s1 = pc s \<Longrightarrow> loop_run n s1 s' \<Longrightarrow> loop_run n s s'"
| others: "other_step s s1 \<Longrightarrow> loop_run n s1 s' \<Longrightarrow> loop_run n s s'"

lemma loop_run_reachable: "loop_run n s s' \<Longrightarrow> reachable False s \<Longrightarrow> reachable False s'"
  by (induction rule: loop_run.induct) (auto intro: reachable.intros)

text \<open>The steps until the first \<open>k\<close> functors have run: those of the functors, and those that lead to the next swap.\<close>

definition remaining :: "nat \<Rightarrow> 'f loop_state \<Rightarrow> nat" where
  "remaining k s = (let d = k - length (executed s) in
     if d = 0 then 0 else
       (case pc s of L_start \<Rightarrow> d + 5 | L_check \<Rightarrow> d + 4 | L_poll \<Rightarrow> d + 3 | L_handle \<Rightarrow> d + 2 | L_pend \<Rightarrow> d + 1
        | L_run fs \<Rightarrow> if d \<le> length fs then d else d + 5 | L_exit \<Rightarrow> 0))"

lemma remaining_le: "remaining k s \<le> k - length (executed s) + 5"
  by (cases "pc s") (auto simp: remaining_def Let_def)

lemma remaining_same: "pc s' = pc s \<Longrightarrow> executed s' = executed s \<Longrightarrow> remaining k s' = remaining k s"
  unfolding remaining_def by (simp only:)

lemma remaining_step:
  assumes "loop_step False s s'" "fifo_inv s" "k \<le> length (queued s)"
  shows "remaining k s' \<le> remaining k s" "pc s' \<noteq> pc s \<Longrightarrow> remaining k s' \<le> remaining k s - 1"
proof -
  have len: "length (queued s) = length (executed s) + length (running (pc s)) + length (pending s)"
    using assms(2) by (simp add: fifo_inv_def flip: length_append)
  show "remaining k s' \<le> remaining k s"
    using assms(1,3) len by cases (auto simp: remaining_def running_def Let_def)
  show "remaining k s' \<le> remaining k s - 1" if "pc s' \<noteq> pc s"
    using assms(1,3) len that by cases (auto simp: remaining_def running_def Let_def split: if_splits)
qed

lemma remaining_other: "other_step s s' \<Longrightarrow> remaining k s' = remaining k s"
  by (cases rule: other_step.cases) (auto intro!: remaining_same)

lemma queued_grows: "loop_step e s s' \<or> other_step s s' \<Longrightarrow> prefix (queued s) (queued s')"
  by (auto elim!: loop_step.cases other_step.cases)

lemma remaining_run:
  assumes "loop_run n s s'" "fifo_inv s" "k \<le> length (queued s)"
  shows "remaining k s' \<le> remaining k s - n \<and> prefix (queued s) (queued s')"
  using assms
proof (induction rule: loop_run.induct)
  case (advance s s1 n s')
  have "prefix (queued s) (queued s1)" using queued_grows advance.hyps(1) by blast
  then show ?case using advance.IH[OF fifo_step[OF advance.hyps(1) advance.prems(1)]] remaining_step(2)[OF advance.hyps(1) advance.prems advance.hyps(2)]
      prefix_length_le[of "queued s" "queued s1"] advance.prems(2) by (fastforce intro: prefix_order.trans)
next
  case (stay s s1 n s')
  have "prefix (queued s) (queued s1)" using queued_grows stay.hyps(1) by blast
  then show ?case using stay.IH[OF fifo_step[OF stay.hyps(1) stay.prems(1)]] remaining_step(1)[OF stay.hyps(1) stay.prems]
      prefix_length_le[of "queued s" "queued s1"] stay.prems(2) by (fastforce intro: prefix_order.trans)
next
  case (others s s1 n s')
  have "prefix (queued s) (queued s1)" using queued_grows others.hyps(1) by blast
  then show ?case using others.IH[OF fifo_other[OF others.hyps(1) others.prems(1)]] remaining_other[OF others.hyps(1), of k]
      prefix_length_le[of "queued s" "queued s1"] others.prems(2) by (fastforce intro: prefix_order.trans)
qed simp

lemma reachable_exit: "reachable e s \<Longrightarrow> pc s = L_exit \<Longrightarrow> quitting s"
proof (induction rule: reachable.induct)
  case (loop s s')
  from loop.hyps(2) loop.IH loop.prems show ?case by cases (auto split: if_splits)
next
  case (other s s')
  from other.hyps(2) other.IH other.prems show ?case by cases auto
qed (simp add: initial_state_def)

text \<open>The loop can move on; at its poll, because the event descriptor is readable.\<close>

definition can_advance :: "'f loop_state \<Rightarrow> bool" where
  "can_advance s \<longleftrightarrow> (pc s = L_poll \<longrightarrow> 0 < wakeups s) \<and> (\<exists>s'. loop_step False s s' \<and> pc s' \<noteq> pc s)"

lemma loop_advances:
  assumes "pc s \<noteq> L_exit" "pc s = L_poll \<Longrightarrow> 0 < wakeups s"
  shows "can_advance s"
proof -
  have "\<exists>s'. loop_step False s s' \<and> pc s' \<noteq> pc s"
  proof (cases "pc s")
    case L_start
    then show ?thesis using enter_loop[of s False] by force
  next
    case L_check
    then show ?thesis using continue[of s False] leave_loop[of s False] by (cases "quitting s") force+
  next
    case L_poll
    then show ?thesis using poll_woken[of s False] assms(2) by force
  next
    case L_handle
    then show ?thesis using begin_functors[of s False] by force
  next
    case L_pend
    then show ?thesis using swap_functors[of s False] by force
  next
    case (L_run fs)
    show ?thesis
    proof (cases fs)
      case Nil
      then show ?thesis using L_run end_functors[of s False] by force
    next
      case (Cons f gs)
      then show ?thesis using L_run run_functor[of s f gs False] by force
    qed
  qed (use assms(1) in simp)
  then show ?thesis using assms(2) by (simp add: can_advance_def)
qed

text \<open>
  C22: Queued functors are run, unless \<^verbatim>\<open>quit\<close> is called. Take any reachable state (whose loop's own thread has not queued functors
  before \<^verbatim>\<open>loop()\<close>), and from there any run of all threads, who may go on queueing functors; suppose \<^verbatim>\<open>quit\<close> has not been
  called at its end. Once the loop's thread has made five steps in \<^verbatim>\<open>loop()\<close> and one more for every functor of the first
  state that had not been run, all of these have been run, in order; and as long as they have not, the loop does not
  block: its thread can make a step, at its poll because the event descriptor is readable, or another
  thread is just about to make it readable. (After \<^verbatim>\<open>quit\<close> the loop may end with functors pending.)
\<close>

theorem pending_functors_are_run:
  assumes "reachable False s" "loop_run n s s'" "\<not> quitting s'"
  shows "(length (queued s) - length (executed s) + 5 \<le> n \<longrightarrow> prefix (queued s) (executed s')) \<and>
    (\<not> prefix (queued s) (executed s') \<longrightarrow> can_advance s' \<or> 0 < wakers s')"
proof -
  let ?k = "length (queued s)"
  have s': "reachable False s'" using loop_run_reachable[OF assms(2,1)] .
  then have exit: "pc s' \<noteq> L_exit" using reachable_exit assms(3) by blast
  have run: "remaining ?k s' \<le> remaining ?k s - n" "prefix (queued s) (queued s')"
    using remaining_run[OF assms(2) reachable_fifo[OF assms(1)], of ?k] by auto
  have fifo: "executed s' @ running (pc s') @ pending s' = queued s'" using reachable_fifo[OF s'] by (simp add: fifo_inv_def)
  have pre: "prefix (queued s) (executed s')" if "?k \<le> length (executed s')"
    using that run(2) fifo by (metis prefixI prefix_length_prefix)
  have "prefix (queued s) (executed s')" if "?k - length (executed s) + 5 \<le> n"
  proof -
    have "remaining ?k s' = 0" using that run(1) remaining_le[of ?k s] by simp
    then have "?k \<le> length (executed s')"
      using exit by (auto simp: remaining_def Let_def split: loop_pc.splits if_splits)
    then show ?thesis by (rule pre)
  qed
  moreover have "can_advance s' \<or> 0 < wakers s'" if "\<not> prefix (queued s) (executed s')"
  proof (cases "pc s' = L_poll")
    case True
    have "pending s' \<noteq> []" using that pre True fifo prefix_length_le[OF run(2)] by (auto simp: running_def)
    then have "0 < wakeups s' \<or> 0 < wakers s'" using reachable_wake[OF s'] True by (simp add: wake_inv_def past_swap_def)
    then show ?thesis by (auto intro: loop_advances[OF exit])
  qed (use loop_advances[OF exit] in blast)
  ultimately show ?thesis by blast
qed

section \<open>Witnesses\<close>

text \<open>Another thread queues the functor 7 while the loop is at its poll.\<close>

definition demo_state :: "nat loop_state" where
  "demo_state = \<lparr>pc = L_poll, pending = [7], calling = False, quitting = False, wakeups = 1, wakers = 0,
     queued = [7], executed = []\<rparr>"

lemma demo_reachable: "reachable early demo_state"
proof -
  let ?s1 = "initial_state\<lparr>pc := L_check, quitting := False\<rparr> :: nat loop_state"
  let ?s2 = "?s1\<lparr>pc := L_poll\<rparr>"
  let ?s3 = "(push 7 ?s2)\<lparr>wakers := wakers ?s2 + 1\<rparr>"
  let ?s4 = "(wake ?s3)\<lparr>wakers := wakers ?s3 - 1\<rparr>"
  have "reachable early ?s1"
    by (rule reachable.loop[OF reachable.init enter_loop]) (simp add: initial_state_def)
  then have "reachable early ?s2"
    by (rule reachable.loop[OF _ continue]) simp_all
  then have "reachable early ?s3" by (rule reachable.other[OF _ other_queue])
  then have "reachable early ?s4" by (rule reachable.other[OF _ other_wakeup]) simp
  moreover have "?s4 = demo_state"
    by (simp add: demo_state_def initial_state_def push_def wake_def eventfd_max_def)
  ultimately show ?thesis by simp
qed

theorem functors_run_once_in_order_witness:
  "reachable True demo_state \<and> executed demo_state @ running (pc demo_state) @ pending demo_state = queued demo_state"
  using functors_run_once_in_order[OF demo_reachable] demo_reachable by blast

theorem no_lost_wakeup_witness: "pc demo_state = L_poll \<and> pending demo_state = [7] \<and> (0 < wakeups demo_state \<or> 0 < wakers demo_state)"
  using no_lost_wakeup[OF demo_reachable] by (simp add: demo_state_def)

text \<open>The poll returns, the functors are taken over and the functor runs.\<close>

definition demo_done :: "nat loop_state" where
  "demo_done = \<lparr>pc = L_poll, pending = [], calling = False, quitting = False, wakeups = 1, wakers = 0, queued = [7], executed = [7]\<rparr>"

lemma demo_run: "loop_run 6 demo_state demo_done"
proof -
  let ?s1 = "demo_state\<lparr>pc := L_handle\<rparr>"
  let ?s2 = "?s1\<lparr>pc := L_pend, calling := True\<rparr>"
  let ?s3 = "?s2\<lparr>pc := L_run (pending ?s2), pending := []\<rparr>"
  let ?s4 = "?s3\<lparr>pc := L_run [], executed := executed ?s3 @ [7]\<rparr>"
  let ?s5 = "?s4\<lparr>pc := L_check, calling := False\<rparr>"
  have r0: "loop_run 0 (?s5\<lparr>pc := L_poll\<rparr>) demo_done" using stop[of demo_done] by (simp add: demo_done_def demo_state_def)
  have r1: "loop_run (Suc 0) ?s5 demo_done" by (rule advance[OF continue _ r0]) (simp_all add: demo_state_def)
  have r2: "loop_run (Suc (Suc 0)) ?s4 demo_done" by (rule advance[OF end_functors _ r1]) simp_all
  have r3: "loop_run (Suc (Suc (Suc 0))) ?s3 demo_done" by (rule advance[OF run_functor _ r2]) (simp_all add: demo_state_def)
  have r4: "loop_run (Suc (Suc (Suc (Suc 0)))) ?s2 demo_done" by (rule advance[OF swap_functors _ r3]) simp_all
  have r5: "loop_run (Suc (Suc (Suc (Suc (Suc 0))))) ?s1 demo_done" by (rule advance[OF begin_functors _ r4]) simp_all
  have "loop_run (Suc (Suc (Suc (Suc (Suc (Suc 0)))))) demo_state demo_done" by (rule advance[OF poll_woken _ r5]) (simp_all add: demo_state_def)
  then show ?thesis by (simp add: eval_nat_numeral)
qed

theorem pending_functors_are_run_witness: "prefix (queued demo_state) (executed demo_done) \<and> queued demo_state = [7]"
  using pending_functors_are_run[OF demo_reachable demo_run] by (simp add: demo_done_def demo_state_def)

end
