(* ===== verification/Threads.thy ===== *)
theory Threads
  imports LoopThread "HOL-Library.Signed_Division"
begin

text \<open>
  Threads and their primitives: \<^verbatim>\<open>port/port_posix.cpp\<close> (mutexes and condition variables that abort
  on any error of a pthread function), \<^verbatim>\<open>thread.muduo/Thread.cpp\<close>, \<^verbatim>\<open>CurrentThread.cpp\<close> and
  \<^verbatim>\<open>common/Atomic.h\<close>. The results of the pthread functions are arguments.
\<close>

section \<open>Mutexes and condition variables\<close>

definition PthreadCall :: "string \<Rightarrow> int \<Rightarrow> unit res" where
  "PthreadCall label result = (if result \<noteq> 0 then Inl (Abort (''pthread '' @ label)) else Inr ())"

definition Mutex_ctor :: "int \<Rightarrow> unit res" where "Mutex_ctor r = PthreadCall ''Init mutex'' r"
definition Mutex_dtor :: "int \<Rightarrow> unit res" where "Mutex_dtor r = PthreadCall ''Destroy mutex'' r"
definition Mutex_Lock :: "int \<Rightarrow> unit res" where "Mutex_Lock r = PthreadCall ''Lock mutex'' r"
definition Mutex_Unlock :: "int \<Rightarrow> unit res" where "Mutex_Unlock r = PthreadCall ''Unlock mutex'' r"
definition CondVar_ctor :: "int \<Rightarrow> unit res" where "CondVar_ctor r = PthreadCall ''Init cv'' r"
definition CondVar_dtor :: "int \<Rightarrow> unit res" where "CondVar_dtor r = PthreadCall ''Destroy cv'' r"
definition CondVar_Wait :: "int \<Rightarrow> unit res" where "CondVar_Wait r = PthreadCall ''wait'' r"
definition CondVar_Signal :: "int \<Rightarrow> unit res" where "CondVar_Signal r = PthreadCall ''signal'' r"
definition CondVar_SignalAll :: "int \<Rightarrow> unit res" where "CondVar_SignalAll r = PthreadCall ''once'' r"

text \<open>\<^verbatim>\<open>MutexLock\<close>: the scope of a lock.\<close>

definition MutexLock_scope :: "int \<Rightarrow> int \<Rightarrow> 'a res \<Rightarrow> 'a res" where
  "MutexLock_scope r1 r2 body =
     res_bind (Mutex_Lock r1) (\<lambda>_. res_bind body (\<lambda>x. res_bind (Mutex_Unlock r2) (\<lambda>_. Inr x)))"

definition kNanoSecondsPerSecond :: int where "kNanoSecondsPerSecond = 1000000000"

text \<open>The absolute time given to \<^verbatim>\<open>pthread_cond_timedwait\<close>, from the time \<open>(s, ns)\<close> of the clock.\<close>

definition wait_abstime :: "int \<Rightarrow> int \<times> int \<Rightarrow> int \<times> int" where
  "wait_abstime secs now =
     (let nanoseconds = secs * kNanoSecondsPerSecond
      in (fst now + (snd now + nanoseconds) sdiv kNanoSecondsPerSecond,
          (snd now + nanoseconds) smod kNanoSecondsPerSecond))"

definition ETIMEDOUT :: int where "ETIMEDOUT = 110"

definition waitForSeconds :: "(int \<times> int \<Rightarrow> int) \<Rightarrow> int \<Rightarrow> int \<times> int \<Rightarrow> unit res" where
  "waitForSeconds timedwait secs now = PthreadCall ''wait for seconds'' (timedwait (wait_abstime secs now))"

lemma signed_div_mod_nonneg:
  "0 \<le> k \<Longrightarrow> 0 < l \<Longrightarrow> k sdiv l = k div l \<and> k smod l = k mod l" for k l :: int
  by (cases "k = 0") (auto simp: signed_divide_int_eq_divide_int signed_modulo_int_eq_modulo_int)

text \<open>
  \<^verbatim>\<open>waitForSeconds\<close> waits for a well-formed time exactly \<open>secs\<close> seconds ahead; but a wait that is
  not signalled in time, which \<^verbatim>\<open>pthread_cond_timedwait\<close> reports as \<^verbatim>\<open>ETIMEDOUT\<close>, aborts the program.
\<close>

theorem waitForSeconds_timeout_aborts:
  assumes "0 \<le> secs" "0 \<le> snd now" "snd now < kNanoSecondsPerSecond"
  shows "let t = wait_abstime secs now
    in 0 \<le> snd t \<and> snd t < kNanoSecondsPerSecond \<and>
       fst t * kNanoSecondsPerSecond + snd t = (fst now + secs) * kNanoSecondsPerSecond + snd now \<and>
       waitForSeconds (\<lambda>_. ETIMEDOUT) secs now = Inl (Abort ''pthread wait for seconds'')"
proof -
  let ?n = "snd now + secs * kNanoSecondsPerSecond"
  have "?n div kNanoSecondsPerSecond * kNanoSecondsPerSecond + ?n mod kNanoSecondsPerSecond = ?n"
    by (rule div_mult_mod_eq)
  moreover have "?n sdiv kNanoSecondsPerSecond = ?n div kNanoSecondsPerSecond \<and>
      ?n smod kNanoSecondsPerSecond = ?n mod kNanoSecondsPerSecond"
    using assms by (intro signed_div_mod_nonneg) (simp_all add: kNanoSecondsPerSecond_def)
  ultimately show ?thesis
    by (simp add: wait_abstime_def waitForSeconds_def PthreadCall_def ETIMEDOUT_def Let_def algebra_simps
        kNanoSecondsPerSecond_def)
qed

theorem waitForSeconds_timeout_aborts_witness:
  "wait_abstime 3 (100, 999999999) = (103, 999999999) \<and>
   waitForSeconds (\<lambda>_. ETIMEDOUT) 3 (100, 999999999) = Inl (Abort ''pthread wait for seconds'')"
  using waitForSeconds_timeout_aborts[of 3 "(100, 999999999)"]
  by (simp add: kNanoSecondsPerSecond_def wait_abstime_def)

section \<open>Atomic integers\<close>

text \<open>A value of \<^verbatim>\<open>AtomicIntegerT\<close> is a word; every operation is one atomic instruction and returns
  its result with the new value.\<close>

definition atomic_get :: "'a::len word \<Rightarrow> 'a word \<times> 'a word" where
  "atomic_get v = (v, if v = 0 then 0 else v)"

definition getAndAdd :: "'a::len word \<Rightarrow> 'a word \<Rightarrow> 'a word \<times> 'a word" where
  "getAndAdd x v = (v, v + x)"

definition addAndGet :: "'a::len word \<Rightarrow> 'a word \<Rightarrow> 'a word \<times> 'a word" where
  "addAndGet x v = (let (old, v') = getAndAdd x v in (old + x, v'))"

definition incrementAndGet :: "'a::len word \<Rightarrow> 'a word \<times> 'a word" where
  "incrementAndGet v = addAndGet 1 v"

definition decrementAndGet :: "'a::len word \<Rightarrow> 'a word \<times> 'a word" where
  "decrementAndGet v = addAndGet (- 1) v"

definition atomic_add :: "'a::len word \<Rightarrow> 'a word \<Rightarrow> 'a word" where
  "atomic_add x v = snd (getAndAdd x v)"

definition atomic_increment :: "'a::len word \<Rightarrow> 'a word" where
  "atomic_increment v = snd (incrementAndGet v)"

definition atomic_decrement :: "'a::len word \<Rightarrow> 'a word" where
  "atomic_decrement v = snd (decrementAndGet v)"

definition getAndSet :: "'a::len word \<Rightarrow> 'a word \<Rightarrow> 'a word \<times> 'a word" where
  "getAndSet newValue v = (v, newValue)"

fun increments :: "nat \<Rightarrow> 'a::len word \<Rightarrow> 'a word list" where
  "increments 0 v = []"
| "increments (Suc n) v = (let (r, v') = incrementAndGet v in r # increments n v')"

lemma increments_eq: "increments n v = map (\<lambda>k. v + of_nat (Suc k)) [0..<n]"
proof (induction n arbitrary: v)
  case (Suc n)
  have "map (\<lambda>k. v + of_nat (Suc k)) [0..<Suc n] = (v + 1) # map (\<lambda>k. v + 1 + of_nat (Suc k)) [0..<n]"
    by (simp add: map_upt_Suc algebra_simps del: upt_Suc)
  then show ?case
    by (simp add: Suc incrementAndGet_def addAndGet_def getAndAdd_def)
qed simp

text \<open>
  Ticket numbers: as long as fewer than \<open>2 ^ w\<close> threads draw a number with \<^verbatim>\<open>incrementAndGet\<close>,
  whatever the order in which the atomic instructions happen, all numbers are different.
\<close>

theorem incrementAndGet_distinct:
  assumes "n \<le> 2 ^ LENGTH('a)"
  shows "distinct (increments n (v :: 'a::len word))"
proof -
  have "inj_on (\<lambda>k. v + of_nat (Suc k)) (set [0..<n])"
  proof (rule inj_onI)
    fix i j assume ij: "i \<in> set [0..<n]" "j \<in> set [0..<n]" "v + of_nat (Suc i) = v + of_nat (Suc j)"
    then have "(of_nat i :: 'a word) = of_nat j" by simp
    moreover have "i < 2 ^ LENGTH('a)" "j < 2 ^ LENGTH('a)" using ij assms by auto
    ultimately have "unat (of_nat i :: 'a word) = unat (of_nat j :: 'a word)" "i < 2 ^ LENGTH('a)" "j < 2 ^ LENGTH('a)"
      by simp_all
    then show "i = j" by (simp add: unat_of_nat)
  qed
  then show ?thesis by (simp add: increments_eq distinct_map)
qed

theorem incrementAndGet_distinct_witness: "distinct (increments 256 (7 :: 8 word))"
  by (rule incrementAndGet_distinct) simp

section \<open>Threads\<close>

definition CurrentThread_tid :: "thread_id \<Rightarrow> thread_id \<Rightarrow> thread_id \<times> thread_id" where
  "CurrentThread_tid gettid t_cachedPid =
     (let cached = (if t_cachedPid = 0 then gettid else t_cachedPid) in (cached, cached))"

datatype func_outcome = Returns | Throws_std_exception | Throws_other

record thread =
  th_tid :: "thread_id option"
  th_started :: bool
  th_joined :: bool
  th_detached :: bool

definition Thread_ctor :: thread where
  "Thread_ctor = \<lparr>th_tid = None, th_started = False, th_joined = False, th_detached = False\<rparr>"

definition Thread_dtor :: "thread \<Rightarrow> thread" where
  "Thread_dtor t = (if th_started t \<and> \<not> th_joined t then t\<lparr>th_detached := True\<rparr> else t)"

definition Thread_start :: "int \<Rightarrow> thread \<Rightarrow> thread res" where
  "Thread_start create t =
     require (\<not> th_started t) ''started_ == false''
     (if create \<noteq> 0 then Inl (Log_fatal ''Failed in pthread_create'') else Inr (t\<lparr>th_started := True\<rparr>))"

definition Thread_join :: "thread \<Rightarrow> thread res" where
  "Thread_join t = require (th_started t) ''started_'' (require (\<not> th_joined t) ''!joined_'' (Inr (t\<lparr>th_joined := True\<rparr>)))"

definition runInThread :: "thread_id \<Rightarrow> func_outcome \<Rightarrow> thread \<Rightarrow> thread res" where
  "runInThread self outcome t =
     (let t1 = t\<lparr>th_tid := Some self\<rparr>
      in case outcome of
           Returns \<Rightarrow> Inr t1
         | Throws_std_exception \<Rightarrow> Inl (Abort ''reason'')
         | Throws_other \<Rightarrow> Inl (Abort ''std::terminate''))"

text \<open>The identifier of a thread is looked up once and then cached.\<close>

lemma CurrentThread_tid_cached:
  assumes "0 < g"
  shows "fst (CurrentThread_tid g 0) = g" "fst (CurrentThread_tid g' (snd (CurrentThread_tid g 0))) = g"
  using assms by (simp_all add: CurrentThread_tid_def Let_def)

end
