(* ===== verification/ThreadLife.thy ===== *)
theory ThreadLife
  imports Threads
begin

text \<open>
  The life of a \<^verbatim>\<open>Thread\<close> object beside the thread it starts (\<^verbatim>\<open>thread.muduo/Thread.cpp\<close>): the owner calls \<^verbatim>\<open>start\<close>,
  \<^verbatim>\<open>join\<close> and the destructor, the new thread runs \<^verbatim>\<open>startThread\<close> with a \<^verbatim>\<open>ThreadData\<close> of its own that holds
  a pointer into the object. The two interleave.
\<close>

datatype run_state = No_thread | Created | In_func | Ended

text \<open>\<open>tl_object\<close> is the object, if it still exists, \<open>tl_data\<close> the number of \<^verbatim>\<open>ThreadData\<close>s on the heap, \<open>tl_released\<close>
  whether the system may free the thread's resources (it was joined or detached).\<close>

record thread_life =
  tl_object :: "thread option"
  tl_data :: nat
  tl_run :: run_state
  tl_released :: bool

definition life_init :: thread_life where
  "life_init = \<lparr>tl_object = Some Thread_ctor, tl_data = 0, tl_run = No_thread, tl_released = False\<rparr>"

section \<open>The owner\<close>

definition on_object :: "(thread \<Rightarrow> thread res) \<Rightarrow> thread_life \<Rightarrow> thread_life res" where
  "on_object f s =
     (case tl_object s of
        None \<Rightarrow> Inl (Null_pointer ''Thread'')
      | Some t \<Rightarrow> res_bind (f t) (\<lambda>t'. Inr (s\<lparr>tl_object := Some t'\<rparr>)))"

text \<open>\<^verbatim>\<open>new ThreadData\<close>; on failure the data are deleted and the process ends.\<close>

definition life_start :: "int \<Rightarrow> thread_life \<Rightarrow> thread_life res" where
  "life_start create s =
     res_bind (on_object (Thread_start create) s) (\<lambda>s1. Inr (s1\<lparr>tl_data := Suc (tl_data s1), tl_run := Created\<rparr>))"

text \<open>\<^verbatim>\<open>pthread_join\<close> returns when the thread has ended.\<close>

definition life_join :: "thread_life \<Rightarrow> thread_life res" where
  "life_join s = res_bind (on_object Thread_join s) (\<lambda>s1. Inr (s1\<lparr>tl_released := True\<rparr>))"

definition life_dtor :: "thread_life \<Rightarrow> thread_life res" where
  "life_dtor s =
     (case tl_object s of
        None \<Rightarrow> Inl (Null_pointer ''Thread'')
      | Some t \<Rightarrow> Inr (s\<lparr>tl_released := tl_released s \<or> th_detached (Thread_dtor t), tl_object := None\<rparr>))"

section \<open>The thread\<close>

text \<open>\<^verbatim>\<open>runInThread\<close> up to the call of the function: it stores the identifier through its pointer.\<close>

definition startThread_tid :: "thread_id \<Rightarrow> thread_life \<Rightarrow> thread_life res" where
  "startThread_tid self s =
     (case tl_object s of
        None \<Rightarrow> Inl (Out_of_bounds ''*tid_'')
      | Some t \<Rightarrow> res_bind (runInThread self Returns t) (\<lambda>t'. Inr (s\<lparr>tl_object := Some t', tl_run := In_func\<rparr>)))"

text \<open>The function ends, and the data are deleted unless it ended by an exception.\<close>

definition startThread_end :: "func_outcome \<Rightarrow> thread_life \<Rightarrow> thread_life res" where
  "startThread_end outcome s =
     (case outcome of
        Returns \<Rightarrow> Inr (s\<lparr>tl_data := tl_data s - 1, tl_run := Ended\<rparr>)
      | Throws_std_exception \<Rightarrow> Inl (Abort ''reason'')
      | Throws_other \<Rightarrow> Inl (Abort ''std::terminate''))"

section \<open>Steps\<close>

datatype life_event = Start | Join | Destroy | Store_tid thread_id | Return_func

text \<open>When an event can happen. \<open>early\<close> says whether the owner may destroy the object of a started thread without a join.\<close>

fun life_enabled :: "bool \<Rightarrow> life_event \<Rightarrow> thread_life \<Rightarrow> bool" where
  "life_enabled early Start s \<longleftrightarrow> (case tl_object s of None \<Rightarrow> False | Some t \<Rightarrow> \<not> th_started t)"
| "life_enabled early Join s \<longleftrightarrow> (case tl_object s of None \<Rightarrow> False | Some t \<Rightarrow> th_started t \<and> \<not> th_joined t) \<and> tl_run s = Ended"
| "life_enabled early Destroy s \<longleftrightarrow> (case tl_object s of None \<Rightarrow> False | Some t \<Rightarrow> early \<or> th_joined t \<or> \<not> th_started t)"
| "life_enabled early (Store_tid self) s \<longleftrightarrow> tl_run s = Created"
| "life_enabled early Return_func s \<longleftrightarrow> tl_run s = In_func"

fun run_life_event :: "life_event \<Rightarrow> thread_life \<Rightarrow> thread_life res" where
  "run_life_event Start s = life_start 0 s"
| "run_life_event Join s = life_join s"
| "run_life_event Destroy s = life_dtor s"
| "run_life_event (Store_tid self) s = startThread_tid self s"
| "run_life_event Return_func s = startThread_end Returns s"

inductive life_reach :: "bool \<Rightarrow> thread_life \<Rightarrow> bool" for early where
  init: "life_reach early life_init"
| step: "life_reach early s \<Longrightarrow> life_enabled early e s \<Longrightarrow> run_life_event e s = Inr s' \<Longrightarrow> life_reach early s'"

section \<open>Invariant\<close>

definition life_inv :: "thread_life \<Rightarrow> bool" where
  "life_inv s \<longleftrightarrow>
     tl_data s = (if tl_run s \<in> {Created, In_func} then 1 else 0) \<and>
     (case tl_object s of
        Some t \<Rightarrow> (th_started t \<longleftrightarrow> tl_run s \<noteq> No_thread) \<and> (th_joined t \<longrightarrow> tl_run s = Ended) \<and> tl_released s = th_joined t \<and>
          (th_tid t = None \<longleftrightarrow> tl_run s \<in> {No_thread, Created})
      | None \<Rightarrow> tl_run s = No_thread \<or> tl_run s = Ended \<and> tl_released s)"

lemmas life_defs = life_start_def life_join_def life_dtor_def on_object_def startThread_tid_def startThread_end_def
  Thread_start_def Thread_join_def Thread_dtor_def runInThread_def Let_def

lemma life_event_ok:
  assumes "life_inv s" "life_enabled False e s"
  shows "\<exists>s'. run_life_event e s = Inr s' \<and> life_inv s'"
  using assms by (cases e; cases "tl_object s") (auto simp: life_inv_def life_defs)

lemma life_reach_inv: "life_reach False s \<Longrightarrow> life_inv s"
proof (induction rule: life_reach.induct)
  case init
  then show ?case by (simp add: life_inv_def life_init_def Thread_ctor_def)
next
  case (step s e s')
  then show ?case using life_event_ok[of s e] by auto
qed

text \<open>
  An owner that joins a started thread before it destroys the object is safe, for every interleaving: no
  step fails, in particular the thread stores its identifier into an existing object, and a joined thread has
  stored it; there is one \<^verbatim>\<open>ThreadData\<close> on the heap while the thread runs and none before and after; and when the
  object is gone the thread has ended and its resources are released.
\<close>

theorem joined_thread_is_safe:
  assumes "life_reach False s" "life_enabled False e s"
  shows "(\<exists>s'. run_life_event e s = Inr s') \<and>
    tl_data s = (if tl_run s \<in> {Created, In_func} then 1 else 0) \<and>
    (case tl_object s of
       Some t \<Rightarrow> th_joined t \<longrightarrow> th_tid t \<noteq> None
     | None \<Rightarrow> tl_run s = No_thread \<or> tl_run s = Ended \<and> tl_released s)"
  using life_event_ok[OF life_reach_inv[OF assms(1)] assms(2)] life_reach_inv[OF assms(1)]
  by (auto simp: life_inv_def split: option.splits)

text \<open>The states of a run from start to join.\<close>

definition life_after :: "life_event list \<Rightarrow> thread_life" where
  "life_after es = projr (res_fold run_life_event es life_init)"

lemma joined_run:
  "life_reach False (life_after [Start, Store_tid 7, Return_func])"
  "life_after [Start, Store_tid 7, Return_func] =
     \<lparr>tl_object = Some \<lparr>th_tid = Some 7, th_started = True, th_joined = False, th_detached = False\<rparr>, tl_data = 0, tl_run = Ended, tl_released = False\<rparr>"
proof -
  note eval = life_after_def life_init_def Thread_ctor_def life_defs
  have "life_reach False (life_after [Start])"
    by (rule life_reach.step[OF life_reach.init, of _ Start]) (simp_all add: eval)
  then have "life_reach False (life_after [Start, Store_tid 7])"
    by (rule life_reach.step[of _ _ "Store_tid 7"]) (simp_all add: eval)
  then show "life_reach False (life_after [Start, Store_tid 7, Return_func])"
    by (rule life_reach.step[of _ _ Return_func]) (simp_all add: eval)
  show "life_after [Start, Store_tid 7, Return_func] =
     \<lparr>tl_object = Some \<lparr>th_tid = Some 7, th_started = True, th_joined = False, th_detached = False\<rparr>, tl_data = 0, tl_run = Ended, tl_released = False\<rparr>"
    by (simp add: eval)
qed

theorem joined_thread_is_safe_witness:
  "(\<exists>s'. run_life_event Join (life_after [Start, Store_tid 7, Return_func]) = Inr s') \<and> tl_data (life_after [Start, Store_tid 7, Return_func]) = 0"
  using joined_thread_is_safe[OF joined_run(1), of Join] by (simp add: joined_run(2))

text \<open>
  An owner that destroys the object without a join, for which the destructor detaches the thread, is not: the thread
  may store its identifier into the destroyed object.
\<close>

theorem detached_thread_writes_destroyed_object:
  "\<exists>s. life_reach True s \<and> life_enabled True (Store_tid 7) s \<and> run_life_event (Store_tid 7) s = Inl (Out_of_bounds ''*tid_'')"
proof -
  note eval = life_after_def life_init_def Thread_ctor_def life_defs
  have "life_reach True (life_after [Start])"
    by (rule life_reach.step[OF life_reach.init, of _ Start]) (simp_all add: eval)
  then have "life_reach True (life_after [Start, Destroy])"
    by (rule life_reach.step[of _ _ Destroy]) (simp_all add: eval)
  then show ?thesis by (intro exI[of _ "life_after [Start, Destroy]"]) (simp add: eval)
qed

end
