(* ===== verification/LoopThreadPool.thy ===== *)
theory LoopThreadPool
  imports Threads
begin

text \<open>
  \<^verbatim>\<open>reactor.muduo/EventLoopThread.cpp\<close> and \<^verbatim>\<open>EventLoopThreadPool.cpp\<close>. Starting a loop in a new thread
  is a protocol of two threads over a mutex and a condition variable, given as a step relation.
  The pool hands out the started loops; loops are identified by their addresses.
\<close>

section \<open>EventLoopThread\<close>

text \<open>
  \<open>caller\<close> is the thread that calls \<^verbatim>\<open>startLoop\<close>: it starts the thread, then, holding the mutex,
  tests \<^verbatim>\<open>loop_\<close> and waits (\<open>C_wait\<close>, the mutex released) until it is not null. \<open>worker\<close> is the new
  thread in \<^verbatim>\<open>threadFunc\<close>: it makes its loop and runs the init callback, publishes the loop and
  signals, runs \<^verbatim>\<open>loop()\<close>, and resets \<^verbatim>\<open>loop_\<close> when that returns. The steps under the mutex are
  atomic. \<open>signalled\<close>: the waiting caller has been woken.
\<close>

datatype caller_pc = C_start | C_test | C_wait | C_return | C_done "nat option"
datatype worker_pc = W_none | W_init | W_publish | W_loop | W_reset | W_end

record loop_thread =
  lt_loop :: "nat option"
  lt_thread :: thread
  lt_caller :: caller_pc
  lt_worker :: worker_pc
  lt_signalled :: bool

definition EventLoopThread_ctor :: loop_thread where
  "EventLoopThread_ctor = \<lparr>lt_loop = None, lt_thread = Thread_ctor, lt_caller = C_start,
     lt_worker = W_none, lt_signalled = False\<rparr>"

inductive lt_step :: "nat \<Rightarrow> loop_thread \<Rightarrow> loop_thread \<Rightarrow> bool" for lp :: nat where
  start: "lt_caller s = C_start \<Longrightarrow> Thread_start 0 (lt_thread s) = Inr t \<Longrightarrow>
    lt_step lp s (s\<lparr>lt_thread := t, lt_caller := C_test, lt_worker := W_init\<rparr>)"
| test_null: "lt_caller s = C_test \<Longrightarrow> lt_loop s = None \<Longrightarrow>
    lt_step lp s (s\<lparr>lt_caller := C_wait, lt_signalled := False\<rparr>)"
| test_set: "lt_caller s = C_test \<Longrightarrow> lt_loop s \<noteq> None \<Longrightarrow> lt_step lp s (s\<lparr>lt_caller := C_return\<rparr>)"
| woken: "lt_caller s = C_wait \<Longrightarrow> lt_signalled s \<Longrightarrow> lt_step lp s (s\<lparr>lt_caller := C_test\<rparr>)"
| spurious: "lt_caller s = C_wait \<Longrightarrow> lt_step lp s (s\<lparr>lt_caller := C_test\<rparr>)"
| return: "lt_caller s = C_return \<Longrightarrow> lt_step lp s (s\<lparr>lt_caller := C_done (lt_loop s)\<rparr>)"
| init: "lt_worker s = W_init \<Longrightarrow> lt_step lp s (s\<lparr>lt_worker := W_publish\<rparr>)"
| publish: "lt_worker s = W_publish \<Longrightarrow>
    lt_step lp s (s\<lparr>lt_loop := Some lp, lt_signalled := True, lt_worker := W_loop\<rparr>)"
| loop_ends: "lt_worker s = W_loop \<Longrightarrow> lt_step lp s (s\<lparr>lt_worker := W_reset\<rparr>)"
| reset: "lt_worker s = W_reset \<Longrightarrow> lt_step lp s (s\<lparr>lt_loop := None, lt_worker := W_end\<rparr>)"

inductive lt_reachable :: "nat \<Rightarrow> loop_thread \<Rightarrow> bool" for lp :: nat where
  lt_init: "lt_reachable lp EventLoopThread_ctor"
| lt_next: "lt_reachable lp s \<Longrightarrow> lt_step lp s s' \<Longrightarrow> lt_reachable lp s'"

definition before_publish :: "worker_pc \<Rightarrow> bool" where
  "before_publish w \<longleftrightarrow> w = W_none \<or> w = W_init \<or> w = W_publish"

definition lt_inv :: "nat \<Rightarrow> loop_thread \<Rightarrow> bool" where
  "lt_inv lp s \<longleftrightarrow>
     lt_loop s = (if lt_worker s = W_loop \<or> lt_worker s = W_reset then Some lp else None) \<and>
     (th_started (lt_thread s) \<longleftrightarrow> lt_caller s \<noteq> C_start) \<and>
     (lt_caller s = C_start \<longleftrightarrow> lt_worker s = W_none) \<and>
     (lt_caller s = C_wait \<and> \<not> lt_signalled s \<longrightarrow> before_publish (lt_worker s) \<or> lt_worker s = W_end) \<and>
     (lt_caller s = C_return \<longrightarrow> \<not> before_publish (lt_worker s)) \<and>
     (\<forall>r. lt_caller s = C_done r \<longrightarrow> \<not> before_publish (lt_worker s) \<and> (r = Some lp \<or> lt_worker s = W_end \<and> r = None))"

lemma lt_step_inv: "lt_step lp s s' \<Longrightarrow> lt_inv lp s \<Longrightarrow> lt_inv lp s'"
  by (induction rule: lt_step.induct)
    (auto simp: lt_inv_def before_publish_def Thread_start_def split: if_splits,
      (metis worker_pc.exhaust)+)

lemma lt_reachable_inv: "lt_reachable lp s \<Longrightarrow> lt_inv lp s"
proof (induction rule: lt_reachable.induct)
  case lt_init
  then show ?case by (simp add: lt_inv_def EventLoopThread_ctor_def Thread_ctor_def before_publish_def)
next
  case (lt_next s s')
  then show ?case using lt_step_inv by blast
qed

text \<open>
  \<^verbatim>\<open>startLoop\<close> of an \<^verbatim>\<open>EventLoopThread\<close>. In every interleaving with the new thread, the value it
  returns is the address of the new thread's loop unless that loop has already ended; and while
  the caller sleeps on the condition variable unsignalled, the loop has not been published yet
  (or is over), so the signal is not lost.
\<close>

theorem startLoop_returns_the_loop:
  assumes "lt_reachable lp s"
  shows "(\<forall>r. lt_caller s = C_done r \<and> lt_worker s \<noteq> W_end \<longrightarrow> r = Some lp) \<and>
    (lt_caller s = C_wait \<and> \<not> lt_signalled s \<longrightarrow> before_publish (lt_worker s) \<or> lt_worker s = W_end)"
  using lt_reachable_inv[OF assms] by (auto simp: lt_inv_def)

text \<open>
  The returned pointer is read again after the mutex is released: when the new loop ends at
  once, \<^verbatim>\<open>startLoop\<close> can return null although it waited for the pointer to be set.
\<close>

theorem startLoop_may_return_null:
  "\<exists>s. lt_reachable lp s \<and> lt_caller s = C_done None"
proof -
  let ?t = "Thread_ctor\<lparr>th_started := True\<rparr>"
  let ?s1 = "EventLoopThread_ctor\<lparr>lt_thread := ?t, lt_caller := C_test, lt_worker := W_init\<rparr>"
  let ?s2 = "?s1\<lparr>lt_worker := W_publish\<rparr>"
  let ?s3 = "?s2\<lparr>lt_loop := Some lp, lt_signalled := True, lt_worker := W_loop\<rparr>"
  let ?s4 = "?s3\<lparr>lt_caller := C_return\<rparr>"
  let ?s5 = "?s4\<lparr>lt_worker := W_reset\<rparr>"
  let ?s6 = "?s5\<lparr>lt_loop := None, lt_worker := W_end\<rparr>"
  let ?s7 = "?s6\<lparr>lt_caller := C_done (lt_loop ?s6)\<rparr>"
  have "lt_reachable lp ?s1"
    by (rule lt_next[OF lt_init start]) (simp_all add: EventLoopThread_ctor_def Thread_ctor_def Thread_start_def)
  then have "lt_reachable lp ?s2" by (rule lt_next[OF _ init]) simp
  then have "lt_reachable lp ?s3" by (rule lt_next[OF _ publish]) simp
  then have "lt_reachable lp ?s4" by (rule lt_next[OF _ test_set]) simp_all
  then have "lt_reachable lp ?s5" by (rule lt_next[OF _ loop_ends]) simp
  then have "lt_reachable lp ?s6" by (rule lt_next[OF _ reset]) simp
  then have "lt_reachable lp ?s7" by (rule lt_next[OF _ return]) simp
  then show ?thesis by (intro exI[of _ ?s7]) simp
qed

section \<open>EventLoopThreadPool\<close>

record loop_pool =
  lp_baseLoop :: nat
  lp_basePid :: thread_id
  lp_started :: bool
  lp_numThreads :: int
  lp_next :: int
  lp_loops :: "nat list"

definition Pool_ctor :: "nat \<Rightarrow> thread_id \<Rightarrow> loop_pool" where
  "Pool_ctor baseLoop pid = \<lparr>lp_baseLoop = baseLoop, lp_basePid = pid, lp_started = False,
     lp_numThreads = 0, lp_next = 0, lp_loops = []\<rparr>"

definition setThreadNum :: "int \<Rightarrow> loop_pool \<Rightarrow> loop_pool" where
  "setThreadNum num pool = pool\<lparr>lp_numThreads := num\<rparr>"

text \<open>\<open>startLoop i\<close> is the loop that the \<open>i\<close>-th thread's \<^verbatim>\<open>startLoop\<close> returns. The result tells with
  the pool on which loops the init callback was run by the pool itself.\<close>

definition Pool_start :: "thread_id \<Rightarrow> (nat \<Rightarrow> nat) \<Rightarrow> bool \<Rightarrow> loop_pool \<Rightarrow> (loop_pool \<times> nat list) res" where
  "Pool_start tid startLoop has_cb pool =
     require (\<not> lp_started pool) ''!started_''
     (assertInLoopThread tid (lp_basePid pool)
      (Inr (pool\<lparr>lp_started := True, lp_loops := lp_loops pool @ map startLoop [0..<nat (lp_numThreads pool)]\<rparr>,
            if lp_numThreads pool = 0 \<and> has_cb then [lp_baseLoop pool] else [])))"

definition getNextLoop :: "thread_id \<Rightarrow> loop_pool \<Rightarrow> (nat \<times> loop_pool) res" where
  "getNextLoop tid pool =
     assertInLoopThread tid (lp_basePid pool)
     (require (lp_started pool) ''started_''
      (if lp_loops pool \<noteq> [] then
         (if 0 \<le> lp_next pool \<and> nat (lp_next pool) < length (lp_loops pool) then
            (let loop = lp_loops pool ! nat (lp_next pool);
                 next = lp_next pool + 1;
                 next = (if int_to_size next \<ge> length (lp_loops pool) then 0 else next)
             in Inr (loop, pool\<lparr>lp_next := next\<rparr>))
          else Inl (Out_of_bounds ''loops_[next_]''))
       else Inr (lp_baseLoop pool, pool)))"

definition getLoopForHash :: "thread_id \<Rightarrow> nat \<Rightarrow> loop_pool \<Rightarrow> nat res" where
  "getLoopForHash tid hashCode pool =
     assertInLoopThread tid (lp_basePid pool)
     (Inr (if lp_loops pool \<noteq> [] then lp_loops pool ! (hashCode mod length (lp_loops pool)) else lp_baseLoop pool))"

definition getAllLoops :: "thread_id \<Rightarrow> loop_pool \<Rightarrow> nat list res" where
  "getAllLoops tid pool =
     assertInLoopThread tid (lp_basePid pool)
     (require (lp_started pool) ''started_''
      (Inr (if lp_loops pool = [] then [lp_baseLoop pool] else lp_loops pool)))"

fun next_loops :: "thread_id \<Rightarrow> nat \<Rightarrow> loop_pool \<Rightarrow> (nat list \<times> loop_pool) res" where
  "next_loops tid 0 pool = Inr ([], pool)"
| "next_loops tid (Suc k) pool = res_bind (getNextLoop tid pool) (\<lambda>(l, pool1).
     res_bind (next_loops tid k pool1) (\<lambda>(ls, pool2). Inr (l # ls, pool2)))"

definition pool_inv :: "loop_pool \<Rightarrow> bool" where
  "pool_inv pool \<longleftrightarrow> lp_started pool \<and> lp_loops pool \<noteq> [] \<and> length (lp_loops pool) < 2 ^ 31 \<and>
     0 \<le> lp_next pool \<and> lp_next pool < int (length (lp_loops pool))"

lemma getNextLoop_eq:
  assumes "pool_inv pool"
  defines "n \<equiv> int (length (lp_loops pool))"
  shows "getNextLoop (lp_basePid pool) pool =
           Inr (lp_loops pool ! nat (lp_next pool), pool\<lparr>lp_next := (lp_next pool + 1) mod n\<rparr>)"
    and "pool_inv (pool\<lparr>lp_next := (lp_next pool + 1) mod n\<rparr>)"
proof -
  have b: "0 \<le> lp_next pool" "lp_next pool < n" "n < 2 ^ 31" "lp_started pool" "lp_loops pool \<noteq> []"
    using assms by (auto simp: pool_inv_def n_def)
  have sz: "int_to_size (lp_next pool + 1) = nat (lp_next pool + 1)"
    using b by (simp add: int_to_size_def)
  have "(if length (lp_loops pool) \<le> nat (lp_next pool + 1) then 0 else lp_next pool + 1) = (lp_next pool + 1) mod n"
  proof (cases "lp_next pool + 1 = n")
    case True
    then have "length (lp_loops pool) \<le> nat (lp_next pool + 1)" by (simp add: n_def)
    then show ?thesis using True by simp
  next
    case False
    then have "lp_next pool + 1 < n" using b by linarith
    moreover from this have "\<not> length (lp_loops pool) \<le> nat (lp_next pool + 1)" using b(1) unfolding n_def by linarith
    ultimately show ?thesis using b by (simp add: mod_pos_pos_trivial)
  qed
  moreover have "nat (lp_next pool) < length (lp_loops pool)" using b by (simp add: n_def nat_less_iff)
  ultimately show "getNextLoop (lp_basePid pool) pool =
      Inr (lp_loops pool ! nat (lp_next pool), pool\<lparr>lp_next := (lp_next pool + 1) mod n\<rparr>)"
    using b by (simp add: getNextLoop_def sz Let_def)
  show "pool_inv (pool\<lparr>lp_next := (lp_next pool + 1) mod n\<rparr>)"
    using assms(1) b by (simp add: pool_inv_def n_def pos_mod_bound)
qed

lemma next_loops_eq:
  assumes "pool_inv pool"
  defines "n \<equiv> length (lp_loops pool)"
  shows "\<exists>pool'. next_loops (lp_basePid pool) k pool =
    Inr (map (\<lambda>i. lp_loops pool ! ((nat (lp_next pool) + i) mod n)) [0..<k], pool') \<and> pool_inv pool'"
  using assms(1) unfolding n_def
proof (induction k arbitrary: pool)
  case 0
  then show ?case by simp
next
  case (Suc k)
  let ?n = "length (lp_loops pool)"
  let ?pool = "pool\<lparr>lp_next := (lp_next pool + 1) mod int ?n\<rparr>"
  have b: "0 \<le> lp_next pool" "nat (lp_next pool) < ?n" using Suc.prems by (auto simp: pool_inv_def nat_less_iff)
  have nx: "nat (lp_next ?pool) = (nat (lp_next pool) + 1) mod ?n"
    using b(1) by (simp add: nat_mod_distrib nat_add_distrib)
  obtain pool' where p': "next_loops (lp_basePid pool) k ?pool =
    Inr (map (\<lambda>i. lp_loops pool ! ((nat (lp_next ?pool) + i) mod ?n)) [0..<k], pool')" "pool_inv pool'"
    using Suc.IH[OF getNextLoop_eq(2)[OF Suc.prems]] by auto
  have "((nat (lp_next pool) + 1) mod ?n + i) mod ?n = (nat (lp_next pool) + Suc i) mod ?n" for i
    by (simp add: mod_add_left_eq)
  then have "map (\<lambda>i. lp_loops pool ! ((nat (lp_next pool) + i) mod ?n)) [0..<Suc k] =
     lp_loops pool ! nat (lp_next pool) # map (\<lambda>i. lp_loops pool ! ((nat (lp_next ?pool) + i) mod ?n)) [0..<k]"
    unfolding nx using b(2) by (simp add: map_upt_Suc del: upt_Suc)
  then show ?case
    using p' getNextLoop_eq(1)[OF Suc.prems] by (simp del: upt_Suc)
qed

text \<open>
  \<^verbatim>\<open>getNextLoop\<close> is round robin: after the pool is started with \<open>n\<close> threads, the \<open>i\<close>-th call
  (counting from 0) returns the loop of thread \<open>i mod n\<close>, never reads outside the vector and never
  fails an assertion; without threads it always returns the base loop.
\<close>

theorem getNextLoop_round_robin:
  assumes "0 \<le> num" "num < 2 ^ 31"
  shows "\<exists>pool cbs. Pool_start pid startLoop has_cb (setThreadNum num (Pool_ctor base pid)) = Inr (pool, cbs) \<and>
    (\<exists>pool'. next_loops pid k pool =
       Inr (map (\<lambda>i. if num = 0 then base else startLoop (i mod nat num)) [0..<k], pool'))"
proof (cases "num = 0")
  case True
  have "\<exists>pool'. next_loops pid k p = Inr (map (\<lambda>i. base) [0..<k], pool')"
    if "lp_started p" "lp_loops p = []" "lp_baseLoop p = base" "lp_basePid p = pid" for p
    using that by (induction k) (auto simp: getNextLoop_def map_replicate_trivial map_upt_Suc simp del: upt_Suc)
  then show ?thesis
    using True by (simp add: Pool_start_def setThreadNum_def Pool_ctor_def)
next
  case False
  let ?pool = "\<lparr>lp_baseLoop = base, lp_basePid = pid, lp_started = True, lp_numThreads = num, lp_next = 0,
     lp_loops = map startLoop [0..<nat num]\<rparr>"
  have "pool_inv ?pool" using False assms by (simp add: pool_inv_def)
  from next_loops_eq[OF this, of k] have "\<exists>pool'. next_loops pid k ?pool =
    Inr (map (\<lambda>i. map startLoop [0..<nat num] ! (i mod nat num)) [0..<k], pool')" by auto
  moreover have "map startLoop [0..<nat num] ! (i mod nat num) = startLoop (i mod nat num)" for i
    using False assms(1) by simp
  ultimately show ?thesis
    using False by (simp add: Pool_start_def setThreadNum_def Pool_ctor_def)
qed

theorem getNextLoop_round_robin_witness:
  "\<exists>pool cbs. Pool_start 1 (\<lambda>i. 100 + i) False (setThreadNum 3 (Pool_ctor 7 1)) = Inr (pool, cbs) \<and>
    (\<exists>pool'. next_loops 1 5 pool = Inr ([100, 101, 102, 100, 101], pool'))"
proof -
  have "map (\<lambda>i. if (3 :: int) = 0 then 7 else 100 + i mod nat 3) [0..<5] = [100, 101, 102, 100, 101 :: nat]"
    by (simp add: upt_rec)
  then show ?thesis
    using getNextLoop_round_robin[of 3 1 "\<lambda>i. 100 + i" False 7 5] by simp
qed

lemma startLoop_returns_while_looping:
  "\<exists>s r. lt_reachable lp s \<and> lt_caller s = C_done r \<and> lt_worker s = W_loop"
proof -
  let ?t = "Thread_ctor\<lparr>th_started := True\<rparr>"
  let ?s1 = "EventLoopThread_ctor\<lparr>lt_thread := ?t, lt_caller := C_test, lt_worker := W_init\<rparr>"
  let ?s2 = "?s1\<lparr>lt_worker := W_publish\<rparr>"
  let ?s3 = "?s2\<lparr>lt_loop := Some lp, lt_signalled := True, lt_worker := W_loop\<rparr>"
  let ?s4 = "?s3\<lparr>lt_caller := C_return\<rparr>"
  let ?s5 = "?s4\<lparr>lt_caller := C_done (lt_loop ?s4)\<rparr>"
  have "lt_reachable lp ?s1"
    by (rule lt_next[OF lt_init start]) (simp_all add: EventLoopThread_ctor_def Thread_ctor_def Thread_start_def)
  then have "lt_reachable lp ?s2" by (rule lt_next[OF _ init]) simp
  then have "lt_reachable lp ?s3" by (rule lt_next[OF _ publish]) simp
  then have "lt_reachable lp ?s4" by (rule lt_next[OF _ test_set]) simp_all
  then have "lt_reachable lp ?s5" by (rule lt_next[OF _ return]) simp
  then show ?thesis by (intro exI[of _ ?s5]) simp
qed

theorem startLoop_returns_the_loop_witness:
  "\<exists>s. lt_reachable 9 s \<and> lt_worker s = W_loop \<and> lt_caller s = C_done (Some 9)"
proof -
  obtain s r where s: "lt_reachable 9 s" "lt_caller s = C_done r" "lt_worker s = W_loop"
    using startLoop_returns_while_looping by blast
  then show ?thesis using startLoop_returns_the_loop[OF s(1)] by auto
qed

end
