(* ===== verification/LoopThreadEnd.thy ===== *)
theory LoopThreadEnd
  imports Prelude
begin

text \<open>
  The end of an \<^verbatim>\<open>EventLoopThread\<close> (\<^verbatim>\<open>reactor.muduo/EventLoopThread.cpp\<close>): the destructor, which reads \<^verbatim>\<open>loop_\<close>
  without the mutex, tells the loop to quit and joins the thread, beside the thread that runs \<^verbatim>\<open>threadFunc\<close> with its
  loop on the stack. The model begins when the thread has published its loop; the beginning is in
  \<open>LoopThreadPool\<close>. \<^verbatim>\<open>loop()\<close> first resets \<^verbatim>\<open>quit_\<close> (\<^verbatim>\<open>EventLoop.cpp\<close>), then iterates until it is set; the
  wakeup that makes it notice is the subject of \<open>LoopThreads\<close>.
\<close>

section \<open>The two threads\<close>

datatype thread_pc = T_published | T_looping | T_returned | T_ended
datatype owner_pc = O_using | O_test | O_quit | O_join | O_done

record loop_end =
  le_loop :: bool
  le_quit :: bool
  le_exiting :: bool
  le_thread :: thread_pc
  le_owner :: owner_pc
  le_joined :: bool

definition le_init :: loop_end where
  "le_init = \<lparr>le_loop = True, le_quit = False, le_exiting = False, le_thread = T_published, le_owner = O_using, le_joined = False\<rparr>"

text \<open>\<^verbatim>\<open>threadFunc\<close> behind the critical section: entering \<^verbatim>\<open>loop()\<close>, leaving it, and \<^verbatim>\<open>loop_ = NULL\<close>. With the end of the
  function the loop on its stack is gone.\<close>

definition threadFunc_enter :: "loop_end \<Rightarrow> loop_end" where
  "threadFunc_enter s = s\<lparr>le_quit := False, le_thread := T_looping\<rparr>"

definition threadFunc_leave :: "loop_end \<Rightarrow> loop_end" where
  "threadFunc_leave s = s\<lparr>le_thread := T_returned\<rparr>"

definition threadFunc_reset :: "loop_end \<Rightarrow> loop_end" where
  "threadFunc_reset s = s\<lparr>le_loop := False, le_thread := T_ended\<rparr>"

text \<open>\<^verbatim>\<open>~EventLoopThread\<close>, in the steps between which the other thread can run.\<close>

definition dtor_begin :: "loop_end \<Rightarrow> loop_end" where
  "dtor_begin s = s\<lparr>le_exiting := True, le_owner := O_test\<rparr>"

definition dtor_test :: "loop_end \<Rightarrow> loop_end" where
  "dtor_test s = s\<lparr>le_owner := (if le_loop s then O_quit else O_done)\<rparr>"

definition dtor_quit :: "loop_end \<Rightarrow> loop_end res" where
  "dtor_quit s = (if le_thread s = T_ended then Inl (Out_of_bounds ''loop_->quit()'') else Inr (s\<lparr>le_quit := True, le_owner := O_join\<rparr>))"

definition dtor_join :: "loop_end \<Rightarrow> loop_end" where
  "dtor_join s = s\<lparr>le_joined := True, le_owner := O_done\<rparr>"

text \<open>\<open>others\<close>: somebody else may call \<^verbatim>\<open>quit\<close> on the running loop as well.\<close>

inductive le_step :: "bool \<Rightarrow> loop_end \<Rightarrow> loop_end \<Rightarrow> bool" for others where
  enter: "le_thread s = T_published \<Longrightarrow> le_step others s (threadFunc_enter s)"
| leave: "le_thread s = T_looping \<Longrightarrow> le_quit s \<Longrightarrow> le_step others s (threadFunc_leave s)"
| reset: "le_thread s = T_returned \<Longrightarrow> le_step others s (threadFunc_reset s)"
| dtor: "le_owner s = O_using \<Longrightarrow> le_step others s (dtor_begin s)"
| test: "le_owner s = O_test \<Longrightarrow> le_step others s (dtor_test s)"
| quit: "le_owner s = O_quit \<Longrightarrow> dtor_quit s = Inr s' \<Longrightarrow> le_step others s s'"
| join: "le_owner s = O_join \<Longrightarrow> le_thread s = T_ended \<Longrightarrow> le_step others s (dtor_join s)"
| other_quit: "others \<Longrightarrow> le_thread s = T_looping \<Longrightarrow> \<not> le_quit s \<Longrightarrow> le_step others s (s\<lparr>le_quit := True\<rparr>)"

inductive_cases le_stepE [elim, consumes 1, case_names enter leave reset dtor test quit join other_quit]: "le_step others s s'"

lemmas le_defs = threadFunc_enter_def threadFunc_leave_def threadFunc_reset_def dtor_begin_def dtor_test_def dtor_quit_def dtor_join_def

section \<open>A destructor that comes after the loop has begun\<close>

text \<open>The loop runs and the owner has not called the destructor yet.\<close>

definition le_running :: loop_end where
  "le_running = threadFunc_enter le_init"

definition le_inv :: "loop_end \<Rightarrow> bool" where
  "le_inv s \<longleftrightarrow> le_thread s \<noteq> T_published \<and> (le_loop s \<longleftrightarrow> le_thread s \<noteq> T_ended) \<and>
     (le_quit s \<longleftrightarrow> le_owner s \<in> {O_join, O_done}) \<and> (le_thread s \<noteq> T_looping \<longrightarrow> le_quit s) \<and>
     (le_owner s = O_done \<longleftrightarrow> le_joined s) \<and> (le_joined s \<longrightarrow> le_thread s = T_ended)"

lemma le_step_inv: "le_step False s s' \<Longrightarrow> le_inv s \<Longrightarrow> le_inv s'"
  by (induction rule: le_step.induct) (auto simp: le_inv_def le_defs split: if_splits)

interpretation ending: transition_system "le_step False" le_inv
  by unfold_locales (rule le_step_inv)

text \<open>How many steps are left at most.\<close>

definition le_left :: "loop_end \<Rightarrow> nat" where
  "le_left s = (case le_thread s of T_published \<Rightarrow> 3 | T_looping \<Rightarrow> 2 | T_returned \<Rightarrow> 1 | T_ended \<Rightarrow> 0) +
     (case le_owner s of O_using \<Rightarrow> 4 | O_test \<Rightarrow> 3 | O_quit \<Rightarrow> 2 | O_join \<Rightarrow> 1 | O_done \<Rightarrow> 0)"

lemma le_step_left: "le_step False s s' \<Longrightarrow> le_left s' < le_left s"
  by (induction rule: le_step.induct) (auto simp: le_left_def le_defs split: if_splits)

lemma le_progress:
  assumes "le_inv s"
  shows "le_joined s \<or> (\<exists>s'. le_step False s s')"
proof (cases "le_owner s")
  case O_quit
  then have "le_thread s \<noteq> T_ended" using assms by (auto simp: le_inv_def)
  then show ?thesis using O_quit le_step.quit[of s] by (auto simp: dtor_quit_def)
next
  case O_join
  then have "le_quit s" "le_thread s \<noteq> T_published" using assms by (simp_all add: le_inv_def)
  then show ?thesis using O_join le_step.leave le_step.reset le_step.join by (cases "le_thread s") blast+
next
  case O_using
  then show ?thesis using le_step.dtor by blast
next
  case O_test
  then show ?thesis using le_step.test by blast
qed (use assms in \<open>simp add: le_inv_def\<close>)

text \<open>
  C35: The destructor of an \<^verbatim>\<open>EventLoopThread\<close> returns. When it is called after the thread has entered \<^verbatim>\<open>loop()\<close> and nobody
  else makes the loop quit, then in every interleaving it never touches a loop that is gone, at most
  six steps of the two threads follow (the iterations of the loop before it leaves are not counted), there is always a next step until the destructor has returned, and then the
  thread has ended and was joined.
\<close>

theorem EventLoopThread_dtor_returns:
  assumes "(le_step False ^^ n) le_running s"
  shows "n \<le> 6 \<and> (le_owner s = O_quit \<longrightarrow> (\<exists>s'. dtor_quit s = Inr s')) \<and>
    (le_joined s \<and> le_owner s = O_done \<and> le_thread s = T_ended \<or> (\<exists>s'. le_step False s s'))"
proof -
  have run: "(le_step False)\<^sup>*\<^sup>* le_running s" using assms by (rule relpowp_imp_rtranclp)
  have "le_inv le_running" by (simp add: le_inv_def le_running_def le_init_def threadFunc_enter_def)
  then have inv: "le_inv s" by (rule ending.run_keeps[OF run])
  have left: "le_left s + n \<le> le_left le_running" using assms
  proof (induction n arbitrary: s)
    case (Suc n)
    then obtain s1 where "(le_step False ^^ n) le_running s1" "le_step False s1 s" by auto
    then show ?case using Suc.IH le_step_left by fastforce
  qed simp
  moreover have "le_left le_running = 6" by (simp add: le_left_def le_running_def le_init_def threadFunc_enter_def)
  ultimately have "n \<le> 6" by simp
  moreover have "\<exists>s'. dtor_quit s = Inr s'" if "le_owner s = O_quit"
    using inv that by (auto simp: le_inv_def dtor_quit_def)
  moreover have "le_owner s = O_done \<and> le_thread s = T_ended" if "le_joined s" using inv that by (simp add: le_inv_def)
  ultimately show ?thesis using le_progress[OF inv] by blast
qed

theorem EventLoopThread_dtor_returns_witness:
  "\<exists>s. (le_step False ^^ 6) le_running s \<and> le_joined s \<and> le_thread s = T_ended"
proof -
  let ?s1 = "dtor_begin le_running" and ?s2 = "dtor_test (dtor_begin le_running)"
  let ?s3 = "?s2\<lparr>le_quit := True, le_owner := O_join\<rparr>"
  let ?s4 = "threadFunc_leave ?s3"
  let ?s5 = "threadFunc_reset ?s4"
  note defs = le_running_def le_init_def le_defs
  have "le_step False le_running ?s1" by (rule le_step.dtor) (simp add: defs)
  moreover have "le_step False ?s1 ?s2" by (rule le_step.test) (simp add: defs)
  moreover have "le_step False ?s2 ?s3" by (rule le_step.quit) (simp_all add: defs)
  moreover have "le_step False ?s3 ?s4" by (rule le_step.leave) (simp_all add: defs)
  moreover have "le_step False ?s4 ?s5" by (rule le_step.reset) (simp add: defs)
  moreover have "le_step False ?s5 (dtor_join ?s5)" by (rule le_step.join) (simp_all add: defs)
  ultimately have "(le_step False ^^ Suc (Suc (Suc (Suc (Suc (Suc 0)))))) le_running (dtor_join ?s5)"
    by (intro relpowp_Suc_I) (simp_all only: relpowp.simps(1))
  then have run: "(le_step False ^^ 6) le_running (dtor_join ?s5)" by (simp only: numeral_eq_Suc pred_numeral_simps BitM.simps arith_simps One_nat_def)
  have "\<not> le_step False (dtor_join ?s5) s" for s
  proof
    assume "le_step False (dtor_join ?s5) s"
    with run have "(le_step False ^^ Suc 6) le_running s" by (rule relpowp_Suc_I)
    from EventLoopThread_dtor_returns[OF this] show False by simp
  qed
  then have "le_joined (dtor_join ?s5) \<and> le_thread (dtor_join ?s5) = T_ended"
    using EventLoopThread_dtor_returns[OF run] by blast
  then show ?thesis using run by blast
qed

section \<open>Where it goes wrong\<close>

text \<open>
  A destructor that is called before the thread has entered \<^verbatim>\<open>loop()\<close> may never return: \<^verbatim>\<open>loop()\<close> forgets the \<^verbatim>\<open>quit\<close>,
  the owner waits for the thread, and the thread waits for a \<^verbatim>\<open>quit\<close> that nobody sends.
\<close>

theorem early_dtor_hangs:
  "\<exists>s. (le_step False)\<^sup>*\<^sup>* le_init s \<and> le_owner s = O_join \<and> \<not> le_joined s \<and> \<not> (\<exists>s'. le_step False s s')"
proof -
  let ?s2 = "dtor_test (dtor_begin le_init)"
  let ?s3 = "?s2\<lparr>le_quit := True, le_owner := O_join\<rparr>"
  note defs = le_init_def le_defs
  have "le_step False le_init (dtor_begin le_init)" by (rule le_step.dtor) (simp add: defs)
  moreover have "le_step False (dtor_begin le_init) ?s2" by (rule le_step.test) (simp add: defs)
  moreover have "le_step False ?s2 ?s3" by (rule le_step.quit) (simp_all add: defs)
  moreover have "le_step False ?s3 (threadFunc_enter ?s3)" by (rule le_step.enter) (simp add: defs)
  ultimately have "(le_step False)\<^sup>*\<^sup>* le_init (threadFunc_enter ?s3)" by (meson converse_rtranclp_into_rtranclp rtranclp.rtrancl_refl)
  moreover have "\<not> le_step False (threadFunc_enter ?s3) s'" for s' by (auto elim!: le_stepE simp: defs)
  ultimately show ?thesis by (intro exI[of _ "threadFunc_enter ?s3"]) (simp add: defs)
qed

text \<open>
  When somebody else makes the loop quit, the thread may end between the test of \<^verbatim>\<open>loop_\<close> and the use of the pointer: the
  destructor then calls \<^verbatim>\<open>quit\<close> on a loop whose stack frame is gone.
\<close>

theorem dtor_races_with_end:
  "\<exists>s. (le_step True)\<^sup>*\<^sup>* le_running s \<and> le_owner s = O_quit \<and> dtor_quit s = Inl (Out_of_bounds ''loop_->quit()'')"
proof -
  let ?s2 = "dtor_test (dtor_begin le_running)"
  let ?s3 = "?s2\<lparr>le_quit := True\<rparr>"
  let ?s4 = "threadFunc_leave ?s3"
  note defs = le_running_def le_init_def le_defs
  have "le_step True le_running (dtor_begin le_running)" by (rule le_step.dtor) (simp add: defs)
  moreover have "le_step True (dtor_begin le_running) ?s2" by (rule le_step.test) (simp add: defs)
  moreover have "le_step True ?s2 ?s3" by (rule le_step.other_quit) (simp_all add: defs)
  moreover have "le_step True ?s3 ?s4" by (rule le_step.leave) (simp_all add: defs)
  moreover have "le_step True ?s4 (threadFunc_reset ?s4)" by (rule le_step.reset) (simp add: defs)
  ultimately have "(le_step True)\<^sup>*\<^sup>* le_running (threadFunc_reset ?s4)" by (meson converse_rtranclp_into_rtranclp rtranclp.rtrancl_refl)
  then show ?thesis by (intro exI[of _ "threadFunc_reset ?s4"]) (simp add: defs)
qed

end
