(* ===== verification/Sockets.thy ===== *)
theory Sockets
  imports Endian LogStream Slice
begin

text \<open>
  Socket helpers and addresses: \<^verbatim>\<open>socket.muduo/SocketsOps.cpp\<close>, \<^verbatim>\<open>InetAddress.cpp\<close>, \<^verbatim>\<open>Socket.cpp\<close>.
  The results of the system calls are arguments. An \<^verbatim>\<open>InetAddress\<close> is a union of
  \<^verbatim>\<open>sockaddr_in\<close> and \<^verbatim>\<open>sockaddr_in6\<close>: the record below follows its layout, so \<open>sa_word4\<close> is both
  \<^verbatim>\<open>sin_addr.s_addr\<close> and \<^verbatim>\<open>sin6_flowinfo\<close>. Multi-byte fields are kept as the bytes in memory
  read on the little-endian host.
\<close>

datatype errno =
    EAGAIN | ECONNABORTED | EINTR | EPROTO | EPERM | EMFILE
  | EBADF | EFAULT | EINVAL | ENFILE | ENOBUFS | ENOMEM | ENOTSOCK | EOPNOTSUPP
  | EINPROGRESS | EISCONN | EADDRINUSE | EADDRNOTAVAIL | ECONNREFUSED | ENETUNREACH
  | EACCES | EAFNOSUPPORT | EALREADY | EOTHER nat

abbreviation EWOULDBLOCK :: errno where "EWOULDBLOCK \<equiv> EAGAIN"

record sockaddr =
  sa_family :: "16 word"
  sa_port :: "16 word"
  sa_word4 :: "32 word"
  sa_addr6 :: bytes
  sa_scope :: "32 word"

definition AF_INET :: "16 word" where "AF_INET = 2"
definition AF_INET6 :: "16 word" where "AF_INET6 = 10"

definition zero_sockaddr :: sockaddr where
  "zero_sockaddr = \<lparr>sa_family = 0, sa_port = 0, sa_word4 = 0, sa_addr6 = replicate 16 0, sa_scope = 0\<rparr>"

text \<open>\<^verbatim>\<open>bzero(&addr_, sizeof addr_)\<close> clears the first 16 of the 28 bytes only.\<close>

definition bzero_addr4 :: "sockaddr \<Rightarrow> sockaddr" where
  "bzero_addr4 a = a\<lparr>sa_family := 0, sa_port := 0, sa_word4 := 0, sa_addr6 := mem_write 0 (replicate 8 0) (sa_addr6 a)\<rparr>"

section \<open>Addresses\<close>

definition kInaddrAny :: "32 word" where "kInaddrAny = 0"
definition kInaddrLoopback :: "32 word" where "kInaddrLoopback = 0x7f000001"
definition in6addr_any :: bytes where "in6addr_any = replicate 16 0"
definition in6addr_loopback :: bytes where "in6addr_loopback = replicate 15 0 @ [1]"

text \<open>\<open>raw\<close> is what the memory of the object holds before construction.\<close>

definition InetAddress_ctor :: "sockaddr \<Rightarrow> 16 word \<Rightarrow> bool \<Rightarrow> bool \<Rightarrow> sockaddr" where
  "InetAddress_ctor raw port loopbackOnly ipv6 =
     (if ipv6 then
        zero_sockaddr\<lparr>sa_family := AF_INET6,
          sa_addr6 := (if loopbackOnly then in6addr_loopback else in6addr_any),
          sa_port := hostToNetwork16 port\<rparr>
      else
        (bzero_addr4 raw)\<lparr>sa_family := AF_INET,
          sa_word4 := hostToNetwork32 (if loopbackOnly then kInaddrLoopback else kInaddrAny),
          sa_port := hostToNetwork16 port\<rparr>)"

text \<open>\<open>pton\<close> is what \<^verbatim>\<open>inet_pton\<close> makes of the text; on failure the address field is left alone.\<close>

definition fromIpPort4 :: "(string \<Rightarrow> 32 word option) \<Rightarrow> string \<Rightarrow> 16 word \<Rightarrow> sockaddr \<Rightarrow> sockaddr" where
  "fromIpPort4 pton ip port a =
     (let a1 = a\<lparr>sa_family := AF_INET, sa_port := hostToNetwork16 port\<rparr>
      in case pton ip of None \<Rightarrow> a1 | Some w \<Rightarrow> a1\<lparr>sa_word4 := w\<rparr>)"

definition fromIpPort6 :: "(string \<Rightarrow> bytes option) \<Rightarrow> string \<Rightarrow> 16 word \<Rightarrow> sockaddr \<Rightarrow> sockaddr" where
  "fromIpPort6 pton ip port a =
     (let a1 = a\<lparr>sa_family := AF_INET6, sa_port := hostToNetwork16 port\<rparr>
      in case pton ip of None \<Rightarrow> a1 | Some bs \<Rightarrow> a1\<lparr>sa_addr6 := bs\<rparr>)"

definition InetAddress_ctor_ip :: "(string \<Rightarrow> 32 word option) \<Rightarrow> (string \<Rightarrow> bytes option) \<Rightarrow>
    sockaddr \<Rightarrow> string \<Rightarrow> 16 word \<Rightarrow> bool \<Rightarrow> sockaddr" where
  "InetAddress_ctor_ip pton4 pton6 raw ip port ipv6 =
     (if ipv6 then fromIpPort6 pton6 ip port zero_sockaddr else fromIpPort4 pton4 ip port (bzero_addr4 raw))"

text \<open>\<^verbatim>\<open>inet_ntop\<close> for IPv4: the four bytes in memory order, in decimal.\<close>

definition inet_ntop4 :: "32 word \<Rightarrow> string" where
  "inet_ntop4 w = (case map (\<lambda>b. decimal (uint b)) (le_bytes w) of
     [a, b, c, d] \<Rightarrow> a @ ''.'' @ b @ ''.'' @ c @ ''.'' @ d | _ \<Rightarrow> [])"

definition INET_ADDRSTRLEN :: nat where "INET_ADDRSTRLEN = 16"
definition INET6_ADDRSTRLEN :: nat where "INET6_ADDRSTRLEN = 46"

text \<open>The text written into a buffer of \<open>size\<close> characters; \<open>ntop6\<close> is \<^verbatim>\<open>inet_ntop\<close> for IPv6.\<close>

definition sockets_toIp :: "(bytes \<Rightarrow> string) \<Rightarrow> nat \<Rightarrow> sockaddr \<Rightarrow> string res" where
  "sockets_toIp ntop6 sz addr =
     (if sa_family addr = AF_INET then
        require (sz \<ge> INET_ADDRSTRLEN) ''size >= INET_ADDRSTRLEN'' (Inr (inet_ntop4 (sa_word4 addr)))
      else if sa_family addr = AF_INET6 then
        require (sz \<ge> INET6_ADDRSTRLEN) ''size >= INET6_ADDRSTRLEN'' (Inr (ntop6 (sa_addr6 addr)))
      else Inr [])"

definition sockets_toIpPort :: "(bytes \<Rightarrow> string) \<Rightarrow> nat \<Rightarrow> sockaddr \<Rightarrow> string res" where
  "sockets_toIpPort ntop6 sz addr =
     res_bind (sockets_toIp ntop6 sz addr) (\<lambda>buf.
       let end = length buf; port = networkToHost16 (sa_port addr)
       in require (sz > end) ''size > end''
          (Inr (buf @ take (sz - end - 1) ('':'' @ decimal (uint port)))))"

definition InetAddress_toIpPort :: "(bytes \<Rightarrow> string) \<Rightarrow> sockaddr \<Rightarrow> string res" where
  "InetAddress_toIpPort ntop6 a = sockets_toIpPort ntop6 64 a"

definition InetAddress_toIp :: "(bytes \<Rightarrow> string) \<Rightarrow> sockaddr \<Rightarrow> string res" where
  "InetAddress_toIp ntop6 a = sockets_toIp ntop6 64 a"

definition InetAddress_toPort :: "sockaddr \<Rightarrow> 16 word" where
  "InetAddress_toPort a = networkToHost16 (sa_port a)"

definition InetAddress_family :: "sockaddr \<Rightarrow> 16 word" where
  "InetAddress_family a = sa_family a"

definition portNetEndian :: "sockaddr \<Rightarrow> 16 word" where
  "portNetEndian a = sa_port a"

definition setSockAddrInet6 :: "sockaddr \<Rightarrow> sockaddr \<Rightarrow> sockaddr" where
  "setSockAddrInet6 addr6 a = addr6"

definition ipNetEndian :: "sockaddr \<Rightarrow> 32 word res" where
  "ipNetEndian a = require (sa_family a = AF_INET) ''family() == AF_INET'' (Inr (sa_word4 a))"

text \<open>\<^verbatim>\<open>gethostbyname_r\<close>: its return value and the host entry, if any (type, length, first address).\<close>

definition InetAddress_resolve :: "int \<times> (16 word \<times> nat \<times> 32 word) option \<Rightarrow> sockaddr \<Rightarrow> (bool \<times> sockaddr) res" where
  "InetAddress_resolve answer out =
     (case answer of
        (ret, Some (addrtype, len, h_addr)) \<Rightarrow>
          if ret = 0 then
            require (addrtype = AF_INET \<and> len = 4) ''he->h_addrtype == AF_INET && he->h_length == sizeof(uint32_t)''
              (Inr (True, out\<lparr>sa_word4 := h_addr\<rparr>))
          else Inr (False, out)
      | (ret, None) \<Rightarrow> Inr (False, out))"

section \<open>System calls\<close>

definition createNonblockingOrDie :: "int \<Rightarrow> int res" where
  "createNonblockingOrDie sockfd = (if sockfd < 0 then Inl (Log_fatal ''sockets::createNonblockingOrDie'') else Inr sockfd)"

definition listenOrDie :: "int \<Rightarrow> unit res" where
  "listenOrDie ret = (if ret < 0 then Inl (Log_fatal ''sockets::listenOrDie'') else Inr ())"

text \<open>\<^verbatim>\<open>bindOrDie\<close> only logs the failure: the result is whether it logged.\<close>

definition bindOrDie :: "int \<Rightarrow> bool res" where
  "bindOrDie ret = Inr (ret < 0)"

definition expected_accept_errors :: "errno set" where
  "expected_accept_errors = {EAGAIN, ECONNABORTED, EINTR, EPROTO, EPERM, EMFILE}"

definition sockets_accept :: "errno + int \<times> sockaddr \<Rightarrow> (errno + int \<times> sockaddr) res" where
  "sockets_accept r =
     (case r of
        Inr conn \<Rightarrow> Inr (Inr conn)
      | Inl savedErrno \<Rightarrow>
          (case savedErrno of
             EAGAIN \<Rightarrow> Inr (Inl EAGAIN) | ECONNABORTED \<Rightarrow> Inr (Inl ECONNABORTED) | EINTR \<Rightarrow> Inr (Inl EINTR)
           | EPROTO \<Rightarrow> Inr (Inl EPROTO) | EPERM \<Rightarrow> Inr (Inl EPERM) | EMFILE \<Rightarrow> Inr (Inl EMFILE)
           | EBADF \<Rightarrow> Inl (Log_fatal ''unexpected error of ::accept'') | EFAULT \<Rightarrow> Inl (Log_fatal ''unexpected error of ::accept'')
           | EINVAL \<Rightarrow> Inl (Log_fatal ''unexpected error of ::accept'') | ENFILE \<Rightarrow> Inl (Log_fatal ''unexpected error of ::accept'')
           | ENOBUFS \<Rightarrow> Inl (Log_fatal ''unexpected error of ::accept'') | ENOMEM \<Rightarrow> Inl (Log_fatal ''unexpected error of ::accept'')
           | ENOTSOCK \<Rightarrow> Inl (Log_fatal ''unexpected error of ::accept'') | EOPNOTSUPP \<Rightarrow> Inl (Log_fatal ''unexpected error of ::accept'')
           | _ \<Rightarrow> Inl (Log_fatal ''unknown error of ::accept'')))"

definition Socket_accept :: "errno + int \<times> sockaddr \<Rightarrow> sockaddr \<Rightarrow> ((errno + int) \<times> sockaddr) res" where
  "Socket_accept r peeraddr =
     res_bind (sockets_accept r) (\<lambda>r'.
       Inr (case r' of Inl e \<Rightarrow> (Inl e, peeraddr) | Inr (connfd, addr) \<Rightarrow> (Inr connfd, addr)))"

text \<open>\<^verbatim>\<open>getLocalAddr\<close>, \<^verbatim>\<open>getPeerAddr\<close>: the zeroed structure is returned when the call fails.\<close>

definition getLocalAddr :: "sockaddr option \<Rightarrow> sockaddr" where
  "getLocalAddr r = (case r of None \<Rightarrow> zero_sockaddr | Some a \<Rightarrow> a)"

definition getPeerAddr :: "sockaddr option \<Rightarrow> sockaddr" where
  "getPeerAddr r = (case r of None \<Rightarrow> zero_sockaddr | Some a \<Rightarrow> a)"

definition getSocketError :: "int + int \<Rightarrow> int" where
  "getSocketError r = (case r of Inl err \<Rightarrow> err | Inr optval \<Rightarrow> optval)"

definition isSelfConnect :: "sockaddr option \<Rightarrow> sockaddr option \<Rightarrow> bool" where
  "isSelfConnect lr pr =
     (let localaddr = getLocalAddr lr; peeraddr = getPeerAddr pr
      in if sa_family localaddr = AF_INET then
           sa_port localaddr = sa_port peeraddr \<and> sa_word4 localaddr = sa_word4 peeraddr
         else if sa_family localaddr = AF_INET6 then
           sa_port localaddr = sa_port peeraddr \<and> memcmp (sa_addr6 localaddr) (sa_addr6 peeraddr) = 0
         else False)"

section \<open>Properties\<close>

lemma decimal_length:
  assumes "0 \<le> v" "v < 10 ^ k" "0 < k"
  shows "length (decimal v) \<le> k"
proof -
  have "nat v < 10 ^ k" using assms(1,2) by (simp add: nat_less_iff)
  then show ?thesis using assms length_show_base[of 10 k "nat v" dec_digits] by (simp add: decimal_def)
qed

lemma decimal_byte_length: "length (decimal (uint (b :: 8 word))) \<le> 3"
proof (rule decimal_length)
  show "uint b < 10 ^ 3" using uint_lt2p[of b] by simp
qed simp_all

lemma decimal_port_length: "length (decimal (uint (p :: 16 word))) \<le> 5"
proof (rule decimal_length)
  show "uint p < 10 ^ 5" using uint_lt2p[of p] by simp
qed simp_all

lemma le_bytes_32: "\<exists>a b c d. le_bytes (w :: 32 word) = [a, b, c, d]"
  by (simp add: le_bytes_def upt_rec)

lemma inet_ntop4_length: "length (inet_ntop4 w) \<le> 15"
proof -
  obtain a b c d where "le_bytes w = [a, b, c, d]" using le_bytes_32 by blast
  then show ?thesis
    using decimal_byte_length[of a] decimal_byte_length[of b] decimal_byte_length[of c] decimal_byte_length[of d]
    by (simp add: inet_ntop4_def)
qed

lemma network_port [simp]: "networkToHost16 (hostToNetwork16 p) = p"
  by (simp add: networkToHost16_def hostToNetwork16_def)

lemma InetAddress_toIpPort_eq:
  assumes "sa_family a = AF_INET \<or> sa_family a = AF_INET6" "\<forall>bs. length (ntop6 bs) \<le> 45"
  shows "InetAddress_toIpPort ntop6 a =
    Inr ((if sa_family a = AF_INET then inet_ntop4 (sa_word4 a) else ntop6 (sa_addr6 a)) @ '':'' @
         decimal (uint (InetAddress_toPort a)))"
proof -
  let ?ip = "if sa_family a = AF_INET then inet_ntop4 (sa_word4 a) else ntop6 (sa_addr6 a)"
  let ?port = "decimal (uint (networkToHost16 (sa_port a)))"
  have ip: "length ?ip \<le> 45" using inet_ntop4_length[of "sa_word4 a"] assms(2) by auto
  have "sockets_toIp ntop6 64 a = Inr ?ip"
    using assms(1) by (auto simp: sockets_toIp_def INET_ADDRSTRLEN_def INET6_ADDRSTRLEN_def)
  moreover have "take (64 - length ?ip - 1) ('':'' @ ?port) = '':'' @ ?port"
    using ip decimal_port_length[of "networkToHost16 (sa_port a)"] by (intro take_all) simp
  ultimately show ?thesis
    using ip unfolding InetAddress_toIpPort_def sockets_toIpPort_def InetAddress_toPort_def
    by (simp add: Let_def)
qed

text \<open>
  \<^verbatim>\<open>toIpPort\<close> of an address is its textual address, a colon and the port in decimal: the buffer
  of 64 characters is always large enough, for IPv4 and (when \<^verbatim>\<open>inet_ntop\<close> keeps its documented
  bound of 45 characters) for IPv6, so neither an assertion fails nor the text is cut.
\<close>

theorem toIpPort_complete:
  assumes "sa_family a = AF_INET \<or> sa_family a = AF_INET6" "\<forall>bs. length (ntop6 bs) \<le> 45"
  shows "InetAddress_toIpPort ntop6 a =
    Inr ((if sa_family a = AF_INET then inet_ntop4 (sa_word4 a) else ntop6 (sa_addr6 a)) @ '':'' @
         decimal (uint (InetAddress_toPort a)))"
  using assms by (rule InetAddress_toIpPort_eq)

text \<open>
  An address built from a port keeps it: \<^verbatim>\<open>toPort\<close> gives the port back and an IPv4 address prints
  as \<^verbatim>\<open>127.0.0.1:port\<close> or \<^verbatim>\<open>0.0.0.0:port\<close>, whatever the memory held before.
\<close>

theorem InetAddress_port_roundtrip:
  "InetAddress_toPort (InetAddress_ctor raw port loopback ipv6) = port \<and>
   (\<not> ipv6 \<longrightarrow> inet_ntop4 (sa_word4 (InetAddress_ctor raw port loopback ipv6)) =
      (if loopback then ''127.0.0.1'' else ''0.0.0.0''))"
proof
  show "InetAddress_toPort (InetAddress_ctor raw port loopback ipv6) = port"
    by (simp add: InetAddress_toPort_def InetAddress_ctor_def)
  have "le_bytes kInaddrLoopback = [1, 0, 0, 127]" "le_bytes kInaddrAny = [0, 0, 0, 0]"
    by (simp_all add: kInaddrLoopback_def kInaddrAny_def le_bytes_def upt_rec)
  then have "le_bytes (hostToNetwork32 kInaddrLoopback) = [127, 0, 0, 1]" "le_bytes (hostToNetwork32 kInaddrAny) = [0, 0, 0, 0]"
    by (simp_all add: hostToNetwork32_def)
  then show "\<not> ipv6 \<longrightarrow> inet_ntop4 (sa_word4 (InetAddress_ctor raw port loopback ipv6)) =
      (if loopback then ''127.0.0.1'' else ''0.0.0.0'')"
    by (simp add: InetAddress_ctor_def inet_ntop4_def decimal_def show_base.simps dec_digits_def)
qed

text \<open>
  The errors of \<^verbatim>\<open>accept\<close> that the program survives are exactly the six transient ones that
  \<^verbatim>\<open>sockets::accept\<close> lists as expected; every other error, known or unknown, aborts it.
\<close>

theorem accept_survives_exactly_transient_errors:
  "(\<exists>r. sockets_accept (Inl e) = Inr r) \<longleftrightarrow> e \<in> expected_accept_errors"
  by (cases e) (auto simp: sockets_accept_def expected_accept_errors_def)

section \<open>Systems without accept4\<close>

text \<open>
  Where there is no \<^verbatim>\<open>accept4\<close>, the flags are set with \<^verbatim>\<open>fcntl\<close> on the descriptor that \<^verbatim>\<open>accept\<close> returned. The table gives for each
  open descriptor its status flags and its descriptor flags; \<^verbatim>\<open>fcntl\<close> on another number fails with \<^verbatim>\<open>EBADF\<close>.
\<close>

type_synonym fd_table = "int \<rightharpoonup> 32 word \<times> 32 word"

definition O_NONBLOCK :: "32 word" where "O_NONBLOCK = 0x800"
definition FD_CLOEXEC :: "32 word" where "FD_CLOEXEC = 1"

definition setNonBlockAndCloseOnExec :: "int \<Rightarrow> fd_table \<times> errno \<Rightarrow> fd_table \<times> errno" where
  "setNonBlockAndCloseOnExec sockfd = (\<lambda>(tbl, err).
     case tbl sockfd of
       None \<Rightarrow> (tbl, EBADF)
     | Some (status, flags) \<Rightarrow> (tbl(sockfd \<mapsto> (or status O_NONBLOCK, or flags FD_CLOEXEC)), err))"

text \<open>\<^verbatim>\<open>connfd\<close> is -1 when \<^verbatim>\<open>accept\<close> fails, and \<^verbatim>\<open>errno\<close> is read after the calls of \<^verbatim>\<open>fcntl\<close>.\<close>

definition sockets_accept_fcntl :: "errno + int \<times> sockaddr \<Rightarrow> fd_table \<Rightarrow> ((errno + int \<times> sockaddr) \<times> fd_table) res" where
  "sockets_accept_fcntl r tbl =
     (case r of
        Inr (connfd, addr) \<Rightarrow> Inr (Inr (connfd, addr), fst (setNonBlockAndCloseOnExec connfd (tbl, EAGAIN)))
      | Inl e \<Rightarrow>
          (let (tbl1, savedErrno) = setNonBlockAndCloseOnExec (- 1) (tbl, e)
           in res_bind (sockets_accept (Inl savedErrno)) (\<lambda>r'. Inr (r', tbl1))))"

text \<open>
  In this version every failure of \<^verbatim>\<open>accept\<close> aborts the program, also the transient ones that it means to survive: the
  \<^verbatim>\<open>fcntl\<close> calls on -1 replace the error number by \<^verbatim>\<open>EBADF\<close> before it is saved. An accepted connection is made non-blocking and close-on-exec.
\<close>

theorem accept_without_accept4:
  assumes "tbl (- 1) = None"
  shows "sockets_accept_fcntl (Inl e) tbl = Inl (Log_fatal ''unexpected error of ::accept'')"
    and "tbl connfd = Some (status, flags) \<Longrightarrow>
      sockets_accept_fcntl (Inr (connfd, addr)) tbl = Inr (Inr (connfd, addr), tbl(connfd \<mapsto> (or status O_NONBLOCK, or flags FD_CLOEXEC)))"
  using assms by (simp_all add: sockets_accept_fcntl_def setNonBlockAndCloseOnExec_def sockets_accept_def)

theorem accept_without_accept4_witness:
  "sockets_accept_fcntl (Inl EAGAIN) [3 \<mapsto> (2, 0)] = Inl (Log_fatal ''unexpected error of ::accept'') \<and>
   sockets_accept_fcntl (Inr (3, zero_sockaddr)) [3 \<mapsto> (2, 0)] = Inr (Inr (3, zero_sockaddr), [3 \<mapsto> (0x802, 1)])"
  using accept_without_accept4(1)[of "[3 \<mapsto> (2, 0)]" EAGAIN] accept_without_accept4(2)[of "[3 \<mapsto> (2, 0)]" 3 2 0 zero_sockaddr]
  by (simp add: O_NONBLOCK_def FD_CLOEXEC_def)

theorem toIpPort_complete_witness:
  "InetAddress_toIpPort (\<lambda>_. ''::'') (InetAddress_ctor zero_sockaddr 80 False True) = Inr '':::80''"
proof -
  have "InetAddress_toIpPort (\<lambda>_. ''::'') (InetAddress_ctor zero_sockaddr 80 False True) =
    Inr (''::'' @ '':'' @ decimal (uint (InetAddress_toPort (InetAddress_ctor zero_sockaddr 80 False True))))"
    using toIpPort_complete[of "InetAddress_ctor zero_sockaddr 80 False True" "\<lambda>_. ''::''"]
    by (simp add: InetAddress_ctor_def AF_INET_def AF_INET6_def)
  moreover have "InetAddress_toPort (InetAddress_ctor zero_sockaddr 80 False True) = 80"
    by (simp add: InetAddress_toPort_def InetAddress_ctor_def)
  ultimately show ?thesis by (simp add: decimal_def show_base.simps dec_digits_def)
qed

theorem InetAddress_port_roundtrip_witness:
  "InetAddress_toPort (InetAddress_ctor zero_sockaddr 8080 True False) = 8080 \<and>
   inet_ntop4 (sa_word4 (InetAddress_ctor zero_sockaddr 8080 True False)) = ''127.0.0.1''"
  using InetAddress_port_roundtrip[of zero_sockaddr 8080 True False] by simp

end
