(* ===== verification/Socket.thy ===== *)
theory Socket
  imports Sockets
begin

text \<open>
  The class \<^verbatim>\<open>Socket\<close> of \<^verbatim>\<open>socket.muduo/Socket.cpp\<close> and the wrappers of \<^verbatim>\<open>SocketsOps.cpp\<close> that only issue a
  system call. The state is the system calls issued with the kernel's results and the errors logged; the kernel is
  a function from the calls so far and the new call to its result. The theory shows which calls are made on the
  descriptor over the life of a \<^verbatim>\<open>Socket\<close>, which failures are logged, which are fatal and which go unnoticed,
  and that the text about a connection fits where it is printed.
\<close>

section \<open>System calls\<close>

datatype sockopt = TCP_NODELAY | SO_REUSEADDR | SO_REUSEPORT | SO_KEEPALIVE

datatype syscall =
    Sys_close int
  | Sys_shutdown_wr int
  | Sys_bind int sockaddr
  | Sys_listen int nat
  | Sys_connect int sockaddr
  | Sys_setsockopt int sockopt int

type_synonym kernel = "(syscall \<times> int) list \<Rightarrow> syscall \<Rightarrow> int"

record sock_state =
  so_calls :: "(syscall \<times> int) list"
  so_log :: "string list"

definition SOMAXCONN :: nat where "SOMAXCONN = 128"

definition do_call :: "kernel \<Rightarrow> syscall \<Rightarrow> sock_state \<Rightarrow> int \<times> sock_state" where
  "do_call k c s = (let ret = k (so_calls s) c in (ret, s\<lparr>so_calls := so_calls s @ [(c, ret)]\<rparr>))"

definition LOG_ERROR :: "string \<Rightarrow> sock_state \<Rightarrow> sock_state" where
  "LOG_ERROR msg s = s\<lparr>so_log := so_log s @ [msg]\<rparr>"

definition sockets_close :: "kernel \<Rightarrow> int \<Rightarrow> sock_state \<Rightarrow> sock_state" where
  "sockets_close k sockfd s =
     (let (ret, s1) = do_call k (Sys_close sockfd) s
      in if ret < 0 then LOG_ERROR ''sockets::close'' s1 else s1)"

definition sockets_shutdownWrite :: "kernel \<Rightarrow> int \<Rightarrow> sock_state \<Rightarrow> sock_state" where
  "sockets_shutdownWrite k sockfd s =
     (let (ret, s1) = do_call k (Sys_shutdown_wr sockfd) s
      in if ret < 0 then LOG_ERROR ''sockets::shutdownWrite'' s1 else s1)"

definition sockets_connect :: "kernel \<Rightarrow> int \<Rightarrow> sockaddr \<Rightarrow> sock_state \<Rightarrow> int \<times> sock_state" where
  "sockets_connect k sockfd addr s = do_call k (Sys_connect sockfd addr) s"

section \<open>The class\<close>

text \<open>A \<^verbatim>\<open>Socket\<close> is its descriptor.\<close>

definition Socket_dtor :: "kernel \<Rightarrow> int \<Rightarrow> sock_state \<Rightarrow> sock_state" where
  "Socket_dtor k sockfd s = sockets_close k sockfd s"

definition Socket_bindAddress :: "kernel \<Rightarrow> int \<Rightarrow> sockaddr \<Rightarrow> sock_state \<Rightarrow> sock_state res" where
  "Socket_bindAddress k sockfd addr s =
     (let (ret, s1) = do_call k (Sys_bind sockfd addr) s
      in res_bind (bindOrDie ret) (\<lambda>logged. Inr (if logged then LOG_ERROR ''sockets::bindOrDie'' s1 else s1)))"

definition Socket_listen :: "kernel \<Rightarrow> int \<Rightarrow> sock_state \<Rightarrow> sock_state res" where
  "Socket_listen k sockfd s =
     (let (ret, s1) = do_call k (Sys_listen sockfd SOMAXCONN) s in res_bind (listenOrDie ret) (\<lambda>_. Inr s1))"

definition Socket_shutdownWrite :: "kernel \<Rightarrow> int \<Rightarrow> sock_state \<Rightarrow> sock_state" where
  "Socket_shutdownWrite k sockfd s = sockets_shutdownWrite k sockfd s"

definition Socket_setTcpNoDelay :: "kernel \<Rightarrow> int \<Rightarrow> bool \<Rightarrow> sock_state \<Rightarrow> sock_state" where
  "Socket_setTcpNoDelay k sockfd on s =
     (let optval = (if on then 1 else 0) in snd (do_call k (Sys_setsockopt sockfd TCP_NODELAY optval) s))"

definition Socket_setReuseAddr :: "kernel \<Rightarrow> int \<Rightarrow> bool \<Rightarrow> sock_state \<Rightarrow> sock_state" where
  "Socket_setReuseAddr k sockfd on s =
     (let optval = (if on then 1 else 0) in snd (do_call k (Sys_setsockopt sockfd SO_REUSEADDR optval) s))"

text \<open>With \<^verbatim>\<open>SO_REUSEPORT\<close> defined, as on Linux.\<close>

definition Socket_setReusePort :: "kernel \<Rightarrow> int \<Rightarrow> bool \<Rightarrow> sock_state \<Rightarrow> sock_state" where
  "Socket_setReusePort k sockfd on s =
     (let optval = (if on then 1 else 0); (ret, s1) = do_call k (Sys_setsockopt sockfd SO_REUSEPORT optval) s
      in if ret < 0 \<and> on then LOG_ERROR ''SO_REUSEPORT failed.'' s1 else s1)"

definition Socket_setKeepAlive :: "kernel \<Rightarrow> int \<Rightarrow> bool \<Rightarrow> sock_state \<Rightarrow> sock_state" where
  "Socket_setKeepAlive k sockfd on s =
     (let optval = (if on then 1 else 0) in snd (do_call k (Sys_setsockopt sockfd SO_KEEPALIVE optval) s))"

text \<open>The methods of a connection that pass the option on to its socket.\<close>

definition tc_setTcpNoDelay :: "kernel \<Rightarrow> int \<Rightarrow> bool \<Rightarrow> sock_state \<Rightarrow> sock_state" where
  "tc_setTcpNoDelay k sockfd on s = Socket_setTcpNoDelay k sockfd on s"

definition tc_setKeepAlive :: "kernel \<Rightarrow> int \<Rightarrow> bool \<Rightarrow> sock_state \<Rightarrow> sock_state" where
  "tc_setKeepAlive k sockfd on s = Socket_setKeepAlive k sockfd on s"

section \<open>Information about a connection\<close>

text \<open>The fields of \<^verbatim>\<open>struct tcp_info\<close> that are printed; the first one is a byte.\<close>

record tcp_info =
  tcpi_retransmits :: "8 word"
  tcpi_rto :: "32 word"
  tcpi_ato :: "32 word"
  tcpi_snd_mss :: "32 word"
  tcpi_rcv_mss :: "32 word"
  tcpi_lost :: "32 word"
  tcpi_retrans :: "32 word"
  tcpi_rtt :: "32 word"
  tcpi_rttvar :: "32 word"
  tcpi_snd_ssthresh :: "32 word"
  tcpi_snd_cwnd :: "32 word"
  tcpi_total_retrans :: "32 word"

definition zero_tcp_info :: tcp_info where
  "zero_tcp_info = \<lparr>tcpi_retransmits = 0, tcpi_rto = 0, tcpi_ato = 0, tcpi_snd_mss = 0, tcpi_rcv_mss = 0, tcpi_lost = 0,
     tcpi_retrans = 0, tcpi_rtt = 0, tcpi_rttvar = 0, tcpi_snd_ssthresh = 0, tcpi_snd_cwnd = 0, tcpi_total_retrans = 0\<rparr>"

text \<open>\<open>answer\<close> is what \<^verbatim>\<open>getsockopt(TCP_INFO)\<close> gives, if it succeeds.\<close>

definition Socket_getTcpInfo :: "tcp_info option \<Rightarrow> bool \<times> tcp_info" where
  "Socket_getTcpInfo answer = (case answer of None \<Rightarrow> (False, zero_tcp_info) | Some i \<Rightarrow> (True, i))"

definition tcp_info_text :: "tcp_info \<Rightarrow> string" where
  "tcp_info_text i =
     ''unrecovered='' @ decimal (uint (tcpi_retransmits i)) @ '' '' @
     ''rto='' @ decimal (uint (tcpi_rto i)) @ '' ato='' @ decimal (uint (tcpi_ato i)) @
     '' snd_mss='' @ decimal (uint (tcpi_snd_mss i)) @ '' rcv_mss='' @ decimal (uint (tcpi_rcv_mss i)) @ '' '' @
     ''lost='' @ decimal (uint (tcpi_lost i)) @ '' retrans='' @ decimal (uint (tcpi_retrans i)) @
     '' rtt='' @ decimal (uint (tcpi_rtt i)) @ '' rttvar='' @ decimal (uint (tcpi_rttvar i)) @ '' '' @
     ''sshthresh='' @ decimal (uint (tcpi_snd_ssthresh i)) @ '' cwnd='' @ decimal (uint (tcpi_snd_cwnd i)) @
     '' total_retrans='' @ decimal (uint (tcpi_total_retrans i))"

text \<open>\<open>buf\<close> is the C string in the caller's buffer; \<^verbatim>\<open>snprintf\<close> leaves it alone for a length of 0.\<close>

definition Socket_getTcpInfoString :: "tcp_info option \<Rightarrow> string \<Rightarrow> nat \<Rightarrow> bool \<times> string" where
  "Socket_getTcpInfoString answer buf len =
     (let (ok, tcpi) = Socket_getTcpInfo answer
      in (ok, if ok \<and> 0 < len then take (len - 1) (tcp_info_text tcpi) else buf))"

section \<open>Operations as data\<close>

text \<open>The calls a client makes on a \<^verbatim>\<open>Socket\<close> between its constructor and its destructor.\<close>

datatype sock_op =
    Op_bind sockaddr | Op_listen | Op_shutdownWrite
  | Op_noDelay bool | Op_reuseAddr bool | Op_reusePort bool | Op_keepAlive bool

fun run_sock_op :: "kernel \<Rightarrow> int \<Rightarrow> sock_op \<Rightarrow> sock_state \<Rightarrow> sock_state res" where
  "run_sock_op k fd (Op_bind a) s = Socket_bindAddress k fd a s"
| "run_sock_op k fd Op_listen s = Socket_listen k fd s"
| "run_sock_op k fd Op_shutdownWrite s = Inr (Socket_shutdownWrite k fd s)"
| "run_sock_op k fd (Op_noDelay on) s = Inr (Socket_setTcpNoDelay k fd on s)"
| "run_sock_op k fd (Op_reuseAddr on) s = Inr (Socket_setReuseAddr k fd on s)"
| "run_sock_op k fd (Op_reusePort on) s = Inr (Socket_setReusePort k fd on s)"
| "run_sock_op k fd (Op_keepAlive on) s = Inr (Socket_setKeepAlive k fd on s)"

definition run_socket :: "kernel \<Rightarrow> int \<Rightarrow> sock_op list \<Rightarrow> sock_state \<Rightarrow> sock_state res" where
  "run_socket k fd ops s = res_bind (res_fold (run_sock_op k fd) ops s) (\<lambda>s1. Inr (Socket_dtor k fd s1))"

section \<open>Specification\<close>

fun op_call :: "int \<Rightarrow> sock_op \<Rightarrow> syscall" where
  "op_call fd (Op_bind a) = Sys_bind fd a"
| "op_call fd Op_listen = Sys_listen fd SOMAXCONN"
| "op_call fd Op_shutdownWrite = Sys_shutdown_wr fd"
| "op_call fd (Op_noDelay on) = Sys_setsockopt fd TCP_NODELAY (of_bool on)"
| "op_call fd (Op_reuseAddr on) = Sys_setsockopt fd SO_REUSEADDR (of_bool on)"
| "op_call fd (Op_reusePort on) = Sys_setsockopt fd SO_REUSEPORT (of_bool on)"
| "op_call fd (Op_keepAlive on) = Sys_setsockopt fd SO_KEEPALIVE (of_bool on)"

text \<open>The failures that are reported: every other one goes unnoticed.\<close>

fun reported :: "syscall \<times> int \<Rightarrow> string list" where
  "reported (Sys_close fd, ret) = (if ret < 0 then [''sockets::close''] else [])"
| "reported (Sys_shutdown_wr fd, ret) = (if ret < 0 then [''sockets::shutdownWrite''] else [])"
| "reported (Sys_bind fd a, ret) = (if ret < 0 then [''sockets::bindOrDie''] else [])"
| "reported (Sys_setsockopt fd opt v, ret) = (if opt = SO_REUSEPORT \<and> ret < 0 \<and> v \<noteq> 0 then [''SO_REUSEPORT failed.''] else [])"
| "reported (_, ret) = []"

fun fatal :: "syscall \<times> int \<Rightarrow> bool" where
  "fatal (Sys_listen fd n, ret) = (ret < 0)"
| "fatal _ = False"

text \<open>The calls with the kernel's answers to them.\<close>

primrec answers :: "kernel \<Rightarrow> syscall list \<Rightarrow> (syscall \<times> int) list \<Rightarrow> (syscall \<times> int) list" where
  "answers k [] h = []"
| "answers k (c # cs) h = (c, k h c) # answers k cs (h @ [(c, k h c)])"

definition issued :: "(syscall \<times> int) list \<Rightarrow> sock_state \<Rightarrow> sock_state" where
  "issued cs s = s\<lparr>so_calls := so_calls s @ cs, so_log := so_log s @ concat (map reported cs)\<rparr>"

lemma issued_Nil [simp]: "issued [] s = s"
  by (simp add: issued_def)

lemma issued_append [simp]: "issued ds (issued cs s) = issued (cs @ ds) s"
  by (simp add: issued_def)

lemma so_calls_issued [simp]: "so_calls (issued cs s) = so_calls s @ cs"
  by (simp add: issued_def)

lemma map_fst_answers [simp]: "map fst (answers k cs h) = cs"
  by (induction cs arbitrary: h) simp_all

lemma answers_append: "answers k (cs @ ds) h = answers k cs h @ answers k ds (h @ answers k cs h)"
  by (induction cs arbitrary: h) simp_all

lemmas sock_op_defs = do_call_def LOG_ERROR_def issued_def sockets_close_def sockets_shutdownWrite_def Socket_dtor_def
  Socket_bindAddress_def Socket_listen_def Socket_shutdownWrite_def Socket_setTcpNoDelay_def Socket_setReuseAddr_def
  Socket_setReusePort_def Socket_setKeepAlive_def bindOrDie_def listenOrDie_def

lemma run_sock_op_issues:
  "run_sock_op k fd op s =
     (let r = (op_call fd op, k (so_calls s) (op_call fd op))
      in if fatal r then Inl (Log_fatal ''sockets::listenOrDie'') else Inr (issued [r] s))"
  by (cases op) (simp_all add: sock_op_defs Let_def)

lemma Socket_dtor_issues: "Socket_dtor k fd s = issued [(Sys_close fd, k (so_calls s) (Sys_close fd))] s"
  by (simp add: sock_op_defs Let_def)

lemma run_ops_issue:
  "res_fold (run_sock_op k fd) ops s =
     (let rs = answers k (map (op_call fd) ops) (so_calls s)
      in if list_ex fatal rs then Inl (Log_fatal ''sockets::listenOrDie'') else Inr (issued rs s))"
  by (induction ops arbitrary: s) (simp_all add: run_sock_op_issues Let_def del: fatal.simps)

text \<open>
  The life of a socket: exactly the calls the operations name are issued, in order, followed by one close; the reported
  failures are logged and the run ends early exactly at a listen that fails. All other options may fail unnoticed.
\<close>

theorem Socket_life:
  "run_socket k fd ops s =
     (let rs = answers k (map (op_call fd) ops) (so_calls s);
          rs' = answers k (map (op_call fd) ops @ [Sys_close fd]) (so_calls s)
      in if list_ex fatal rs then Inl (Log_fatal ''sockets::listenOrDie'') else Inr (issued rs' s))"
  by (simp add: run_socket_def run_ops_issue Socket_dtor_issues answers_append Let_def)

section \<open>Bounds\<close>

lemma decimal_word32_length: "length (decimal (uint (w :: 32 word))) \<le> 10"
proof (rule decimal_length)
  show "uint w < 10 ^ 10" using uint_lt2p[of w] by simp
qed simp_all

lemma tcp_info_text_length: "length (tcp_info_text i) \<le> 222"
  using decimal_byte_length[of "tcpi_retransmits i"] decimal_word32_length[of "tcpi_rto i"] decimal_word32_length[of "tcpi_ato i"]
    decimal_word32_length[of "tcpi_snd_mss i"] decimal_word32_length[of "tcpi_rcv_mss i"] decimal_word32_length[of "tcpi_lost i"]
    decimal_word32_length[of "tcpi_retrans i"] decimal_word32_length[of "tcpi_rtt i"] decimal_word32_length[of "tcpi_rttvar i"]
    decimal_word32_length[of "tcpi_snd_ssthresh i"] decimal_word32_length[of "tcpi_snd_cwnd i"]
    decimal_word32_length[of "tcpi_total_retrans i"]
  by (simp add: tcp_info_text_def)

text \<open>A buffer of 256 characters always holds the whole text.\<close>

theorem getTcpInfoString_fits:
  assumes "256 \<le> len"
  shows "Socket_getTcpInfoString answer buf len =
    (case answer of None \<Rightarrow> (False, buf) | Some i \<Rightarrow> (True, tcp_info_text i))"
  using assms tcp_info_text_length by (auto simp: Socket_getTcpInfoString_def Socket_getTcpInfo_def Let_def split: option.splits intro!: take_all order.trans[OF tcp_info_text_length])

theorem getTcpInfoString_fits_witness:
  "Socket_getTcpInfoString None ''x'' 256 = (False, ''x'')"
  using getTcpInfoString_fits[of 256 None "''x''"] by simp

end
