(* ===== verification/TcpConnection.thy ===== *)
theory TcpConnection
  imports Buffer Channel Sockets
begin

text \<open>
  A TCP connection (\<^verbatim>\<open>tcp.muduo/TcpConnection.cpp\<close>). The record holds the members of the class; in
  addition \<open>tc_sent\<close> collects the bytes the kernel accepted, \<open>tc_shut\<close> tells whether the writing
  half was shut down, \<open>tc_queue\<close> are the functors queued to the loop and \<open>tc_events\<close> the calls of
  the user's callbacks, in order. The answers of the kernel to \<^verbatim>\<open>write\<close> and \<^verbatim>\<open>readv\<close> and the
  user's callbacks are arguments. A channel is in the poller exactly when \<^verbatim>\<open>addedToLoop_\<close> is set.
\<close>

datatype conn_state = kConnecting | kConnected | kDisconnecting | kDisconnected

datatype conn_callback = ConnectionCb | MessageCb | WriteCompleteCb | HighWaterMarkCb | CloseCb

datatype conn_functor =
    F_sendInLoop bytes
  | F_shutdownInLoop
  | F_forceCloseInLoop
  | F_writeComplete
  | F_highWaterMark nat

datatype conn_event = On_connection bool | On_message bytes | On_close

record tcp_connection =
  tc_pid :: thread_id
  tc_name :: string
  tc_state :: conn_state
  tc_channel :: channel
  tc_callbacks :: "conn_callback set"
  tc_highWaterMark :: nat
  inputBuffer :: buffer
  outputBuffer :: buffer
  tc_sent :: bytes
  tc_shut :: bool
  tc_queue :: "conn_functor list"
  tc_events :: "conn_event list"

text \<open>The constructor sets the read, close and error callbacks of the channel, and does not
  initialise \<^verbatim>\<open>highWaterMark_\<close>: \<open>raw\<close> is what the memory holds.\<close>

definition TcpConnection_ctor :: "thread_id \<Rightarrow> string \<Rightarrow> int \<Rightarrow> nat \<Rightarrow> tcp_connection res" where
  "TcpConnection_ctor pid name sockfd raw =
     res_bind (Buffer_ctor kInitialSize) (\<lambda>ib. res_bind (Buffer_ctor kInitialSize) (\<lambda>ob.
       Inr \<lparr>tc_pid = pid, tc_name = name, tc_state = kConnecting,
            tc_channel = set_callback ErrorCallback (set_callback CloseCallback
              (set_callback ReadCallback (Channel_ctor sockfd))),
            tc_callbacks = {}, tc_highWaterMark = raw, inputBuffer = ib, outputBuffer = ob,
            tc_sent = [], tc_shut = False, tc_queue = [], tc_events = []\<rparr>))"

definition tc_setCallback :: "conn_callback \<Rightarrow> tcp_connection \<Rightarrow> tcp_connection" where
  "tc_setCallback k c = c\<lparr>tc_callbacks := insert k (tc_callbacks c)\<rparr>"

definition setHighWaterMarkCallback :: "nat \<Rightarrow> tcp_connection \<Rightarrow> tcp_connection" where
  "setHighWaterMarkCallback mark c = (tc_setCallback HighWaterMarkCb c)\<lparr>tc_highWaterMark := mark\<rparr>"

definition connected :: "tcp_connection \<Rightarrow> bool" where
  "connected c \<longleftrightarrow> tc_state c = kConnected"

text \<open>Calling an empty \<^verbatim>\<open>std::function\<close> throws.\<close>

definition call_back :: "conn_callback \<Rightarrow> conn_event \<Rightarrow> (tcp_connection \<Rightarrow> tcp_connection res) \<Rightarrow>
    tcp_connection \<Rightarrow> tcp_connection res" where
  "call_back k ev user c =
     (if k \<in> tc_callbacks c then user (c\<lparr>tc_events := tc_events c @ [ev]\<rparr>)
      else Inl (Abort ''std::bad_function_call''))"

text \<open>A change of the event mask followed by \<^verbatim>\<open>Channel::update\<close>, and \<^verbatim>\<open>Channel::remove\<close>.\<close>

definition tc_update :: "(channel \<Rightarrow> channel) \<Rightarrow> tcp_connection \<Rightarrow> tcp_connection" where
  "tc_update f c = c\<lparr>tc_channel := (f (tc_channel c))\<lparr>ch_addedToLoop := True\<rparr>\<rparr>"

definition tc_remove :: "tcp_connection \<Rightarrow> tcp_connection res" where
  "tc_remove c =
     require (isNoneEvent (tc_channel c)) ''isNoneEvent()''
     (require (ch_addedToLoop (tc_channel c)) ''channels_.find(fd) != channels_.end()''
      (Inr (c\<lparr>tc_channel := (tc_channel c)\<lparr>ch_addedToLoop := False\<rparr>\<rparr>)))"

definition tc_queueInLoop :: "conn_functor \<Rightarrow> tcp_connection \<Rightarrow> tcp_connection" where
  "tc_queueInLoop f c = c\<lparr>tc_queue := tc_queue c @ [f]\<rparr>"

definition connectEstablished :: "thread_id \<Rightarrow> (tcp_connection \<Rightarrow> tcp_connection res) \<Rightarrow> tcp_connection \<Rightarrow> tcp_connection res" where
  "connectEstablished tid user c =
     assertInLoopThread tid (tc_pid c)
     (require (tc_state c = kConnecting) ''state_ == kConnecting''
      (call_back ConnectionCb (On_connection True) user (tc_update enableReading (c\<lparr>tc_state := kConnected\<rparr>))))"

definition handleClose :: "thread_id \<Rightarrow> (tcp_connection \<Rightarrow> tcp_connection res) \<Rightarrow> tcp_connection \<Rightarrow> tcp_connection res" where
  "handleClose tid user c =
     assertInLoopThread tid (tc_pid c)
     (require (tc_state c = kConnected \<or> tc_state c = kDisconnecting) ''state_ == kConnected || state_ == kDisconnecting''
      (call_back CloseCb On_close user (tc_update disableAll c)))"

definition handleError :: "tcp_connection \<Rightarrow> tcp_connection res" where
  "handleError c = Inr c"

definition tc_handleRead :: "thread_id \<Rightarrow> (nat list \<Rightarrow> int + bytes) \<Rightarrow> (tcp_connection \<Rightarrow> tcp_connection res) \<Rightarrow>
    (tcp_connection \<Rightarrow> tcp_connection res) \<Rightarrow> tcp_connection \<Rightarrow> tcp_connection res" where
  "tc_handleRead tid readv onMessage onClose c =
     res_bind (readFd readv (inputBuffer c)) (\<lambda>(n, savedErrno, b).
       let c1 = c\<lparr>inputBuffer := b\<rparr>
       in if n > 0 then call_back MessageCb (On_message (content b)) onMessage c1
          else if n = 0 then handleClose tid onClose c1
          else handleError c1)"

definition defaultMessageCallback :: "tcp_connection \<Rightarrow> tcp_connection res" where
  "defaultMessageCallback c = Inr (c\<lparr>inputBuffer := retrieveAll (inputBuffer c)\<rparr>)"

definition shutdownInLoop :: "thread_id \<Rightarrow> tcp_connection \<Rightarrow> tcp_connection res" where
  "shutdownInLoop tid c =
     assertInLoopThread tid (tc_pid c)
     (Inr (if \<not> isWriting (tc_channel c) then c\<lparr>tc_shut := True\<rparr> else c))"

text \<open>
  \<open>answer\<close> is the answer of the kernel to \<^verbatim>\<open>write\<close>: an error, or the number of bytes it accepts,
  which is never more than it was given.
\<close>

definition tc_handleWrite :: "thread_id \<Rightarrow> errno + nat \<Rightarrow> tcp_connection \<Rightarrow> tcp_connection res" where
  "tc_handleWrite tid answer c =
     assertInLoopThread tid (tc_pid c)
     (if isWriting (tc_channel c) then
        (let n = (case answer of Inl _ \<Rightarrow> -1 | Inr k \<Rightarrow> int (min k (length (content (outputBuffer c)))))
         in if n > 0 then
              (let c1 = c\<lparr>tc_sent := tc_sent c @ take (nat n) (content (outputBuffer c))\<rparr>
               in res_bind (retrieve (nat n) (outputBuffer c1)) (\<lambda>b.
                  let c2 = c1\<lparr>outputBuffer := b\<rparr>
                  in if readableBytes b = 0 then
                       (let c3 = tc_update disableWriting c2;
                            c4 = (if WriteCompleteCb \<in> tc_callbacks c3 then tc_queueInLoop F_writeComplete c3 else c3)
                        in if tc_state c4 = kDisconnecting then shutdownInLoop tid c4 else Inr c4)
                     else Inr c2))
            else Inr c)
      else Inr c)"

definition connectDestroyed :: "thread_id \<Rightarrow> (tcp_connection \<Rightarrow> tcp_connection res) \<Rightarrow> tcp_connection \<Rightarrow> tcp_connection res" where
  "connectDestroyed tid user c =
     assertInLoopThread tid (tc_pid c)
     (require (tc_state c = kConnected \<or> tc_state c = kDisconnecting) ''state_ == kConnected || state_ == kDisconnecting''
      (res_bind (call_back ConnectionCb (On_connection False) user (tc_update disableAll (c\<lparr>tc_state := kDisconnected\<rparr>)))
         tc_remove))"

definition sendInLoop :: "thread_id \<Rightarrow> errno + nat \<Rightarrow> bytes \<Rightarrow> tcp_connection \<Rightarrow> tcp_connection res" where
  "sendInLoop tid answer message c =
     assertInLoopThread tid (tc_pid c)
     (let direct = (\<not> isWriting (tc_channel c) \<and> readableBytes (outputBuffer c) = 0);
          nwrote = (if direct then (case answer of Inl _ \<Rightarrow> 0 | Inr k \<Rightarrow> min k (length message)) else 0);
          remaining = length message - nwrote;
          c1 = c\<lparr>tc_sent := tc_sent c @ take nwrote message\<rparr>;
          c2 = (if direct \<and> \<not> isl answer \<and> nwrote = length message \<and> WriteCompleteCb \<in> tc_callbacks c1
                then tc_queueInLoop F_writeComplete c1 else c1)
      in if nwrote < length message then
           (let oldLen = readableBytes (outputBuffer c2);
                c3 = (if size_add oldLen remaining \<ge> tc_highWaterMark c2 \<and> oldLen < tc_highWaterMark c2 \<and> HighWaterMarkCb \<in> tc_callbacks c2
                      then tc_queueInLoop (F_highWaterMark (size_add oldLen remaining)) c2 else c2)
            in res_bind (append_data (drop nwrote message) (outputBuffer c3)) (\<lambda>b.
               let c4 = c3\<lparr>outputBuffer := b\<rparr>
               in Inr (if \<not> isWriting (tc_channel c4) then tc_update enableWriting c4 else c4)))
         else Inr c2)"

definition tc_send :: "thread_id \<Rightarrow> errno + nat \<Rightarrow> bytes \<Rightarrow> tcp_connection \<Rightarrow> tcp_connection res" where
  "tc_send tid answer message c =
     (if tc_state c = kConnected then
        (if isInLoopThread tid (tc_pid c) then sendInLoop tid answer message c
         else Inr (tc_queueInLoop (F_sendInLoop message) c))
      else Inr c)"

definition tc_shutdown :: "thread_id \<Rightarrow> tcp_connection \<Rightarrow> tcp_connection res" where
  "tc_shutdown tid c =
     (if tc_state c = kConnected then
        (let c1 = c\<lparr>tc_state := kDisconnecting\<rparr>
         in if isInLoopThread tid (tc_pid c1) then shutdownInLoop tid c1
            else Inr (tc_queueInLoop F_shutdownInLoop c1))
      else Inr c)"

definition forceClose :: "tcp_connection \<Rightarrow> tcp_connection" where
  "forceClose c =
     (if tc_state c = kConnected \<or> tc_state c = kDisconnecting
      then tc_queueInLoop F_forceCloseInLoop (c\<lparr>tc_state := kDisconnecting\<rparr>) else c)"

definition forceCloseInLoop :: "thread_id \<Rightarrow> (tcp_connection \<Rightarrow> tcp_connection res) \<Rightarrow> tcp_connection \<Rightarrow> tcp_connection res" where
  "forceCloseInLoop tid user c =
     assertInLoopThread tid (tc_pid c)
     (if tc_state c = kConnected \<or> tc_state c = kDisconnecting then handleClose tid user c else Inr c)"

text \<open>One callback of the connection's channel, as the constructor bound them.\<close>

definition tc_channel_call :: "thread_id \<Rightarrow> (nat list \<Rightarrow> int + bytes) \<Rightarrow> errno + nat \<Rightarrow>
    (tcp_connection \<Rightarrow> tcp_connection res) \<Rightarrow> (tcp_connection \<Rightarrow> tcp_connection res) \<Rightarrow>
    event_call \<Rightarrow> tcp_connection \<Rightarrow> tcp_connection res" where
  "tc_channel_call tid readv answer onMessage onClose k c =
     (case k of
        ReadCallback \<Rightarrow> tc_handleRead tid readv onMessage onClose c
      | CloseCallback \<Rightarrow> handleClose tid onClose c
      | ErrorCallback \<Rightarrow> handleError c
      | WriteCallback \<Rightarrow> tc_handleWrite tid answer c)"

definition tc_handleEvent :: "thread_id \<Rightarrow> (nat list \<Rightarrow> int + bytes) \<Rightarrow> errno + nat \<Rightarrow>
    (tcp_connection \<Rightarrow> tcp_connection res) \<Rightarrow> (tcp_connection \<Rightarrow> tcp_connection res) \<Rightarrow>
    events \<Rightarrow> tcp_connection \<Rightarrow> tcp_connection res" where
  "tc_handleEvent tid readv answer onMessage onClose revents c =
     (let c1 = c\<lparr>tc_channel := set_revents revents (tc_channel c)\<rparr>
      in res_fold (tc_channel_call tid readv answer onMessage onClose) (handleEvent True (tc_channel c1)) c1)"

section \<open>Order of the output\<close>

text \<open>What happens to the sending side: a message is sent, or the socket is writable.\<close>

datatype out_op = Send bytes "errno + nat" | Writable "errno + nat"

fun out_step :: "out_op \<Rightarrow> tcp_connection \<Rightarrow> tcp_connection res" where
  "out_step (Send message answer) c = sendInLoop (tc_pid c) answer message c"
| "out_step (Writable answer) c = tc_handleWrite (tc_pid c) answer c"

fun sent_by :: "out_op \<Rightarrow> bytes" where
  "sent_by (Send message answer) = message"
| "sent_by (Writable answer) = []"

lemma readable_content: "buffer_inv b \<Longrightarrow> readableBytes b = length (content b)"
  by (simp add: buffer_inv_def readableBytes_def content_def vector_max_size_def)

lemma sendInLoop_stream:
  assumes inv: "buffer_inv (outputBuffer c)"
    and cap: "capacity (outputBuffer c) + length message \<le> vector_max_size"
  shows "\<exists>c'. sendInLoop (tc_pid c) answer message c = Inr c' \<and> buffer_inv (outputBuffer c') \<and>
    capacity (outputBuffer c') \<le> capacity (outputBuffer c) + length message \<and> tc_pid c' = tc_pid c \<and>
    tc_sent c' @ content (outputBuffer c') = tc_sent c @ content (outputBuffer c) @ message \<and>
    (content (outputBuffer c) \<noteq> [] \<longrightarrow> tc_sent c' = tc_sent c)"
proof -
  define direct where "direct = (\<not> isWriting (tc_channel c) \<and> readableBytes (outputBuffer c) = 0)"
  define nwrote where "nwrote = (if direct then (case answer of Inl _ \<Rightarrow> 0 | Inr k \<Rightarrow> min k (length message)) else 0)"
  have nw: "nwrote \<le> length message" by (simp add: nwrote_def split: sum.split)
  have empty: "content (outputBuffer c) = []" if "0 < nwrote"
    using that readable_content[OF inv] by (auto simp: nwrote_def direct_def split: if_splits)
  have stream: "take nwrote message @ content (outputBuffer c) @ drop nwrote message = content (outputBuffer c) @ message"
    using empty by (cases "nwrote = 0") simp_all
  show ?thesis
  proof (cases "nwrote < length message")
    case True
    have "capacity (outputBuffer c) + length (drop nwrote message) \<le> vector_max_size" using cap by simp
    then obtain b where b: "append_data (drop nwrote message) (outputBuffer c) = Inr b" "buffer_inv b"
      "content b = content (outputBuffer c) @ drop nwrote message"
      "capacity b \<le> capacity (outputBuffer c) + length (drop nwrote message)"
      using append_data_ok[OF inv, of "drop nwrote message"] by auto
    show ?thesis
      using True b stream empty
      unfolding sendInLoop_def direct_def[symmetric] Let_def nwrote_def[symmetric]
      by (auto simp: tc_queueInLoop_def tc_update_def)
  next
    case False
    then have "nwrote = length message" using nw by simp
    then show ?thesis
      using inv stream empty
      unfolding sendInLoop_def direct_def[symmetric] Let_def nwrote_def[symmetric]
      by (cases "message = []") (auto simp: tc_queueInLoop_def)
  qed
qed

lemma handleWrite_stream:
  assumes inv: "buffer_inv (outputBuffer c)"
  shows "\<exists>c'. tc_handleWrite (tc_pid c) answer c = Inr c' \<and> buffer_inv (outputBuffer c') \<and>
    capacity (outputBuffer c') = capacity (outputBuffer c) \<and> tc_pid c' = tc_pid c \<and>
    tc_sent c' @ content (outputBuffer c') = tc_sent c @ content (outputBuffer c)"
proof -
  define n where "n = (case answer of Inl _ \<Rightarrow> -1 | Inr k \<Rightarrow> int (min k (length (content (outputBuffer c)))))"
  have le: "nat n \<le> length (content (outputBuffer c))" by (simp add: n_def split: sum.split)
  obtain b where b: "retrieve (nat n) (outputBuffer c) = Inr b" "buffer_inv b"
    "content b = drop (nat n) (content (outputBuffer c))" "capacity b = capacity (outputBuffer c)"
    using retrieve_ok[OF inv le] by blast
  show ?thesis
    using inv b unfolding tc_handleWrite_def n_def[symmetric]
    by (auto simp: Let_def tc_update_def tc_queueInLoop_def shutdownInLoop_def)
qed

lemma out_run_stream:
  assumes "buffer_inv (outputBuffer c)"
    and "capacity (outputBuffer c) + length (concat (map sent_by ops)) \<le> vector_max_size"
  shows "\<exists>c'. res_fold out_step ops c = Inr c' \<and> buffer_inv (outputBuffer c') \<and>
    tc_sent c' @ content (outputBuffer c') = tc_sent c @ content (outputBuffer c) @ concat (map sent_by ops)"
  using assms
proof (induction ops arbitrary: c)
  case Nil
  then show ?case by simp
next
  case (Cons op ops)
  have cap: "capacity (outputBuffer c) + length (sent_by op) \<le> vector_max_size" using Cons.prems(2) by simp
  obtain c1 where c1: "out_step op c = Inr c1" "buffer_inv (outputBuffer c1)"
    "capacity (outputBuffer c1) \<le> capacity (outputBuffer c) + length (sent_by op)"
    "tc_sent c1 @ content (outputBuffer c1) = tc_sent c @ content (outputBuffer c) @ sent_by op"
  proof (cases op)
    case (Send message answer)
    then show ?thesis using sendInLoop_stream[OF Cons.prems(1), of message answer] cap that by auto
  next
    case (Writable answer)
    then show ?thesis using handleWrite_stream[OF Cons.prems(1), of answer] that by auto
  qed
  have "capacity (outputBuffer c1) + length (concat (map sent_by ops)) \<le> vector_max_size"
    using Cons.prems(2) c1(3) by simp
  from Cons.IH[OF c1(2) this] c1(1,4) show ?case by auto
qed

lemma TcpConnection_ctor_ok:
  "\<exists>c. TcpConnection_ctor pid name fd raw = Inr c \<and> buffer_inv (outputBuffer c) \<and> content (outputBuffer c) = [] \<and>
     capacity (outputBuffer c) = kCheapPrepend + kInitialSize \<and> buffer_inv (inputBuffer c) \<and> content (inputBuffer c) = [] \<and>
     tc_sent c = [] \<and> tc_state c = kConnecting \<and> tc_pid c = pid \<and> \<not> tc_shut c \<and> tc_queue c = [] \<and> tc_callbacks c = {} \<and>
     tc_name c = name \<and>
     ch_callbacks (tc_channel c) = {ReadCallback, CloseCallback, ErrorCallback} \<and> ch_events (tc_channel c) = 0 \<and>
     \<not> ch_tied (tc_channel c)"
proof -
  have "kCheapPrepend + kInitialSize \<le> vector_max_size"
    by (simp add: kCheapPrepend_def kInitialSize_def vector_max_size_def)
  then obtain b where "Buffer_ctor kInitialSize = Inr b" "buffer_inv b" "content b = []" "capacity b = kCheapPrepend + kInitialSize"
    using Buffer_ctor_ok by blast
  then show ?thesis
    by (auto simp: TcpConnection_ctor_def set_callback_def Channel_ctor_def)
qed

text \<open>
  C12: Output order. Whatever messages are sent and however the kernel accepts them (all, a part,
  nothing, an error), in every run of \<^verbatim>\<open>sendInLoop\<close> and \<^verbatim>\<open>handleWrite\<close> no assertion fails, and the
  bytes the kernel accepted followed by the bytes still in the output buffer are exactly the
  messages, in the order they were sent: nothing is lost, repeated or reordered.
\<close>

theorem TcpConnection_output_in_order:
  assumes "kCheapPrepend + kInitialSize + length (concat (map sent_by ops)) \<le> vector_max_size"
  shows "\<exists>c c'. TcpConnection_ctor pid name fd raw = Inr c \<and> res_fold out_step ops c = Inr c' \<and>
    tc_sent c' @ content (outputBuffer c') = concat (map sent_by ops)"
proof -
  obtain c where c: "TcpConnection_ctor pid name fd raw = Inr c" "buffer_inv (outputBuffer c)" "content (outputBuffer c) = []"
    "capacity (outputBuffer c) = kCheapPrepend + kInitialSize" "tc_sent c = []"
    using TcpConnection_ctor_ok by blast
  have "capacity (outputBuffer c) + length (concat (map sent_by ops)) \<le> vector_max_size" using assms c(4) by simp
  from out_run_stream[OF c(2) this] c show ?thesis by auto
qed

theorem TcpConnection_output_in_order_witness:
  "\<exists>c c'. TcpConnection_ctor 1 ''c'' 7 0 = Inr c \<and>
     res_fold out_step [Send [1, 2, 3] (Inr 1), Send [4] (Inr 9), Writable (Inl EAGAIN), Writable (Inr 2)] c = Inr c' \<and>
     tc_sent c' @ content (outputBuffer c') = [1, 2, 3, 4]"
  using TcpConnection_output_in_order[of "[Send [1, 2, 3] (Inr 1), Send [4] (Inr 9), Writable (Inl EAGAIN), Writable (Inr 2)]" 1 "''c''" 7 0]
  by (simp add: kCheapPrepend_def kInitialSize_def vector_max_size_def)

section \<open>Closing the writing half\<close>

lemma isWriting_added [simp]: "isWriting (ch\<lparr>ch_addedToLoop := x\<rparr>) = isWriting ch"
  by (simp add: isWriting_def)

lemma isWriting_tc_update [simp]:
  "isWriting (tc_channel (tc_update disableWriting c)) = isWriting (tc_channel c)"
  "isWriting (tc_channel (tc_update enableWriting c))"
  by (simp_all add: tc_update_def)

lemma tc_fields [simp]:
  "tc_channel (tc_queueInLoop f c) = tc_channel c" "tc_shut (tc_queueInLoop f c) = tc_shut c"
  "tc_shut (tc_update g c) = tc_shut c" "tc_pid (tc_queueInLoop f c) = tc_pid c" "tc_pid (tc_update g c) = tc_pid c"
  "tc_sent (tc_queueInLoop f c) = tc_sent c" "tc_sent (tc_update g c) = tc_sent c"
  "outputBuffer (tc_queueInLoop f c) = outputBuffer c" "outputBuffer (tc_update g c) = outputBuffer c"
  "tc_state (tc_queueInLoop f c) = tc_state c" "tc_state (tc_update g c) = tc_state c"
  by (simp_all add: tc_queueInLoop_def tc_update_def)

lemma shutdownInLoop_writing:
  "isWriting (tc_channel c) \<Longrightarrow> shutdownInLoop (tc_pid c) c = Inr c"
  by (simp add: shutdownInLoop_def)

lemma sendInLoop_keeps_writing:
  assumes "isWriting (tc_channel c)" "sendInLoop (tc_pid c) answer message c = Inr c'"
  shows "isWriting (tc_channel c') \<and> tc_shut c' = tc_shut c"
  using assms unfolding sendInLoop_def Let_def
  by (auto split: if_splits)

lemma handleWrite_keeps_writing:
  assumes "isWriting (tc_channel c)" "tc_handleWrite (tc_pid c) answer c = Inr c'"
  shows "isWriting (tc_channel c') \<and> tc_shut c' = tc_shut c"
proof -
  define n where "n = (case answer of Inl _ \<Rightarrow> -1 | Inr k \<Rightarrow> int (min k (length (content (outputBuffer c)))))"
  show ?thesis
  proof (cases "0 < n")
    case False
    then show ?thesis using assms unfolding tc_handleWrite_def n_def[symmetric] by (simp add: Let_def)
  next
    case True
    let ?c1 = "c\<lparr>tc_sent := tc_sent c @ take (nat n) (content (outputBuffer c))\<rparr>"
    obtain b where b: "retrieve (nat n) (outputBuffer c) = Inr b"
      using assms True unfolding tc_handleWrite_def n_def[symmetric] by (auto simp: Let_def)
    let ?c3 = "tc_update disableWriting (?c1\<lparr>outputBuffer := b\<rparr>)"
    have w: "isWriting (tc_channel ?c3)" "isWriting (tc_channel (tc_queueInLoop F_writeComplete ?c3))"
      using assms(1) by simp_all
    show ?thesis
    proof (cases "readableBytes b = 0")
      case empty: True
      have "c' = ?c3 \<or> c' = tc_queueInLoop F_writeComplete ?c3"
        using assms True b empty w shutdownInLoop_writing[OF w(1)] shutdownInLoop_writing[OF w(2)]
        unfolding tc_handleWrite_def n_def[symmetric] by (simp add: Let_def split: if_splits)
      then show ?thesis using w by auto
    next
      case False
      then show ?thesis
        using assms True b unfolding tc_handleWrite_def n_def[symmetric] by (auto simp: Let_def)
    qed
  qed
qed

lemma out_step_keeps_writing:
  assumes "isWriting (tc_channel c)" "out_step op c = Inr c'"
  shows "isWriting (tc_channel c') \<and> tc_shut c' = tc_shut c"
proof (cases op)
  case (Send message answer)
  then show ?thesis using sendInLoop_keeps_writing[OF assms(1)] assms(2) by simp
next
  case (Writable answer)
  then show ?thesis using handleWrite_keeps_writing[OF assms(1)] assms(2) by simp
qed

lemma out_run_keeps_writing:
  assumes "isWriting (tc_channel c)" "res_fold out_step ops c = Inr c'"
  shows "isWriting (tc_channel c') \<and> tc_shut c' = tc_shut c"
  using assms
proof (induction ops arbitrary: c)
  case Nil
  then show ?case by simp
next
  case (Cons op ops)
  then obtain c1 where "out_step op c = Inr c1" "res_fold out_step ops c1 = Inr c'" by auto
  then show ?case using Cons.IH[of c1] out_step_keeps_writing[OF Cons.prems(1)] by auto
qed

text \<open>
  Once a connection has had to buffer output, \<^verbatim>\<open>shutdown()\<close> never closes its writing half: the
  channel stays writing, because \<^verbatim>\<open>disableWriting\<close> does not clear the write interest, so neither
  \<^verbatim>\<open>shutdown\<close> nor the \<^verbatim>\<open>handleWrite\<close> that empties the buffer calls \<^verbatim>\<open>shutdownWrite\<close>, although
  everything succeeds and the buffer may be empty.
\<close>

theorem shutdown_lost_after_buffered_output:
  assumes "buffer_inv (outputBuffer c)" "tc_state c = kConnected" "\<not> tc_shut c" "isWriting (tc_channel c)"
    and "capacity (outputBuffer c) + length (concat (map sent_by ops)) \<le> vector_max_size"
  shows "\<exists>c1 c2. tc_shutdown (tc_pid c) c = Inr c1 \<and> tc_state c1 = kDisconnecting \<and>
    res_fold out_step ops c1 = Inr c2 \<and> \<not> tc_shut c2"
proof -
  define c1 where "c1 = c\<lparr>tc_state := kDisconnecting\<rparr>"
  have "tc_shutdown (tc_pid c) c = Inr c1"
    using assms by (simp add: tc_shutdown_def isInLoopThread_def shutdownInLoop_def c1_def)
  moreover obtain c2 where "res_fold out_step ops c1 = Inr c2"
    using out_run_stream[of c1 ops] assms(1,5) by (auto simp: c1_def)
  moreover have "\<not> tc_shut c2" using out_run_keeps_writing[OF _ \<open>res_fold out_step ops c1 = Inr c2\<close>] assms(3,4)
    by (simp add: c1_def)
  ultimately show ?thesis by (auto simp: c1_def)
qed

section \<open>The missing write callback\<close>

text \<open>
  The sending side driven through the channel: messages are sent and events arrive; the user's
  message callback discards the input and the close callback does nothing more.
\<close>

datatype conn_op = Op_send bytes "errno + nat" | Op_events events "nat list \<Rightarrow> int + bytes" "errno + nat"

fun conn_step :: "conn_op \<Rightarrow> tcp_connection \<Rightarrow> tcp_connection res" where
  "conn_step (Op_send message answer) c = tc_send (tc_pid c) answer message c"
| "conn_step (Op_events revents readv answer) c =
     tc_handleEvent (tc_pid c) readv answer defaultMessageCallback Inr revents c"

definition stuck :: "bytes \<Rightarrow> tcp_connection \<Rightarrow> bool" where
  "stuck out c \<longleftrightarrow> WriteCallback \<notin> ch_callbacks (tc_channel c) \<and> buffer_inv (outputBuffer c) \<and>
     content (outputBuffer c) \<noteq> [] \<and> tc_sent c = out"

lemma stuck_same:
  "stuck out c \<Longrightarrow> ch_callbacks (tc_channel c') = ch_callbacks (tc_channel c) \<Longrightarrow> outputBuffer c' = outputBuffer c \<Longrightarrow>
   tc_sent c' = tc_sent c \<Longrightarrow> stuck out c'"
  by (simp add: stuck_def)

lemma channel_call_stuck:
  assumes "stuck out c" "k \<noteq> WriteCallback"
    and "tc_channel_call (tc_pid c) readv answer defaultMessageCallback Inr k c = Inr c'"
  shows "stuck out c' \<and> tc_pid c' = tc_pid c"
proof (cases k)
  case CloseCallback
  then show ?thesis using assms
    by (auto simp: tc_channel_call_def handleClose_def call_back_def tc_update_def disableAll_def
        intro: stuck_same split: if_splits)
next
  case ErrorCallback
  then show ?thesis using assms by (auto simp: tc_channel_call_def handleError_def)
next
  case ReadCallback
  then show ?thesis using assms
    by (auto simp: tc_channel_call_def tc_handleRead_def handleClose_def handleError_def call_back_def tc_update_def
        disableAll_def defaultMessageCallback_def Let_def intro: stuck_same split: if_splits prod.splits)
qed (use assms in simp)

lemma channel_calls_stuck:
  assumes "stuck out c" "WriteCallback \<notin> set ks"
    and "res_fold (tc_channel_call (tc_pid c) readv answer defaultMessageCallback Inr) ks c = Inr c'"
  shows "stuck out c' \<and> tc_pid c' = tc_pid c"
  using assms
proof (induction ks arbitrary: c)
  case Nil
  then show ?case by simp
next
  case (Cons k ks)
  then obtain c1 where c1: "tc_channel_call (tc_pid c) readv answer defaultMessageCallback Inr k c = Inr c1"
    "res_fold (tc_channel_call (tc_pid c) readv answer defaultMessageCallback Inr) ks c1 = Inr c'" by auto
  have "stuck out c1" "tc_pid c1 = tc_pid c" using channel_call_stuck[OF Cons.prems(1) _ c1(1)] Cons.prems(2) by auto
  then show ?case using Cons.IH[of c1] c1(2) Cons.prems(2) by simp
qed

lemma no_write_callback: "WriteCallback \<notin> ch_callbacks ch \<Longrightarrow> WriteCallback \<notin> set (handleEvent alive ch)"
  by (simp add: handleEvent_def handleEventWithGuard_def call_if_def Let_def)

lemma conn_step_stuck:
  assumes "stuck out c" "capacity (outputBuffer c) + (case op of Op_send m _ \<Rightarrow> length m | _ \<Rightarrow> 0) \<le> vector_max_size"
    and "conn_step op c = Inr c'"
  shows "stuck out c'"
proof (cases op)
  case (Op_send message answer)
  have inv: "buffer_inv (outputBuffer c)" "content (outputBuffer c) \<noteq> []" using assms(1) by (simp_all add: stuck_def)
  show ?thesis
  proof (cases "tc_state c = kConnected")
    case True
    obtain c1 where "sendInLoop (tc_pid c) answer message c = Inr c1" "buffer_inv (outputBuffer c1)"
      "tc_sent c1 @ content (outputBuffer c1) = tc_sent c @ content (outputBuffer c) @ message" "tc_sent c1 = tc_sent c"
      using sendInLoop_stream[OF inv(1), of message answer] assms(2) Op_send inv(2) by auto
    moreover from this(1) have "ch_callbacks (tc_channel c1) = ch_callbacks (tc_channel c)"
      unfolding sendInLoop_def Let_def by (auto simp: tc_update_def tc_queueInLoop_def enableWriting_def split: if_splits)
    ultimately show ?thesis
      using True assms Op_send by (auto simp: stuck_def tc_send_def isInLoopThread_def)
  next
    case False
    then show ?thesis using assms Op_send by (simp add: tc_send_def)
  qed
next
  case (Op_events revents readv answer)
  let ?c = "c\<lparr>tc_channel := set_revents revents (tc_channel c)\<rparr>"
  have "stuck out ?c" using assms(1) by (rule stuck_same) (simp_all add: set_revents_def)
  moreover have "WriteCallback \<notin> set (handleEvent True (tc_channel ?c))"
    using assms(1) by (intro no_write_callback) (simp add: stuck_def set_revents_def)
  ultimately show ?thesis
    using channel_calls_stuck[of out ?c] assms(3) Op_events by (auto simp: tc_handleEvent_def Let_def)
qed

text \<open>
  C39: Output that the first \<^verbatim>\<open>write\<close> does not take is never sent. The constructor of
  \<^verbatim>\<open>TcpConnection\<close> sets no write callback, so when the socket becomes writable the channel calls
  nobody: once a constructed connection has bytes in its output buffer, no event of its channel
  and no further \<^verbatim>\<open>send\<close> makes the kernel receive another byte.
\<close>

theorem buffered_output_is_never_sent:
  assumes "TcpConnection_ctor pid name fd raw = Inr c0" "ch_callbacks (tc_channel c) = ch_callbacks (tc_channel c0)"
    and "buffer_inv (outputBuffer c)" "content (outputBuffer c) \<noteq> []"
    and "capacity (outputBuffer c) + (case op of Op_send m _ \<Rightarrow> length m | _ \<Rightarrow> 0) \<le> vector_max_size"
    and "conn_step op c = Inr c'"
  shows "tc_sent c' = tc_sent c \<and> content (outputBuffer c') \<noteq> []"
proof -
  have "WriteCallback \<notin> ch_callbacks (tc_channel c)"
    using assms(1,2) TcpConnection_ctor_ok[of pid name fd raw] by auto
  then have "stuck (tc_sent c) c" using assms(3,4) by (simp add: stuck_def)
  then have "stuck (tc_sent c) c'" using assms(5,6) by (rule conn_step_stuck)
  then show ?thesis by (simp add: stuck_def)
qed

section \<open>Witnesses\<close>

lemma after_partial_write:
  "\<exists>c0 c. TcpConnection_ctor 1 ''c'' 7 0 = Inr c0 \<and>
     sendInLoop 1 (Inr 1) [1, 2, 3] (c0\<lparr>tc_state := kConnected\<rparr>) = Inr c \<and> tc_sent c = [1] \<and> content (outputBuffer c) = [2, 3] \<and>
     buffer_inv (outputBuffer c) \<and> capacity (outputBuffer c) \<le> 2000 \<and> isWriting (tc_channel c) \<and> tc_state c = kConnected \<and>
     \<not> tc_shut c \<and> tc_pid c = 1 \<and> ch_callbacks (tc_channel c) = ch_callbacks (tc_channel c0)"
proof -
  obtain c0 where c0: "TcpConnection_ctor 1 ''c'' 7 0 = Inr c0" "buffer_inv (outputBuffer c0)" "content (outputBuffer c0) = []"
    "capacity (outputBuffer c0) = kCheapPrepend + kInitialSize" "tc_sent c0 = []" "tc_pid c0 = 1" "\<not> tc_shut c0"
    "ch_events (tc_channel c0) = 0" "tc_callbacks c0 = {}"
    using TcpConnection_ctor_ok[of 1 "''c''" 7 0] by blast
  have cap: "capacity (outputBuffer c0) + length [2, 3 :: byte] \<le> vector_max_size"
    using c0(4) by (simp add: kCheapPrepend_def kInitialSize_def vector_max_size_def)
  obtain b where b: "append_data [2, 3] (outputBuffer c0) = Inr b" "buffer_inv b" "content b = [2, 3]"
    "capacity b \<le> capacity (outputBuffer c0) + 2"
    using append_data_ok[OF c0(2) cap] c0(3) by auto
  have w: "\<not> isWriting (tc_channel c0)" using c0(8) by (simp add: isWriting_def)
  have r: "readableBytes (outputBuffer c0) = 0" using c0(2,3) by (simp add: readable_content)
  let ?c = "tc_update enableWriting (c0\<lparr>tc_state := kConnected, tc_sent := [1], outputBuffer := b\<rparr>)"
  have "sendInLoop 1 (Inr 1) [1, 2, 3] (c0\<lparr>tc_state := kConnected\<rparr>) = Inr ?c"
    using c0 b(1) w r by (simp add: sendInLoop_def Let_def)
  moreover have "ch_callbacks (tc_channel ?c) = ch_callbacks (tc_channel c0)" "capacity b \<le> 2000"
    using b(4) c0(4) by (simp_all add: tc_update_def enableWriting_def kCheapPrepend_def kInitialSize_def)
  ultimately show ?thesis using c0 b by (intro exI[of _ c0] exI[of _ ?c]) simp
qed

theorem shutdown_lost_after_buffered_output_witness:
  "\<exists>(c :: tcp_connection) c1 c2. isWriting (tc_channel c) \<and> content (outputBuffer c) = [2, 3] \<and> tc_shutdown 1 c = Inr c1 \<and> tc_state c1 = kDisconnecting \<and>
    res_fold out_step [Writable (Inr 2)] c1 = Inr c2 \<and> \<not> tc_shut c2"
proof -
  obtain c :: tcp_connection where c: "tc_sent c = [1]" "content (outputBuffer c) = [2, 3]" "buffer_inv (outputBuffer c)"
    "capacity (outputBuffer c) \<le> 2000" "isWriting (tc_channel c)" "tc_state c = kConnected" "\<not> tc_shut c" "tc_pid c = 1"
    using after_partial_write by blast
  have "capacity (outputBuffer c) + length (concat (map sent_by [Writable (Inr 2)])) \<le> vector_max_size"
    using c(4) by (simp add: vector_max_size_def)
  from shutdown_lost_after_buffered_output[OF c(3,6,7,5) this] obtain c1 c2 where
    "tc_shutdown (tc_pid c) c = Inr c1" "tc_state c1 = kDisconnecting" "res_fold out_step [Writable (Inr 2)] c1 = Inr c2" "\<not> tc_shut c2"
    by blast
  then show ?thesis using c(2,5,8) by (intro exI[of _ c] exI[of _ c1] exI[of _ c2]) simp
qed

theorem buffered_output_is_never_sent_witness:
  "\<exists>(c :: tcp_connection) c'. tc_sent c = [1] \<and> content (outputBuffer c) = [2, 3] \<and>
     conn_step (Op_events POLLOUT (\<lambda>_. Inl 0) (Inr 2)) c = Inr c' \<and> tc_sent c' = [1] \<and> content (outputBuffer c') \<noteq> []"
proof -
  obtain c0 and c :: tcp_connection where c0: "TcpConnection_ctor 1 ''c'' 7 0 = Inr c0" and c: "tc_sent c = [1]" "content (outputBuffer c) = [2, 3]"
    "buffer_inv (outputBuffer c)" "capacity (outputBuffer c) \<le> 2000" "tc_pid c = 1"
    "ch_callbacks (tc_channel c) = ch_callbacks (tc_channel c0)"
    using after_partial_write by blast
  have cb: "ch_callbacks (tc_channel c) = {ReadCallback, CloseCallback, ErrorCallback}"
    using c(6) c0 TcpConnection_ctor_ok[of 1 "''c''" 7 0] by auto
  let ?c = "c\<lparr>tc_channel := set_revents POLLOUT (tc_channel c)\<rparr>"
  have st: "conn_step (Op_events POLLOUT (\<lambda>_. Inl 0) (Inr 2)) c = Inr ?c"
    using cb by (simp add: tc_handleEvent_def handleEvent_def handleEventWithGuard_def call_if_def set_revents_def poll_flags Let_def)
  have cap: "capacity (outputBuffer c) + (case Op_events POLLOUT (\<lambda>_. Inl 0) (Inr 2) of Op_send m _ \<Rightarrow> length m | _ \<Rightarrow> 0) \<le> vector_max_size"
    using c(4) by (simp add: vector_max_size_def)
  have ne: "content (outputBuffer c) \<noteq> []" using c(2) by simp
  from buffered_output_is_never_sent[OF c0 c(6,3) ne cap st] c(1,2) st
  show ?thesis by (intro exI[of _ c] exI[of _ ?c]) simp
qed

end
