(* ===== verification/Acceptor.thy ===== *)
theory Acceptor
  imports Channel Sockets "HOL-Library.Multiset"
begin

text \<open>
  The acceptor (\<^verbatim>\<open>tcp.muduo/Acceptor.cpp\<close>): the listening socket, its channel and a spare file
  descriptor for the case that the process has no descriptor left. The answers of the kernel are
  arguments; \<open>ac_open\<close> are the descriptors the acceptor owns, each as often as it was opened
  and not yet closed or handed over.
\<close>

record acceptor =
  ac_pid :: thread_id
  ac_socket :: int
  ac_channel :: channel
  ac_listenning :: bool
  ac_hasCallback :: bool
  ac_idleFd :: int
  ac_open :: "int list"

text \<open>An answer of the kernel that is a new descriptor, or \<open>-1\<close>; and \<^verbatim>\<open>::close\<close>.\<close>

definition fd_opened :: "int \<Rightarrow> acceptor \<Rightarrow> acceptor" where
  "fd_opened fd a = (if fd \<ge> 0 then a\<lparr>ac_open := fd # ac_open a\<rparr> else a)"

definition fd_closed :: "int \<Rightarrow> acceptor \<Rightarrow> acceptor" where
  "fd_closed fd a = a\<lparr>ac_open := remove1 fd (ac_open a)\<rparr>"

definition Acceptor_ctor :: "thread_id \<Rightarrow> int \<Rightarrow> int \<Rightarrow> int \<Rightarrow> acceptor res" where
  "Acceptor_ctor pid sockfd idleFd bind_ret =
     res_bind (createNonblockingOrDie sockfd) (\<lambda>fd.
     res_bind (bindOrDie bind_ret) (\<lambda>_.
       Inr (fd_opened idleFd (fd_opened fd
         \<lparr>ac_pid = pid, ac_socket = fd, ac_channel = set_callback ReadCallback (Channel_ctor fd),
          ac_listenning = False, ac_hasCallback = False, ac_idleFd = idleFd, ac_open = []\<rparr>))))"

definition setNewConnectionCallback :: "acceptor \<Rightarrow> acceptor" where
  "setNewConnectionCallback a = a\<lparr>ac_hasCallback := True\<rparr>"

definition Acceptor_listen :: "thread_id \<Rightarrow> int \<Rightarrow> acceptor \<Rightarrow> acceptor res" where
  "Acceptor_listen tid listen_ret a =
     assertInLoopThread tid (ac_pid a)
     (res_bind (listenOrDie listen_ret) (\<lambda>_.
       Inr (a\<lparr>ac_listenning := True, ac_channel := (enableReading (ac_channel a))\<lparr>ch_addedToLoop := True\<rparr>\<rparr>)))"

text \<open>
  The second component is the connection that is passed to \<^verbatim>\<open>newConnectionCallback_\<close>, which then
  owns the descriptor. \<open>second\<close> is what \<^verbatim>\<open>::accept\<close> returns after the spare descriptor is closed,
  \<open>reopened\<close> what \<^verbatim>\<open>::open\<close> returns.
\<close>

definition Acceptor_handleRead :: "thread_id \<Rightarrow> errno + int \<times> sockaddr \<Rightarrow> int \<Rightarrow> int \<Rightarrow> acceptor \<Rightarrow>
    (acceptor \<times> (int \<times> sockaddr) option) res" where
  "Acceptor_handleRead tid answer second reopened a =
     assertInLoopThread tid (ac_pid a)
     (res_bind (Socket_accept answer (InetAddress_ctor zero_sockaddr 0 False False)) (\<lambda>(r, peerAddr).
       case r of
         Inr connfd \<Rightarrow>
           (if ac_hasCallback a then Inr (fd_closed connfd (fd_opened connfd a), Some (connfd, peerAddr))
            else Inr (fd_closed connfd (fd_opened connfd a), None))
       | Inl e \<Rightarrow>
           (if e = EMFILE then
              (let a1 = fd_closed (ac_idleFd a) a;
                   a2 = (fd_opened second a1)\<lparr>ac_idleFd := second\<rparr>;
                   a3 = fd_closed (ac_idleFd a2) a2
               in Inr ((fd_opened reopened a3)\<lparr>ac_idleFd := reopened\<rparr>, None))
            else Inr (a, None))))"

text \<open>The destructor unregisters the channel; then the members are destroyed, and the destructor
  of \<^verbatim>\<open>acceptSocket_\<close> closes its descriptor.\<close>

definition Acceptor_dtor :: "thread_id \<Rightarrow> acceptor \<Rightarrow> acceptor res" where
  "Acceptor_dtor tid a =
     assertInLoopThread tid (ac_pid a)
     (let ch = (disableAll (ac_channel a))\<lparr>ch_addedToLoop := False\<rparr>
      in res_bind (Channel_dtor ch) (\<lambda>_. Inr (fd_closed (ac_socket a) (a\<lparr>ac_channel := ch\<rparr>))))"

section \<open>Descriptors\<close>

text \<open>Between two calls the acceptor owns the listening socket and, if it could be opened, the
  spare descriptor.\<close>

definition acceptor_inv :: "acceptor \<Rightarrow> bool" where
  "acceptor_inv a \<longleftrightarrow> 0 \<le> ac_socket a \<and>
     mset (ac_open a) = {#ac_socket a#} + (if ac_idleFd a \<ge> 0 then {#ac_idleFd a#} else {#})"

definition acceptor_call :: "errno + int \<times> sockaddr \<Rightarrow> int \<Rightarrow> int \<Rightarrow> acceptor \<Rightarrow> acceptor res" where
  "acceptor_call answer second reopened a =
     res_bind (Acceptor_handleRead (ac_pid a) answer second reopened a) (\<lambda>(a', _). Inr a')"

lemma fd_closed_opened: "fd_closed fd (fd_opened fd a) = (if fd \<ge> 0 then a else fd_closed fd a)"
  by (cases a) (auto simp: fd_closed_def fd_opened_def)

lemma fd_fields [simp]:
  "ac_socket (fd_closed fd a) = ac_socket a" "ac_idleFd (fd_closed fd a) = ac_idleFd a"
  "ac_socket (fd_opened fd a) = ac_socket a" "ac_idleFd (fd_opened fd a) = ac_idleFd a"
  by (simp_all add: fd_closed_def fd_opened_def)

lemma fd_closed_fresh: "fd \<notin> set (ac_open a) \<Longrightarrow> fd_closed fd a = a"
  by (simp add: fd_closed_def remove1_idem)

lemma acceptor_inv_nonneg: "acceptor_inv a \<Longrightarrow> fd \<in> set (ac_open a) \<Longrightarrow> 0 \<le> fd"
proof -
  assume a: "acceptor_inv a" "fd \<in> set (ac_open a)"
  from a(2) have "fd \<in># mset (ac_open a)" by simp
  with a(1) show ?thesis by (auto simp: acceptor_inv_def split: if_splits)
qed

lemma acceptor_inv_close_idle:
  assumes "acceptor_inv a"
  shows "mset (ac_open (fd_closed (ac_idleFd a) a)) = {#ac_socket a#}"
  using assms acceptor_inv_nonneg[OF assms, of "ac_idleFd a"]
  by (auto simp: acceptor_inv_def fd_closed_def split: if_splits)

text \<open>
  C29: Whatever the kernel answers, \<^verbatim>\<open>Acceptor::handleRead\<close> leaves the acceptor with exactly the
  descriptors it owned before: the listening socket and, when \<^verbatim>\<open>open("/dev/null")\<close> succeeds, the
  spare one. A new connection is handed to the callback, or closed when there is none; when the process is out
  of descriptors (\<^verbatim>\<open>EMFILE\<close>), the pending connection is accepted on the spare descriptor's slot
  and closed, and the spare descriptor is opened again. Only the errors that
  \<^verbatim>\<open>sockets::accept\<close> treats as fatal abort.
\<close>

theorem Acceptor_handleRead_keeps_descriptors:
  assumes "acceptor_inv a"
    and "case answer of Inl e \<Rightarrow> e \<in> expected_accept_errors | Inr (connfd, _) \<Rightarrow> 0 \<le> connfd"
  shows "\<exists>a'. Acceptor_handleRead (ac_pid a) answer second reopened a =
      Inr (a', case answer of Inr conn \<Rightarrow> if ac_hasCallback a then Some conn else None | Inl _ \<Rightarrow> None) \<and>
    acceptor_inv a' \<and> ac_socket a' = ac_socket a \<and>
    ac_idleFd a' = (if answer = Inl EMFILE then reopened else ac_idleFd a)"
proof (cases answer)
  case (Inr conn)
  obtain connfd peer where c: "conn = (connfd, peer)" by (cases conn)
  then show ?thesis
    using Inr assms by (simp add: Acceptor_handleRead_def Socket_accept_def sockets_accept_def fd_closed_opened)
next
  case (Inl e)
  then have acc: "Socket_accept answer p = Inr (Inl e, p)" for p
    using assms(2) by (auto simp: Socket_accept_def sockets_accept_def expected_accept_errors_def)
  show ?thesis
  proof (cases "e = EMFILE")
    case False
    then show ?thesis using Inl acc assms(1) by (simp add: Acceptor_handleRead_def)
  next
    case True
    let ?a1 = "fd_closed (ac_idleFd a) a"
    let ?a2 = "(fd_opened second ?a1)\<lparr>ac_idleFd := second\<rparr>"
    have 1: "mset (ac_open ?a1) = {#ac_socket a#}" using assms(1) by (rule acceptor_inv_close_idle)
    have s: "0 \<le> ac_socket a" using assms(1) by (simp add: acceptor_inv_def)
    have "fd_closed second ?a2 = ?a1\<lparr>ac_idleFd := second\<rparr>"
    proof (cases "0 \<le> second")
      case False
      then have "second \<notin> set (ac_open ?a1)" using 1 s by (metis set_mset_mset set_mset_single singletonD)
      then show ?thesis using False by (simp add: fd_opened_def fd_closed_fresh)
    qed (simp add: fd_opened_def fd_closed_def)
    then have 2: "mset (ac_open (fd_closed second ?a2)) = {#ac_socket a#}" using 1 by simp
    have "acceptor_inv ((fd_opened reopened (fd_closed second ?a2))\<lparr>ac_idleFd := reopened\<rparr>)"
      using 2 s by (simp add: acceptor_inv_def fd_opened_def)
    then show ?thesis using Inl True acc by (simp add: Acceptor_handleRead_def Let_def)
  qed
qed

theorem Acceptor_handleRead_keeps_descriptors_witness:
  "\<exists>a a'. Acceptor_ctor 1 5 6 0 = Inr a \<and> acceptor_inv a \<and>
     Acceptor_handleRead 1 (Inl EMFILE) 7 6 a = Inr (a', None) \<and> acceptor_inv a'"
proof -
  obtain a where a: "Acceptor_ctor 1 5 6 0 = Inr a" "acceptor_inv a" "ac_pid a = 1"
    by (simp add: Acceptor_ctor_def createNonblockingOrDie_def bindOrDie_def acceptor_inv_def fd_opened_def)
  then show ?thesis
    using Acceptor_handleRead_keeps_descriptors[OF a(2), of "Inl EMFILE" 7 6] by (auto simp: expected_accept_errors_def)
qed

text \<open>
  The destructor of the acceptor does not close the spare descriptor: an acceptor that opened
  one and is destroyed in its loop's thread leaves it open.
\<close>

theorem Acceptor_dtor_leaks_idleFd:
  assumes "acceptor_inv a" "0 \<le> ac_idleFd a" "\<not> ch_eventHandling (ac_channel a)"
  shows "\<exists>a'. Acceptor_dtor (ac_pid a) a = Inr a' \<and> ac_open a' = [ac_idleFd a]"
proof -
  have "mset (remove1 (ac_socket a) (ac_open a)) = {#ac_idleFd a#}"
    using assms(1,2) by (simp add: acceptor_inv_def)
  then have "remove1 (ac_socket a) (ac_open a) = [ac_idleFd a]" by (metis mset_single_iff)
  then show ?thesis
    using assms(3) by (simp add: Acceptor_dtor_def Let_def Channel_dtor_def disableAll_def fd_closed_def)
qed

theorem Acceptor_dtor_leaks_idleFd_witness:
  "\<exists>a a'. Acceptor_ctor 1 5 6 0 = Inr a \<and> Acceptor_dtor 1 a = Inr a' \<and> ac_open a' = [6]"
proof -
  obtain a where a: "Acceptor_ctor 1 5 6 0 = Inr a" "acceptor_inv a" "ac_pid a = 1" "ac_idleFd a = 6"
    "\<not> ch_eventHandling (ac_channel a)"
    by (simp add: Acceptor_ctor_def createNonblockingOrDie_def bindOrDie_def acceptor_inv_def fd_opened_def
        set_callback_def Channel_ctor_def)
  then show ?thesis using Acceptor_dtor_leaks_idleFd[of a] by auto
qed

end
