(* ===== verification/TcpServer.thy ===== *)
theory TcpServer
  imports TcpConnection Acceptor LoopThreadPool
begin

text \<open>
  The TCP server (\<^verbatim>\<open>tcp.muduo/TcpServer.cpp\<close>): an acceptor in the base loop, a pool of I/O loops,
  and the map of live connections. A loop is named by the thread it belongs to. Connection
  objects are numbered in the order of their creation; the map and the functors hold these
  numbers, as the shared pointers of the source do. \<open>sv_queue\<close> holds the functors queued to all
  loops, each with its loop; a loop runs those of its own in order.
\<close>

datatype server_task =
    T_listen int
  | T_connectEstablished nat
  | T_removeConnectionInLoop nat
  | T_connectDestroyed nat
  | T_forceCloseInLoop nat

record tcp_server =
  sv_loop :: thread_id
  sv_name :: string
  sv_ipPort :: string
  sv_acceptor :: acceptor
  sv_pool :: loop_pool
  sv_callbacks :: "conn_callback set"
  sv_hasInit :: bool
  sv_started :: "32 word"
  sv_nextConnId :: int
  sv_connections :: "string \<rightharpoonup> nat"
  sv_objects :: "tcp_connection list"
  sv_queue :: "(thread_id \<times> server_task) list"

definition TcpServer_ctor :: "(bytes \<Rightarrow> string) \<Rightarrow> thread_id \<Rightarrow> sockaddr \<Rightarrow> int \<Rightarrow> int \<Rightarrow> int \<Rightarrow> tcp_server res" where
  "TcpServer_ctor ntop6 loop listenAddr sockfd idleFd bind_ret =
     res_bind (InetAddress_toIpPort ntop6 listenAddr) (\<lambda>ipPort.
     res_bind (Acceptor_ctor loop sockfd idleFd bind_ret) (\<lambda>a.
       Inr \<lparr>sv_loop = loop, sv_name = ipPort, sv_ipPort = ipPort, sv_acceptor = setNewConnectionCallback a,
            sv_pool = Pool_ctor loop loop, sv_callbacks = {}, sv_hasInit = False, sv_started = 0, sv_nextConnId = 1,
            sv_connections = Map.empty, sv_objects = [], sv_queue = []\<rparr>))"

definition TcpServer_setThreadNum :: "int \<Rightarrow> tcp_server \<Rightarrow> tcp_server res" where
  "TcpServer_setThreadNum numThreads s =
     require (0 \<le> numThreads) ''0 <= numThreads'' (Inr (s\<lparr>sv_pool := setThreadNum numThreads (sv_pool s)\<rparr>))"

definition sv_setCallback :: "conn_callback \<Rightarrow> tcp_server \<Rightarrow> tcp_server" where
  "sv_setCallback k s = s\<lparr>sv_callbacks := insert k (sv_callbacks s)\<rparr>"

definition sv_enqueue :: "thread_id \<Rightarrow> server_task \<Rightarrow> tcp_server \<Rightarrow> tcp_server" where
  "sv_enqueue loop task s = s\<lparr>sv_queue := sv_queue s @ [(loop, task)]\<rparr>"

definition sv_runInLoop :: "thread_id \<Rightarrow> thread_id \<Rightarrow> (tcp_server \<Rightarrow> tcp_server res) \<Rightarrow> server_task \<Rightarrow>
    tcp_server \<Rightarrow> tcp_server res" where
  "sv_runInLoop tid loop run task s =
     (if isInLoopThread tid loop then run s else Inr (sv_enqueue loop task s))"

definition sv_listen :: "thread_id \<Rightarrow> int \<Rightarrow> tcp_server \<Rightarrow> tcp_server res" where
  "sv_listen tid listen_ret s =
     res_bind (Acceptor_listen tid listen_ret (sv_acceptor s)) (\<lambda>a. Inr (s\<lparr>sv_acceptor := a\<rparr>))"

definition TcpServer_start :: "thread_id \<Rightarrow> (nat \<Rightarrow> nat) \<Rightarrow> int \<Rightarrow> tcp_server \<Rightarrow> tcp_server res" where
  "TcpServer_start tid startLoop listen_ret s =
     (let (old, started) = getAndSet 1 (sv_started s); s1 = s\<lparr>sv_started := started\<rparr>
      in if old = 0 then
           res_bind (Pool_start tid startLoop (sv_hasInit s1) (sv_pool s1)) (\<lambda>(pool, _).
             require (\<not> ac_listenning (sv_acceptor s1)) ''!acceptor_->listenning()''
             (sv_runInLoop tid (sv_loop s1) (sv_listen tid listen_ret) (T_listen listen_ret) (s1\<lparr>sv_pool := pool\<rparr>)))
         else Inr s1)"

text \<open>An operation on the connection object \<open>i\<close>.\<close>

definition sv_conn :: "nat \<Rightarrow> (tcp_connection \<Rightarrow> tcp_connection res) \<Rightarrow> tcp_server \<Rightarrow> tcp_server res" where
  "sv_conn i f s =
     (if i < length (sv_objects s) then
        res_bind (f (sv_objects s ! i)) (\<lambda>c. Inr (s\<lparr>sv_objects := (sv_objects s)[i := c]\<rparr>))
      else Inl (Null_pointer ''conn''))"

text \<open>\<^verbatim>\<open>snprintf(buf, 64, "-%s#%d", ...)\<close>, and \<^verbatim>\<open>++nextConnId_\<close> on an \<^verbatim>\<open>int\<close>.\<close>

definition connName :: "string \<Rightarrow> string \<Rightarrow> int \<Rightarrow> string" where
  "connName name ipPort n = name @ take 63 (''-'' @ ipPort @ ''#'' @ decimal n)"

definition next_id :: "int \<Rightarrow> int" where
  "next_id n = sint (word_of_int (n + 1) :: 32 word)"

definition newConnection :: "thread_id \<Rightarrow> (tcp_connection \<Rightarrow> tcp_connection res) \<Rightarrow> int \<Rightarrow> nat \<Rightarrow> tcp_server \<Rightarrow> tcp_server res" where
  "newConnection tid onConnection sockfd raw s =
     assertInLoopThread tid (sv_loop s)
     (res_bind (getNextLoop tid (sv_pool s)) (\<lambda>(ioLoop, pool).
      let name = connName (sv_name s) (sv_ipPort s) (sv_nextConnId s); i = length (sv_objects s)
      in res_bind (TcpConnection_ctor ioLoop name sockfd raw) (\<lambda>c.
         let c1 = c\<lparr>tc_callbacks := insert CloseCb (sv_callbacks s \<inter> {ConnectionCb, MessageCb})\<rparr>;
             s1 = s\<lparr>sv_pool := pool, sv_nextConnId := next_id (sv_nextConnId s),
                    sv_objects := sv_objects s @ [c1], sv_connections := (sv_connections s)(name \<mapsto> i)\<rparr>
         in sv_runInLoop tid ioLoop (sv_conn i (connectEstablished tid onConnection)) (T_connectEstablished i) s1)))"

definition removeConnectionInLoop :: "thread_id \<Rightarrow> nat \<Rightarrow> tcp_server \<Rightarrow> tcp_server res" where
  "removeConnectionInLoop tid i s =
     assertInLoopThread tid (sv_loop s)
     (if i < length (sv_objects s) then
        (let c = sv_objects s ! i
         in require (sv_connections s (tc_name c) \<noteq> None) ''n == 1''
            (Inr (sv_enqueue (tc_pid c) (T_connectDestroyed i)
               (s\<lparr>sv_connections := (sv_connections s)(tc_name c := None)\<rparr>))))
      else Inl (Null_pointer ''conn''))"

definition removeConnection :: "thread_id \<Rightarrow> nat \<Rightarrow> tcp_server \<Rightarrow> tcp_server res" where
  "removeConnection tid i s =
     sv_runInLoop tid (sv_loop s) (removeConnectionInLoop tid i) (T_removeConnectionInLoop i) s"

text \<open>\<^verbatim>\<open>TcpConnection::handleClose\<close> of a connection of the server: its last action is the close
  callback, which is \<^verbatim>\<open>removeConnection\<close>.\<close>

definition sv_handleClose :: "thread_id \<Rightarrow> nat \<Rightarrow> tcp_server \<Rightarrow> tcp_server res" where
  "sv_handleClose tid i s = res_bind (sv_conn i (handleClose tid Inr) s) (removeConnection tid i)"

definition sv_forceCloseInLoop :: "thread_id \<Rightarrow> nat \<Rightarrow> tcp_server \<Rightarrow> tcp_server res" where
  "sv_forceCloseInLoop tid i s =
     assertInLoopThread tid (tc_pid (sv_objects s ! i))
     (if tc_state (sv_objects s ! i) = kConnected \<or> tc_state (sv_objects s ! i) = kDisconnecting
      then sv_handleClose tid i s else Inr s)"

definition run_task :: "(tcp_connection \<Rightarrow> tcp_connection res) \<Rightarrow> thread_id \<Rightarrow> server_task \<Rightarrow> tcp_server \<Rightarrow> tcp_server res" where
  "run_task onConnection tid task s =
     (case task of
        T_listen listen_ret \<Rightarrow> sv_listen tid listen_ret s
      | T_connectEstablished i \<Rightarrow> sv_conn i (connectEstablished tid onConnection) s
      | T_removeConnectionInLoop i \<Rightarrow> removeConnectionInLoop tid i s
      | T_connectDestroyed i \<Rightarrow> sv_conn i (connectDestroyed tid onConnection) s
      | T_forceCloseInLoop i \<Rightarrow> sv_forceCloseInLoop tid i s)"

text \<open>
  What happens to a running server: a connection arrives, the loop of a thread runs its next
  functor, the peer of a connection closes (seen by the loop that watches the channel, only while
  it is watched), and some thread calls \<^verbatim>\<open>forceClose\<close> on a connection.
\<close>

datatype server_event = Ev_accept int nat | Ev_run thread_id | Ev_peer_close nat | Ev_forceClose nat

fun take_task :: "thread_id \<Rightarrow> (thread_id \<times> server_task) list \<Rightarrow> (server_task \<times> (thread_id \<times> server_task) list) option" where
  "take_task t [] = None"
| "take_task t ((u, k) # q) = (if u = t then Some (k, q) else map_option (apsnd (Cons (u, k))) (take_task t q))"

definition watched :: "tcp_connection \<Rightarrow> bool" where
  "watched c \<longleftrightarrow> ch_addedToLoop (tc_channel c) \<and> \<not> isNoneEvent (tc_channel c)"

definition server_step :: "(tcp_connection \<Rightarrow> tcp_connection res) \<Rightarrow> server_event \<Rightarrow> tcp_server \<Rightarrow> tcp_server res" where
  "server_step onConnection ev s =
     (case ev of
        Ev_accept sockfd raw \<Rightarrow> newConnection (sv_loop s) onConnection sockfd raw s
      | Ev_run t \<Rightarrow> (case take_task t (sv_queue s) of None \<Rightarrow> Inr s
                    | Some (task, q) \<Rightarrow> run_task onConnection t task (s\<lparr>sv_queue := q\<rparr>))
      | Ev_peer_close i \<Rightarrow> (if i < length (sv_objects s) \<and> watched (sv_objects s ! i)
                           then sv_handleClose (tc_pid (sv_objects s ! i)) i s else Inr s)
      | Ev_forceClose i \<Rightarrow> (if i < length (sv_objects s) \<and>
                              (tc_state (sv_objects s ! i) = kConnected \<or> tc_state (sv_objects s ! i) = kDisconnecting)
                           then res_bind (sv_conn i (\<lambda>c. Inr (c\<lparr>tc_state := kDisconnecting\<rparr>)) s) (\<lambda>s1.
                             Inr (sv_enqueue (tc_pid (sv_objects s ! i)) (T_forceCloseInLoop i) s1))
                           else Inr s))"


section \<open>Connection names\<close>

lemma decimal_id_length: "0 \<le> n \<Longrightarrow> n < 2 ^ 31 \<Longrightarrow> length (decimal n) \<le> 10"
  by (rule decimal_length) simp_all

lemma connName_eq:
  "length ipPort \<le> 51 \<Longrightarrow> 0 \<le> n \<Longrightarrow> n < 2 ^ 31 \<Longrightarrow> connName name ipPort n = name @ ''-'' @ ipPort @ ''#'' @ decimal n"
  using decimal_id_length[of n] by (simp add: connName_def)

lemma connName_inj:
  assumes "length ipPort \<le> 51" "0 \<le> m" "m < 2 ^ 31" "0 \<le> n" "n < 2 ^ 31"
  shows "connName name ipPort m = connName name ipPort n \<longleftrightarrow> m = n"
  using assms by (auto simp: connName_eq) (metis read_int_decimal)

lemma sint_small: "0 \<le> m \<Longrightarrow> m < 2 ^ 31 \<Longrightarrow> sint (word_of_int m :: 32 word) = m"
  by (simp add: signed_of_int signed_take_bit_int_eq_self)

lemma next_id_small: "0 \<le> n \<Longrightarrow> n + 1 < 2 ^ 31 \<Longrightarrow> next_id n = n + 1"
  unfolding next_id_def by (rule sint_small) simp_all

section \<open>The life of a connection\<close>

text \<open>
  A connection of the server goes through five phases: created, with \<^verbatim>\<open>connectEstablished\<close> queued
  to its loop; up; closed by the peer, with its removal queued to the base loop; removed from the
  map, with \<^verbatim>\<open>connectDestroyed\<close> queued to its loop; gone.
\<close>

datatype conn_phase = Starting | Up | Closing | Removed | Gone

fun task_conn :: "server_task \<Rightarrow> nat option" where
  "task_conn (T_listen _) = None"
| "task_conn (T_connectEstablished i) = Some i"
| "task_conn (T_removeConnectionInLoop i) = Some i"
| "task_conn (T_connectDestroyed i) = Some i"
| "task_conn (T_forceCloseInLoop i) = Some i"

definition about :: "nat \<Rightarrow> (thread_id \<times> server_task) list \<Rightarrow> (thread_id \<times> server_task) list" where
  "about i q = filter (\<lambda>(_, k). task_conn k = Some i) q"

fun in_phase :: "conn_phase \<Rightarrow> thread_id \<Rightarrow> nat \<Rightarrow> tcp_connection \<Rightarrow> (thread_id \<times> server_task) list \<Rightarrow> nat option \<Rightarrow> bool" where
  "in_phase Starting base i c q m \<longleftrightarrow> tc_state c = kConnecting \<and> \<not> ch_addedToLoop (tc_channel c) \<and>
     ch_events (tc_channel c) = 0 \<and> q = [(tc_pid c, T_connectEstablished i)] \<and> m = Some i \<and> tc_events c = []"
| "in_phase Up base i c q m \<longleftrightarrow> tc_state c = kConnected \<and> watched c \<and> q = [] \<and> m = Some i \<and> tc_events c = [On_connection True]"
| "in_phase Closing base i c q m \<longleftrightarrow> tc_state c = kConnected \<and> ch_addedToLoop (tc_channel c) \<and> isNoneEvent (tc_channel c) \<and>
     q = [(base, T_removeConnectionInLoop i)] \<and> m = Some i \<and> tc_events c = [On_connection True, On_close]"
| "in_phase Removed base i c q m \<longleftrightarrow> tc_state c = kConnected \<and> ch_addedToLoop (tc_channel c) \<and> isNoneEvent (tc_channel c) \<and>
     q = [(tc_pid c, T_connectDestroyed i)] \<and> m = None \<and> tc_events c = [On_connection True, On_close]"
| "in_phase Gone base i c q m \<longleftrightarrow> tc_state c = kDisconnected \<and> \<not> ch_addedToLoop (tc_channel c) \<and> isNoneEvent (tc_channel c) \<and>
     q = [] \<and> m = None \<and> tc_events c = [On_connection True, On_close, On_connection False]"

definition conn_in :: "tcp_server \<Rightarrow> nat \<Rightarrow> conn_phase \<Rightarrow> bool" where
  "conn_in s i p \<longleftrightarrow> (let c = sv_objects s ! i
     in ConnectionCb \<in> tc_callbacks c \<and> CloseCb \<in> tc_callbacks c \<and>
        in_phase p (sv_loop s) i c (about i (sv_queue s)) (sv_connections s (tc_name c)))"

definition pool_ready :: "loop_pool \<Rightarrow> bool" where
  "pool_ready pool \<longleftrightarrow> lp_started pool \<and> (lp_loops pool = [] \<or> pool_inv pool)"

definition server_inv :: "tcp_server \<Rightarrow> bool" where
  "server_inv s \<longleftrightarrow> lp_basePid (sv_pool s) = sv_loop s \<and> pool_ready (sv_pool s) \<and> ConnectionCb \<in> sv_callbacks s \<and>
     length (sv_ipPort s) \<le> 51 \<and> sv_nextConnId s = int (length (sv_objects s)) + 1 \<and> length (sv_objects s) < 2 ^ 31 - 1 \<and>
     (\<forall>i < length (sv_objects s). tc_name (sv_objects s ! i) = connName (sv_name s) (sv_ipPort s) (int i + 1)) \<and>
     (\<forall>(t, k) \<in> set (sv_queue s). \<exists>i < length (sv_objects s). task_conn k = Some i) \<and>
     (\<forall>i < length (sv_objects s). \<exists>p. conn_in s i p)"

text \<open>The connection callback of the user may change the buffers of the connection and queue
  output, and neither fails nor closes the connection.\<close>

definition quiet :: "(tcp_connection \<Rightarrow> tcp_connection res) \<Rightarrow> bool" where
  "quiet onConnection \<longleftrightarrow> (\<forall>c. \<exists>c'. onConnection c = Inr c' \<and> tc_pid c' = tc_pid c \<and> tc_name c' = tc_name c \<and>
     tc_state c' = tc_state c \<and> tc_channel c' = tc_channel c \<and> tc_callbacks c' = tc_callbacks c \<and> tc_events c' = tc_events c)"

lemma about_append: "about i (q @ q') = about i q @ about i q'"
  by (simp add: about_def)

lemma about_Cons: "about i ((t, k) # q) = (if task_conn k = Some i then (t, k) # about i q else about i q)"
  by (simp add: about_def)

lemma about_Nil [simp]: "about i [] = []"
  by (simp add: about_def)

lemmas about_simps = about_append about_Cons about_Nil

lemma take_task_Some:
  "take_task t q = Some (k, q') \<Longrightarrow> \<exists>q1 q2. q = q1 @ (t, k) # q2 \<and> q' = q1 @ q2"
proof (induction q arbitrary: q')
  case Nil
  then show ?case by simp
next
  case (Cons a q)
  obtain u m where a: "a = (u, m)" by (cases a)
  show ?case
  proof (cases "u = t")
    case True
    then have "a # q = [] @ (t, k) # q \<and> q' = [] @ q" using Cons.prems a by simp
    then show ?thesis by blast
  next
    case False
    then obtain q'' where q'': "take_task t q = Some (k, q'')" "q' = a # q''" using Cons.prems a by auto
    then obtain q1 q2 where "q = q1 @ (t, k) # q2" "q'' = q1 @ q2" using Cons.IH by blast
    then show ?thesis using q'' by (intro exI[of _ "a # q1"] exI[of _ q2]) simp
  qed
qed

lemma server_name_inj:
  assumes "server_inv s" "i < length (sv_objects s)" "j < length (sv_objects s)"
  shows "tc_name (sv_objects s ! i) = tc_name (sv_objects s ! j) \<longleftrightarrow> i = j"
proof -
  have l: "length (sv_ipPort s) \<le> 51" "length (sv_objects s) < 2 ^ 31 - 1"
    and n: "\<And>k. k < length (sv_objects s) \<Longrightarrow> tc_name (sv_objects s ! k) = connName (sv_name s) (sv_ipPort s) (int k + 1)"
    using assms(1) by (simp_all add: server_inv_def)
  have "connName (sv_name s) (sv_ipPort s) (int i + 1) = connName (sv_name s) (sv_ipPort s) (int j + 1) \<longleftrightarrow> int i + 1 = int j + 1"
    using l assms(2,3) by (intro connName_inj) simp_all
  then show ?thesis using n assms(2,3) by simp
qed

text \<open>Changing one connection, its entry in the map and its functors keeps the invariant if the
  connection is again in one of the phases.\<close>

lemma server_inv_update:
  assumes inv: "server_inv s" and i: "i < length (sv_objects s)" and name: "tc_name c' = tc_name (sv_objects s ! i)"
    and m: "\<And>n. n \<noteq> tc_name c' \<Longrightarrow> m n = sv_connections s n"
    and q: "\<And>j. j \<noteq> i \<Longrightarrow> about j q = about j (sv_queue s)"
    and qs: "\<forall>(t, k) \<in> set q. \<exists>j < length (sv_objects s). task_conn k = Some j"
    and c': "conn_in (s\<lparr>sv_objects := (sv_objects s)[i := c'], sv_connections := m, sv_queue := q\<rparr>) i p"
  shows "server_inv (s\<lparr>sv_objects := (sv_objects s)[i := c'], sv_connections := m, sv_queue := q\<rparr>)"
    (is "server_inv ?s")
proof -
  have "\<exists>p. conn_in ?s j p" if j: "j < length (sv_objects s)" for j
  proof (cases "j = i")
    case True
    then show ?thesis using c' by blast
  next
    case False
    then have "tc_name (sv_objects s ! j) \<noteq> tc_name c'" using server_name_inj[OF inv j i] name by simp
    moreover obtain p where "conn_in s j p" using inv j by (auto simp: server_inv_def)
    ultimately have "conn_in ?s j p" using False m q by (simp add: conn_in_def Let_def)
    then show ?thesis ..
  qed
  moreover have "tc_name ((sv_objects s)[i := c'] ! j) = tc_name (sv_objects s ! j)" if "j < length (sv_objects s)" for j
    using name that by (cases "j = i") simp_all
  ultimately show ?thesis using inv qs by (simp add: server_inv_def)
qed


lemma conn_inE:
  assumes "server_inv s" "i < length (sv_objects s)"
  obtains p where "conn_in s i p" "ConnectionCb \<in> tc_callbacks (sv_objects s ! i)" "CloseCb \<in> tc_callbacks (sv_objects s ! i)"
    "in_phase p (sv_loop s) i (sv_objects s ! i) (about i (sv_queue s)) (sv_connections s (tc_name (sv_objects s ! i)))"
  using assms by (auto simp: server_inv_def conn_in_def Let_def)

lemma quietE:
  assumes "quiet f"
  obtains c' where "f c = Inr c'" "tc_pid c' = tc_pid c" "tc_name c' = tc_name c" "tc_state c' = tc_state c"
    "tc_channel c' = tc_channel c" "tc_callbacks c' = tc_callbacks c" "tc_events c' = tc_events c"
  using assms unfolding quiet_def by blast

text \<open>\<^verbatim>\<open>connectEstablished\<close> brings a starting connection up, \<^verbatim>\<open>handleClose\<close> stops the watching, and
  \<^verbatim>\<open>connectDestroyed\<close> ends it.\<close>

lemma connectEstablished_up:
  assumes "quiet f" "tc_state c = kConnecting" "ConnectionCb \<in> tc_callbacks c"
  obtains c' where "connectEstablished (tc_pid c) f c = Inr c'" "tc_pid c' = tc_pid c" "tc_name c' = tc_name c"
    "tc_state c' = kConnected" "watched c'" "tc_callbacks c' = tc_callbacks c" "tc_events c' = tc_events c @ [On_connection True]"
proof -
  let ?c = "tc_update enableReading (c\<lparr>tc_state := kConnected\<rparr>)"
  have or3: "x OR 3 \<noteq> 0" for x :: events
  proof
    assume "x OR 3 = 0"
    then have "bit (x OR 3) 0 = bit (0 :: events) 0" by (rule arg_cong)
    then show False by (simp add: bit_or_iff)
  qed
  have w: "watched (?c\<lparr>tc_events := tc_events c @ [On_connection True]\<rparr>)"
    by (simp add: watched_def tc_update_def enableReading_def isNoneEvent_def kNoneEvent_def kReadEvent_def poll_flags or3)
  obtain c' where "f (?c\<lparr>tc_events := tc_events c @ [On_connection True]\<rparr>) = Inr c'" "tc_pid c' = tc_pid c" "tc_name c' = tc_name c"
    "tc_state c' = kConnected" "tc_channel c' = tc_channel ?c" "tc_callbacks c' = tc_callbacks c"
    "tc_events c' = tc_events c @ [On_connection True]"
    using quietE[OF assms(1), of "?c\<lparr>tc_events := tc_events c @ [On_connection True]\<rparr>"] by (auto simp: tc_update_def)
  then show thesis
    using that[of c'] assms w by (simp add: connectEstablished_def call_back_def tc_update_def watched_def)
qed

lemma handleClose_closes:
  assumes "tc_state c = kConnected" "CloseCb \<in> tc_callbacks c"
  obtains c' where "handleClose (tc_pid c) Inr c = Inr c'" "tc_pid c' = tc_pid c" "tc_name c' = tc_name c"
    "tc_state c' = kConnected" "ch_addedToLoop (tc_channel c')" "isNoneEvent (tc_channel c')" "tc_callbacks c' = tc_callbacks c"
    "tc_events c' = tc_events c @ [On_close]"
  using assms that by (simp add: handleClose_def call_back_def tc_update_def disableAll_def isNoneEvent_def)

lemma connectDestroyed_ends:
  assumes "quiet f" "tc_state c = kConnected" "ConnectionCb \<in> tc_callbacks c"
  obtains c' where "connectDestroyed (tc_pid c) f c = Inr c'" "tc_pid c' = tc_pid c" "tc_name c' = tc_name c"
    "tc_state c' = kDisconnected" "\<not> ch_addedToLoop (tc_channel c')" "isNoneEvent (tc_channel c')" "tc_callbacks c' = tc_callbacks c"
    "tc_events c' = tc_events c @ [On_connection False]"
proof -
  let ?c = "(tc_update disableAll (c\<lparr>tc_state := kDisconnected\<rparr>))\<lparr>tc_events := tc_events c @ [On_connection False]\<rparr>"
  obtain c1 where "f ?c = Inr c1" "tc_pid c1 = tc_pid c" "tc_name c1 = tc_name c" "tc_state c1 = kDisconnected"
    "tc_channel c1 = tc_channel ?c" "tc_callbacks c1 = tc_callbacks c" "tc_events c1 = tc_events c @ [On_connection False]"
    using quietE[OF assms(1), of ?c] by (auto simp: tc_update_def)
  then show thesis
    using that[of "c1\<lparr>tc_channel := (tc_channel c1)\<lparr>ch_addedToLoop := False\<rparr>\<rparr>"] assms
    by (simp add: connectDestroyed_def call_back_def tc_update_def tc_remove_def disableAll_def isNoneEvent_def)
qed


section \<open>Steps of the server\<close>

lemma getNextLoop_ready:
  assumes "pool_ready pool"
  obtains l pool' where "getNextLoop (lp_basePid pool) pool = Inr (l, pool')" "pool_ready pool'" "lp_basePid pool' = lp_basePid pool"
proof (cases "lp_loops pool = []")
  case True
  then show ?thesis using assms that[of "lp_baseLoop pool" pool] by (simp add: getNextLoop_def pool_ready_def)
next
  case False
  then have inv: "pool_inv pool" using assms by (simp add: pool_ready_def)
  let ?p = "pool\<lparr>lp_next := (lp_next pool + 1) mod int (length (lp_loops pool))\<rparr>"
  have "pool_ready ?p" using getNextLoop_eq(2)[OF inv] by (simp add: pool_ready_def pool_inv_def)
  then show ?thesis using that getNextLoop_eq(1)[OF inv] by simp
qed

text \<open>A functor that is run was the only one queued for its connection, and leaves the others'
  functors alone.\<close>

lemma taken_task:
  assumes "take_task t q = Some (k, q')" "task_conn k = Some i" "\<And>x y z. about i q \<noteq> x # y # z"
  shows "about i q = [(t, k)]" "about i q' = []" "\<And>j. j \<noteq> i \<Longrightarrow> about j q' = about j q" "set q' \<subseteq> set q"
proof -
  obtain q1 q2 where q: "q = q1 @ (t, k) # q2" "q' = q1 @ q2" using take_task_Some[OF assms(1)] by blast
  then have "about i q = about i q1 @ (t, k) # about i q2" using assms(2) by (simp add: about_simps)
  then have "about i q1 = []" "about i q2 = []" using assms(3)
    by (metis append_Cons append_Nil neq_Nil_conv) (metis \<open>about i q = _\<close> append_Cons append_Nil assms(3) neq_Nil_conv)
  then show "about i q = [(t, k)]" "about i q' = []" using q assms(2) by (simp_all add: about_simps)
  show "\<And>j. j \<noteq> i \<Longrightarrow> about j q' = about j q" "set q' \<subseteq> set q" using q assms(2) by (auto simp: about_simps)
qed

lemma in_phase_single: "in_phase p b i c q m \<Longrightarrow> q \<noteq> x # y # z"
  by (cases p) auto

lemma removeConnection_ok:
  assumes inv: "server_inv s" and i: "i < length (sv_objects s)" and up: "in_phase Up (sv_loop s) i (sv_objects s ! i)
      (about i (sv_queue s)) (sv_connections s (tc_name (sv_objects s ! i)))"
    and cb: "ConnectionCb \<in> tc_callbacks (sv_objects s ! i)" "CloseCb \<in> tc_callbacks (sv_objects s ! i)"
  shows "\<exists>s'. sv_handleClose (tc_pid (sv_objects s ! i)) i s = Inr s' \<and> server_inv s' \<and>
    length (sv_objects s') = length (sv_objects s)"
proof -
  let ?c = "sv_objects s ! i"
  obtain c' where c': "handleClose (tc_pid ?c) Inr ?c = Inr c'" "tc_pid c' = tc_pid ?c" "tc_name c' = tc_name ?c"
    "tc_state c' = kConnected" "ch_addedToLoop (tc_channel c')" "isNoneEvent (tc_channel c')" "tc_callbacks c' = tc_callbacks ?c"
    "tc_events c' = tc_events ?c @ [On_close]"
    using handleClose_closes[of ?c] up cb by auto
  have qs: "\<forall>(t, k) \<in> set (sv_queue s). \<exists>j < length (sv_objects s). task_conn k = Some j"
    using inv by (simp add: server_inv_def)
  show ?thesis
  proof (cases "tc_pid ?c = sv_loop s")
    case True
    let ?s = "s\<lparr>sv_objects := (sv_objects s)[i := c'], sv_connections := (sv_connections s)(tc_name c' := None),
      sv_queue := sv_queue s @ [(tc_pid c', T_connectDestroyed i)]\<rparr>"
    have "conn_in ?s i Removed" using i c' up cb by (simp add: conn_in_def about_simps)
    then have "server_inv ?s" using inv i c'(3) qs by (intro server_inv_update) (auto simp: about_simps)
    then show ?thesis using True i c' up
      by (simp add: sv_handleClose_def sv_conn_def removeConnection_def removeConnectionInLoop_def sv_runInLoop_def
          isInLoopThread_def sv_enqueue_def)
  next
    case False
    let ?s = "s\<lparr>sv_objects := (sv_objects s)[i := c'], sv_connections := sv_connections s,
      sv_queue := sv_queue s @ [(sv_loop s, T_removeConnectionInLoop i)]\<rparr>"
    have "conn_in ?s i Closing" using i c' up cb by (simp add: conn_in_def about_simps)
    then have "server_inv ?s" using inv i c'(3) qs by (intro server_inv_update) (auto simp: about_simps)
    then show ?thesis using False i c' up
      by (simp add: sv_handleClose_def sv_conn_def removeConnection_def sv_runInLoop_def isInLoopThread_def sv_enqueue_def)
  qed
qed


lemma sv_update_swap: "s\<lparr>sv_queue := q, sv_objects := os\<rparr> = s\<lparr>sv_objects := os, sv_queue := q\<rparr>"
  "s\<lparr>sv_queue := q, sv_connections := m\<rparr> = s\<lparr>sv_connections := m, sv_queue := q\<rparr>"
  "s\<lparr>sv_connections := m, sv_objects := os\<rparr> = s\<lparr>sv_objects := os, sv_connections := m\<rparr>" for s :: tcp_server
  by simp_all

lemma run_task_ok:
  assumes inv: "server_inv s" and f: "quiet f" and take: "take_task t (sv_queue s) = Some (k, q)"
  shows "\<exists>s'. run_task f t k (s\<lparr>sv_queue := q\<rparr>) = Inr s' \<and> server_inv s' \<and> length (sv_objects s') = length (sv_objects s)"
proof -
  have qs: "\<forall>(t, k) \<in> set (sv_queue s). \<exists>j < length (sv_objects s). task_conn k = Some j"
    using inv by (simp add: server_inv_def)
  have "(t, k) \<in> set (sv_queue s)" using take_task_Some[OF take] by auto
  then obtain i where i: "i < length (sv_objects s)" "task_conn k = Some i" using qs by auto
  let ?c = "sv_objects s ! i"
  obtain p where p: "in_phase p (sv_loop s) i ?c (about i (sv_queue s)) (sv_connections s (tc_name ?c))"
    and cb: "ConnectionCb \<in> tc_callbacks ?c" "CloseCb \<in> tc_callbacks ?c"
    using conn_inE[OF inv i(1)] by metis
  note t = taken_task[OF take i(2) in_phase_single[OF p]]
  have qs': "\<forall>(t, k) \<in> set q. \<exists>j < length (sv_objects s). task_conn k = Some j" using t(4) qs by blast
  show ?thesis
  proof (cases p)
    case Starting
    then have k: "k = T_connectEstablished i" "t = tc_pid ?c" using p t(1) by simp_all
    obtain c' where c': "connectEstablished (tc_pid ?c) f ?c = Inr c'" "tc_pid c' = tc_pid ?c" "tc_name c' = tc_name ?c"
      "tc_state c' = kConnected" "watched c'" "tc_callbacks c' = tc_callbacks ?c" "tc_events c' = tc_events ?c @ [On_connection True]"
      using connectEstablished_up[OF f, of ?c] p Starting cb by auto
    let ?s = "s\<lparr>sv_objects := (sv_objects s)[i := c'], sv_connections := sv_connections s, sv_queue := q\<rparr>"
    have "conn_in ?s i Up" using i c' p Starting cb t(2) by (simp add: conn_in_def)
    then have "server_inv ?s" using inv i(1) c'(3) qs' t(3) by (intro server_inv_update) auto
    then show ?thesis using k i c'(1) by (simp add: run_task_def sv_conn_def sv_update_swap)
  next
    case Up
    then show ?thesis using p t(1) by simp
  next
    case Closing
    then have k: "k = T_removeConnectionInLoop i" "t = sv_loop s" using p t(1) by simp_all
    let ?s = "s\<lparr>sv_objects := (sv_objects s)[i := ?c], sv_connections := (sv_connections s)(tc_name ?c := None),
      sv_queue := q @ [(tc_pid ?c, T_connectDestroyed i)]\<rparr>"
    have "conn_in ?s i Removed" using i p Closing cb t(2) by (simp add: conn_in_def about_simps)
    then have "server_inv ?s" using inv i(1) qs' t(3) by (intro server_inv_update) (auto simp: about_simps)
    then show ?thesis using k i p Closing by (simp add: run_task_def removeConnectionInLoop_def sv_enqueue_def Let_def sv_update_swap)
  next
    case Removed
    then have k: "k = T_connectDestroyed i" "t = tc_pid ?c" using p t(1) by simp_all
    obtain c' where c': "connectDestroyed (tc_pid ?c) f ?c = Inr c'" "tc_pid c' = tc_pid ?c" "tc_name c' = tc_name ?c"
      "tc_state c' = kDisconnected" "\<not> ch_addedToLoop (tc_channel c')" "isNoneEvent (tc_channel c')"
      "tc_callbacks c' = tc_callbacks ?c" "tc_events c' = tc_events ?c @ [On_connection False]"
      using connectDestroyed_ends[OF f, of ?c] p Removed cb by auto
    let ?s = "s\<lparr>sv_objects := (sv_objects s)[i := c'], sv_connections := sv_connections s, sv_queue := q\<rparr>"
    have "conn_in ?s i Gone" using i c' p Removed cb t(2) by (simp add: conn_in_def)
    then have "server_inv ?s" using inv i(1) c'(3) qs' t(3) by (intro server_inv_update) auto
    then show ?thesis using k i c'(1) by (simp add: run_task_def sv_conn_def sv_update_swap)
  next
    case Gone
    then show ?thesis using p t(1) by simp
  qed
qed

lemma server_inv_append:
  assumes inv: "server_inv s" and len: "Suc (length (sv_objects s)) < 2 ^ 31 - 1"
    and pool: "pool_ready pool" "lp_basePid pool = sv_loop s"
    and name: "tc_name c = connName (sv_name s) (sv_ipPort s) (sv_nextConnId s)"
    and q: "\<And>j. j \<noteq> length (sv_objects s) \<Longrightarrow> about j q = about j (sv_queue s)"
    and qs: "\<forall>(t, k) \<in> set q. \<exists>j < Suc (length (sv_objects s)). task_conn k = Some j"
  defines "s' \<equiv> s\<lparr>sv_pool := pool, sv_nextConnId := next_id (sv_nextConnId s), sv_objects := sv_objects s @ [c],
      sv_connections := (sv_connections s)(tc_name c \<mapsto> length (sv_objects s)), sv_queue := q\<rparr>"
  assumes c: "conn_in s' (length (sv_objects s)) p"
  shows "server_inv s'"
proof -
  let ?n = "length (sv_objects s)"
  have id: "sv_nextConnId s = int ?n + 1" and ip: "length (sv_ipPort s) \<le> 51"
    and names: "\<And>i. i < ?n \<Longrightarrow> tc_name (sv_objects s ! i) = connName (sv_name s) (sv_ipPort s) (int i + 1)"
    using inv by (simp_all add: server_inv_def)
  have "\<exists>p. conn_in s' j p" if j: "j < Suc ?n" for j
  proof (cases "j = ?n")
    case True
    then show ?thesis using c by blast
  next
    case False
    then have j': "j < ?n" using j by simp
    have "connName (sv_name s) (sv_ipPort s) (int j + 1) \<noteq> connName (sv_name s) (sv_ipPort s) (int ?n + 1)"
      using connName_inj[OF ip, of "int j + 1" "int ?n + 1"] j' len by simp
    then have "tc_name (sv_objects s ! j) \<noteq> tc_name c" using names[OF j'] name id by simp
    moreover obtain p where "conn_in s j p" using inv j' by (auto simp: server_inv_def)
    ultimately have "conn_in s' j p" using False j' q unfolding s'_def by (simp add: conn_in_def Let_def nth_append)
    then show ?thesis ..
  qed
  moreover have "next_id (sv_nextConnId s) = int (Suc ?n) + 1"
    using id len next_id_small[of "int ?n + 1"] by simp
  moreover have "tc_name ((sv_objects s @ [c]) ! j) = connName (sv_name s) (sv_ipPort s) (int j + 1)" if "j < Suc ?n" for j
    using that names[of j] name id by (cases "j = ?n") (auto simp: nth_append)
  ultimately show ?thesis using inv pool len qs unfolding s'_def by (simp add: server_inv_def)
qed


lemma newConnection_ok:
  assumes inv: "server_inv s" and f: "quiet f" and len: "Suc (length (sv_objects s)) < 2 ^ 31 - 1"
  shows "\<exists>s'. newConnection (sv_loop s) f sockfd raw s = Inr s' \<and> server_inv s' \<and>
    length (sv_objects s') = Suc (length (sv_objects s))"
proof -
  let ?n = "length (sv_objects s)" and ?name = "connName (sv_name s) (sv_ipPort s) (sv_nextConnId s)"
  have base: "lp_basePid (sv_pool s) = sv_loop s" "pool_ready (sv_pool s)" "ConnectionCb \<in> sv_callbacks s"
    and qs: "\<forall>(t, k) \<in> set (sv_queue s). \<exists>j < ?n. task_conn k = Some j"
    using inv by (simp_all add: server_inv_def)
  obtain l pool where pool: "getNextLoop (sv_loop s) (sv_pool s) = Inr (l, pool)" "pool_ready pool" "lp_basePid pool = sv_loop s"
    using getNextLoop_ready[OF base(2)] base(1) by metis
  obtain c0 where c0: "TcpConnection_ctor l ?name sockfd raw = Inr c0" "tc_state c0 = kConnecting" "tc_pid c0 = l"
    "tc_name c0 = ?name" "ch_events (tc_channel c0) = 0"
    using TcpConnection_ctor_ok[of l ?name sockfd raw] by blast
  have c0': "tc_events c0 = []" "\<not> ch_addedToLoop (tc_channel c0)"
    using c0(1) by (auto simp: TcpConnection_ctor_def set_callback_def Channel_ctor_def)
  let ?c = "c0\<lparr>tc_callbacks := insert CloseCb (sv_callbacks s \<inter> {ConnectionCb, MessageCb})\<rparr>"
  let ?s = "\<lambda>c q. s\<lparr>sv_pool := pool, sv_nextConnId := next_id (sv_nextConnId s), sv_objects := sv_objects s @ [c],
      sv_connections := (sv_connections s)(tc_name c \<mapsto> ?n), sv_queue := q\<rparr>"
  have nq: "about ?n (sv_queue s) = []" using qs by (auto simp: about_def filter_empty_conv)
  have qs': "\<forall>(t, k) \<in> set (sv_queue s). \<exists>j < Suc ?n. task_conn k = Some j" using qs by (auto intro: less_SucI)
  show ?thesis
  proof (cases "l = sv_loop s")
    case True
    obtain c' where c': "connectEstablished l f ?c = Inr c'" "tc_pid c' = l" "tc_name c' = ?name"
      "tc_state c' = kConnected" "watched c'" "tc_callbacks c' = tc_callbacks ?c" "tc_events c' = [On_connection True]"
      using connectEstablished_up[OF f, of ?c] c0 c0' base(3) by auto
    have "conn_in (?s c' (sv_queue s)) ?n Up" using c' base(3) nq by (simp add: conn_in_def Let_def)
    then have "server_inv (?s c' (sv_queue s))" using inv len pool c'(3) qs' by (intro server_inv_append) auto
    then show ?thesis using pool(1) c0(1) c'(1,3) True
      by (simp add: newConnection_def sv_runInLoop_def isInLoopThread_def sv_conn_def Let_def sv_update_swap)
  next
    case False
    let ?q = "sv_queue s @ [(l, T_connectEstablished ?n)]"
    have "conn_in (?s ?c ?q) ?n Starting" using c0 c0' base(3) nq by (simp add: conn_in_def Let_def about_simps)
    then have "server_inv (?s ?c ?q)" using inv len pool c0(4) qs' by (intro server_inv_append) (auto simp: about_simps)
    then show ?thesis using pool(1) c0(1,4) False
      by (simp add: newConnection_def sv_runInLoop_def isInLoopThread_def sv_enqueue_def Let_def)
  qed
qed

definition accepts :: "server_event list \<Rightarrow> nat" where
  "accepts evs = length (filter (\<lambda>ev. case ev of Ev_accept _ _ \<Rightarrow> True | _ \<Rightarrow> False) evs)"

definition no_forceClose :: "server_event list \<Rightarrow> bool" where
  "no_forceClose evs \<longleftrightarrow> (\<forall>i. Ev_forceClose i \<notin> set evs)"

lemma sv_conn_loop: "sv_conn i g s = Inr s' \<Longrightarrow> sv_loop s' = sv_loop s"
  by (auto simp: sv_conn_def split: if_splits)

lemma removeConnectionInLoop_loop: "removeConnectionInLoop t i s = Inr s' \<Longrightarrow> sv_loop s' = sv_loop s"
  by (auto simp: removeConnectionInLoop_def sv_enqueue_def Let_def split: if_splits)

lemma sv_handleClose_loop: "sv_handleClose t i s = Inr s' \<Longrightarrow> sv_loop s' = sv_loop s"
  by (auto simp: sv_handleClose_def removeConnection_def sv_runInLoop_def sv_enqueue_def
      dest!: sv_conn_loop removeConnectionInLoop_loop split: if_splits)

lemma run_task_loop: "run_task f t k s = Inr s' \<Longrightarrow> sv_loop s' = sv_loop s"
  by (cases k) (auto simp: run_task_def sv_listen_def sv_forceCloseInLoop_def
      dest: sv_conn_loop removeConnectionInLoop_loop sv_handleClose_loop split: if_splits)

lemma newConnection_loop: "newConnection t f fd raw s = Inr s' \<Longrightarrow> sv_loop s' = sv_loop s"
  by (auto simp: newConnection_def sv_runInLoop_def sv_enqueue_def Let_def dest: sv_conn_loop split: if_splits)

lemma server_step_loop: "server_step f ev s = Inr s' \<Longrightarrow> sv_loop s' = sv_loop s"
proof (cases ev)
  case (Ev_run t)
  moreover assume "server_step f ev s = Inr s'"
  ultimately show ?thesis
    using run_task_loop[of f t _ "s\<lparr>sv_queue := _\<rparr>" s'] by (auto simp: server_step_def split: option.splits)
qed (auto simp: server_step_def sv_enqueue_def dest: newConnection_loop sv_handleClose_loop sv_conn_loop split: if_splits)

lemma server_run_loop: "res_fold (server_step f) evs s = Inr s' \<Longrightarrow> sv_loop s' = sv_loop s"
  by (induction evs arbitrary: s) (auto dest: server_step_loop)

lemma server_step_ok:
  assumes inv: "server_inv s" and f: "quiet f" and ev: "no_forceClose [ev]" "length (sv_objects s) + accepts [ev] < 2 ^ 31 - 1"
  shows "\<exists>s'. server_step f ev s = Inr s' \<and> server_inv s' \<and> length (sv_objects s') = length (sv_objects s) + accepts [ev]"
proof (cases ev)
  case (Ev_accept fd raw)
  then show ?thesis using newConnection_ok[OF inv f, of fd raw] ev(2) by (simp add: server_step_def accepts_def)
next
  case (Ev_run t)
  then show ?thesis
    using run_task_ok[OF inv f, of t] inv by (auto simp: server_step_def accepts_def split: option.splits)
next
  case (Ev_peer_close i)
  show ?thesis
  proof (cases "i < length (sv_objects s) \<and> watched (sv_objects s ! i)")
    case True
    then obtain p where p: "in_phase p (sv_loop s) i (sv_objects s ! i) (about i (sv_queue s))
        (sv_connections s (tc_name (sv_objects s ! i)))"
      "ConnectionCb \<in> tc_callbacks (sv_objects s ! i)" "CloseCb \<in> tc_callbacks (sv_objects s ! i)"
      using conn_inE[OF inv] by metis
    moreover from this(1) True have "p = Up" by (cases p) (auto simp: watched_def)
    ultimately show ?thesis
      using True Ev_peer_close removeConnection_ok[OF inv, of i] by (simp add: server_step_def accepts_def)
  next
    case False
    then show ?thesis using Ev_peer_close inv by (auto simp: server_step_def accepts_def)
  qed
next
  case (Ev_forceClose i)
  then show ?thesis using ev(1) by (simp add: no_forceClose_def)
qed

lemma server_run_ok:
  assumes "server_inv s" "quiet f" "no_forceClose evs" "length (sv_objects s) + accepts evs < 2 ^ 31 - 1"
  shows "\<exists>s'. res_fold (server_step f) evs s = Inr s' \<and> server_inv s' \<and> length (sv_objects s') = length (sv_objects s) + accepts evs"
  using assms
proof (induction evs arbitrary: s)
  case Nil
  then show ?case by (simp add: accepts_def)
next
  case (Cons ev evs)
  have a: "accepts (ev # evs) = accepts [ev] + accepts evs" by (simp add: accepts_def)
  then obtain s1 where s1: "server_step f ev s = Inr s1" "server_inv s1" "length (sv_objects s1) = length (sv_objects s) + accepts [ev]"
    using server_step_ok[OF Cons.prems(1,2), of ev] Cons.prems(3,4) by (auto simp: no_forceClose_def)
  moreover have "no_forceClose evs" using Cons.prems(3) by (simp add: no_forceClose_def)
  ultimately show ?case using Cons.IH[OF s1(2) Cons.prems(2)] Cons.prems(4) a by (simp add: add.assoc)
qed


section \<open>A started server\<close>

lemma ipPort_length:
  assumes "sa_family a = AF_INET \<or> sa_family a = AF_INET6" "\<forall>bs. length (ntop6 bs) \<le> 45"
  obtains ipPort where "InetAddress_toIpPort ntop6 a = Inr ipPort" "length ipPort \<le> 51"
proof -
  let ?ip = "if sa_family a = AF_INET then inet_ntop4 (sa_word4 a) else ntop6 (sa_addr6 a)"
  have "length (?ip @ '':'' @ decimal (uint (InetAddress_toPort a))) \<le> 51"
    using inet_ntop4_length[of "sa_word4 a"] assms(2)[rule_format, of "sa_addr6 a"]
      decimal_port_length[of "InetAddress_toPort a"] by (simp add: add_mono)
  then show thesis using that InetAddress_toIpPort_eq[OF assms] by blast
qed

definition started_server :: "(bytes \<Rightarrow> string) \<Rightarrow> thread_id \<Rightarrow> sockaddr \<Rightarrow> int \<Rightarrow> int \<Rightarrow> int \<Rightarrow> int \<Rightarrow>
    (nat \<Rightarrow> nat) \<Rightarrow> int \<Rightarrow> tcp_server res" where
  "started_server ntop6 loop addr sockfd idleFd bind_ret numThreads startLoop listen_ret =
     res_bind (TcpServer_ctor ntop6 loop addr sockfd idleFd bind_ret) (\<lambda>s.
     res_bind (TcpServer_setThreadNum numThreads (sv_setCallback ConnectionCb s)) (\<lambda>s1.
       TcpServer_start loop startLoop listen_ret s1))"

lemma started_server_inv:
  assumes "sa_family addr = AF_INET \<or> sa_family addr = AF_INET6" "\<forall>bs. length (ntop6 bs) \<le> 45"
    and "0 \<le> sockfd" "0 \<le> numThreads" "numThreads < 2 ^ 31" "0 \<le> listen_ret"
  shows "\<exists>s. started_server ntop6 loop addr sockfd idleFd bind_ret numThreads startLoop listen_ret = Inr s \<and>
    server_inv s \<and> sv_objects s = [] \<and> sv_queue s = [] \<and> sv_loop s = loop \<and> sv_connections s = Map.empty \<and>
    lp_loops (sv_pool s) = map startLoop [0..<nat numThreads] \<and> lp_baseLoop (sv_pool s) = loop"
proof -
  obtain ipPort where ip: "InetAddress_toIpPort ntop6 addr = Inr ipPort" "length ipPort \<le> 51"
    using ipPort_length[OF assms(1,2)] by blast
  have *: "nat numThreads < 2 ^ 31" using assms(4,5) by (simp add: nat_less_iff)
  show ?thesis
    using ip assms(3,4,6) *
    by (auto simp: started_server_def TcpServer_ctor_def Acceptor_ctor_def createNonblockingOrDie_def bindOrDie_def
        sv_setCallback_def TcpServer_setThreadNum_def setThreadNum_def TcpServer_start_def getAndSet_def Pool_start_def
        Pool_ctor_def sv_runInLoop_def isInLoopThread_def sv_listen_def Acceptor_listen_def listenOrDie_def
        setNewConnectionCallback_def fd_opened_def server_inv_def pool_ready_def pool_inv_def Let_def)
qed

text \<open>
  C7: The life of connections in a server with any number of I/O threads. After \<^verbatim>\<open>start\<close>, for
  every interleaving of arriving connections, closing peers and functors run by the loops, no
  assertion of the server or of a connection fails and no callback is missing; every connection
  is at every moment in one of five phases, in which it is in the map under its name and under no other exactly until
  its removal ran in the base loop; and the user's connection callback, the close callback
  and the connection callback run in this order, each at most once, the last one when the
  connection is gone. (The peer of a connection is seen to close only while its channel is watched;
  the user's callback does not fail; \<^verbatim>\<open>forceClose\<close> is excluded.)
\<close>

theorem TcpServer_connection_lifecycle:
  assumes "sa_family addr = AF_INET \<or> sa_family addr = AF_INET6" "\<forall>bs. length (ntop6 bs) \<le> 45"
    and "0 \<le> sockfd" "0 \<le> numThreads" "numThreads < 2 ^ 31" "0 \<le> listen_ret"
    and "quiet onConnection" "no_forceClose evs" "accepts evs < 2 ^ 31 - 1"
  shows "\<exists>s s'. started_server ntop6 loop addr sockfd idleFd bind_ret numThreads startLoop listen_ret = Inr s \<and>
    res_fold (server_step onConnection) evs s = Inr s' \<and> length (sv_objects s') = accepts evs \<and>
    distinct (map tc_name (sv_objects s')) \<and>
    (\<forall>i < accepts evs. \<exists>p. in_phase p loop i (sv_objects s' ! i) (about i (sv_queue s')) (sv_connections s' (tc_name (sv_objects s' ! i))))"
proof -
  obtain s where s: "started_server ntop6 loop addr sockfd idleFd bind_ret numThreads startLoop listen_ret = Inr s"
    "server_inv s" "sv_objects s = []" "sv_loop s = loop"
    using started_server_inv[OF assms(1-6)] by blast
  obtain s' where s': "res_fold (server_step onConnection) evs s = Inr s'" "server_inv s'" "length (sv_objects s') = accepts evs"
    using server_run_ok[OF s(2) assms(7,8)] assms(9) s(3) by auto
  have "sv_loop s' = loop" using server_run_loop[OF s'(1)] s(4) by simp
  moreover have "distinct (map tc_name (sv_objects s'))"
    using server_name_inj[OF s'(2)] by (simp add: distinct_conv_nth)
  ultimately show ?thesis using s s' conn_inE[OF s'(2)] by metis
qed


theorem TcpServer_connection_lifecycle_witness:
  "\<exists>s s'. started_server (\<lambda>_. ''::'') 1 (InetAddress_ctor zero_sockaddr 80 False False) 5 6 0 2 (\<lambda>i. i + 2) 0 = Inr s \<and>
    res_fold (server_step Inr) [Ev_accept 8 0, Ev_run 2, Ev_peer_close 0, Ev_run 1, Ev_run 2] s = Inr s' \<and> length (sv_objects s') = 1"
proof -
  have "quiet Inr" by (simp add: quiet_def)
  moreover have "no_forceClose [Ev_accept 8 0, Ev_run 2, Ev_peer_close 0, Ev_run 1, Ev_run 2]" by (simp add: no_forceClose_def)
  moreover have "accepts [Ev_accept 8 0, Ev_run 2, Ev_peer_close 0, Ev_run 1, Ev_run 2] = 1" by (simp add: accepts_def)
  moreover have "sa_family (InetAddress_ctor zero_sockaddr 80 False False) = AF_INET" by (simp add: InetAddress_ctor_def)
  ultimately show ?thesis
    using TcpServer_connection_lifecycle[of "InetAddress_ctor zero_sockaddr 80 False False" "\<lambda>_. ''::''" 5 2 0 Inr
        "[Ev_accept 8 0, Ev_run 2, Ev_peer_close 0, Ev_run 1, Ev_run 2]" 1 6 0 "\<lambda>i. i + 2"] by auto
qed

section \<open>Where the life of a connection goes wrong\<close>

text \<open>
  C38: Two calls of \<^verbatim>\<open>forceClose\<close> on an established connection abort the server.
  \<^verbatim>\<open>TcpConnection::handleClose\<close> leaves the state at \<^verbatim>\<open>kDisconnecting\<close>, so the second
  \<^verbatim>\<open>forceCloseInLoop\<close> closes again, and the second removal does not find the connection in the
  map: the assertion \<^verbatim>\<open>n == 1\<close> fails.
\<close>

theorem forceClose_twice_aborts:
  assumes "i < length (sv_objects s)" "tc_state (sv_objects s ! i) = kConnected" "CloseCb \<in> tc_callbacks (sv_objects s ! i)"
    and "tc_pid (sv_objects s ! i) = sv_loop s" "sv_connections s (tc_name (sv_objects s ! i)) = Some i" "sv_queue s = []"
  shows "res_fold (server_step f) [Ev_forceClose i, Ev_forceClose i, Ev_run (sv_loop s), Ev_run (sv_loop s)] s =
    Inl (Assert_failed ''n == 1'')"
  using assms by (simp add: server_step_def sv_conn_def sv_enqueue_def run_task_def sv_forceCloseInLoop_def sv_handleClose_def
      handleClose_def call_back_def tc_update_def removeConnection_def sv_runInLoop_def isInLoopThread_def removeConnectionInLoop_def)

lemma one_connection:
  "\<exists>s. started_server (\<lambda>_. ''::'') 1 (InetAddress_ctor zero_sockaddr 80 False False) 5 6 0 0 id 0 = Inr s \<and>
    (\<exists>s1. newConnection 1 Inr 8 0 s = Inr s1 \<and> length (sv_objects s1) = 1 \<and> tc_state (sv_objects s1 ! 0) = kConnected \<and>
      CloseCb \<in> tc_callbacks (sv_objects s1 ! 0) \<and> tc_pid (sv_objects s1 ! 0) = 1 \<and> sv_loop s1 = 1 \<and>
      sv_connections s1 (tc_name (sv_objects s1 ! 0)) = Some 0 \<and> sv_queue s1 = [])"
proof -
  have "sa_family (InetAddress_ctor zero_sockaddr 80 False False) = AF_INET" by (simp add: InetAddress_ctor_def)
  then obtain s where s: "started_server (\<lambda>_. ''::'') 1 (InetAddress_ctor zero_sockaddr 80 False False) 5 6 0 0 id 0 = Inr s"
    "server_inv s" "sv_objects s = []" "sv_queue s = []" "sv_loop s = 1" "lp_loops (sv_pool s) = []" "lp_baseLoop (sv_pool s) = 1"
    using started_server_inv[of "InetAddress_ctor zero_sockaddr 80 False False" "\<lambda>_. ''::''" 5 0 0 1 6 0 id] by auto
  have pool: "getNextLoop 1 (sv_pool s) = Inr (1, sv_pool s)" "ConnectionCb \<in> sv_callbacks s"
    using s(2,5-7) by (auto simp: getNextLoop_def server_inv_def pool_ready_def)
  let ?name = "connName (sv_name s) (sv_ipPort s) (sv_nextConnId s)"
  obtain c0 where c0: "TcpConnection_ctor 1 ?name 8 0 = Inr c0" "tc_state c0 = kConnecting" "tc_pid c0 = 1" "tc_name c0 = ?name"
    using TcpConnection_ctor_ok[of 1 ?name 8 0] by blast
  have "quiet Inr" by (simp add: quiet_def)
  then obtain c' where c': "connectEstablished 1 Inr (c0\<lparr>tc_callbacks := insert CloseCb (sv_callbacks s \<inter> {ConnectionCb, MessageCb})\<rparr>) = Inr c'"
    "tc_pid c' = 1" "tc_name c' = ?name" "tc_state c' = kConnected"
    "tc_callbacks c' = insert CloseCb (sv_callbacks s \<inter> {ConnectionCb, MessageCb})"
    using connectEstablished_up[of Inr "c0\<lparr>tc_callbacks := insert CloseCb (sv_callbacks s \<inter> {ConnectionCb, MessageCb})\<rparr>"] c0 pool(2)
    by auto
  show ?thesis
    using s pool c0 c' by (simp add: newConnection_def sv_runInLoop_def isInLoopThread_def sv_conn_def Let_def)
qed

theorem forceClose_twice_aborts_witness:
  "\<exists>s s1. started_server (\<lambda>_. ''::'') 1 (InetAddress_ctor zero_sockaddr 80 False False) 5 6 0 0 id 0 = Inr s \<and>
     newConnection 1 Inr 8 0 s = Inr s1 \<and>
     res_fold (server_step Inr) [Ev_forceClose 0, Ev_forceClose 0, Ev_run 1, Ev_run 1] s1 = Inl (Assert_failed ''n == 1'')"
  using one_connection forceClose_twice_aborts[of 0 _ Inr] by (metis zero_less_one)

text \<open>
  A server whose user set no connection callback does not survive its first connection:
  unlike the message callback of the tests, the connection callback has no default, and
  \<^verbatim>\<open>connectEstablished\<close> calls the empty function.
\<close>

theorem newConnection_without_callback_aborts:
  assumes "ConnectionCb \<notin> sv_callbacks s" "lp_basePid (sv_pool s) = sv_loop s" "lp_started (sv_pool s)"
    "lp_loops (sv_pool s) = []" "lp_baseLoop (sv_pool s) = sv_loop s"
  shows "newConnection (sv_loop s) f sockfd raw s = Inl (Abort ''std::bad_function_call'')"
proof -
  let ?name = "connName (sv_name s) (sv_ipPort s) (sv_nextConnId s)"
  obtain c0 where c0: "TcpConnection_ctor (sv_loop s) ?name sockfd raw = Inr c0" "tc_state c0 = kConnecting" "tc_pid c0 = sv_loop s"
    using TcpConnection_ctor_ok[of "sv_loop s" ?name sockfd raw] by blast
  then show ?thesis
    using assms by (simp add: newConnection_def getNextLoop_def sv_runInLoop_def isInLoopThread_def sv_conn_def Let_def
        connectEstablished_def call_back_def tc_update_def)
qed

theorem newConnection_without_callback_aborts_witness:
  "\<exists>s s1. TcpServer_ctor (\<lambda>_. ''::'') 1 zero_sockaddr 5 6 0 = Inr s \<and> TcpServer_start 1 id 0 s = Inr s1 \<and>
     newConnection 1 Inr 8 0 s1 = Inl (Abort ''std::bad_function_call'')"
proof -
  obtain s s1 where s: "TcpServer_ctor (\<lambda>_. ''::'') 1 zero_sockaddr 5 6 0 = Inr s" "TcpServer_start 1 id 0 s = Inr s1"
    "ConnectionCb \<notin> sv_callbacks s1" "lp_basePid (sv_pool s1) = sv_loop s1" "lp_started (sv_pool s1)"
    "lp_loops (sv_pool s1) = []" "lp_baseLoop (sv_pool s1) = sv_loop s1" "sv_loop s1 = 1"
    by (simp add: TcpServer_ctor_def InetAddress_toIpPort_def sockets_toIpPort_def sockets_toIp_def zero_sockaddr_def AF_INET_def AF_INET6_def
        Acceptor_ctor_def createNonblockingOrDie_def bindOrDie_def
        TcpServer_start_def getAndSet_def Pool_start_def Pool_ctor_def sv_runInLoop_def isInLoopThread_def sv_listen_def
        Acceptor_listen_def listenOrDie_def setNewConnectionCallback_def fd_opened_def Let_def)
  then show ?thesis using newConnection_without_callback_aborts[OF s(3-7), of Inr 8 0] by auto
qed

end
