(* ===== verification/Connector.thy ===== *)
theory Connector
  imports Channel Sockets
begin

text \<open>
  The connector (\<^verbatim>\<open>tcp.muduo/Connector.cpp\<close>): it opens a socket, connects it without blocking,
  waits until it is writable and hands it to its callback, or closes it and tries again later,
  after a delay that doubles up to a limit. \<open>cn_open\<close> are the sockets it owns, \<open>cn_timers\<close> counts
  the retry timers that have not fired, \<open>cn_delays\<close> lists the delays they were set with and
  \<open>cn_queue\<close> holds the functors queued to the loop. The answers of the kernel are arguments.
\<close>

datatype connector_state = Con_kDisconnected | Con_kConnecting | Con_kConnected

datatype connector_functor = F_startInLoop | F_stopInLoop | F_resetChannel

definition kMaxRetryDelayMs :: int where "kMaxRetryDelayMs = 30 * 1000"
definition kInitRetryDelayMs :: int where "kInitRetryDelayMs = 500"

record connector =
  cn_pid :: thread_id
  cn_connect :: bool
  cn_state :: connector_state
  cn_sockfd :: int
  cn_channel :: "channel option"
  cn_retryDelayMs :: int
  cn_open :: "int list"
  cn_timers :: nat
  cn_delays :: "int list"
  cn_queue :: "connector_functor list"

text \<open>\<^verbatim>\<open>sockfd_\<close> is not initialised: \<open>raw\<close> is what the memory holds.\<close>

definition Connector_ctor :: "thread_id \<Rightarrow> int \<Rightarrow> connector" where
  "Connector_ctor pid raw = \<lparr>cn_pid = pid, cn_connect = False, cn_state = Con_kDisconnected, cn_sockfd = raw, cn_channel = None,
     cn_retryDelayMs = kInitRetryDelayMs, cn_open = [], cn_timers = 0, cn_delays = [], cn_queue = []\<rparr>"

definition Connector_dtor :: "connector \<Rightarrow> unit res" where
  "Connector_dtor c = require (cn_channel c = None) ''!channel_'' (Inr ())"

definition cn_enqueue :: "connector_functor \<Rightarrow> connector \<Rightarrow> connector" where
  "cn_enqueue f c = c\<lparr>cn_queue := cn_queue c @ [f]\<rparr>"

definition cn_close :: "int \<Rightarrow> connector \<Rightarrow> connector" where
  "cn_close fd c = c\<lparr>cn_open := remove1 fd (cn_open c)\<rparr>"

definition Connector_retry :: "int \<Rightarrow> connector \<Rightarrow> connector" where
  "Connector_retry sockfd c =
     (let c1 = (cn_close sockfd c)\<lparr>cn_state := Con_kDisconnected\<rparr>
      in if cn_connect c1 then
           c1\<lparr>cn_timers := Suc (cn_timers c1), cn_delays := cn_delays c1 @ [cn_retryDelayMs c1],
              cn_retryDelayMs := min (cn_retryDelayMs c1 * 2) kMaxRetryDelayMs\<rparr>
         else c1)"

definition connecting :: "int \<Rightarrow> connector \<Rightarrow> connector res" where
  "connecting sockfd c =
     require (cn_channel c = None) ''!channel_''
     (let ch = enableWriting (set_callback ErrorCallback (set_callback WriteCallback (Channel_ctor sockfd)))
      in Inr (c\<lparr>cn_state := Con_kConnecting, cn_channel := Some (ch\<lparr>ch_addedToLoop := True\<rparr>)\<rparr>))"

text \<open>The answer of the kernel: the descriptor \<^verbatim>\<open>socket\<close> returns and the error of \<^verbatim>\<open>connect\<close>, if any.\<close>

definition Connector_connect :: "int \<times> errno option \<Rightarrow> connector \<Rightarrow> connector res" where
  "Connector_connect answer c =
     res_bind (createNonblockingOrDie (fst answer)) (\<lambda>fd.
       let c1 = c\<lparr>cn_sockfd := fd, cn_open := fd # cn_open c\<rparr>
       in case snd answer of
            None \<Rightarrow> connecting fd c1
          | Some EINPROGRESS \<Rightarrow> connecting fd c1 | Some EINTR \<Rightarrow> connecting fd c1 | Some EISCONN \<Rightarrow> connecting fd c1
          | Some EAGAIN \<Rightarrow> Inr (Connector_retry fd c1) | Some EADDRINUSE \<Rightarrow> Inr (Connector_retry fd c1)
          | Some EADDRNOTAVAIL \<Rightarrow> Inr (Connector_retry fd c1) | Some ECONNREFUSED \<Rightarrow> Inr (Connector_retry fd c1)
          | Some ENETUNREACH \<Rightarrow> Inr (Connector_retry fd c1)
          | Some _ \<Rightarrow> Inr (cn_close fd c1))"

definition startInLoop :: "thread_id \<Rightarrow> int \<times> errno option \<Rightarrow> connector \<Rightarrow> connector res" where
  "startInLoop tid answer c =
     assertInLoopThread tid (cn_pid c)
     (require (cn_state c = Con_kDisconnected) ''state_ == kDisconnected''
      (if cn_connect c then Connector_connect answer c else Inr c))"

definition Connector_start :: "thread_id \<Rightarrow> int \<times> errno option \<Rightarrow> connector \<Rightarrow> connector res" where
  "Connector_start tid answer c =
     (let c1 = c\<lparr>cn_connect := True\<rparr>
      in if isInLoopThread tid (cn_pid c1) then startInLoop tid answer c1 else Inr (cn_enqueue F_startInLoop c1))"

definition Connector_stop :: "connector \<Rightarrow> connector" where
  "Connector_stop c = cn_enqueue F_stopInLoop (c\<lparr>cn_connect := False\<rparr>)"

definition Connector_restart :: "thread_id \<Rightarrow> int \<times> errno option \<Rightarrow> connector \<Rightarrow> connector res" where
  "Connector_restart tid answer c =
     assertInLoopThread tid (cn_pid c)
     (startInLoop tid answer (c\<lparr>cn_state := Con_kDisconnected, cn_retryDelayMs := kInitRetryDelayMs, cn_connect := True\<rparr>))"

text \<open>\<^verbatim>\<open>disableAll\<close>, \<^verbatim>\<open>remove\<close>, and the functor that destroys the channel.\<close>

definition removeAndResetChannel :: "connector \<Rightarrow> connector res" where
  "removeAndResetChannel c =
     (case cn_channel c of
        None \<Rightarrow> Inl (Null_pointer ''channel_'')
      | Some ch \<Rightarrow> Inr (cn_enqueue F_resetChannel (c\<lparr>cn_channel := Some ((disableAll ch)\<lparr>ch_addedToLoop := False\<rparr>)\<rparr>)))"

definition resetChannel :: "connector \<Rightarrow> connector res" where
  "resetChannel c =
     (case cn_channel c of
        None \<Rightarrow> Inr c
      | Some ch \<Rightarrow> res_bind (Channel_dtor ch) (\<lambda>_. Inr (c\<lparr>cn_channel := None\<rparr>)))"

definition stopInLoop :: "thread_id \<Rightarrow> connector \<Rightarrow> connector res" where
  "stopInLoop tid c =
     assertInLoopThread tid (cn_pid c)
     (if cn_state c = Con_kConnecting then
        res_bind (removeAndResetChannel (c\<lparr>cn_state := Con_kDisconnected\<rparr>)) (\<lambda>c1. Inr (Connector_retry (cn_sockfd c1) c1))
      else Inr c)"

text \<open>\<open>err\<close> is the pending error of the socket, \<open>self\<close> tells whether it is connected to itself. The
  second component is the socket given to the callback, which then owns it.\<close>

definition Connector_handleWrite :: "int + int \<Rightarrow> bool \<Rightarrow> connector \<Rightarrow> (connector \<times> int option) res" where
  "Connector_handleWrite sockerr self c =
     (if cn_state c = Con_kConnecting then
        res_bind (removeAndResetChannel c) (\<lambda>c1.
          let err = getSocketError sockerr
          in if err \<noteq> 0 then Inr (Connector_retry (cn_sockfd c1) c1, None)
             else if self then Inr (Connector_retry (cn_sockfd c1) c1, None)
             else let c2 = cn_close (cn_sockfd c1) (c1\<lparr>cn_state := Con_kConnected\<rparr>)
                  in if cn_connect c2 then Inr (c2, Some (cn_sockfd c2)) else Inr (c2, None))
      else require (cn_state c = Con_kDisconnected) ''state_ == kDisconnected'' (Inr (c, None)))"

definition Connector_handleError :: "connector \<Rightarrow> connector res" where
  "Connector_handleError c =
     (if cn_state c = Con_kConnecting then
        res_bind (removeAndResetChannel c) (\<lambda>c1. Inr (Connector_retry (cn_sockfd c1) c1))
      else Inr c)"

definition run_connector_functor :: "thread_id \<Rightarrow> int \<times> errno option \<Rightarrow> connector_functor \<Rightarrow> connector \<Rightarrow> connector res" where
  "run_connector_functor tid answer f c =
     (case f of F_startInLoop \<Rightarrow> startInLoop tid answer c | F_stopInLoop \<Rightarrow> stopInLoop tid c | F_resetChannel \<Rightarrow> resetChannel c)"

text \<open>
  What happens to a connector: some thread calls \<^verbatim>\<open>stop\<close>; the loop runs the next functor; a retry
  timer fires; the channel reports the events \<open>revents\<close>, while it is registered. A retry timer is
  set for half a second at least and the functors queued by a handler run in the same iteration
  of the loop, so no timer of an active connector fires while the channel waits to be destroyed.
\<close>

datatype connector_event =
    Con_stop
  | Con_functor "int \<times> errno option"
  | Con_timer "int \<times> errno option"
  | Con_io events "int + int" bool

definition connector_call :: "int + int \<Rightarrow> bool \<Rightarrow> event_call \<Rightarrow> connector \<times> int list \<Rightarrow> (connector \<times> int list) res" where
  "connector_call sockerr self k = (\<lambda>(c, out).
     case k of
       WriteCallback \<Rightarrow> res_bind (Connector_handleWrite sockerr self c) (\<lambda>(c', d). Inr (c', out @ (case d of None \<Rightarrow> [] | Some fd \<Rightarrow> [fd])))
     | ErrorCallback \<Rightarrow> res_bind (Connector_handleError c) (\<lambda>c'. Inr (c', out))
     | _ \<Rightarrow> Inr (c, out))"

text \<open>The second component of the state are the sockets that were handed over.\<close>

definition connector_step :: "connector_event \<Rightarrow> connector \<times> int list \<Rightarrow> (connector \<times> int list) res" where
  "connector_step ev = (\<lambda>(c, out).
     case ev of
       Con_stop \<Rightarrow> Inr (Connector_stop c, out)
     | Con_functor answer \<Rightarrow> (case cn_queue c of [] \<Rightarrow> Inr (c, out)
                      | f # q \<Rightarrow> res_bind (run_connector_functor (cn_pid c) answer f (c\<lparr>cn_queue := q\<rparr>)) (\<lambda>c'. Inr (c', out)))
     | Con_timer answer \<Rightarrow>
         (if cn_timers c > 0 \<and> \<not> (cn_connect c \<and> F_resetChannel \<in> set (cn_queue c))
          then res_bind (startInLoop (cn_pid c) answer (c\<lparr>cn_timers := cn_timers c - 1\<rparr>)) (\<lambda>c'. Inr (c', out)) else Inr (c, out))
     | Con_io revents sockerr self \<Rightarrow>
         (case cn_channel c of
            Some ch \<Rightarrow> (if ch_addedToLoop ch then res_fold (connector_call sockerr self) (handleEvent True (set_revents revents ch)) (c, out)
                        else Inr (c, out))
          | None \<Rightarrow> Inr (c, out)))"


section \<open>Safety\<close>

text \<open>A channel that is no longer needed is either destroyed, or unregistered with exactly one
  functor queued that destroys it.\<close>

definition channel_idle :: "connector \<Rightarrow> bool" where
  "channel_idle c \<longleftrightarrow> (case cn_channel c of
       None \<Rightarrow> F_resetChannel \<notin> set (cn_queue c)
     | Some ch \<Rightarrow> \<not> ch_addedToLoop ch \<and> \<not> ch_eventHandling ch \<and> count_list (cn_queue c) F_resetChannel = 1)"

definition channel_active :: "connector \<Rightarrow> bool" where
  "channel_active c \<longleftrightarrow> (case cn_channel c of
       None \<Rightarrow> False
     | Some ch \<Rightarrow> ch_addedToLoop ch \<and> \<not> ch_eventHandling ch \<and> F_resetChannel \<notin> set (cn_queue c))"

definition connector_inv :: "connector \<Rightarrow> bool" where
  "connector_inv c \<longleftrightarrow> F_startInLoop \<notin> set (cn_queue c) \<and> kInitRetryDelayMs \<le> cn_retryDelayMs c \<and> cn_retryDelayMs c \<le> kMaxRetryDelayMs \<and>
     (if cn_state c = Con_kConnecting then channel_active c \<and> cn_open c = [cn_sockfd c] \<and> cn_timers c = 0
      else channel_idle c \<and> cn_open c = [] \<and> cn_timers c \<le> (if cn_state c = Con_kDisconnected then 1 else 0))"

lemmas connector_defs = connector_inv_def channel_idle_def channel_active_def

lemma active_remove:
  assumes "channel_active c"
  obtains c1 where "removeAndResetChannel c = Inr c1" "channel_idle c1" "cn_state c1 = cn_state c" "cn_sockfd c1 = cn_sockfd c"
    "cn_open c1 = cn_open c" "cn_timers c1 = cn_timers c" "cn_connect c1 = cn_connect c" "cn_retryDelayMs c1 = cn_retryDelayMs c"
    "set (cn_queue c1) = insert F_resetChannel (set (cn_queue c))" "cn_pid c1 = cn_pid c" "cn_delays c1 = cn_delays c"
  using assms that
  by (auto simp: channel_active_def channel_idle_def removeAndResetChannel_def cn_enqueue_def disableAll_def
      count_list_0_iff split: option.splits)

lemma retry_inv:
  assumes "channel_idle c" "cn_open c = [cn_sockfd c]" "cn_timers c = 0" "F_startInLoop \<notin> set (cn_queue c)"
    "kInitRetryDelayMs \<le> cn_retryDelayMs c" "cn_retryDelayMs c \<le> kMaxRetryDelayMs"
  shows "connector_inv (Connector_retry (cn_sockfd c) c)" "cn_connect (Connector_retry (cn_sockfd c) c) = cn_connect c"
    "cn_state (Connector_retry (cn_sockfd c) c) = Con_kDisconnected" "cn_pid (Connector_retry (cn_sockfd c) c) = cn_pid c"
  using assms by (auto simp: connector_defs Connector_retry_def cn_close_def Let_def kInitRetryDelayMs_def kMaxRetryDelayMs_def
      cong: option.case_cong)

lemma connect_ok:
  assumes inv: "connector_inv c" and st: "cn_state c = Con_kDisconnected" "cn_timers c = 0" "cn_channel c = None" and fd: "0 \<le> fst answer"
  shows "\<exists>c'. Connector_connect answer c = Inr c' \<and> connector_inv c' \<and> cn_connect c' = cn_connect c \<and> cn_state c' \<noteq> Con_kConnected \<and>
    cn_pid c' = cn_pid c"
proof -
  obtain fd e where a: "answer = (fd, e)" by (cases answer)
  let ?c1 = "c\<lparr>cn_sockfd := fd, cn_open := fd # cn_open c\<rparr>"
  have o: "cn_open c = []" "F_startInLoop \<notin> set (cn_queue c)" "F_resetChannel \<notin> set (cn_queue c)"
    "kInitRetryDelayMs \<le> cn_retryDelayMs c" "cn_retryDelayMs c \<le> kMaxRetryDelayMs"
    using inv st by (auto simp: connector_defs)
  have r: "connector_inv (Connector_retry fd ?c1)" "cn_connect (Connector_retry fd ?c1) = cn_connect c"
    "cn_state (Connector_retry fd ?c1) = Con_kDisconnected" "cn_pid (Connector_retry fd ?c1) = cn_pid c"
    using retry_inv[of ?c1] o st by (simp_all add: channel_idle_def)
  have k: "connector_inv (cn_close fd ?c1)" "cn_connect (cn_close fd ?c1) = cn_connect c"
    "cn_state (cn_close fd ?c1) = Con_kDisconnected" "cn_pid (cn_close fd ?c1) = cn_pid c"
    using o st by (simp_all add: connector_defs cn_close_def)
  obtain c2 where c2: "connecting fd ?c1 = Inr c2" "connector_inv c2" "cn_connect c2 = cn_connect c" "cn_state c2 = Con_kConnecting"
    "cn_pid c2 = cn_pid c"
    using o st by (simp add: connecting_def Let_def connector_defs enableWriting_def set_callback_def Channel_ctor_def)
  have socket: "createNonblockingOrDie fd = Inr fd" using fd a by (simp add: createNonblockingOrDie_def)
  show ?thesis
  proof (cases e)
    case None
    then show ?thesis using a socket c2 by (simp add: Connector_connect_def)
  next
    case (Some e')
    then show ?thesis using a socket c2 r k by (cases e') (simp_all add: Connector_connect_def)
  qed
qed

lemma startInLoop_ok:
  assumes "connector_inv c" "cn_state c = Con_kDisconnected" "cn_timers c = 0" "cn_connect c \<Longrightarrow> cn_channel c = None" "0 \<le> fst answer"
  shows "\<exists>c'. startInLoop (cn_pid c) answer c = Inr c' \<and> connector_inv c' \<and> cn_connect c' = cn_connect c \<and> cn_state c' \<noteq> Con_kConnected \<and>
    cn_pid c' = cn_pid c"
  using connect_ok[OF assms(1-3) _ assms(5)] assms by (auto simp: startInLoop_def)

lemma handleWrite_ok:
  assumes "connector_inv c" "cn_state c \<noteq> Con_kConnected"
  shows "\<exists>c' d. Connector_handleWrite sockerr self c = Inr (c', d) \<and> connector_inv c' \<and> cn_connect c' = cn_connect c \<and>
    cn_state c' \<noteq> Con_kConnecting \<and> cn_pid c' = cn_pid c \<and>
    (d \<noteq> None \<longrightarrow> cn_connect c \<and> cn_state c' = Con_kConnected)"
proof (cases "cn_state c = Con_kConnecting")
  case True
  then have act: "channel_active c" and c: "cn_open c = [cn_sockfd c]" "cn_timers c = 0" "F_startInLoop \<notin> set (cn_queue c)"
    "kInitRetryDelayMs \<le> cn_retryDelayMs c" "cn_retryDelayMs c \<le> kMaxRetryDelayMs" using assms(1) by (simp_all add: connector_inv_def)
  obtain c1 where c1: "removeAndResetChannel c = Inr c1" "channel_idle c1" "cn_state c1 = cn_state c" "cn_sockfd c1 = cn_sockfd c"
    "cn_open c1 = cn_open c" "cn_timers c1 = cn_timers c" "cn_connect c1 = cn_connect c" "cn_retryDelayMs c1 = cn_retryDelayMs c"
    "set (cn_queue c1) = insert F_resetChannel (set (cn_queue c))" "cn_pid c1 = cn_pid c"
    using active_remove[OF act] by blast
  have "connector_inv (cn_close (cn_sockfd c1) (c1\<lparr>cn_state := Con_kConnected\<rparr>))"
    using c1 c by (simp add: connector_inv_def channel_idle_def cn_close_def cong: option.case_cong)
  moreover note retry_inv[of c1]
  ultimately show ?thesis using True c1 c by (simp add: Connector_handleWrite_def Let_def cn_close_def)
next
  case False
  then have "cn_state c = Con_kDisconnected" using assms(2) by (cases "cn_state c") auto
  then show ?thesis using assms(1) by (simp add: Connector_handleWrite_def)
qed

lemma handleError_ok:
  assumes "connector_inv c"
  shows "\<exists>c'. Connector_handleError c = Inr c' \<and> connector_inv c' \<and> cn_connect c' = cn_connect c \<and>
    (cn_state c \<noteq> Con_kConnected \<longrightarrow> cn_state c' = Con_kDisconnected) \<and> (cn_state c = Con_kConnected \<longrightarrow> c' = c) \<and> cn_pid c' = cn_pid c"
proof (cases "cn_state c = Con_kConnecting")
  case True
  then have act: "channel_active c" and c: "cn_open c = [cn_sockfd c]" "cn_timers c = 0" "F_startInLoop \<notin> set (cn_queue c)"
    "kInitRetryDelayMs \<le> cn_retryDelayMs c" "cn_retryDelayMs c \<le> kMaxRetryDelayMs" using assms(1) by (simp_all add: connector_inv_def)
  obtain c1 where c1: "removeAndResetChannel c = Inr c1" "channel_idle c1" "cn_sockfd c1 = cn_sockfd c"
    "cn_open c1 = cn_open c" "cn_timers c1 = cn_timers c" "cn_connect c1 = cn_connect c" "cn_retryDelayMs c1 = cn_retryDelayMs c"
    "set (cn_queue c1) = insert F_resetChannel (set (cn_queue c))" "cn_pid c1 = cn_pid c"
    using active_remove[OF act] by blast
  then show ?thesis using True c retry_inv[of c1] by (simp add: Connector_handleError_def)
next
  case False
  then show ?thesis using assms by (cases "cn_state c") (simp_all add: Connector_handleError_def)
qed


lemma resetChannel_ok:
  assumes "connector_inv c" "cn_queue c = F_resetChannel # q"
  shows "\<exists>c'. resetChannel (c\<lparr>cn_queue := q\<rparr>) = Inr c' \<and> connector_inv c' \<and> cn_connect c' = cn_connect c \<and> cn_state c' = cn_state c \<and>
    cn_pid c' = cn_pid c"
proof -
  have st: "cn_state c \<noteq> Con_kConnecting" using assms by (auto simp: connector_inv_def channel_active_def split: option.splits)
  then have "channel_idle c" using assms(1) by (simp add: connector_inv_def)
  then obtain ch where ch: "cn_channel c = Some ch" "\<not> ch_addedToLoop ch" "\<not> ch_eventHandling ch" "F_resetChannel \<notin> set q"
    using assms(2) by (auto simp: channel_idle_def count_list_0_iff split: option.splits)
  then have "resetChannel (c\<lparr>cn_queue := q\<rparr>) = Inr (c\<lparr>cn_queue := q, cn_channel := None\<rparr>)"
    by (simp add: resetChannel_def Channel_dtor_def)
  moreover have "connector_inv (c\<lparr>cn_queue := q, cn_channel := None\<rparr>)"
    using assms st ch(4) by (simp add: connector_inv_def channel_idle_def)
  ultimately show ?thesis by simp
qed

lemma stopInLoop_ok:
  assumes "connector_inv c" "cn_queue c = F_stopInLoop # q"
  shows "\<exists>c'. stopInLoop (cn_pid c) (c\<lparr>cn_queue := q\<rparr>) = Inr c' \<and> connector_inv c' \<and> cn_connect c' = cn_connect c \<and>
    (cn_state c' = Con_kConnected \<longleftrightarrow> cn_state c = Con_kConnected) \<and> cn_pid c' = cn_pid c"
proof (cases "cn_state c = Con_kConnecting")
  case True
  let ?c = "c\<lparr>cn_queue := q, cn_state := Con_kDisconnected\<rparr>"
  have act: "channel_active ?c" and c: "cn_open c = [cn_sockfd c]" "cn_timers c = 0" "F_startInLoop \<notin> set q"
    "kInitRetryDelayMs \<le> cn_retryDelayMs c" "cn_retryDelayMs c \<le> kMaxRetryDelayMs"
    using assms True by (auto simp: connector_inv_def channel_active_def split: option.splits)
  obtain c1 where c1: "removeAndResetChannel ?c = Inr c1" "channel_idle c1" "cn_sockfd c1 = cn_sockfd c"
    "cn_open c1 = cn_open c" "cn_timers c1 = cn_timers c" "cn_connect c1 = cn_connect c" "cn_retryDelayMs c1 = cn_retryDelayMs c"
    "set (cn_queue c1) = insert F_resetChannel (set q)" "cn_pid c1 = cn_pid c"
    using active_remove[OF act] by auto
  then show ?thesis using True c retry_inv[of c1] by (simp add: stopInLoop_def)
next
  case False
  then have "connector_inv (c\<lparr>cn_queue := q\<rparr>)"
    using assms by (auto simp: connector_inv_def channel_idle_def split: option.splits)
  then show ?thesis using False by (simp add: stopInLoop_def)
qed

text \<open>The handlers that one report of the poller runs: the error callback comes before the write
  callback, and each channel has only these two.\<close>

definition delivered_ok :: "connector \<times> int list \<Rightarrow> bool" where
  "delivered_ok = (\<lambda>(c, out). connector_inv c \<and> length out \<le> 1 \<and> (out \<noteq> [] \<longrightarrow> cn_state c = Con_kConnected))"

lemma io_calls_ok:
  assumes "delivered_ok (c, out)" "cn_state c = Con_kConnecting"
  shows "\<exists>c' out'. res_fold (connector_call sockerr self) (handleEvent True ch) (c, out) = Inr (c', out') \<and> delivered_ok (c', out') \<and>
    cn_connect c' = cn_connect c \<and> (\<not> cn_connect c \<longrightarrow> out' = out) \<and> cn_pid c' = cn_pid c"
proof -
  have inv: "connector_inv c" "out = []" using assms by (auto simp: delivered_ok_def)
  have w: "\<exists>c' out'. connector_call sockerr self WriteCallback (c1, []) = Inr (c', out') \<and> delivered_ok (c', out') \<and>
    cn_connect c' = cn_connect c1 \<and> (\<not> cn_connect c1 \<longrightarrow> out' = []) \<and> cn_pid c' = cn_pid c1"
    if c1: "connector_inv c1" "cn_state c1 \<noteq> Con_kConnected" for c1
  proof -
    obtain c' d where c': "Connector_handleWrite sockerr self c1 = Inr (c', d)" "connector_inv c'" "cn_connect c' = cn_connect c1"
      "cn_pid c' = cn_pid c1" "d \<noteq> None \<longrightarrow> cn_connect c1 \<and> cn_state c' = Con_kConnected"
      using handleWrite_ok[OF c1, of sockerr self] by blast
    then show ?thesis by (cases d) (simp_all add: connector_call_def delivered_ok_def)
  qed
  obtain c1 where c1: "connector_call sockerr self ErrorCallback (c, []) = Inr (c1, [])" "connector_inv c1" "cn_connect c1 = cn_connect c"
    "cn_state c1 = Con_kDisconnected" "cn_pid c1 = cn_pid c"
    using handleError_ok[OF inv(1)] assms(2) by (auto simp: connector_call_def)
  have other: "connector_call sockerr self CloseCallback x = Inr x" "connector_call sockerr self ReadCallback x = Inr x" for x
    by (simp_all add: connector_call_def split: prod.splits)
  have 0: "delivered_ok (c, [])" "delivered_ok (c1, [])" using inv c1 by (simp_all add: delivered_ok_def)
  show ?thesis
    using w[OF inv(1)] w[OF c1(2)] c1 assms(2) 0 inv(2)
    by (auto simp: handleEvent_def handleEventWithGuard_def call_if_def Let_def other)
qed

text \<open>What a step of a running connector guarantees; the events one by one.\<close>

definition step_fine :: "connector_event \<Rightarrow> connector \<Rightarrow> int list \<Rightarrow> bool" where
  "step_fine ev c out \<longleftrightarrow> (\<exists>c' out'. connector_step ev (c, out) = Inr (c', out') \<and> delivered_ok (c', out') \<and>
     (\<not> cn_connect c \<longrightarrow> \<not> cn_connect c' \<and> out' = out) \<and> cn_pid c' = cn_pid c)"

lemma stop_fine:
  assumes "delivered_ok (c, out)"
  shows "step_fine Con_stop c out"
proof -
  have "connector_inv (Connector_stop c)"
    using assms by (simp add: delivered_ok_def Connector_stop_def cn_enqueue_def connector_defs cong: option.case_cong if_cong)
  then show ?thesis using assms by (simp add: step_fine_def connector_step_def delivered_ok_def Connector_stop_def cn_enqueue_def)
qed

lemma functor_fine:
  assumes ok: "delivered_ok (c, out)"
  shows "step_fine (Con_functor a) c out"
proof (cases "cn_queue c")
  case Nil
  then show ?thesis using ok by (simp add: step_fine_def connector_step_def)
next
  case (Cons f q)
  have inv: "connector_inv c" using ok by (simp add: delivered_ok_def)
  moreover have "f \<noteq> F_startInLoop" using inv Cons by (auto simp: connector_inv_def)
  ultimately show ?thesis
    using Cons ok resetChannel_ok[OF inv, of q] stopInLoop_ok[OF inv, of q]
    by (cases f) (auto simp: step_fine_def connector_step_def run_connector_functor_def delivered_ok_def)
qed

lemma timer_fine:
  assumes ok: "delivered_ok (c, out)" and fd: "0 \<le> fst a"
  shows "step_fine (Con_timer a) c out"
proof (cases "cn_timers c > 0 \<and> \<not> (cn_connect c \<and> F_resetChannel \<in> set (cn_queue c))")
  case True
  have inv: "connector_inv c" using ok by (simp add: delivered_ok_def)
  let ?c = "c\<lparr>cn_timers := cn_timers c - 1\<rparr>"
  have st: "cn_state c = Con_kDisconnected" "cn_timers ?c = 0" "connector_inv ?c" using inv True
    by (auto simp: connector_inv_def channel_idle_def split: if_splits option.splits)
  have "cn_connect c \<Longrightarrow> cn_channel ?c = None"
    using inv st(1) True by (auto simp: connector_inv_def channel_idle_def split: option.splits)
  then show ?thesis
    using startInLoop_ok[OF st(3) _ st(2), of a] st(1) True ok fd
    by (auto simp: step_fine_def connector_step_def delivered_ok_def)
next
  case False
  then show ?thesis using ok by (auto simp: step_fine_def connector_step_def)
qed

lemma io_fine:
  assumes ok: "delivered_ok (c, out)"
  shows "step_fine (Con_io revents sockerr self) c out"
proof (cases "\<exists>ch. cn_channel c = Some ch \<and> ch_addedToLoop ch")
  case True
  moreover from this have "cn_state c = Con_kConnecting"
    using ok by (auto simp: delivered_ok_def connector_inv_def channel_idle_def split: if_splits)
  ultimately show ?thesis
    using io_calls_ok[OF ok, of sockerr self "set_revents revents (the (cn_channel c))"] by (auto simp: step_fine_def connector_step_def)
next
  case False
  then show ?thesis using ok by (auto simp: step_fine_def connector_step_def split: option.splits)
qed

lemma connector_step_ok:
  assumes "delivered_ok (c, out)" and "\<And>a. ev = Con_timer a \<Longrightarrow> 0 \<le> fst a"
  shows "\<exists>c' out'. connector_step ev (c, out) = Inr (c', out') \<and> delivered_ok (c', out') \<and>
    (\<not> cn_connect c \<longrightarrow> \<not> cn_connect c' \<and> out' = out) \<and> cn_pid c' = cn_pid c"
  using assms stop_fine functor_fine timer_fine io_fine unfolding step_fine_def[symmetric] by (cases ev) simp_all

lemma connector_run_ok:
  assumes "delivered_ok (c, out)" "\<And>a. Con_timer a \<in> set evs \<Longrightarrow> 0 \<le> fst a"
  shows "\<exists>c' out'. res_fold connector_step evs (c, out) = Inr (c', out') \<and> delivered_ok (c', out') \<and>
    (\<not> cn_connect c \<longrightarrow> \<not> cn_connect c' \<and> out' = out) \<and> cn_pid c' = cn_pid c"
  using assms
proof (induction evs arbitrary: c out)
  case Nil
  then show ?case by simp
next
  case (Cons ev evs)
  have fd: "\<And>a. ev = Con_timer a \<Longrightarrow> 0 \<le> fst a" "\<And>a. Con_timer a \<in> set evs \<Longrightarrow> 0 \<le> fst a" using Cons.prems(2) by auto
  obtain c1 out1 where 1: "connector_step ev (c, out) = Inr (c1, out1)" "delivered_ok (c1, out1)"
    "\<not> cn_connect c \<longrightarrow> \<not> cn_connect c1 \<and> out1 = out" "cn_pid c1 = cn_pid c"
    using connector_step_ok[OF Cons.prems(1) fd(1)] by blast
  obtain c' out' where 2: "res_fold connector_step evs (c1, out1) = Inr (c', out')" "delivered_ok (c', out')"
    "\<not> cn_connect c1 \<longrightarrow> \<not> cn_connect c' \<and> out' = out1" "cn_pid c' = cn_pid c1"
    using Cons.IH[OF 1(2) fd(2)] by blast
  then show ?case using 1 by (intro exI[of _ c'] exI[of _ out']) simp
qed

lemma connector_started:
  assumes "0 \<le> fst answer"
  shows "\<exists>c. Connector_start pid answer (Connector_ctor pid raw) = Inr c \<and> delivered_ok (c, [])"
proof -
  let ?c = "(Connector_ctor pid raw)\<lparr>cn_connect := True\<rparr>"
  have "connector_inv ?c"
    by (simp add: Connector_ctor_def connector_inv_def channel_idle_def kInitRetryDelayMs_def kMaxRetryDelayMs_def)
  then show ?thesis
    using startInLoop_ok[of ?c answer] assms
    by (auto simp: Connector_start_def isInLoopThread_def Connector_ctor_def delivered_ok_def)
qed

text \<open>
  C13: A connector that was started in its loop's thread survives every sequence of channel reports,
  timers, functors and calls of \<^verbatim>\<open>stop\<close>: no assertion fails, the channel is destroyed only after it
  was unregistered, at most one retry timer is pending, at most one connection is ever handed
  over, and a socket is open exactly while the connector is connecting: every socket that failed was closed.
\<close>

theorem Connector_runs_safely:
  assumes "0 \<le> fst answer" "\<And>a. Con_timer a \<in> set evs \<Longrightarrow> 0 \<le> fst a"
  shows "\<exists>c c' out. Connector_start pid answer (Connector_ctor pid raw) = Inr c \<and>
    res_fold connector_step evs (c, []) = Inr (c', out) \<and> length out \<le> 1 \<and> cn_timers c' \<le> 1 \<and>
    cn_open c' = (if cn_state c' = Con_kConnecting then [cn_sockfd c'] else [])"
proof -
  obtain c where c: "Connector_start pid answer (Connector_ctor pid raw) = Inr c" "delivered_ok (c, [])"
    using connector_started[OF assms(1)] by blast
  obtain c' out where c': "res_fold connector_step evs (c, []) = Inr (c', out)" "delivered_ok (c', out)"
    using connector_run_ok[OF c(2) assms(2)] by blast
  then have "length out \<le> 1" "connector_inv c'" by (simp_all add: delivered_ok_def)
  then show ?thesis using c(1) c'(1) by (auto simp: connector_inv_def split: if_splits)
qed

theorem Connector_runs_safely_witness:
  "\<exists>c c' out. Connector_start 1 (7, Some EINPROGRESS) (Connector_ctor 1 0) = Inr c \<and>
    res_fold connector_step [Con_io POLLERR (Inr 111) False, Con_functor (0, None), Con_timer (7, Some EINPROGRESS),
      Con_io POLLOUT (Inr 0) False] (c, []) = Inr (c', out) \<and> length out \<le> 1"
  using Connector_runs_safely[of "(7, Some EINPROGRESS)" "[Con_io POLLERR (Inr 111) False, Con_functor (0, None),
    Con_timer (7, Some EINPROGRESS), Con_io POLLOUT (Inr 0) False]" 1 0]
  by auto

text \<open>
  C27: After \<^verbatim>\<open>stop\<close> nothing is handed over any more: whatever the channel reports and whichever
  timers fire, the connections handed over are those of the moment of the call.
\<close>

theorem Connector_stop_is_final:
  assumes "delivered_ok (c, out)" "\<And>a. Con_timer a \<in> set evs \<Longrightarrow> 0 \<le> fst a"
  shows "\<exists>c'. res_fold connector_step evs (Connector_stop c, out) = Inr (c', out) \<and> \<not> cn_connect c'"
proof -
  have "delivered_ok (Connector_stop c, out)"
    using connector_step_ok[OF assms(1), of Con_stop] by (auto simp: connector_step_def)
  moreover have "\<not> cn_connect (Connector_stop c)" by (simp add: Connector_stop_def cn_enqueue_def)
  ultimately show ?thesis using connector_run_ok[of "Connector_stop c" out evs] assms(2) by blast
qed

theorem Connector_stop_is_final_witness:
  "\<exists>c c'. Connector_start 1 (7, Some EINPROGRESS) (Connector_ctor 1 0) = Inr c \<and>
     res_fold connector_step [Con_io POLLOUT (Inr 0) False] (Connector_stop c, []) = Inr (c', []) \<and> \<not> cn_connect c'"
  using connector_started[of "(7, Some EINPROGRESS)" 1 0] Connector_stop_is_final[of _ "[]" "[Con_io POLLOUT (Inr 0) False]"]
  by auto

section \<open>The delay before a retry\<close>

lemma refused_step:
  assumes "cn_state c = Con_kDisconnected" "cn_connect c" "cn_timers c = 1" "cn_queue c = []" "0 \<le> fd" "cn_channel c = None"
  shows "\<exists>c'. connector_step (Con_timer (fd, Some ECONNREFUSED)) (c, []) = Inr (c', []) \<and> cn_state c' = Con_kDisconnected \<and>
    cn_connect c' \<and> cn_timers c' = 1 \<and> cn_queue c' = [] \<and> cn_delays c' = cn_delays c @ [cn_retryDelayMs c] \<and> cn_channel c' = None \<and>
    cn_retryDelayMs c' = min (cn_retryDelayMs c * 2) kMaxRetryDelayMs"
  using assms by (simp add: connector_step_def startInLoop_def Connector_connect_def createNonblockingOrDie_def Connector_retry_def
      cn_close_def Let_def)

definition backoff :: "nat \<Rightarrow> int" where
  "backoff i = min (kInitRetryDelayMs * 2 ^ i) kMaxRetryDelayMs"

lemma backoff_Suc: "min (backoff i * 2) kMaxRetryDelayMs = backoff (Suc i)"
  by (auto simp: backoff_def kInitRetryDelayMs_def kMaxRetryDelayMs_def min_def)

lemma refused_run:
  assumes "cn_state c = Con_kDisconnected" "cn_connect c" "cn_timers c = 1" "cn_queue c = []" "cn_channel c = None"
    "cn_delays c = map backoff [0..<k]" "cn_retryDelayMs c = backoff k" "\<forall>fd \<in> set fds. 0 \<le> fd"
  shows "\<exists>c'. res_fold connector_step (map (\<lambda>fd. Con_timer (fd, Some ECONNREFUSED)) fds) (c, []) = Inr (c', []) \<and>
    cn_delays c' = map backoff [0..<k + length fds]"
  using assms
proof (induction fds arbitrary: c k)
  case Nil
  then show ?case by simp
next
  case (Cons fd fds)
  obtain c1 where c1: "connector_step (Con_timer (fd, Some ECONNREFUSED)) (c, []) = Inr (c1, [])" "cn_state c1 = Con_kDisconnected"
    "cn_connect c1" "cn_timers c1 = 1" "cn_queue c1 = []" "cn_delays c1 = cn_delays c @ [cn_retryDelayMs c]" "cn_channel c1 = None"
    "cn_retryDelayMs c1 = min (cn_retryDelayMs c * 2) kMaxRetryDelayMs"
    using refused_step[of c fd] Cons.prems by auto
  then have "cn_delays c1 = map backoff [0..<Suc k]" "cn_retryDelayMs c1 = backoff (Suc k)"
    using Cons.prems(6,7) by (simp_all add: backoff_Suc)
  then obtain c' where "res_fold connector_step (map (\<lambda>fd. Con_timer (fd, Some ECONNREFUSED)) fds) (c1, []) = Inr (c', [])"
    "cn_delays c' = map backoff [0..<Suc k + length fds]"
    using Cons.IH[of c1 "Suc k"] c1 Cons.prems(8) by auto
  then show ?case using c1(1) by (intro exI[of _ c']) (simp del: upt_Suc)
qed

text \<open>
  The delay before a retry doubles from half a second up to 30 seconds: a connector whose
  connections are all refused sets its retry timers for
  500, 1000, 2000, \dots, 30000, 30000, \dots milliseconds.
\<close>

theorem retry_backoff:
  assumes "\<forall>fd \<in> set (fd0 # fds). 0 \<le> fd"
  shows "\<exists>c c'. Connector_start pid (fd0, Some ECONNREFUSED) (Connector_ctor pid raw) = Inr c \<and>
    res_fold connector_step (map (\<lambda>fd. Con_timer (fd, Some ECONNREFUSED)) fds) (c, []) = Inr (c', []) \<and>
    cn_delays c' = map (\<lambda>i. min (kInitRetryDelayMs * 2 ^ i) kMaxRetryDelayMs) [0..<Suc (length fds)]"
proof -
  obtain c where c: "Connector_start pid (fd0, Some ECONNREFUSED) (Connector_ctor pid raw) = Inr c" "cn_state c = Con_kDisconnected"
    "cn_connect c" "cn_timers c = 1" "cn_queue c = []" "cn_channel c = None" "cn_delays c = [kInitRetryDelayMs]"
    "cn_retryDelayMs c = min (kInitRetryDelayMs * 2) kMaxRetryDelayMs"
    using assms by (simp add: Connector_start_def isInLoopThread_def Connector_ctor_def startInLoop_def Connector_connect_def
        createNonblockingOrDie_def Connector_retry_def cn_close_def Let_def)
  have "backoff 0 = kInitRetryDelayMs" "backoff 1 = min (kInitRetryDelayMs * 2) kMaxRetryDelayMs"
    by (simp_all add: backoff_def kInitRetryDelayMs_def kMaxRetryDelayMs_def)
  then obtain c' where "res_fold connector_step (map (\<lambda>fd. Con_timer (fd, Some ECONNREFUSED)) fds) (c, []) = Inr (c', [])"
    "cn_delays c' = map backoff [0..<1 + length fds]"
    using refused_run[of c 1 fds] c assms by auto
  then show ?thesis using c(1) by (auto simp: backoff_def simp del: upt_Suc)
qed

theorem retry_backoff_witness:
  "\<exists>c c'. Connector_start 1 (7, Some ECONNREFUSED) (Connector_ctor 1 0) = Inr c \<and>
    res_fold connector_step (map (\<lambda>fd. Con_timer (fd, Some ECONNREFUSED)) [7, 7, 7, 7, 7, 7, 7]) (c, []) = Inr (c', []) \<and>
    cn_delays c' = [500, 1000, 2000, 4000, 8000, 16000, 30000, 30000]"
  using retry_backoff[of 7 "[7, 7, 7, 7, 7, 7, 7]" 1 0]
  by (simp add: kInitRetryDelayMs_def kMaxRetryDelayMs_def upt_rec)

section \<open>Where a connector goes wrong\<close>

text \<open>
  \<^verbatim>\<open>stop\<close> does not cancel the retry timer. When the user stops a connector that waits for its
  retry, and starts it again before the timer fires, the timer finds it connecting, and
  the assertion \<^verbatim>\<open>state_ == kDisconnected\<close> of \<^verbatim>\<open>startInLoop\<close> aborts the process.
\<close>

theorem restarted_connector_aborts_on_old_timer:
  assumes "cn_state c = Con_kDisconnected" "0 < cn_timers c" "cn_channel c = None" "cn_queue c = []" "0 \<le> fd"
  shows "\<exists>c1 c2 out. connector_step (Con_functor (0, None)) (Connector_stop c, []) = Inr (c1, out) \<and>
    Connector_start (cn_pid c1) (fd, Some EINPROGRESS) c1 = Inr c2 \<and>
    connector_step (Con_timer answer) (c2, []) = Inl (Assert_failed ''state_ == kDisconnected'')"
  using assms by (simp add: connector_step_def Connector_stop_def cn_enqueue_def run_connector_functor_def stopInLoop_def
      Connector_start_def isInLoopThread_def startInLoop_def Connector_connect_def createNonblockingOrDie_def connecting_def Let_def)

theorem restarted_connector_aborts_on_old_timer_witness:
  "\<exists>c c1 c2 out. Connector_start 1 (7, Some ECONNREFUSED) (Connector_ctor 1 0) = Inr c \<and>
    connector_step (Con_functor (0, None)) (Connector_stop c, []) = Inr (c1, out) \<and>
    Connector_start (cn_pid c1) (8, Some EINPROGRESS) c1 = Inr c2 \<and>
    connector_step (Con_timer (9, None)) (c2, []) = Inl (Assert_failed ''state_ == kDisconnected'')"
proof -
  obtain c where c: "Connector_start 1 (7, Some ECONNREFUSED) (Connector_ctor 1 0) = Inr c" "cn_state c = Con_kDisconnected"
    "0 < cn_timers c" "cn_channel c = None" "cn_queue c = []"
    by (simp add: Connector_start_def isInLoopThread_def Connector_ctor_def startInLoop_def Connector_connect_def
        createNonblockingOrDie_def Connector_retry_def cn_close_def Let_def)
  show ?thesis using c(1) restarted_connector_aborts_on_old_timer[OF c(2-5), of 8 "(9, None)"] by auto
qed

end
