(* ===== verification/TcpClient.thy ===== *)
theory TcpClient
  imports TcpServer Connector
begin

text \<open>
  The TCP client (\<^verbatim>\<open>tcp.muduo/TcpClient.cc\<close>): a connector and at most one current connection, both
  in one loop. Connection objects are numbered in the order of their creation; \<open>cl_queue\<close> holds
  those whose \<^verbatim>\<open>connectDestroyed\<close> is queued to the loop, \<open>cl_detached\<close> those whose close callback
  the destructor of the client replaced.
\<close>

record tcp_client =
  cl_loop :: thread_id
  cl_connector :: connector
  cl_name :: string
  cl_callbacks :: "conn_callback set"
  cl_retry :: bool
  cl_connect :: bool
  cl_nextConnId :: int
  cl_connection :: "nat option"
  cl_objects :: "tcp_connection list"
  cl_queue :: "nat list"
  cl_detached :: "nat set"

definition TcpClient_ctor :: "thread_id \<Rightarrow> string \<Rightarrow> int \<Rightarrow> tcp_client" where
  "TcpClient_ctor loop nameArg raw = \<lparr>cl_loop = loop, cl_connector = Connector_ctor loop raw, cl_name = nameArg,
     cl_callbacks = {ConnectionCb, MessageCb}, cl_retry = False, cl_connect = True, cl_nextConnId = 1,
     cl_connection = None, cl_objects = [], cl_queue = [], cl_detached = {}\<rparr>"

definition enableRetry :: "tcp_client \<Rightarrow> tcp_client" where
  "enableRetry cl = cl\<lparr>cl_retry := True\<rparr>"

definition cl_setCallback :: "conn_callback \<Rightarrow> tcp_client \<Rightarrow> tcp_client" where
  "cl_setCallback k cl = cl\<lparr>cl_callbacks := insert k (cl_callbacks cl)\<rparr>"

text \<open>An operation on the connection object \<open>i\<close>.\<close>

definition cl_conn :: "nat \<Rightarrow> (tcp_connection \<Rightarrow> tcp_connection res) \<Rightarrow> tcp_client \<Rightarrow> tcp_client res" where
  "cl_conn i f cl =
     (if i < length (cl_objects cl) then
        res_bind (f (cl_objects cl ! i)) (\<lambda>c. Inr (cl\<lparr>cl_objects := (cl_objects cl)[i := c]\<rparr>))
      else Inl (Null_pointer ''conn''))"

definition TcpClient_connect :: "thread_id \<Rightarrow> int \<times> errno option \<Rightarrow> tcp_client \<Rightarrow> tcp_client res" where
  "TcpClient_connect tid answer cl =
     res_bind (Connector_start tid answer (cl_connector cl)) (\<lambda>cn. Inr (cl\<lparr>cl_connect := True, cl_connector := cn\<rparr>))"

definition TcpClient_disconnect :: "thread_id \<Rightarrow> tcp_client \<Rightarrow> tcp_client res" where
  "TcpClient_disconnect tid cl =
     (let cl1 = cl\<lparr>cl_connect := False\<rparr>
      in case cl_connection cl1 of None \<Rightarrow> Inr cl1 | Some i \<Rightarrow> cl_conn i (tc_shutdown tid) cl1)"

definition TcpClient_stop :: "tcp_client \<Rightarrow> tcp_client" where
  "TcpClient_stop cl = cl\<lparr>cl_connect := False, cl_connector := Connector_stop (cl_connector cl)\<rparr>"

text \<open>\<^verbatim>\<open>snprintf(buf, 32, ":%s#%d", ...)\<close>.\<close>

definition client_connName :: "string \<Rightarrow> string \<Rightarrow> int \<Rightarrow> string" where
  "client_connName name ipPort n = name @ take 31 ('':'' @ ipPort @ ''#'' @ decimal n)"

definition client_newConnection :: "thread_id \<Rightarrow> (tcp_connection \<Rightarrow> tcp_connection res) \<Rightarrow> (bytes \<Rightarrow> string) \<Rightarrow>
    sockaddr option \<Rightarrow> int \<Rightarrow> nat \<Rightarrow> tcp_client \<Rightarrow> tcp_client res" where
  "client_newConnection tid onConnection ntop6 peer sockfd raw cl =
     assertInLoopThread tid (cl_loop cl)
     (res_bind (InetAddress_toIpPort ntop6 (getPeerAddr peer)) (\<lambda>ipPort.
      let name = client_connName (cl_name cl) ipPort (cl_nextConnId cl); i = length (cl_objects cl)
      in res_bind (TcpConnection_ctor (cl_loop cl) name sockfd raw) (\<lambda>c.
         let c1 = c\<lparr>tc_callbacks := insert CloseCb (cl_callbacks cl \<inter> {ConnectionCb, MessageCb, WriteCompleteCb})\<rparr>;
             cl1 = cl\<lparr>cl_nextConnId := next_id (cl_nextConnId cl), cl_objects := cl_objects cl @ [c1], cl_connection := Some i\<rparr>
         in cl_conn i (connectEstablished tid onConnection) cl1)))"

definition client_removeConnection :: "thread_id \<Rightarrow> int \<times> errno option \<Rightarrow> nat \<Rightarrow> tcp_client \<Rightarrow> tcp_client res" where
  "client_removeConnection tid answer i cl =
     assertInLoopThread tid (cl_loop cl)
     (require (cl_loop cl = tc_pid (cl_objects cl ! i)) ''loop_ == conn->getLoop()''
      (require (cl_connection cl = Some i) ''connection_ == conn''
       (let cl1 = cl\<lparr>cl_connection := None, cl_queue := cl_queue cl @ [i]\<rparr>
        in if cl_retry cl1 \<and> cl_connect cl1 then
             res_bind (Connector_restart tid answer (cl_connector cl1)) (\<lambda>cn. Inr (cl1\<lparr>cl_connector := cn\<rparr>))
           else Inr cl1)))"

text \<open>The close callback that the destructor installs.\<close>

definition detail_removeConnection :: "nat \<Rightarrow> tcp_client \<Rightarrow> tcp_client" where
  "detail_removeConnection i cl = cl\<lparr>cl_queue := cl_queue cl @ [i]\<rparr>"

text \<open>\<^verbatim>\<open>TcpConnection::handleClose\<close> of a connection of the client, which ends with its close
  callback.\<close>

definition client_handleClose :: "thread_id \<Rightarrow> int \<times> errno option \<Rightarrow> nat \<Rightarrow> tcp_client \<Rightarrow> tcp_client res" where
  "client_handleClose tid answer i cl =
     res_bind (cl_conn i (handleClose tid Inr) cl) (\<lambda>cl1.
       if i \<in> cl_detached cl1 then Inr (detail_removeConnection i cl1) else client_removeConnection tid answer i cl1)"

text \<open>The handler of the connector's channel, which ends with the callback for a new connection.\<close>

definition client_connector_write :: "thread_id \<Rightarrow> (tcp_connection \<Rightarrow> tcp_connection res) \<Rightarrow> (bytes \<Rightarrow> string) \<Rightarrow>
    sockaddr option \<Rightarrow> int + int \<Rightarrow> bool \<Rightarrow> nat \<Rightarrow> tcp_client \<Rightarrow> tcp_client res" where
  "client_connector_write tid onConnection ntop6 peer sockerr self raw cl =
     res_bind (Connector_handleWrite sockerr self (cl_connector cl)) (\<lambda>(cn, d).
       let cl1 = cl\<lparr>cl_connector := cn\<rparr>
       in case d of None \<Rightarrow> Inr cl1 | Some sockfd \<Rightarrow> client_newConnection tid onConnection ntop6 peer sockfd raw cl1)"

text \<open>The destructor, called in the loop's thread. \<open>unique\<close> tells whether the client holds the
  only reference to the connection.\<close>

definition TcpClient_dtor :: "bool \<Rightarrow> tcp_client \<Rightarrow> tcp_client res" where
  "TcpClient_dtor unique cl =
     (case cl_connection cl of
        Some i \<Rightarrow> require (cl_loop cl = tc_pid (cl_objects cl ! i)) ''loop_ == conn->getLoop()''
          (let cl1 = cl\<lparr>cl_detached := insert i (cl_detached cl)\<rparr>
           in if unique then cl_conn i (\<lambda>c. Inr (forceClose c)) cl1 else Inr cl1)
      | None \<Rightarrow> Inr (cl\<lparr>cl_connector := Connector_stop (cl_connector cl)\<rparr>))"

section \<open>Everything that happens to a client\<close>

text \<open>
  The events of a client that runs in its loop's thread, with the answers of the kernel as their arguments. The
  channel of the connector reports events; the connector's retry timer fires or its next functor runs; the peer
  closes the current connection (\<^verbatim>\<open>TcpConnection::handleClose\<close>); the next queued \<^verbatim>\<open>connectDestroyed\<close> runs; the user
  calls \<^verbatim>\<open>stop\<close> or \<^verbatim>\<open>disconnect\<close>. Functors queued by a handler run in the same iteration of the loop, so a connection that
  was just established is not closed before the channel of the connector is destroyed. The data of a connection is the
  subject of \<open>TcpConnection\<close>.
\<close>

datatype client_event =
    Ce_io events "int + int" bool "sockaddr option" nat
  | Ce_timer "int \<times> errno option"
  | Ce_functor "int \<times> errno option"
  | Ce_close "int \<times> errno option"
  | Ce_destroy
  | Ce_stop
  | Ce_disconnect

definition client_call :: "(tcp_connection \<Rightarrow> tcp_connection res) \<Rightarrow> (bytes \<Rightarrow> string) \<Rightarrow> sockaddr option \<Rightarrow> int + int \<Rightarrow> bool \<Rightarrow> nat \<Rightarrow>
    event_call \<Rightarrow> tcp_client \<Rightarrow> tcp_client res" where
  "client_call onConnection ntop6 peer sockerr self raw k cl =
     (case k of
        WriteCallback \<Rightarrow> client_connector_write (cl_loop cl) onConnection ntop6 peer sockerr self raw cl
      | ErrorCallback \<Rightarrow> res_bind (Connector_handleError (cl_connector cl)) (\<lambda>cn. Inr (cl\<lparr>cl_connector := cn\<rparr>))
      | _ \<Rightarrow> Inr cl)"

definition client_connector_step :: "connector_event \<Rightarrow> tcp_client \<Rightarrow> tcp_client res" where
  "client_connector_step ev cl = res_bind (connector_step ev (cl_connector cl, [])) (\<lambda>(cn, _). Inr (cl\<lparr>cl_connector := cn\<rparr>))"

fun client_event_step :: "(tcp_connection \<Rightarrow> tcp_connection res) \<Rightarrow> (bytes \<Rightarrow> string) \<Rightarrow> client_event \<Rightarrow> tcp_client \<Rightarrow> tcp_client res" where
  "client_event_step onConnection ntop6 (Ce_io revents sockerr self peer raw) cl =
     (case cn_channel (cl_connector cl) of
        Some ch \<Rightarrow> (if ch_addedToLoop ch
                    then res_fold (client_call onConnection ntop6 peer sockerr self raw) (handleEvent True (set_revents revents ch)) cl
                    else Inr cl)
      | None \<Rightarrow> Inr cl)"
| "client_event_step onConnection ntop6 (Ce_timer answer) cl = client_connector_step (Con_timer answer) cl"
| "client_event_step onConnection ntop6 (Ce_functor answer) cl = client_connector_step (Con_functor answer) cl"
| "client_event_step onConnection ntop6 (Ce_close answer) cl =
     (case cl_connection cl of
        None \<Rightarrow> Inr cl
      | Some i \<Rightarrow> if F_resetChannel \<in> set (cn_queue (cl_connector cl)) then Inr cl else client_handleClose (cl_loop cl) answer i cl)"
| "client_event_step onConnection ntop6 Ce_destroy cl =
     (case cl_queue cl of [] \<Rightarrow> Inr cl | i # q \<Rightarrow> cl_conn i (connectDestroyed (cl_loop cl) onConnection) (cl\<lparr>cl_queue := q\<rparr>))"
| "client_event_step onConnection ntop6 Ce_stop cl = Inr (TcpClient_stop cl)"
| "client_event_step onConnection ntop6 Ce_disconnect cl = TcpClient_disconnect (cl_loop cl) cl"

text \<open>The answers the kernel can give: \<^verbatim>\<open>socket\<close> returns a descriptor (the process ends otherwise), the peer has an
  address. After some errors of \<^verbatim>\<open>connect\<close> the connector does not try again.\<close>

definition inet_peer :: "sockaddr option \<Rightarrow> bool" where
  "inet_peer peer \<longleftrightarrow> sa_family (getPeerAddr peer) = AF_INET \<or> sa_family (getPeerAddr peer) = AF_INET6"

fun client_event_ok :: "client_event \<Rightarrow> bool" where
  "client_event_ok (Ce_io revents sockerr self peer raw) = inet_peer peer"
| "client_event_ok (Ce_timer answer) = (0 \<le> fst answer)"
| "client_event_ok (Ce_close answer) = (0 \<le> fst answer)"
| "client_event_ok _ = True"

definition retryable :: "int \<times> errno option \<Rightarrow> bool" where
  "retryable answer \<longleftrightarrow> snd answer \<in> insert None (Some ` {EINPROGRESS, EINTR, EISCONN, EAGAIN, EADDRINUSE, EADDRNOTAVAIL, ECONNREFUSED, ENETUNREACH})"

fun client_event_retryable :: "client_event \<Rightarrow> bool" where
  "client_event_retryable (Ce_timer answer) = retryable answer"
| "client_event_retryable (Ce_close answer) = retryable answer"
| "client_event_retryable _ = True"

section \<open>The connector keeps trying\<close>

definition trying :: "connector \<Rightarrow> bool" where
  "trying c \<longleftrightarrow> cn_state c = Con_kConnecting \<or> 0 < cn_timers c"

lemma connect_tries:
  assumes "Connector_connect a c = Inr c'"
  shows "cn_queue c' = cn_queue c" "retryable a \<Longrightarrow> cn_connect c \<Longrightarrow> trying c'"
proof -
  have r: "cn_queue (Connector_retry fd c1) = cn_queue c1" "cn_connect c1 \<Longrightarrow> trying (Connector_retry fd c1)"
    "cn_queue (cn_close fd c1) = cn_queue c1" for fd c1
    by (simp_all add: Connector_retry_def cn_close_def trying_def Let_def)
  have k: "connecting fd c1 = Inr c2 \<Longrightarrow> cn_queue c2 = cn_queue c1 \<and> trying c2" for fd c1 c2
    by (auto simp: connecting_def trying_def Let_def)
  obtain fd e where a: "a = (fd, e)" by (cases a)
  show "cn_queue c' = cn_queue c"
  proof (cases e)
    case None
    then show ?thesis using assms by (auto simp: Connector_connect_def a dest!: k)
  next
    case (Some e')
    then show ?thesis using assms by (cases e') (auto simp: Connector_connect_def a r dest!: k)
  qed
  show "trying c'" if "retryable a" "cn_connect c"
    using assms that by (auto simp: Connector_connect_def retryable_def r Let_def dest!: k)
qed

lemma start_tries:
  assumes "startInLoop tid a c = Inr c'"
  shows "cn_queue c' = cn_queue c" "retryable a \<Longrightarrow> cn_connect c \<Longrightarrow> trying c'"
  using assms connect_tries[of a c c'] by (auto simp: startInLoop_def assertInLoopThread_def split: if_splits)

lemma functor_tries:
  assumes "run_connector_functor tid a f (c\<lparr>cn_queue := q\<rparr>) = Inr c'" "f \<noteq> F_startInLoop"
  shows "set (cn_queue c') \<subseteq> insert F_resetChannel (set q)" "f \<noteq> F_stopInLoop \<Longrightarrow> trying c' = trying c"
  using assms by (auto simp: run_connector_functor_def resetChannel_def stopInLoop_def removeAndResetChannel_def trying_def cn_enqueue_def
      Connector_retry_def cn_close_def assertInLoopThread_def Let_def split: connector_functor.splits option.splits if_splits)

text \<open>A timer or a functor of the connector.\<close>

lemma connector_alone:
  assumes inv: "connector_inv c" and ev: "ev = Con_functor a \<or> ev = Con_timer a \<and> 0 \<le> fst a"
  shows "\<exists>c'. connector_step ev (c, []) = Inr (c', []) \<and> connector_inv c' \<and> cn_pid c' = cn_pid c \<and> cn_connect c' = cn_connect c \<and>
    (cn_state c = Con_kConnected \<longrightarrow> cn_state c' = Con_kConnected) \<and> set (cn_queue c') \<subseteq> insert F_resetChannel (set (cn_queue c)) \<and>
    (cn_connect c \<and> F_stopInLoop \<notin> set (cn_queue c) \<and> trying c \<and> (ev = Con_timer a \<longrightarrow> retryable a) \<longrightarrow> trying c')"
  using ev
proof (elim disjE conjE)
  assume ev: "ev = Con_functor a"
  show ?thesis
  proof (cases "cn_queue c")
    case Nil
    then show ?thesis using inv ev by (simp add: connector_step_def)
  next
    case (Cons f q)
    have f: "f \<noteq> F_startInLoop" using inv Cons by (auto simp: connector_inv_def)
    have "\<exists>c'. run_connector_functor (cn_pid c) a f (c\<lparr>cn_queue := q\<rparr>) = Inr c' \<and> connector_inv c' \<and> cn_connect c' = cn_connect c \<and>
      (cn_state c = Con_kConnected \<longrightarrow> cn_state c' = Con_kConnected) \<and> cn_pid c' = cn_pid c"
      using f Cons resetChannel_ok[OF inv, of q] stopInLoop_ok[OF inv, of q] by (cases f) (auto simp: run_connector_functor_def)
    then obtain c' where c': "run_connector_functor (cn_pid c) a f (c\<lparr>cn_queue := q\<rparr>) = Inr c'" "connector_inv c'" "cn_connect c' = cn_connect c"
      "cn_state c = Con_kConnected \<longrightarrow> cn_state c' = Con_kConnected" "cn_pid c' = cn_pid c" by blast
    then show ?thesis using functor_tries[OF c'(1) f] ev Cons by (auto simp: connector_step_def)
  qed
next
  assume ev: "ev = Con_timer a" and fd: "0 \<le> fst a"
  show ?thesis
  proof (cases "cn_timers c > 0 \<and> \<not> (cn_connect c \<and> F_resetChannel \<in> set (cn_queue c))")
    case True
    let ?c = "c\<lparr>cn_timers := cn_timers c - 1\<rparr>"
    have st: "cn_state c = Con_kDisconnected" "cn_timers ?c = 0" "connector_inv ?c" using inv True
      by (auto simp: connector_inv_def channel_idle_def split: if_splits option.splits)
    have "cn_connect c \<Longrightarrow> cn_channel ?c = None"
      using inv st(1) True by (auto simp: connector_inv_def channel_idle_def split: option.splits)
    then obtain c' where c': "startInLoop (cn_pid ?c) a ?c = Inr c'" "connector_inv c'" "cn_connect c' = cn_connect ?c" "cn_pid c' = cn_pid ?c"
      using startInLoop_ok[OF st(3) _ st(2) _ fd] st(1) by auto
    then show ?thesis using start_tries[OF c'(1)] True ev st(1) by (auto simp: connector_step_def)
  next
    case False
    then show ?thesis using inv ev by (auto simp: connector_step_def)
  qed
qed

lemma handleWrite_tries:
  assumes "Connector_handleWrite sockerr self c = Inr (c', d)"
  shows "set (cn_queue c') \<subseteq> insert F_resetChannel (set (cn_queue c))"
    "cn_state c = Con_kDisconnected \<Longrightarrow> c' = c \<and> d = None" "trying c \<Longrightarrow> cn_connect c \<Longrightarrow> d = None \<Longrightarrow> trying c'"
    "cn_state c = Con_kConnecting \<Longrightarrow> cn_connect c \<Longrightarrow> getSocketError sockerr = 0 \<Longrightarrow> \<not> self \<Longrightarrow> d \<noteq> None"
  using assms by (auto simp: Connector_handleWrite_def removeAndResetChannel_def trying_def cn_enqueue_def
      Connector_retry_def cn_close_def Let_def split: option.splits if_splits)

lemma handleError_tries:
  assumes "Connector_handleError c = Inr c'"
  shows "set (cn_queue c') \<subseteq> insert F_resetChannel (set (cn_queue c))" "trying c \<Longrightarrow> cn_connect c \<Longrightarrow> trying c'"
  using assms by (auto simp: Connector_handleError_def removeAndResetChannel_def trying_def cn_enqueue_def
      Connector_retry_def cn_close_def Let_def split: option.splits if_splits)

text \<open>A restart after a connection was closed.\<close>

lemma restart_ok:
  assumes inv: "connector_inv c" and c: "cn_state c = Con_kConnected" "F_resetChannel \<notin> set (cn_queue c)" and fd: "0 \<le> fst a"
  shows "\<exists>c'. Connector_restart (cn_pid c) a c = Inr c' \<and> connector_inv c' \<and> cn_pid c' = cn_pid c \<and> cn_connect c' \<and>
    cn_queue c' = cn_queue c \<and> (retryable a \<longrightarrow> trying c')"
proof -
  let ?c = "c\<lparr>cn_state := Con_kDisconnected, cn_retryDelayMs := kInitRetryDelayMs, cn_connect := True\<rparr>"
  have ch: "cn_channel c = None" "cn_timers c = 0" "connector_inv ?c"
    using inv c by (auto simp: connector_inv_def channel_idle_def count_list_0_iff kInitRetryDelayMs_def kMaxRetryDelayMs_def split: option.splits)
  obtain c' where c': "startInLoop (cn_pid ?c) a ?c = Inr c'" "connector_inv c'" "cn_connect c'" "cn_pid c' = cn_pid ?c"
    using startInLoop_ok[OF ch(3) _ _ _ fd] ch by auto
  then show ?thesis using start_tries[OF c'(1)] by (simp add: Connector_restart_def)
qed

lemma newConnection_client:
  assumes f: "quiet f" and addr: "sa_family (getPeerAddr peer) = AF_INET \<or> sa_family (getPeerAddr peer) = AF_INET6" "\<forall>bs. length (ntop6 bs) \<le> 45"
    and cb: "ConnectionCb \<in> cl_callbacks cl"
  shows "\<exists>c. client_newConnection (cl_loop cl) f ntop6 peer sockfd raw cl = Inr (cl\<lparr>cl_nextConnId := next_id (cl_nextConnId cl),
      cl_objects := cl_objects cl @ [c], cl_connection := Some (length (cl_objects cl))\<rparr>) \<and> tc_pid c = cl_loop cl \<and>
    tc_state c = kConnected \<and> watched c \<and> {ConnectionCb, CloseCb} \<subseteq> tc_callbacks c"
proof -
  obtain ipPort where ip: "InetAddress_toIpPort ntop6 (getPeerAddr peer) = Inr ipPort" using ipPort_length[OF addr] by blast
  let ?name = "client_connName (cl_name cl) ipPort (cl_nextConnId cl)"
  obtain c0 where c0: "TcpConnection_ctor (cl_loop cl) ?name sockfd raw = Inr c0" "tc_state c0 = kConnecting" "tc_pid c0 = cl_loop cl"
    using TcpConnection_ctor_ok[of "cl_loop cl" ?name sockfd raw] by blast
  let ?c = "c0\<lparr>tc_callbacks := insert CloseCb (cl_callbacks cl \<inter> {ConnectionCb, MessageCb, WriteCompleteCb})\<rparr>"
  obtain c where c: "connectEstablished (cl_loop cl) f ?c = Inr c" "tc_pid c = cl_loop cl" "tc_state c = kConnected" "watched c"
    "tc_callbacks c = tc_callbacks ?c"
    using connectEstablished_up[OF f, of ?c] c0 cb by auto
  then show ?thesis
    using ip c0(1) cb by (intro exI[of _ c]) (simp add: client_newConnection_def cl_conn_def Let_def)
qed

section \<open>Invariant\<close>

text \<open>An open connection belongs to the loop and reports to the client; it may be shutting down.\<close>

definition conn_open :: "tcp_connection \<Rightarrow> bool" where
  "conn_open c \<longleftrightarrow> tc_state c = kConnected \<or> tc_state c = kDisconnecting"

definition conn_of :: "thread_id \<Rightarrow> tcp_connection \<Rightarrow> bool" where
  "conn_of loop c \<longleftrightarrow> tc_pid c = loop \<and> {ConnectionCb, CloseCb} \<subseteq> tc_callbacks c"

lemma close_open:
  assumes "conn_open c" "conn_of loop c"
  shows "\<exists>c'. handleClose loop Inr c = Inr c' \<and> conn_open c' \<and> conn_of loop c'"
  using assms by (auto simp: handleClose_def call_back_def tc_update_def conn_open_def conn_of_def)

lemma shutdown_open:
  assumes "conn_open c" "conn_of loop c" "watched c"
  shows "\<exists>c'. tc_shutdown loop c = Inr c' \<and> conn_open c' \<and> conn_of loop c' \<and> watched c'"
  using assms by (auto simp: tc_shutdown_def shutdownInLoop_def isInLoopThread_def Let_def conn_open_def conn_of_def watched_def)

lemma destroy_open:
  assumes "quiet f" "conn_open c" "conn_of loop c"
  shows "\<exists>c'. connectDestroyed loop f c = Inr c' \<and> tc_state c' = kDisconnected \<and> conn_of loop c'"
proof -
  let ?c = "(tc_update disableAll (c\<lparr>tc_state := kDisconnected\<rparr>))\<lparr>tc_events := tc_events c @ [On_connection False]\<rparr>"
  obtain c1 where "f ?c = Inr c1" "tc_pid c1 = tc_pid c" "tc_state c1 = kDisconnected"
    "tc_channel c1 = tc_channel ?c" "tc_callbacks c1 = tc_callbacks c"
    using quietE[OF assms(1), of ?c] by (auto simp: tc_update_def)
  then show ?thesis using assms(2,3)
    by (auto simp: connectDestroyed_def call_back_def tc_remove_def tc_update_def conn_open_def conn_of_def isNoneEvent_def disableAll_def)
qed

text \<open>The current connection is open and watched, and the connector that delivered it rests; the connections whose
  \<^verbatim>\<open>connectDestroyed\<close> is queued are open, and all others are disconnected. Only \<^verbatim>\<open>stop\<close> stops the connector.\<close>

definition client_inv :: "tcp_client \<Rightarrow> bool" where
  "client_inv cl \<longleftrightarrow> connector_inv (cl_connector cl) \<and> cn_pid (cl_connector cl) = cl_loop cl \<and> ConnectionCb \<in> cl_callbacks cl \<and>
     cl_detached cl = {} \<and> distinct (cl_queue cl) \<and> set (cl_queue cl) \<subseteq> {..<length (cl_objects cl)} \<and>
     (cl_connect cl \<longrightarrow> cn_connect (cl_connector cl) \<and> F_stopInLoop \<notin> set (cn_queue (cl_connector cl))) \<and>
     (\<forall>i. cl_connection cl = Some i \<longrightarrow>
        i < length (cl_objects cl) \<and> i \<notin> set (cl_queue cl) \<and> watched (cl_objects cl ! i) \<and> cn_state (cl_connector cl) = Con_kConnected) \<and>
     (\<forall>i < length (cl_objects cl). conn_of (cl_loop cl) (cl_objects cl ! i) \<and>
        (if cl_connection cl = Some i \<or> i \<in> set (cl_queue cl) then conn_open (cl_objects cl ! i) else tc_state (cl_objects cl ! i) = kDisconnected))"

definition client_trying :: "tcp_client \<Rightarrow> bool" where
  "client_trying cl \<longleftrightarrow> (cl_retry cl \<and> cl_connect cl \<longrightarrow> cl_connection cl \<noteq> None \<or> trying (cl_connector cl))"

text \<open>A step of the connector that hands nothing over.\<close>

lemma client_inv_connector:
  assumes "client_inv cl" "connector_inv cn" "cn_pid cn = cl_loop cl" "cn_connect cn = cn_connect (cl_connector cl)"
    "cn_state (cl_connector cl) = Con_kConnected \<longrightarrow> cn_state cn = Con_kConnected"
    "set (cn_queue cn) \<subseteq> insert F_resetChannel (set (cn_queue (cl_connector cl)))"
  shows "client_inv (cl\<lparr>cl_connector := cn\<rparr>)"
  using assms unfolding client_inv_def by auto

text \<open>A new connection while there is none.\<close>

lemma client_inv_new:
  assumes inv: "client_inv cl" and none: "cl_connection cl = None" "cn_state (cl_connector cl) = Con_kConnected"
    and f: "quiet f" "inet_peer peer" "\<forall>bs. length (ntop6 bs) \<le> 45"
  shows "\<exists>cl'. client_newConnection (cl_loop cl) f ntop6 peer fd raw cl = Inr cl' \<and> client_inv cl' \<and>
    cl_connection cl' = Some (length (cl_objects cl)) \<and> cl_connector cl' = cl_connector cl \<and> cl_loop cl' = cl_loop cl"
proof -
  obtain c where c: "client_newConnection (cl_loop cl) f ntop6 peer fd raw cl = Inr (cl\<lparr>cl_nextConnId := next_id (cl_nextConnId cl),
      cl_objects := cl_objects cl @ [c], cl_connection := Some (length (cl_objects cl))\<rparr>)" "tc_pid c = cl_loop cl"
    "tc_state c = kConnected" "watched c" "{ConnectionCb, CloseCb} \<subseteq> tc_callbacks c"
    using newConnection_client[OF f(1) _ f(3), of peer cl fd raw] f(2) inv by (auto simp: inet_peer_def client_inv_def)
  have "client_inv (cl\<lparr>cl_nextConnId := next_id (cl_nextConnId cl), cl_objects := cl_objects cl @ [c],
      cl_connection := Some (length (cl_objects cl))\<rparr>)"
    using inv none c(2-5) by (auto simp: client_inv_def conn_of_def conn_open_def nth_append less_Suc_eq)
  then show ?thesis using c(1) by simp
qed

lemma client_write_ok:
  assumes inv: "client_inv cl" and st: "cn_state (cl_connector cl) \<noteq> Con_kConnected"
    and f: "quiet f" "inet_peer peer" "\<forall>bs. length (ntop6 bs) \<le> 45"
  shows "\<exists>cl'. client_connector_write (cl_loop cl) f ntop6 peer sockerr self raw cl = Inr cl' \<and> client_inv cl' \<and>
    (client_trying cl \<longrightarrow> client_trying cl') \<and>
    (cn_state (cl_connector cl) = Con_kConnecting \<and> cl_connect cl \<and> getSocketError sockerr = 0 \<and> \<not> self \<longrightarrow>
      cl_connection cl' = Some (length (cl_objects cl)))"
proof -
  have cn: "connector_inv (cl_connector cl)" "cn_pid (cl_connector cl) = cl_loop cl" "cl_connection cl = None"
    "cl_connect cl \<longrightarrow> cn_connect (cl_connector cl)" using inv st by (auto simp: client_inv_def)
  obtain cn' d where w: "Connector_handleWrite sockerr self (cl_connector cl) = Inr (cn', d)" "connector_inv cn'"
    "cn_connect cn' = cn_connect (cl_connector cl)" "cn_pid cn' = cn_pid (cl_connector cl)" "d \<noteq> None \<longrightarrow> cn_state cn' = Con_kConnected"
    using handleWrite_ok[OF cn(1) st, of sockerr self] by blast
  note t = handleWrite_tries[OF w(1)]
  have inv1: "client_inv (cl\<lparr>cl_connector := cn'\<rparr>)"
    by (rule client_inv_connector[OF inv w(2)]) (use w cn(2) st t(1) in auto)
  show ?thesis
  proof (cases d)
    case None
    have "client_trying (cl\<lparr>cl_connector := cn'\<rparr>)" if "client_trying cl" using that t(3) None cn by (auto simp: client_trying_def)
    then show ?thesis using w(1) None inv1 t(4) cn(4) by (auto simp: client_connector_write_def)
  next
    case (Some fd)
    then show ?thesis using w(1,5) cn(3) client_inv_new[OF inv1 _ _ f, of fd raw] by (auto simp: client_connector_write_def client_trying_def)
  qed
qed

lemma client_error_ok:
  assumes inv: "client_inv cl" and st: "cn_state (cl_connector cl) = Con_kConnecting"
  shows "\<exists>cn. Connector_handleError (cl_connector cl) = Inr cn \<and> client_inv (cl\<lparr>cl_connector := cn\<rparr>) \<and>
    (client_trying cl \<longrightarrow> client_trying (cl\<lparr>cl_connector := cn\<rparr>)) \<and> cn_state cn = Con_kDisconnected"
proof -
  have cn: "connector_inv (cl_connector cl)" "cn_pid (cl_connector cl) = cl_loop cl" "cl_connection cl = None"
    "cl_connect cl \<longrightarrow> cn_connect (cl_connector cl)" using inv st by (auto simp: client_inv_def)
  obtain cn' where w: "Connector_handleError (cl_connector cl) = Inr cn'" "connector_inv cn'" "cn_connect cn' = cn_connect (cl_connector cl)"
    "cn_state cn' = Con_kDisconnected" "cn_pid cn' = cn_pid (cl_connector cl)" using handleError_ok[OF cn(1)] st by auto
  note t = handleError_tries[OF w(1)]
  have "client_inv (cl\<lparr>cl_connector := cn'\<rparr>)" by (rule client_inv_connector[OF inv w(2)]) (use w cn(2) st t(1) in auto)
  then show ?thesis using w t(2) cn by (auto simp: client_trying_def)
qed

section \<open>Every event\<close>

text \<open>What every event keeps; a client that tries goes on doing so.\<close>

definition client_fine :: "(tcp_connection \<Rightarrow> tcp_connection res) \<Rightarrow> (bytes \<Rightarrow> string) \<Rightarrow> client_event \<Rightarrow> tcp_client \<Rightarrow> bool" where
  "client_fine f ntop6 ev cl \<longleftrightarrow> (\<exists>cl'. client_event_step f ntop6 ev cl = Inr cl' \<and> client_inv cl' \<and>
     (client_event_retryable ev \<and> client_trying cl \<longrightarrow> client_trying cl'))"

lemma io_client_fine:
  assumes inv: "client_inv cl" and f: "quiet f" "inet_peer peer" "\<forall>bs. length (ntop6 bs) \<le> 45"
  shows "client_fine f ntop6 (Ce_io revents sockerr self peer raw) cl"
proof (cases "\<exists>ch. cn_channel (cl_connector cl) = Some ch \<and> ch_addedToLoop ch")
  case True
  then obtain ch where ch: "cn_channel (cl_connector cl) = Some ch" "ch_addedToLoop ch" by blast
  then have st: "cn_state (cl_connector cl) = Con_kConnecting"
    using inv by (auto simp: client_inv_def connector_inv_def channel_idle_def split: if_splits)
  let ?call = "client_call f ntop6 peer sockerr self raw"
  have w: "\<exists>cl'. ?call WriteCallback cl1 = Inr cl' \<and> client_inv cl' \<and> (client_trying cl1 \<longrightarrow> client_trying cl')"
    if "client_inv cl1" "cn_state (cl_connector cl1) \<noteq> Con_kConnected" for cl1
    using client_write_ok[OF that f, of sockerr self raw] by (auto simp: client_call_def)
  obtain cl1 where e: "?call ErrorCallback cl = Inr cl1" "client_inv cl1" "client_trying cl \<longrightarrow> client_trying cl1"
    "cn_state (cl_connector cl1) = Con_kDisconnected" using client_error_ok[OF inv st] by (auto simp: client_call_def)
  have other: "?call CloseCallback x = Inr x" "?call ReadCallback x = Inr x" for x by (simp_all add: client_call_def)
  show ?thesis
    using w[OF inv] w[OF e(2)] e st inv ch
    by (auto simp: client_fine_def handleEvent_def handleEventWithGuard_def call_if_def Let_def other)
next
  case False
  then show ?thesis using inv by (auto simp: client_fine_def split: option.splits)
qed

lemma connector_client_fine:
  assumes inv: "client_inv cl" and ev: "ev = Con_functor a \<or> ev = Con_timer a \<and> 0 \<le> fst a"
  shows "\<exists>cl'. client_connector_step ev cl = Inr cl' \<and> client_inv cl' \<and>
    ((ev = Con_timer a \<longrightarrow> retryable a) \<and> client_trying cl \<longrightarrow> client_trying cl')"
proof -
  have cn: "connector_inv (cl_connector cl)" "cn_pid (cl_connector cl) = cl_loop cl"
    "cl_connect cl \<longrightarrow> cn_connect (cl_connector cl) \<and> F_stopInLoop \<notin> set (cn_queue (cl_connector cl))" using inv by (auto simp: client_inv_def)
  obtain c' where c': "connector_step ev (cl_connector cl, []) = Inr (c', [])" "connector_inv c'" "cn_pid c' = cn_pid (cl_connector cl)"
    "cn_connect c' = cn_connect (cl_connector cl)" "cn_state (cl_connector cl) = Con_kConnected \<longrightarrow> cn_state c' = Con_kConnected"
    "set (cn_queue c') \<subseteq> insert F_resetChannel (set (cn_queue (cl_connector cl)))"
    "cn_connect (cl_connector cl) \<and> F_stopInLoop \<notin> set (cn_queue (cl_connector cl)) \<and> trying (cl_connector cl) \<and> (ev = Con_timer a \<longrightarrow> retryable a) \<longrightarrow> trying c'"
    using connector_alone[OF cn(1) ev] by blast
  have "client_inv (cl\<lparr>cl_connector := c'\<rparr>)" by (rule client_inv_connector[OF inv c'(2)]) (use c' cn(2) in auto)
  then show ?thesis using c'(1,7) cn(3) by (auto simp: client_connector_step_def client_trying_def)
qed

lemma close_client_fine:
  assumes inv: "client_inv cl" and fd: "0 \<le> fst a"
  shows "client_fine f ntop6 (Ce_close a) cl"
proof (cases "\<exists>i. cl_connection cl = Some i \<and> F_resetChannel \<notin> set (cn_queue (cl_connector cl))")
  case True
  then obtain i where i: "cl_connection cl = Some i" "F_resetChannel \<notin> set (cn_queue (cl_connector cl))" by blast
  then have o: "i < length (cl_objects cl)" "i \<notin> set (cl_queue cl)" "conn_open (cl_objects cl ! i)" "conn_of (cl_loop cl) (cl_objects cl ! i)"
    "cn_state (cl_connector cl) = Con_kConnected" "connector_inv (cl_connector cl)" "cn_pid (cl_connector cl) = cl_loop cl" "cl_detached cl = {}"
    using inv by (auto simp: client_inv_def)
  obtain c' where c': "handleClose (cl_loop cl) Inr (cl_objects cl ! i) = Inr c'" "conn_open c'" "conn_of (cl_loop cl) c'"
    using close_open[OF o(3,4)] by blast
  let ?cl1 = "cl\<lparr>cl_objects := (cl_objects cl)[i := c'], cl_connection := None, cl_queue := cl_queue cl @ [i]\<rparr>"
  have inv1: "client_inv ?cl1"
    using inv o c' i by (auto simp: client_inv_def nth_list_update)
  obtain cn where cn: "Connector_restart (cl_loop cl) a (cl_connector cl) = Inr cn" "connector_inv cn" "cn_pid cn = cl_loop cl" "cn_connect cn"
    "cn_queue cn = cn_queue (cl_connector cl)" "retryable a \<longrightarrow> trying cn"
    using restart_ok[OF o(6,5) i(2) fd] o(7) by auto
  have "client_inv (?cl1\<lparr>cl_connector := cn\<rparr>)" using inv1 cn by (auto simp: client_inv_def)
  then show ?thesis using i o c' cn inv1
    by (auto simp: client_fine_def client_handleClose_def cl_conn_def client_removeConnection_def conn_of_def Let_def client_trying_def)
next
  case False
  then show ?thesis using inv by (auto simp: client_fine_def split: option.splits)
qed

lemma destroy_client_fine:
  assumes inv: "client_inv cl" and f: "quiet f"
  shows "client_fine f ntop6 Ce_destroy cl"
proof (cases "cl_queue cl")
  case (Cons i q)
  then have o: "i < length (cl_objects cl)" "conn_open (cl_objects cl ! i)" "conn_of (cl_loop cl) (cl_objects cl ! i)"
    "cl_connection cl \<noteq> Some i" "i \<notin> set q" using inv by (auto simp: client_inv_def)
  obtain c' where c': "connectDestroyed (cl_loop cl) f (cl_objects cl ! i) = Inr c'" "tc_state c' = kDisconnected" "conn_of (cl_loop cl) c'"
    using destroy_open[OF f o(2,3)] by blast
  have "client_inv (cl\<lparr>cl_queue := q, cl_objects := (cl_objects cl)[i := c']\<rparr>)"
    using inv o c' Cons by (auto simp: client_inv_def nth_list_update)
  then show ?thesis using Cons o(1) c'(1) by (simp add: client_fine_def cl_conn_def client_trying_def)
qed (use inv in \<open>simp add: client_fine_def\<close>)

lemma stop_client_fine:
  assumes inv: "client_inv cl"
  shows "client_fine f ntop6 Ce_stop cl"
proof -
  have "connector_inv (Connector_stop (cl_connector cl))"
    using inv by (simp add: client_inv_def Connector_stop_def cn_enqueue_def connector_defs cong: option.case_cong if_cong)
  then have "client_inv (TcpClient_stop cl)" using inv by (auto simp: client_inv_def TcpClient_stop_def Connector_stop_def cn_enqueue_def)
  then show ?thesis by (simp add: client_fine_def client_trying_def TcpClient_stop_def)
qed

lemma disconnect_client_fine:
  assumes inv: "client_inv cl"
  shows "client_fine f ntop6 Ce_disconnect cl"
proof (cases "cl_connection cl")
  case None
  then have "client_inv (cl\<lparr>cl_connect := False\<rparr>)" using inv by (simp add: client_inv_def)
  then show ?thesis using None by (simp add: client_fine_def TcpClient_disconnect_def client_trying_def)
next
  case (Some i)
  then have o: "i < length (cl_objects cl)" "conn_open (cl_objects cl ! i)" "conn_of (cl_loop cl) (cl_objects cl ! i)" "watched (cl_objects cl ! i)"
    using inv by (auto simp: client_inv_def)
  obtain c' where c': "tc_shutdown (cl_loop cl) (cl_objects cl ! i) = Inr c'" "conn_open c'" "conn_of (cl_loop cl) c'" "watched c'"
    using shutdown_open[OF o(2-4)] by blast
  have "client_inv (cl\<lparr>cl_connect := False, cl_objects := (cl_objects cl)[i := c']\<rparr>)"
    using inv o c' Some by (auto simp: client_inv_def nth_list_update)
  then show ?thesis using Some o(1) c'(1) by (simp add: client_fine_def TcpClient_disconnect_def cl_conn_def client_trying_def)
qed

lemma client_event_fine:
  assumes inv: "client_inv cl" and ev: "client_event_ok ev" and f: "quiet f" "\<forall>bs. length (ntop6 bs) \<le> 45"
  shows "client_fine f ntop6 ev cl"
proof (cases ev)
  case (Ce_io revents sockerr self peer raw)
  then show ?thesis using io_client_fine[OF inv f(1) _ f(2)] ev by simp
next
  case (Ce_timer a)
  then show ?thesis using connector_client_fine[OF inv, of "Con_timer a" a] ev by (simp add: client_fine_def)
next
  case (Ce_functor a)
  then show ?thesis using connector_client_fine[OF inv, of "Con_functor a" a] by (simp add: client_fine_def)
qed (use close_client_fine[OF inv] destroy_client_fine[OF inv f(1)] stop_client_fine[OF inv] disconnect_client_fine[OF inv] ev in auto)

lemma client_run_fine:
  assumes "client_inv cl" "list_all client_event_ok evs" "quiet f" "\<forall>bs. length (ntop6 bs) \<le> 45"
  shows "\<exists>cl'. res_fold (client_event_step f ntop6) evs cl = Inr cl' \<and> client_inv cl' \<and>
    (list_all client_event_retryable evs \<and> client_trying cl \<longrightarrow> client_trying cl')"
  using assms(1,2)
proof (induction evs arbitrary: cl)
  case (Cons ev evs)
  then obtain cl1 where 1: "client_event_step f ntop6 ev cl = Inr cl1" "client_inv cl1"
    "client_event_retryable ev \<and> client_trying cl \<longrightarrow> client_trying cl1"
    using client_event_fine[OF Cons.prems(1) _ assms(3,4), of ev] by (auto simp: client_fine_def)
  then show ?case using Cons.IH[of cl1] Cons.prems(2) by fastforce
qed simp

lemma client_started:
  assumes "0 \<le> fst answer"
  shows "\<exists>cl. TcpClient_connect loop answer (enableRetry (TcpClient_ctor loop name raw)) = Inr cl \<and> client_inv cl \<and>
    (retryable answer \<longrightarrow> client_trying cl)"
proof -
  let ?c = "(Connector_ctor loop raw)\<lparr>cn_connect := True\<rparr>"
  have "connector_inv ?c"
    by (simp add: Connector_ctor_def connector_inv_def channel_idle_def kInitRetryDelayMs_def kMaxRetryDelayMs_def)
  then obtain c where c: "startInLoop loop answer ?c = Inr c" "connector_inv c" "cn_connect c" "cn_pid c = loop"
    using startInLoop_ok[of ?c answer] assms by (auto simp: Connector_ctor_def)
  have "cn_queue c = []" "retryable answer \<longrightarrow> trying c" using start_tries[OF c(1)] by (auto simp: Connector_ctor_def)
  then show ?thesis using c
    by (simp add: TcpClient_connect_def enableRetry_def TcpClient_ctor_def Connector_start_def isInLoopThread_def Connector_ctor_def
        client_inv_def client_trying_def)
qed

lemma fold_keeps_retry: "res_fold g xs cl = Inr cl' \<Longrightarrow> (\<And>x cl cl'. g x cl = Inr cl' \<Longrightarrow> cl_retry cl' = cl_retry cl) \<Longrightarrow> cl_retry cl' = cl_retry cl"
  by (induction xs arbitrary: cl) fastforce+

lemma conn_keeps_retry: "cl_conn i g cl = Inr cl' \<Longrightarrow> cl_retry cl' = cl_retry cl"
  by (auto simp: cl_conn_def split: if_splits)

lemma new_keeps_retry: "client_newConnection tid f ntop6 peer fd raw cl = Inr cl' \<Longrightarrow> cl_retry cl' = cl_retry cl"
  by (auto simp: client_newConnection_def assertInLoopThread_def Let_def dest!: conn_keeps_retry split: if_splits)

lemma call_keeps_retry: "client_call f ntop6 peer sockerr self raw k cl = Inr cl' \<Longrightarrow> cl_retry cl' = cl_retry cl"
  by (cases k) (auto simp: client_call_def client_connector_write_def Let_def dest!: new_keeps_retry split: option.splits)

lemma close_keeps_retry:
  assumes "client_handleClose tid a i cl = Inr cl'"
  shows "cl_retry cl' = cl_retry cl"
proof -
  obtain cl1 where "cl_conn i (handleClose tid Inr) cl = Inr cl1"
    "(if i \<in> cl_detached cl1 then Inr (detail_removeConnection i cl1) else client_removeConnection tid a i cl1) = Inr cl'"
    using assms by (auto simp: client_handleClose_def)
  moreover from this(2) have "cl_retry cl' = cl_retry cl1"
    by (auto simp: detail_removeConnection_def client_removeConnection_def assertInLoopThread_def Let_def split: if_splits)
  ultimately show ?thesis using conn_keeps_retry by metis
qed

lemma event_keeps_retry:
  assumes "client_event_step f ntop6 ev cl = Inr cl'"
  shows "cl_retry cl' = cl_retry cl"
proof (cases ev)
  case (Ce_io revents sockerr self peer raw)
  have "res_fold (client_call f ntop6 peer sockerr self raw) ks cl = Inr cl' \<Longrightarrow> cl_retry cl' = cl_retry cl" for ks
    by (erule fold_keeps_retry) (rule call_keeps_retry)
  then show ?thesis using assms Ce_io by (auto split: option.splits if_splits)
next
  case (Ce_close a)
  then show ?thesis using assms close_keeps_retry by (fastforce split: option.splits if_splits)
next
  case Ce_destroy
  then show ?thesis using assms by (auto dest!: conn_keeps_retry split: list.splits)
next
  case Ce_disconnect
  then show ?thesis using assms by (auto simp: TcpClient_disconnect_def Let_def dest!: conn_keeps_retry split: option.splits)
qed (use assms in \<open>auto simp: client_connector_step_def TcpClient_stop_def\<close>)

lemma run_keeps_retry: "res_fold (client_event_step f ntop6) evs cl = Inr cl' \<Longrightarrow> cl_retry cl' = cl_retry cl"
  using fold_keeps_retry event_keeps_retry by metis

text \<open>
  C23: A client with retry enabled, whatever happens to it. From the constructor and \<^verbatim>\<open>connect\<close> on, for any sequence of events (reports
  of the connecting socket with any pending error and also when it is connected to itself, retry timers, functors, closed
  connections, \<^verbatim>\<open>stop\<close> and \<^verbatim>\<open>disconnect\<close>) and any answers to \<^verbatim>\<open>connect\<close>, refusals included, no assertion of the client, the
  connector and the connections fails. (\<^verbatim>\<open>socket\<close> must return a descriptor, the peer must have an internet
  address, and the user's callback neither fails nor closes the connection; \<^verbatim>\<open>connect\<close> is called once.) The current
  connection is open and watched, every other one is disconnected or has exactly one \<^verbatim>\<open>connectDestroyed\<close> queued;
  at most one retry timer is pending, and a socket is open exactly while the connector is connecting. Until \<^verbatim>\<open>stop\<close> or
  \<^verbatim>\<open>disconnect\<close> is called, and if every error of \<^verbatim>\<open>connect\<close> is one after which the connector tries again, the client
  always has a connection, is connecting, or has a retry timer; and when it is connecting and the socket
  turns out to be connected, a new connection becomes the current one.
\<close>

theorem TcpClient_keeps_connected:
  assumes "quiet onConnection" "\<forall>bs. length (ntop6 bs) \<le> 45" "0 \<le> fst answer" "list_all client_event_ok evs" "inet_peer peer"
  shows "\<exists>cl0 cl. TcpClient_connect loop answer (enableRetry (TcpClient_ctor loop name raw)) = Inr cl0 \<and>
    res_fold (client_event_step onConnection ntop6) evs cl0 = Inr cl \<and>
    (\<forall>i. cl_connection cl = Some i \<longrightarrow> i < length (cl_objects cl) \<and> i \<notin> set (cl_queue cl) \<and> conn_open (cl_objects cl ! i) \<and> watched (cl_objects cl ! i)) \<and>
    distinct (cl_queue cl) \<and>
    (\<forall>i < length (cl_objects cl). cl_connection cl \<noteq> Some i \<and> i \<notin> set (cl_queue cl) \<longrightarrow> tc_state (cl_objects cl ! i) = kDisconnected) \<and>
    cn_timers (cl_connector cl) \<le> 1 \<and>
    cn_open (cl_connector cl) = (if cn_state (cl_connector cl) = Con_kConnecting then [cn_sockfd (cl_connector cl)] else []) \<and>
    (cl_connect cl \<and> retryable answer \<and> list_all client_event_retryable evs \<longrightarrow>
       cl_connection cl \<noteq> None \<or> cn_state (cl_connector cl) = Con_kConnecting \<or> cn_timers (cl_connector cl) = 1) \<and>
    (cl_connect cl \<and> cn_state (cl_connector cl) = Con_kConnecting \<longrightarrow>
       (\<exists>cl'. client_connector_write (cl_loop cl) onConnection ntop6 peer (Inr 0) False buf cl = Inr cl' \<and>
          cl_connection cl' = Some (length (cl_objects cl))))"
proof -
  obtain cl0 where 0: "TcpClient_connect loop answer (enableRetry (TcpClient_ctor loop name raw)) = Inr cl0" "client_inv cl0"
    "retryable answer \<longrightarrow> client_trying cl0" using client_started[OF assms(3)] by blast
  obtain cl where 1: "res_fold (client_event_step onConnection ntop6) evs cl0 = Inr cl" "client_inv cl"
    "list_all client_event_retryable evs \<and> client_trying cl0 \<longrightarrow> client_trying cl"
    using client_run_fine[OF 0(2) assms(4,1,2)] by blast
  have "cl_retry cl0" using 0(1) by (auto simp: TcpClient_connect_def enableRetry_def)
  then have retry: "cl_retry cl" using run_keeps_retry[OF 1(1)] by simp
  have cn: "cn_timers (cl_connector cl) \<le> 1"
    "cn_open (cl_connector cl) = (if cn_state (cl_connector cl) = Con_kConnecting then [cn_sockfd (cl_connector cl)] else [])"
    using 1(2) by (auto simp: client_inv_def connector_inv_def split: if_splits)
  have tries: "cl_connection cl \<noteq> None \<or> cn_state (cl_connector cl) = Con_kConnecting \<or> cn_timers (cl_connector cl) = 1"
    if "cl_connect cl" "retryable answer" "list_all client_event_retryable evs"
    using 0(3) 1(3) that cn(1) retry by (auto simp: client_trying_def trying_def)
  have new: "\<exists>cl'. client_connector_write (cl_loop cl) onConnection ntop6 peer (Inr 0) False buf cl = Inr cl' \<and>
      cl_connection cl' = Some (length (cl_objects cl))" if "cl_connect cl" "cn_state (cl_connector cl) = Con_kConnecting"
    using client_write_ok[OF 1(2) _ assms(1,5,2), of "Inr 0" False buf] that by (auto simp: getSocketError_def)
  show ?thesis using 0(1) 1(1,2) cn tries new by (intro exI[of _ cl0] exI[of _ cl]) (auto simp: client_inv_def)
qed

text \<open>Refused, tried again, connected, closed by the peer, and connecting once more.\<close>

theorem TcpClient_keeps_connected_witness:
  "\<exists>cl0 cl. TcpClient_connect 1 (7, Some ECONNREFUSED) (enableRetry (TcpClient_ctor 1 ''c'' 0)) = Inr cl0 \<and>
    res_fold (client_event_step Inr (\<lambda>_. ''::'')) [Ce_timer (7, Some EINPROGRESS),
      Ce_io POLLOUT (Inr 0) False (Some (InetAddress_ctor zero_sockaddr 80 True False)) 0, Ce_functor (0, None),
      Ce_close (8, Some EINPROGRESS), Ce_destroy] cl0 = Inr cl \<and> cn_timers (cl_connector cl) \<le> 1 \<and> distinct (cl_queue cl)"
proof -
  have "quiet Inr" "inet_peer (Some (InetAddress_ctor zero_sockaddr 80 True False))"
    by (simp_all add: quiet_def inet_peer_def getPeerAddr_def InetAddress_ctor_def)
  then show ?thesis
    using TcpClient_keeps_connected[of Inr "\<lambda>_. ''::''" "(7, Some ECONNREFUSED)" "[Ce_timer (7, Some EINPROGRESS),
      Ce_io POLLOUT (Inr 0) False (Some (InetAddress_ctor zero_sockaddr 80 True False)) 0, Ce_functor (0, None),
      Ce_close (8, Some EINPROGRESS), Ce_destroy]" "Some (InetAddress_ctor zero_sockaddr 80 True False)" 1 "''c''" 0 0]
    by (auto simp del: client_event_step.simps res_fold.simps)
qed

lemma client_first_connection:
  "\<exists>cl cl1. TcpClient_connect 1 (7, Some EINPROGRESS) (enableRetry (TcpClient_ctor 1 ''c'' 0)) = Inr cl \<and>
     client_connector_write 1 Inr (\<lambda>_. ''::'') (Some (InetAddress_ctor zero_sockaddr 80 True False)) (Inr 0) False 0 cl = Inr cl1 \<and>
     cn_state (cl_connector cl1) = Con_kConnected \<and> cn_pid (cl_connector cl1) = 1"
proof -
  let ?peer = "Some (InetAddress_ctor zero_sockaddr 80 True False)"
  obtain cl where cl: "TcpClient_connect 1 (7, Some EINPROGRESS) (enableRetry (TcpClient_ctor 1 ''c'' 0)) = Inr cl"
    "cl_loop cl = 1" "cl_objects cl = []" "cl_callbacks cl = {ConnectionCb, MessageCb}" "cl_retry cl" "cl_connect cl"
    "cl_queue cl = []" "cl_detached cl = {}" "cn_pid (cl_connector cl) = 1"
    and w: "\<exists>cn. Connector_handleWrite (Inr 0) False (cl_connector cl) = Inr (cn, Some 7) \<and> cn_state cn = Con_kConnected \<and> cn_pid cn = 1"
    by (simp add: TcpClient_connect_def enableRetry_def TcpClient_ctor_def Connector_ctor_def Connector_start_def isInLoopThread_def
        startInLoop_def Connector_connect_def createNonblockingOrDie_def connecting_def Let_def Connector_handleWrite_def
        removeAndResetChannel_def cn_enqueue_def getSocketError_def cn_close_def)
  obtain cn where cn: "Connector_handleWrite (Inr 0) False (cl_connector cl) = Inr (cn, Some 7)" "cn_state cn = Con_kConnected" "cn_pid cn = 1"
    using w by blast
  let ?cl = "cl\<lparr>cl_connector := cn\<rparr>"
  have "quiet Inr" "sa_family (getPeerAddr ?peer) = AF_INET" by (simp_all add: quiet_def getPeerAddr_def InetAddress_ctor_def)
  then obtain c where c: "client_newConnection 1 Inr (\<lambda>_. ''::'') ?peer 7 0 ?cl = Inr (?cl\<lparr>cl_nextConnId := next_id (cl_nextConnId ?cl),
      cl_objects := cl_objects ?cl @ [c], cl_connection := Some (length (cl_objects ?cl))\<rparr>)" "tc_pid c = 1"
    "tc_state c = kConnected" "watched c" "{ConnectionCb, CloseCb} \<subseteq> tc_callbacks c"
    using newConnection_client[of Inr ?peer "\<lambda>_. ''::''" ?cl 7 0] cl by auto
  show ?thesis
    using cl cn c by (simp add: client_connector_write_def Let_def)
qed

section \<open>Where a client goes wrong\<close>

text \<open>
  A client can call \<^verbatim>\<open>connect\<close> only once. The connector stays in state \<^verbatim>\<open>kConnected\<close> after it has
  delivered a socket (and is in \<^verbatim>\<open>kConnecting\<close> before): a later \<^verbatim>\<open>connect\<close> in the loop's
  thread, be it long after the connection was closed, fails the assertion of \<^verbatim>\<open>startInLoop\<close>.
\<close>

theorem TcpClient_second_connect_aborts:
  assumes "cn_state (cl_connector cl) \<noteq> Con_kDisconnected" "cn_pid (cl_connector cl) = tid"
  shows "TcpClient_connect tid answer cl = Inl (Assert_failed ''state_ == kDisconnected'')"
  using assms by (simp add: TcpClient_connect_def Connector_start_def isInLoopThread_def startInLoop_def)

theorem TcpClient_second_connect_aborts_witness:
  "\<exists>cl. client_connector_write 1 Inr (\<lambda>_. ''::'') (Some (InetAddress_ctor zero_sockaddr 80 True False)) (Inr 0) False 0
      (projr (TcpClient_connect 1 (7, Some EINPROGRESS) (enableRetry (TcpClient_ctor 1 ''c'' 0)))) = Inr cl \<and>
     TcpClient_connect 1 (8, None) cl = Inl (Assert_failed ''state_ == kDisconnected'')"
proof -
  obtain cl cl1 where "TcpClient_connect 1 (7, Some EINPROGRESS) (enableRetry (TcpClient_ctor 1 ''c'' 0)) = Inr cl"
    "client_connector_write 1 Inr (\<lambda>_. ''::'') (Some (InetAddress_ctor zero_sockaddr 80 True False)) (Inr 0) False 0 cl = Inr cl1"
    "cn_state (cl_connector cl1) = Con_kConnected" "cn_pid (cl_connector cl1) = 1"
    using client_first_connection by blast
  then show ?thesis using TcpClient_second_connect_aborts[of cl1 1 "(8, None)"] by auto
qed

text \<open>
  The names of a client's connections. The buffer of 32 characters holds the address, the
  port and the number for IPv4, so the first hundred million connections have different
  names; for an address text of 30 characters or more, as IPv6 has, the number is cut off and all
  connections have the same name.
\<close>

theorem client_connName_unique_iff_short:
  assumes "0 \<le> m" "m < 10 ^ 8" "0 \<le> n" "n < 10 ^ 8"
  shows "(length ipPort \<le> 21 \<longrightarrow> (client_connName name ipPort m = client_connName name ipPort n \<longleftrightarrow> m = n)) \<and>
    (length ipPort \<ge> 30 \<longrightarrow> client_connName name ipPort m = client_connName name ipPort n)"
proof (intro conjI impI)
  assume l: "length ipPort \<le> 21"
  have "client_connName name ipPort k = name @ '':'' @ ipPort @ ''#'' @ decimal k" if "0 \<le> k" "k < 10 ^ 8" for k
    using l decimal_length[OF that] by (simp add: client_connName_def)
  then show "client_connName name ipPort m = client_connName name ipPort n \<longleftrightarrow> m = n"
    using assms by auto (metis read_int_decimal)
next
  assume "length ipPort \<ge> 30"
  then have "take 31 ('':'' @ ipPort @ ''#'' @ decimal k) = take 31 ('':'' @ ipPort)" for k by (simp add: take_Cons')
  then show "client_connName name ipPort m = client_connName name ipPort n" by (simp only: client_connName_def)
qed

theorem client_connName_unique_iff_short_witness:
  "client_connName ''c'' ''127.0.0.1:80'' 1 \<noteq> client_connName ''c'' ''127.0.0.1:80'' 2 \<and>
   client_connName ''c'' ''2001:db8:85a3::8a2e:370:7334:80'' 1 = client_connName ''c'' ''2001:db8:85a3::8a2e:370:7334:80'' 2"
  using client_connName_unique_iff_short[of 1 2 "''127.0.0.1:80''" "''c''"]
    client_connName_unique_iff_short[of 1 2 "''2001:db8:85a3::8a2e:370:7334:80''" "''c''"] by simp

end
