(* ===== verification/Logging.thy ===== *)
theory Logging
  imports LogStream
begin

text \<open>
  The logger (\<^verbatim>\<open>logging.muduo/Logging.cpp\<close>): a temporary object that collects one line in its
  stream and hands it to the output function when it is destroyed. A chain of \<^verbatim>\<open><<\<close> operators is
  a list of pieces. The clock, the thread's number and the old contents of the stream's memory
  are arguments.
\<close>

section \<open>Pieces of a line\<close>

text \<open>The operands of all the operators; that of a floating-point number is the text that \<^verbatim>\<open>%.12g\<close> makes of it.\<close>

datatype piece = P_string string | P_cstr string | P_char char | P_int int | P_bool bool | P_short int | P_ushort int | P_uint int
  | P_long int | P_ulong int | P_longlong int | P_ulonglong int | P_pointer nat | P_double string | P_float string | P_data string

fun put_piece :: "piece \<Rightarrow> log_stream \<Rightarrow> log_stream res" where
  "put_piece (P_string s) b = put_string s b"
| "put_piece (P_cstr s) b = put_cstr s b"
| "put_piece (P_char c) b = put_char c b"
| "put_piece (P_int v) b = put_int v b"
| "put_piece (P_bool v) b = put_bool v b"
| "put_piece (P_short v) b = put_short v b"
| "put_piece (P_ushort v) b = put_ushort v b"
| "put_piece (P_uint v) b = put_uint v b"
| "put_piece (P_long v) b = put_long v b"
| "put_piece (P_ulong v) b = put_ulong v b"
| "put_piece (P_longlong v) b = put_longlong v b"
| "put_piece (P_ulonglong v) b = put_ulonglong v b"
| "put_piece (P_pointer p) b = put_pointer p b"
| "put_piece (P_double g) b = put_double g b"
| "put_piece (P_float g) b = put_float g b"
| "put_piece (P_data s) b = LogStream_append s b"

definition put_all :: "piece list \<Rightarrow> log_stream \<Rightarrow> log_stream res" where
  "put_all ps b = res_fold put_piece ps b"

fun piece_text :: "piece \<Rightarrow> string" where
  "piece_text (P_string s) = s"
| "piece_text (P_cstr s) = s"
| "piece_text (P_char c) = [c]"
| "piece_text (P_int v) = decimal v"
| "piece_text (P_bool v) = (if v then ''1'' else ''0'')"
| "piece_text (P_short v) = decimal v"
| "piece_text (P_ushort v) = decimal v"
| "piece_text (P_uint v) = decimal v"
| "piece_text (P_long v) = decimal v"
| "piece_text (P_ulong v) = decimal v"
| "piece_text (P_longlong v) = decimal v"
| "piece_text (P_ulonglong v) = decimal v"
| "piece_text (P_pointer p) = ''0x'' @ show_base digitsHex 16 p"
| "piece_text (P_double g) = g"
| "piece_text (P_float g) = g"
| "piece_text (P_data s) = s"

text \<open>\<^verbatim>\<open>%.12g\<close> makes less than 32 characters.\<close>

fun piece_ok :: "piece \<Rightarrow> bool" where
  "piece_ok (P_double g) \<longleftrightarrow> length g < 32"
| "piece_ok (P_float g) \<longleftrightarrow> length g < 32"
| "piece_ok _ \<longleftrightarrow> True"

section \<open>Levels, source files, time\<close>

datatype log_level = TRACE | DEBUG | INFO | WARN | ERRORL | FATAL

fun level_num :: "log_level \<Rightarrow> nat" where
  "level_num TRACE = 0" | "level_num DEBUG = 1" | "level_num INFO = 2"
| "level_num WARN = 3" | "level_num ERRORL = 4" | "level_num FATAL = 5"

text \<open>The levels are compared as the numbers of the enumeration.\<close>

instantiation log_level :: linorder
begin

definition less_eq_log_level :: "log_level \<Rightarrow> log_level \<Rightarrow> bool" where
  "a \<le> b \<longleftrightarrow> level_num a \<le> level_num b"

definition less_log_level :: "log_level \<Rightarrow> log_level \<Rightarrow> bool" where
  "a < b \<longleftrightarrow> level_num a < level_num b"

instance
proof
  fix a b :: log_level
  show "a \<le> b \<Longrightarrow> b \<le> a \<Longrightarrow> a = b" by (cases a; cases b) (simp_all add: less_eq_log_level_def)
qed (auto simp: less_eq_log_level_def less_log_level_def)

end

fun levelStr :: "log_level \<Rightarrow> string" where
  "levelStr TRACE = ''TRACE ''" | "levelStr DEBUG = ''DEBUG ''" | "levelStr INFO = ''INFO  ''"
| "levelStr WARN = ''WARN  ''" | "levelStr ERRORL = ''ERROR ''" | "levelStr FATAL = ''FATAL ''"

definition initLogLevel :: "bool \<Rightarrow> log_level" where
  "initLogLevel env_set = (if env_set then DEBUG else INFO)"

text \<open>\<^verbatim>\<open>strrchr\<close>: the offset of the last occurrence.\<close>

definition strrchr :: "char \<Rightarrow> string \<Rightarrow> nat option" where
  "strrchr c s = map_option (\<lambda>k. length s - 1 - k) (memchr c (rev s))"

record source_file =
  sf_filename :: string
  sf_length :: int

definition SourceFile_ctor :: "string \<Rightarrow> source_file" where
  "SourceFile_ctor name =
     (let filename = (case strrchr CHR ''/'' name of Some slash \<Rightarrow> drop (slash + 1) name | None \<Rightarrow> name)
      in \<lparr>sf_filename = filename, sf_length = int (length filename)\<rparr>)"

text \<open>The template for arrays: \<open>N\<close> is the size of the array, the null character included.\<close>

definition SourceFile_ctor_array :: "nat \<Rightarrow> string \<Rightarrow> source_file" where
  "SourceFile_ctor_array N arr =
     (case strrchr CHR ''/'' arr of
        Some slash \<Rightarrow> \<lparr>sf_filename = drop (slash + 1) arr, sf_length = int N - 1 - int (slash + 1)\<rparr>
      | None \<Rightarrow> \<lparr>sf_filename = arr, sf_length = int N - 1\<rparr>)"

record tm =
  tm_year :: int
  tm_mon :: int
  tm_mday :: int
  tm_hour :: int
  tm_min :: int
  tm_sec :: int

text \<open>\<^verbatim>\<open>printf\<close> with a minimal width, for numbers that are not negative.\<close>

definition pad :: "char \<Rightarrow> nat \<Rightarrow> int \<Rightarrow> string" where
  "pad c w n = replicate (w - length (decimal n)) c @ decimal n"

definition formatTime :: "tm \<Rightarrow> int \<Rightarrow> string res" where
  "formatTime lt usec =
     (let buf = pad CHR '' '' 4 (tm_year lt + 1900) @ pad CHR ''0'' 2 (tm_mon lt + 1) @ pad CHR ''0'' 2 (tm_mday lt) @ ''_'' @
                pad CHR ''0'' 2 (tm_hour lt) @ '':'' @ pad CHR ''0'' 2 (tm_min lt) @ '':'' @ pad CHR ''0'' 2 (tm_sec lt) @ '':'' @
                pad CHR ''0'' 6 usec
      in require (length buf = 24) ''len == 24'' (Inr buf))"

section \<open>Loggers\<close>

record logger =
  lg_file :: source_file
  lg_line :: int
  lg_level :: log_level
  lg_stream :: log_stream

definition Logger_ctor :: "string \<Rightarrow> tm \<Rightarrow> int \<Rightarrow> int \<Rightarrow> source_file \<Rightarrow> int \<Rightarrow> log_level \<Rightarrow> logger res" where
  "Logger_ctor raw lt usec tid sfile line level =
     res_bind (formatTime lt usec) (\<lambda>time.
     res_bind (put_all [P_string time, P_char CHR '' '', P_int tid, P_char CHR '' '', P_cstr (levelStr level), P_char CHR '' '']
                 (FixedBuffer_ctor raw)) (\<lambda>b.
       Inr \<lparr>lg_file = sfile, lg_line = line, lg_level = level, lg_stream = b\<rparr>))"

definition Logger_ctor_func :: "string \<Rightarrow> tm \<Rightarrow> int \<Rightarrow> int \<Rightarrow> source_file \<Rightarrow> int \<Rightarrow> log_level \<Rightarrow> string \<Rightarrow> logger res" where
  "Logger_ctor_func raw lt usec tid sfile line level func =
     res_bind (formatTime lt usec) (\<lambda>time.
     res_bind (put_all [P_string time, P_char CHR '' '', P_int tid, P_char CHR '' '', P_cstr (levelStr level), P_char CHR '' '',
                        P_cstr func, P_cstr '' '']
                 (FixedBuffer_ctor raw)) (\<lambda>b.
       Inr \<lparr>lg_file = sfile, lg_line = line, lg_level = level, lg_stream = b\<rparr>))"

text \<open>What \<^verbatim>\<open>g_output\<close> receives, and whether the process is flushed and aborted afterwards.\<close>

definition Logger_dtor :: "logger \<Rightarrow> (string \<times> bool) res" where
  "Logger_dtor lg =
     res_bind (put_all [P_cstr ''  - '', P_cstr (sf_filename (lg_file lg)), P_cstr '':'', P_int (lg_line lg), P_char CHR 0x0A]
                 (lg_stream lg)) (\<lambda>b.
     res_bind (fb_ToString b) (\<lambda>msg.
       Inr (msg, lg_level lg \<ge> FATAL)))"

text \<open>The logging macros: \<^verbatim>\<open>LOG_TRACE\<close> and \<^verbatim>\<open>LOG_DEBUG\<close> name the function, the others do not. \<open>None\<close>:
  nothing is logged.\<close>

definition LOG :: "log_level \<Rightarrow> log_level \<Rightarrow> string \<Rightarrow> tm \<Rightarrow> int \<Rightarrow> int \<Rightarrow> string \<Rightarrow> int \<Rightarrow> string \<Rightarrow> piece list \<Rightarrow>
    (string \<times> bool) option res" where
  "LOG logLevel level raw lt usec tid fname line func message =
     (if logLevel \<le> level then
        res_bind (if level = TRACE \<or> level = DEBUG
                  then Logger_ctor_func raw lt usec tid (SourceFile_ctor_array (length fname + 1) fname) line level func
                  else Logger_ctor raw lt usec tid (SourceFile_ctor_array (length fname + 1) fname) line level) (\<lambda>lg.
        res_bind (put_all message (lg_stream lg)) (\<lambda>b.
        res_bind (Logger_dtor (lg\<lparr>lg_stream := b\<rparr>)) (\<lambda>r. Inr (Some r))))
      else Inr None)"

definition CheckNotNull :: "string \<Rightarrow> tm \<Rightarrow> int \<Rightarrow> int \<Rightarrow> string \<Rightarrow> int \<Rightarrow> string \<Rightarrow> 'a option \<Rightarrow> 'a res" where
  "CheckNotNull raw lt usec tid fname line names ptr =
     (case ptr of
        None \<Rightarrow> res_bind (Logger_ctor raw lt usec tid (SourceFile_ctor fname) line FATAL) (\<lambda>lg.
                res_bind (put_all [P_cstr names] (lg_stream lg)) (\<lambda>b.
                res_bind (Logger_dtor (lg\<lparr>lg_stream := b\<rparr>)) (\<lambda>(msg, _). Inl (Log_fatal msg))))
      | Some p \<Rightarrow> Inr p)"

section \<open>Writing pieces\<close>

text \<open>A piece takes its text, and an integer a null character behind it.\<close>

lemma write_text_ok:
  assumes "fb_inv b" "fb_cur b + length (t @ z) \<le> length (fb_data b)"
  shows "\<exists>b'. res_bind (checked_write (fb_cur b) (t @ z) (fb_data b)) (\<lambda>d. Inr (fb_add (length t) (b\<lparr>fb_data := d\<rparr>))) = Inr b' \<and>
    fb_inv b' \<and> fb_text b' = fb_text b @ t \<and> length (fb_data b') = length (fb_data b) \<and> fb_cur b' = fb_cur b + length t"
  using assms by (auto simp: fb_add_def fb_inv_def fb_text_def mem_write_def)

lemma append_text_ok:
  assumes "fb_inv b" "fb_cur b + length t < length (fb_data b)"
  shows "\<exists>b'. fb_append t b = Inr b' \<and> fb_inv b' \<and> fb_text b' = fb_text b @ t \<and> length (fb_data b') = length (fb_data b) \<and>
    fb_cur b' = fb_cur b + length t"
  using assms fb_memcpy_ok[of b t] by (simp add: fb_append_def fb_available_def Let_def)

lemmas put_piece_defs = put_string_def put_cstr_def put_char_def put_bool_def put_short_def put_int_def put_ushort_def put_uint_def put_long_def
  put_ulong_def put_longlong_def put_ulonglong_def formatInteger_def put_pointer_def put_float_def put_double_def LogStream_append_def

lemma put_piece_ok:
  assumes "fb_inv b" "fb_cur b + length (piece_text p) < length (fb_data b)" "kMaxNumericSize \<le> length (fb_data b)" "piece_ok p"
    and "length (fb_data b) \<le> 2 ^ 31"
  shows "\<exists>b'. put_piece p b = Inr b' \<and> fb_inv b' \<and> fb_text b' = fb_text b @ piece_text p \<and> length (fb_data b') = length (fb_data b) \<and>
    fb_cur b' = fb_cur b + length (piece_text p)"
  using append_text_ok[OF assms(1,2)] write_text_ok[OF assms(1), of "piece_text p" "[NUL]"] write_text_ok[OF assms(1), of "piece_text p" "[]"] assms(2-5)
  by (cases p) (simp_all add: put_piece_defs fb_append_string_small fb_available_def convert_decimal convertHex_show kMaxNumericSize_def Let_def)

lemma put_all_ok:
  assumes "fb_inv b" "fb_cur b + length (concat (map piece_text ps)) < length (fb_data b)" "kMaxNumericSize \<le> length (fb_data b)"
    "list_all piece_ok ps" "length (fb_data b) \<le> 2 ^ 31"
  shows "\<exists>b'. put_all ps b = Inr b' \<and> fb_inv b' \<and> fb_text b' = fb_text b @ concat (map piece_text ps) \<and>
    length (fb_data b') = length (fb_data b) \<and> fb_cur b' = fb_cur b + length (concat (map piece_text ps))"
  using assms unfolding put_all_def
proof (induction ps arbitrary: b)
  case Nil
  then show ?case by simp
next
  case (Cons p ps)
  obtain b1 where "put_piece p b = Inr b1" "fb_inv b1" "fb_text b1 = fb_text b @ piece_text p" "length (fb_data b1) = length (fb_data b)"
    "fb_cur b1 = fb_cur b + length (piece_text p)"
    using put_piece_ok[of b p] Cons.prems by auto
  then show ?case using Cons.IH[of b1] Cons.prems by (auto simp: add.assoc)
qed


section \<open>Properties\<close>

lemma pad_length: "0 \<le> n \<Longrightarrow> n < 10 ^ w \<Longrightarrow> 0 < w \<Longrightarrow> length (pad c w n) = w"
  using length_show_base[of 10 w "nat n" dec_digits] by (simp add: pad_def decimal_def nat_less_iff)

definition valid_time :: "tm \<Rightarrow> int \<Rightarrow> bool" where
  "valid_time lt usec \<longleftrightarrow> -1900 \<le> tm_year lt \<and> tm_year lt < 8100 \<and> 0 \<le> tm_mon lt \<and> tm_mon lt < 12 \<and> 1 \<le> tm_mday lt \<and> tm_mday lt \<le> 31 \<and>
     0 \<le> tm_hour lt \<and> tm_hour lt < 24 \<and> 0 \<le> tm_min lt \<and> tm_min lt < 60 \<and> 0 \<le> tm_sec lt \<and> tm_sec lt \<le> 60 \<and> 0 \<le> usec \<and> usec < 1000000"

lemma formatTime_ok:
  assumes "valid_time lt usec"
  shows "\<exists>time. formatTime lt usec = Inr time \<and> length time = 24"
  using assms by (simp add: valid_time_def formatTime_def Let_def pad_length)

lemma strrchr_Some:
  assumes "strrchr c s = Some k"
  shows "k < length s" "s ! k = c" "c \<notin> set (drop (k + 1) s)"
proof -
  obtain j where j: "memchr c (rev s) = Some j" "k = length s - 1 - j" using assms by (auto simp: strrchr_def)
  then have m: "j < length s" "rev s ! j = c" "\<forall>i < j. rev s ! i \<noteq> c" by (auto simp: memchr_Some)
  then show "k < length s" "s ! k = c" using j(2) by (simp_all add: rev_nth)
  have "drop (k + 1) s = rev (take j (rev s))" using j(2) m(1) by (simp add: take_rev Suc_diff_Suc)
  moreover have "c \<notin> set (take j (rev s))" using m by (auto simp: in_set_conv_nth)
  ultimately show "c \<notin> set (drop (k + 1) s)" by simp
qed

lemma strrchr_None: "strrchr c s = None \<longleftrightarrow> c \<notin> set s"
  by (simp add: strrchr_def memchr_None)

lemma SourceFile_array_eq: "SourceFile_ctor_array (Suc (length name)) name = SourceFile_ctor name"
proof (cases "strrchr CHR ''/'' name")
  case (Some k)
  then show ?thesis using strrchr_Some(1)[OF Some] by (simp add: SourceFile_ctor_def SourceFile_ctor_array_def Let_def of_nat_diff)
qed (simp add: SourceFile_ctor_def SourceFile_ctor_array_def Let_def)

text \<open>
  \<^verbatim>\<open>Logger::SourceFile\<close> keeps the part of a path behind its last slash: the name holds no slash,
  the path is a directory (empty, or ending in a slash) followed by the name, the stored length is the length of the name, and
  the constructor for arrays, which is given the size of the array, computes the same.
\<close>

theorem SourceFile_basename:
  "let f = SourceFile_ctor name
   in CHR ''/'' \<notin> set (sf_filename f) \<and> sf_length f = int (length (sf_filename f)) \<and>
      (\<exists>dir. name = dir @ sf_filename f \<and> dir \<in> {[]} \<union> {d @ ''/'' |d. True}) \<and>
      SourceFile_ctor_array (length name + 1) name = f"
proof (cases "strrchr CHR ''/'' name")
  case None
  moreover from this have "CHR ''/'' \<notin> set name" by (simp add: strrchr_None)
  ultimately show ?thesis by (simp add: SourceFile_ctor_def SourceFile_ctor_array_def Let_def)
next
  case (Some k)
  have k: "k < length name" "name ! k = CHR ''/''" "CHR ''/'' \<notin> set (drop (k + 1) name)" using strrchr_Some[OF Some] .
  have "name = (take k name @ ''/'') @ drop (k + 1) name" using id_take_nth_drop[OF k(1)] k(2) by simp
  then have "\<exists>dir. name = dir @ drop (k + 1) name \<and> dir \<in> {[]} \<union> {d @ ''/'' |d. True}"
    by (intro exI[of _ "take k name @ ''/''"]) auto
  then show ?thesis
    using Some k by (simp add: SourceFile_array_eq SourceFile_ctor_def Let_def)
qed

lemma FixedBuffer_ctor_inv: "fb_inv (FixedBuffer_ctor raw)" "fb_text (FixedBuffer_ctor raw) = []" "fb_cur (FixedBuffer_ctor raw) = 0"
  "fb_data (FixedBuffer_ctor raw) = raw"
  by (simp_all add: FixedBuffer_ctor_def fb_inv_def fb_text_def)

definition line_text :: "string \<Rightarrow> int \<Rightarrow> log_level \<Rightarrow> string \<Rightarrow> piece list \<Rightarrow> source_file \<Rightarrow> int \<Rightarrow> string" where
  "line_text time tid level func message sfile line =
     time @ '' '' @ decimal tid @ '' '' @ levelStr level @ '' '' @ (if level = TRACE \<or> level = DEBUG then func @ '' '' else []) @
     concat (map piece_text message) @ ''  - '' @ sf_filename sfile @ '':'' @ decimal line @ [CHR 0x0A]"

lemma LOG_line:
  assumes "valid_time lt usec" "length raw = kSmallBuffer"
    and "list_all piece_ok message" "\<And>time. formatTime lt usec = Inr time \<Longrightarrow>
      length (line_text time tid level func message (SourceFile_ctor fname) line) < kSmallBuffer"
  shows "\<exists>time. formatTime lt usec = Inr time \<and> LOG logLevel level raw lt usec tid fname line func message =
    Inr (if logLevel \<le> level
         then Some (line_text time tid level func message (SourceFile_ctor fname) line, level = FATAL) else None)"
proof -
  let ?f = "SourceFile_ctor fname"
  obtain time where t: "formatTime lt usec = Inr time" using formatTime_ok[OF assms(1)] by blast
  have len: "length (line_text time tid level func message ?f line) < length raw" using assms(2,4) t by simp
  have sz: "kMaxNumericSize \<le> length raw" "length raw \<le> 2 ^ 31" using assms(2) by (simp_all add: kMaxNumericSize_def kSmallBuffer_def)
  have sf: "SourceFile_ctor_array (Suc (length fname)) fname = ?f" by (rule SourceFile_array_eq)
  define ps where "ps = [P_string time, P_char CHR '' '', P_int tid, P_char CHR '' '', P_cstr (levelStr level), P_char CHR '' ''] @
    (if level = TRACE \<or> level = DEBUG then [P_cstr func, P_cstr '' ''] else [])"
  define qs where "qs = [P_cstr ''  - '', P_cstr (sf_filename ?f), P_cstr '':'', P_int line, P_char CHR 0x0A]"
  have ok: "list_all piece_ok ps" "list_all piece_ok qs" by (simp_all add: ps_def qs_def)
  have tx: "line_text time tid level func message ?f line =
    concat (map piece_text ps) @ concat (map piece_text message) @ concat (map piece_text qs)"
    by (simp add: line_text_def ps_def qs_def)
  obtain b1 where b1: "put_all ps (FixedBuffer_ctor raw) = Inr b1" "fb_inv b1" "fb_text b1 = concat (map piece_text ps)"
    "length (fb_data b1) = length raw" "fb_cur b1 = length (concat (map piece_text ps))"
    using put_all_ok[of "FixedBuffer_ctor raw" ps] len sz tx ok by (auto simp: FixedBuffer_ctor_inv)
  obtain b2 where b2: "put_all message b1 = Inr b2" "fb_inv b2" "fb_text b2 = fb_text b1 @ concat (map piece_text message)"
    "length (fb_data b2) = length raw" "fb_cur b2 = fb_cur b1 + length (concat (map piece_text message))"
    using put_all_ok[of b1 message] b1 len sz tx assms(3) by auto
  obtain b3 where b3: "put_all qs b2 = Inr b3" "fb_inv b3" "fb_text b3 = fb_text b2 @ concat (map piece_text qs)"
    using put_all_ok[of b2 qs] b1 b2 len sz tx ok by auto
  have "fb_ToString b3 = Inr (line_text time tid level func message ?f line)"
    using b1(3) b2(3) b3(2,3) tx by (simp add: fb_ToString_def fb_length_def fb_inv_def fb_text_def mem_read_def)
  moreover have "FATAL \<le> level \<longleftrightarrow> level = FATAL" by (cases level) (simp_all add: less_eq_log_level_def)
  ultimately show ?thesis
    using t b1(1) b2(1) b3(1) unfolding LOG_def
    by (auto simp: Logger_ctor_def Logger_ctor_func_def Logger_dtor_def ps_def qs_def sf)
qed

text \<open>
  C31: A log statement whose level is enabled outputs exactly one line, made of the time, the
  thread, the level, (for trace and debug) the function, the message, and the file and line of the statement,
  provided the whole line is shorter than the stream's 4000 characters and the time is a valid one (a longer message is written
  behind the stream, \<open>long_message_overflows\<close> below). The message is made of any operands that a stream
  takes. The process is aborted after the output exactly for \<^verbatim>\<open>LOG_FATAL\<close>. A statement below the level outputs nothing.
\<close>

theorem LOG_outputs_line:
  assumes "valid_time lt usec" "length raw = kSmallBuffer"
    and "list_all piece_ok message" "\<And>time. formatTime lt usec = Inr time \<Longrightarrow>
      length (line_text time tid level func message (SourceFile_ctor fname) line) < kSmallBuffer"
  shows "\<exists>time. formatTime lt usec = Inr time \<and> LOG logLevel level raw lt usec tid fname line func message =
    Inr (if logLevel \<le> level
         then Some (line_text time tid level func message (SourceFile_ctor fname) line, level = FATAL) else None)"
  by (rule LOG_line[OF assms])

text \<open>
  A message that does not fit in the room left of the stream's 4000 characters is not cut:
  it is written over the memory behind the stream, because \<^verbatim>\<open>available()\<close> is the size of the buffer
  and not the room left.
\<close>

theorem long_message_overflows:
  assumes "valid_time lt usec" "length raw = kSmallBuffer" "length names = kSmallBuffer"
    and "length (decimal tid) \<le> 11"
  shows "CheckNotNull raw lt usec tid fname line names None = Inl (Out_of_bounds ''write'')"
proof -
  obtain time where t: "formatTime lt usec = Inr time" "length time = 24" using formatTime_ok[OF assms(1)] by blast
  define ps where "ps = [P_string time, P_char CHR '' '', P_int tid, P_char CHR '' '', P_cstr (levelStr FATAL), P_char CHR '' '']"
  have "length (concat (map piece_text ps)) \<le> 44" using t(2) assms(4) by (simp add: ps_def)
  then obtain b1 where b1: "put_all ps (FixedBuffer_ctor raw) = Inr b1" "fb_inv b1" "length (fb_data b1) = length raw"
    "fb_cur b1 = length (concat (map piece_text ps))"
    using put_all_ok[of "FixedBuffer_ctor raw" ps] assms(2) by (auto simp: FixedBuffer_ctor_inv kSmallBuffer_def kMaxNumericSize_def ps_def)
  have "0 < fb_cur b1" using b1(4) by (simp add: ps_def)
  then have "put_all [P_cstr names] b1 = Inl (Out_of_bounds ''write'')"
    using fb_append_cases[OF b1(2), of names] b1(3) assms(2,3) by (simp add: put_all_def put_cstr_def)
  then show ?thesis using t(1) b1(1) by (simp add: CheckNotNull_def Logger_ctor_def ps_def)
qed


definition demo_time :: tm where
  "demo_time = \<lparr>tm_year = 118, tm_mon = 3, tm_mday = 9, tm_hour = 8, tm_min = 5, tm_sec = 59\<rparr>"

lemma demo_time_valid: "valid_time demo_time 42"
  by (simp add: valid_time_def demo_time_def)

theorem LOG_outputs_line_witness:
  "\<exists>time. formatTime demo_time 42 = Inr time \<and>
     LOG INFO WARN (replicate kSmallBuffer NUL) demo_time 42 7 ''net/a.cc'' 12 ''f'' [P_cstr ''hello''] =
       Inr (Some (time @ '' 7 WARN   hello  - a.cc:12'' @ [CHR 0x0A], False))"
proof -
  have sf: "SourceFile_ctor ''net/a.cc'' = \<lparr>sf_filename = ''a.cc'', sf_length = 4\<rparr>"
    by (simp add: SourceFile_ctor_def strrchr_def)
  have "length time = 24" if "formatTime demo_time 42 = Inr time" for time using formatTime_ok[OF demo_time_valid] that by auto
  then have "formatTime demo_time 42 = Inr time \<Longrightarrow>
    length (line_text time 7 WARN ''f'' [P_cstr ''hello''] (SourceFile_ctor ''net/a.cc'') 12) < kSmallBuffer" for time
    by (simp add: line_text_def sf kSmallBuffer_def decimal_def show_base.simps)
  from LOG_outputs_line[OF demo_time_valid _ _ this, of "replicate kSmallBuffer NUL" INFO]
  show ?thesis by (auto simp: line_text_def sf decimal_def show_base.simps dec_digits_def less_eq_log_level_def)
qed

theorem long_message_overflows_witness:
  "CheckNotNull (replicate kSmallBuffer NUL) demo_time 42 7 ''a.cc'' 12 (replicate kSmallBuffer CHR ''x'') (None :: nat option) =
     Inl (Out_of_bounds ''write'')"
  using long_message_overflows[OF demo_time_valid, of "replicate kSmallBuffer NUL" "replicate kSmallBuffer CHR ''x''" 7]
  by (simp add: decimal_def show_base.simps)

end
