(* ===== verification/LogFile.thy ===== *)
theory LogFile
  imports LogStream
begin

text \<open>
  \<^verbatim>\<open>common/AppendFile.cpp\<close> and \<^verbatim>\<open>logging.muduo/LogFile.cpp\<close>: a file that is appended to, and the log
  file that starts a new one when it has grown too large or a new day has begun. The directory
  is an association list in the order the files were made. A \<^verbatim>\<open>FILE\<close> has a buffer of bytes that
  are not in the file yet; what \<^verbatim>\<open>fwrite\<close> accepts is an argument, and so is the clock.
\<close>

type_synonym directory = "(string \<times> bytes) list"

fun dir_append :: "string \<Rightarrow> bytes \<Rightarrow> directory \<Rightarrow> directory" where
  "dir_append name bs [] = [(name, bs)]"
| "dir_append name bs ((n, c) # d) = (if n = name then (n, c @ bs) # d else (n, c) # dir_append name bs d)"

definition file_size :: "string \<Rightarrow> directory \<Rightarrow> nat" where
  "file_size name d = (case map_of d name of None \<Rightarrow> 0 | Some c \<Rightarrow> length c)"

section \<open>AppendFile\<close>

record append_file =
  af_filename :: string
  af_buffer :: bytes
  af_writtenBytes :: nat

text \<open>\<^verbatim>\<open>fopen(.., "a+")\<close> makes the file if it does not exist.\<close>

definition AppendFile_ctor :: "string \<Rightarrow> directory \<Rightarrow> append_file \<times> directory" where
  "AppendFile_ctor filename d =
     (let d' = dir_append filename [] d
      in (\<lparr>af_filename = filename, af_buffer = [], af_writtenBytes = file_size filename d'\<rparr>, d'))"

definition af_flush :: "append_file \<Rightarrow> directory \<Rightarrow> append_file \<times> directory" where
  "af_flush f d = (f\<lparr>af_buffer := []\<rparr>, dir_append (af_filename f) (af_buffer f) d)"

definition AppendFile_dtor :: "append_file \<Rightarrow> directory \<Rightarrow> directory" where
  "AppendFile_dtor f d = snd (af_flush f d)"

text \<open>\<^verbatim>\<open>fwrite(buf, 1, n, file_)\<close> that accepts \<open>k\<close> bytes, at most \<open>n\<close>.\<close>

definition af_fwrite :: "bytes \<Rightarrow> nat \<Rightarrow> nat \<Rightarrow> append_file \<Rightarrow> nat \<times> append_file" where
  "af_fwrite buf n k f = (min k n, f\<lparr>af_buffer := af_buffer f @ take (min k n) buf\<rparr>)"

text \<open>The loop that retries after a short write: it passes \<open>buf\<close> again, from its start. It ends
  when everything is written or \<^verbatim>\<open>fwrite\<close> accepts nothing; \<open>accepts\<close> are its answers, and it accepts
  nothing when they are used up.\<close>

fun append_loop :: "bytes \<Rightarrow> nat \<Rightarrow> nat list \<Rightarrow> append_file \<Rightarrow> nat \<times> append_file" where
  "append_loop buf nWritten [] f = (nWritten, f)"
| "append_loop buf nWritten (k # ks) f =
     (if nWritten < length buf then
        (let (x, f1) = af_fwrite buf (length buf - nWritten) k f
         in if x = 0 then (nWritten, f1) else append_loop buf (nWritten + x) ks f1)
      else (nWritten, f))"

definition af_append :: "bytes \<Rightarrow> nat \<Rightarrow> nat list \<Rightarrow> append_file \<Rightarrow> append_file" where
  "af_append buf first accepts f =
     (let (n, f1) = af_fwrite buf (length buf) first f;
          (nWritten, f2) = append_loop buf n accepts f1
      in f2\<lparr>af_writtenBytes := af_writtenBytes f2 + nWritten\<rparr>)"

section \<open>LogFile\<close>

definition kRollPerSeconds :: int where "kRollPerSeconds = 60 * 60 * 24"

record log_file =
  lf_basename :: string
  lf_rollSize :: nat
  lf_threadSafe :: bool
  lf_flushInterval :: int
  lf_checkEveryN :: int
  lf_count :: nat
  lf_file :: append_file
  lf_startOfPeriod :: int
  lf_lastFlush :: int

text \<open>\<open>stamp\<close> is the text that \<^verbatim>\<open>gmtime\<close> and \<^verbatim>\<open>strftime\<close> make of a time.\<close>

definition getLogfileName :: "(int \<Rightarrow> string) \<Rightarrow> string \<Rightarrow> int \<Rightarrow> string" where
  "getLogfileName stamp basename now = basename @ stamp now @ ''.log''"

definition period :: "int \<Rightarrow> int" where
  "period now = now sdiv kRollPerSeconds * kRollPerSeconds"

text \<open>The new file is opened before the destructor of the old one writes its buffer.\<close>

definition rollFile :: "(int \<Rightarrow> string) \<Rightarrow> int \<Rightarrow> log_file \<times> directory \<Rightarrow> log_file \<times> directory" where
  "rollFile stamp now = (\<lambda>(l, d).
     let (f, d1) = AppendFile_ctor (getLogfileName stamp (lf_basename l) now) d;
         d2 = AppendFile_dtor (lf_file l) d1
     in (l\<lparr>lf_file := f, lf_startOfPeriod := period now\<rparr>, d2))"

text \<open>The parameter \<open>checkEveryN_\<close> hides the member of the same name, which is not initialised:
  \<open>raw\<close> is what the memory holds. The first file has no predecessor.\<close>

definition LogFile_ctor :: "(int \<Rightarrow> string) \<Rightarrow> int \<Rightarrow> int \<Rightarrow> string \<Rightarrow> nat \<Rightarrow> bool \<Rightarrow> int \<Rightarrow> int \<Rightarrow> directory \<Rightarrow> log_file \<times> directory" where
  "LogFile_ctor stamp now raw basename rollsize threadSafe flushInterval checkEveryN d =
     (let (f, d1) = AppendFile_ctor (getLogfileName stamp basename now) d
      in (\<lparr>lf_basename = basename, lf_rollSize = rollsize, lf_threadSafe = threadSafe, lf_flushInterval = flushInterval,
           lf_checkEveryN = raw, lf_count = 0, lf_file = f, lf_startOfPeriod = period now, lf_lastFlush = 0\<rparr>, d1))"

definition LogFile_flush :: "log_file \<times> directory \<Rightarrow> log_file \<times> directory" where
  "LogFile_flush = (\<lambda>(l, d). let (f, d1) = af_flush (lf_file l) d in (l\<lparr>lf_file := f\<rparr>, d1))"

text \<open>\<open>count_ >= checkEveryN_\<close> compares a \<^verbatim>\<open>size_t\<close> with an \<^verbatim>\<open>int\<close>, which is converted. One call reads the clock at most twice, here
  and in \<^verbatim>\<open>rollFile\<close>; both readings are the one second \<open>now\<close>.\<close>

definition append_unlocked :: "(int \<Rightarrow> string) \<Rightarrow> int \<Rightarrow> nat \<Rightarrow> nat list \<Rightarrow> bytes \<Rightarrow> log_file \<times> directory \<Rightarrow> log_file \<times> directory" where
  "append_unlocked stamp now first accepts buf = (\<lambda>(l, d).
     let l1 = l\<lparr>lf_file := af_append buf first accepts (lf_file l)\<rparr>
     in if af_writtenBytes (lf_file l1) > lf_rollSize l1 then rollFile stamp now (l1, d)
        else let l2 = l1\<lparr>lf_count := size_add (lf_count l1) 1\<rparr>
             in if lf_count l2 \<ge> int_to_size (lf_checkEveryN l2) then
                  (let l3 = l2\<lparr>lf_count := 0\<rparr>
                   in if period now \<noteq> lf_startOfPeriod l3 then rollFile stamp now (l3, d)
                      else if now - lf_lastFlush l3 > lf_flushInterval l3
                           then (let (l4, d') = LogFile_flush (l3, d) in (l4\<lparr>lf_lastFlush := now\<rparr>, d'))
                           else (l3, d))
                else (l2, d))"

text \<open>\<^verbatim>\<open>append\<close> locks the mutex if there is one.\<close>

definition LogFile_append :: "(int \<Rightarrow> string) \<Rightarrow> int \<Rightarrow> nat \<Rightarrow> nat list \<Rightarrow> bytes \<Rightarrow> log_file \<times> directory \<Rightarrow> log_file \<times> directory" where
  "LogFile_append stamp now first accepts buf s =
     (if lf_threadSafe (fst s) then append_unlocked stamp now first accepts buf s
      else append_unlocked stamp now first accepts buf s)"

definition LogFile_dtor :: "log_file \<times> directory \<Rightarrow> directory" where
  "LogFile_dtor = (\<lambda>(l, d). AppendFile_dtor (lf_file l) d)"


section \<open>The bytes of the log\<close>

lemma dir_append_absent: "name \<notin> fst ` set d \<Longrightarrow> dir_append name bs d = d @ [(name, bs)]"
  by (induction name bs d rule: dir_append.induct) auto

lemma dir_append_present: "name \<notin> fst ` set d0 \<Longrightarrow> dir_append name bs (d0 @ (name, c) # d1) = d0 @ (name, c @ bs) # d1"
  by (induction d0) auto

text \<open>\<open>log_inv stamp t w s\<close>: the current file is the last one of the directory and was made at time \<open>t\<close>,
  the earlier ones earlier, and the files with the buffer hold the bytes \<open>w\<close>.\<close>

definition log_inv :: "(int \<Rightarrow> string) \<Rightarrow> int \<Rightarrow> bytes \<Rightarrow> log_file \<times> directory \<Rightarrow> bool" where
  "log_inv stamp t w = (\<lambda>(l, d). \<exists>d0 c.
     d = d0 @ [(af_filename (lf_file l), c)] \<and> af_filename (lf_file l) = getLogfileName stamp (lf_basename l) t \<and>
     (\<forall>n \<in> fst ` set d0. \<exists>t' < t. n = getLogfileName stamp (lf_basename l) t') \<and>
     concat (map snd d) @ af_buffer (lf_file l) = w)"

lemma name_inj: "inj stamp \<Longrightarrow> getLogfileName stamp b t = getLogfileName stamp b t' \<longleftrightarrow> t = t'"
  by (auto simp: getLogfileName_def dest: injD)

lemma log_inv_other:
  assumes "inj stamp" "log_inv stamp t w (l, d)" "t \<le> now"
  obtains d0 c where "d = d0 @ [(af_filename (lf_file l), c)]" "af_filename (lf_file l) \<notin> fst ` set d0"
    "af_filename (lf_file l) = getLogfileName stamp (lf_basename l) t" "concat (map snd d0) @ c @ af_buffer (lf_file l) = w"
    "\<forall>n \<in> fst ` set d0. \<exists>t' < t. n = getLogfileName stamp (lf_basename l) t'"
    "now \<noteq> t \<Longrightarrow> getLogfileName stamp (lf_basename l) now \<notin> fst ` set d"
proof -
  obtain d0 c where d: "d = d0 @ [(af_filename (lf_file l), c)]" "af_filename (lf_file l) = getLogfileName stamp (lf_basename l) t"
    "\<forall>n \<in> fst ` set d0. \<exists>t' < t. n = getLogfileName stamp (lf_basename l) t'" "concat (map snd d) @ af_buffer (lf_file l) = w"
    using assms(2) by (auto simp: log_inv_def)
  have "af_filename (lf_file l) \<notin> fst ` set d0"
    unfolding d(2) using d(3) assms(1) by (metis less_irrefl name_inj)
  moreover have "getLogfileName stamp (lf_basename l) now \<notin> fst ` set d" if "now \<noteq> t"
    using d assms(1,3) that by (auto simp: name_inj)
  ultimately show thesis using d that by auto
qed

lemma rollFile_inv:
  assumes "inj stamp" "log_inv stamp t w (l, d)" "t \<le> now"
  shows "log_inv stamp now w (rollFile stamp now (l, d))"
proof -
  let ?n = "getLogfileName stamp (lf_basename l) now" and ?o = "af_filename (lf_file l)"
  obtain d0 c where d: "d = d0 @ [(?o, c)]" "?o \<notin> fst ` set d0" "?o = getLogfileName stamp (lf_basename l) t"
    "concat (map snd d0) @ c @ af_buffer (lf_file l) = w" "\<forall>n \<in> fst ` set d0. \<exists>t' < t. n = getLogfileName stamp (lf_basename l) t'"
    "now \<noteq> t \<Longrightarrow> ?n \<notin> fst ` set d"
    using log_inv_other[OF assms] by blast
  show ?thesis
  proof (cases "now = t")
    case True
    then show ?thesis
      using d dir_append_present[OF d(2), of _ c "[]"]
      by (simp add: rollFile_def AppendFile_ctor_def AppendFile_dtor_def af_flush_def log_inv_def Let_def)
  next
    case False
    then have "t < now" using assms(3) by simp
    then have "\<forall>n \<in> fst ` set d0. \<exists>t' < now. n = getLogfileName stamp (lf_basename l) t'" using d(5) by (meson less_trans)
    moreover have "\<exists>t' < now. ?o = getLogfileName stamp (lf_basename l) t'" using d(3) \<open>t < now\<close> by blast
    moreover have "dir_append ?n [] d = d0 @ [(?o, c), (?n, [])]" using d(1) dir_append_absent[OF d(6)[OF False], of "[]"] by simp
    moreover have "dir_append ?o (af_buffer (lf_file l)) (d0 @ [(?o, c), (?n, [])]) = d0 @ [(?o, c @ af_buffer (lf_file l)), (?n, [])]"
      using dir_append_present[OF d(2)] by simp
    ultimately show ?thesis
      using d(4) unfolding rollFile_def AppendFile_ctor_def AppendFile_dtor_def af_flush_def log_inv_def Let_def
      by (auto intro!: exI[of _ "d0 @ [(?o, c @ af_buffer (lf_file l))]"])
  qed
qed

lemma flush_inv:
  assumes "inj stamp" "log_inv stamp t w (l, d)"
  shows "log_inv stamp t w (LogFile_flush (l, d))"
proof -
  obtain d0 c where d: "d = d0 @ [(af_filename (lf_file l), c)]" "af_filename (lf_file l) \<notin> fst ` set d0"
    "af_filename (lf_file l) = getLogfileName stamp (lf_basename l) t" "concat (map snd d0) @ c @ af_buffer (lf_file l) = w"
    "\<forall>n \<in> fst ` set d0. \<exists>t' < t. n = getLogfileName stamp (lf_basename l) t'"
    by (rule log_inv_other[OF assms order_refl]) (rule that)
  have "dir_append (af_filename (lf_file l)) (af_buffer (lf_file l)) d = d0 @ [(af_filename (lf_file l), c @ af_buffer (lf_file l))]"
    unfolding d(1) using d(2) by (rule dir_append_present)
  then show ?thesis
    using d(3-5) unfolding LogFile_flush_def af_flush_def log_inv_def Let_def
    by (auto intro!: exI[of _ d0] exI[of _ "c @ af_buffer (lf_file l)"])
qed

lemma append_complete:
  "length buf \<le> first \<Longrightarrow> af_append buf first ks f =
     f\<lparr>af_buffer := af_buffer f @ buf, af_writtenBytes := af_writtenBytes f + length buf\<rparr>"
  by (cases ks) (simp_all add: af_append_def af_fwrite_def Let_def min_def)

lemma log_inv_cong:
  "log_inv stamp t w (l, d) \<Longrightarrow> lf_file l' = lf_file l \<Longrightarrow> lf_basename l' = lf_basename l \<Longrightarrow> log_inv stamp t w (l', d)"
  by (simp add: log_inv_def)

lemma append_inv:
  assumes "inj stamp" "log_inv stamp t w (l, d)" "t \<le> now" "length buf \<le> first"
  shows "\<exists>t'. t' \<le> now \<and> log_inv stamp t' (w @ buf) (LogFile_append stamp now first ks buf (l, d))"
proof -
  let ?l1 = "l\<lparr>lf_file := af_append buf first ks (lf_file l)\<rparr>"
  let ?l3 = "?l1\<lparr>lf_count := 0\<rparr>"
  have 1: "log_inv stamp t (w @ buf) (?l1, d)" using assms(2,4) by (auto simp: log_inv_def append_complete)
  then have 3: "log_inv stamp t (w @ buf) (?l3, d)" by (rule log_inv_cong) simp_all
  have 4: "log_inv stamp t (w @ buf) (?l1\<lparr>lf_count := k\<rparr>, d)" for k using 1 by (rule log_inv_cong) simp_all
  obtain l4 d4 where f: "LogFile_flush (?l3, d) = (l4, d4)" by (cases "LogFile_flush (?l3, d)")
  then have "log_inv stamp t (w @ buf) (l4, d4)" using flush_inv[OF assms(1) 3] by simp
  then have 5: "log_inv stamp t (w @ buf) (l4\<lparr>lf_lastFlush := now\<rparr>, d4)" by (rule log_inv_cong) simp_all
  have r: "log_inv stamp now (w @ buf) (rollFile stamp now (?l1, d))" "log_inv stamp now (w @ buf) (rollFile stamp now (?l3, d))"
    using rollFile_inv[OF assms(1) 1 assms(3)] rollFile_inv[OF assms(1) 3 assms(3)] by simp_all
  let ?r = "LogFile_append stamp now first ks buf (l, d)"
  have "?r = rollFile stamp now (?l1, d) \<or> ?r = rollFile stamp now (?l3, d) \<or> ?r = (l4\<lparr>lf_lastFlush := now\<rparr>, d4) \<or>
    (\<exists>k. ?r = (?l1\<lparr>lf_count := k\<rparr>, d))"
    using f by (auto simp: LogFile_append_def append_unlocked_def Let_def)
  then show ?thesis using r 4 5 assms(3) by (metis order_refl)
qed


definition append_all :: "(int \<Rightarrow> string) \<Rightarrow> (int \<times> bytes) list \<Rightarrow> log_file \<times> directory \<Rightarrow> log_file \<times> directory" where
  "append_all stamp msgs s = fold (\<lambda>(now, buf) s. LogFile_append stamp now (length buf) [] buf s) msgs s"

lemma append_all_inv:
  assumes "inj stamp" "log_inv stamp t w (l, d)" "sorted (t # map fst msgs)"
  shows "\<exists>t'. log_inv stamp t' (w @ concat (map snd msgs)) (append_all stamp msgs (l, d))"
  using assms(2,3) unfolding append_all_def
proof (induction msgs arbitrary: t w l d)
  case Nil
  then show ?case by auto
next
  case (Cons m msgs)
  obtain now buf where m: "m = (now, buf)" by (cases m)
  obtain l1 d1 where r: "LogFile_append stamp now (length buf) [] buf (l, d) = (l1, d1)" by (metis surj_pair)
  obtain t1 where t1: "t1 \<le> now" "log_inv stamp t1 (w @ buf) (l1, d1)"
    using append_inv[OF assms(1) Cons.prems(1), of now buf "length buf" "[]"] Cons.prems(2) m r by auto
  then have "sorted (t1 # map fst msgs)" using Cons.prems(2) m by auto
  from Cons.IH[OF t1(2) this] show ?case using m r by simp
qed

text \<open>
  C21: The log files hold every byte that was appended, in order: whatever the sizes and the times
  at which \<^verbatim>\<open>LogFile\<close> flushes and starts a new file (also twice in the same second, when the name of the
  new file is that of the old one), after the destructor the files of the directory, in the order
  they were made, hold the concatenation of the messages. (\<^verbatim>\<open>fwrite\<close> accepts each message at
  once, the clock does not run backwards, and different times have different names.)
\<close>

theorem LogFile_keeps_every_byte:
  assumes "inj stamp" "sorted (t0 # map fst msgs)"
  shows "concat (map snd (LogFile_dtor (append_all stamp msgs (LogFile_ctor stamp t0 raw basename rollsize threadSafe flushInterval n [])))) =
    concat (map snd msgs)"
proof -
  obtain l d where c: "LogFile_ctor stamp t0 raw basename rollsize threadSafe flushInterval n [] = (l, d)" by (metis surj_pair)
  then have "log_inv stamp t0 [] (l, d)" by (auto simp: LogFile_ctor_def AppendFile_ctor_def log_inv_def Let_def)
  then obtain t where t: "log_inv stamp t (concat (map snd msgs)) (append_all stamp msgs (l, d))"
    using append_all_inv[OF assms(1) _ assms(2)] by fastforce
  obtain l' d' where e: "append_all stamp msgs (l, d) = (l', d')" by (metis surj_pair)
  have "log_inv stamp t (concat (map snd msgs)) (LogFile_flush (l', d'))" using flush_inv[OF assms(1)] t e by simp
  then show ?thesis using c e by (auto simp: LogFile_dtor_def AppendFile_dtor_def LogFile_flush_def af_flush_def log_inv_def)
qed

lemma inj_decimal: "inj decimal"
  by (metis injI read_int_decimal)

theorem LogFile_keeps_every_byte_witness:
  "concat (map snd (LogFile_dtor (append_all decimal [(100, [1, 2]), (100, [3]), (90000, [4])]
     (LogFile_ctor decimal 99 1 ''log'' 1 True 3 1024 [])))) = [1, 2, 3, 4]"
  using LogFile_keeps_every_byte[OF inj_decimal, of 99 "[(100, [1, 2]), (100, [3]), (90000, [4])]" 1 "''log''" 1 True 3 1024] by simp

text \<open>
  A short write corrupts the log. When \<^verbatim>\<open>fwrite\<close> accepts only \<open>k\<close> bytes of a message at first and the
  rest when it is called again, \<^verbatim>\<open>AppendFile::append\<close> has written the first \<open>k\<close> bytes followed by the message
  from its start again, cut to the missing length, because the retry passes \<^verbatim>\<open>buf\<close> and not
  \<^verbatim>\<open>buf + nWritten\<close>; the byte count is right, the bytes are not.
\<close>

theorem AppendFile_short_write_repeats:
  assumes "0 < k" "k < length buf"
  shows "af_buffer (af_append buf k [length buf - k] f) = af_buffer f @ take k buf @ take (length buf - k) buf \<and>
    af_writtenBytes (af_append buf k [length buf - k] f) = af_writtenBytes f + length buf"
  using assms by (simp add: af_append_def af_fwrite_def Let_def min_def)

theorem AppendFile_short_write_repeats_witness:
  "af_buffer (af_append [1, 2, 3, 4] 1 [3] \<lparr>af_filename = ''l'', af_buffer = [], af_writtenBytes = 0\<rparr>) = [1, 1, 2, 3]"
  using AppendFile_short_write_repeats[of 1 "[1, 2, 3, 4]" "\<lparr>af_filename = ''l'', af_buffer = [], af_writtenBytes = 0\<rparr>"]
  by (simp add: numeral_3_eq_3)

text \<open>
  The check interval of a log file is not the one that was asked for: the constructor does not
  store it, and the member keeps what the memory held. If that was a negative number, the file is
  neither flushed nor changed at midnight for the first $2^{63}$ appends, whatever the clock says:
  nothing reaches the disk until the file exceeds its size limit.
\<close>

theorem LogFile_uninitialised_interval:
  assumes "- (2 ^ 31) \<le> lf_checkEveryN l" "lf_checkEveryN l < 0" "lf_count l + length msgs < 2 ^ 63"
    and "af_writtenBytes (lf_file l) + length (concat (map snd msgs)) \<le> lf_rollSize l"
  shows "snd (append_all stamp msgs (l, d)) = d \<and>
    af_buffer (lf_file (fst (append_all stamp msgs (l, d)))) = af_buffer (lf_file l) @ concat (map snd msgs)"
  using assms unfolding append_all_def
proof (induction msgs arbitrary: l)
  case Nil
  then show ?case by simp
next
  case (Cons m msgs)
  obtain now buf where m: "m = (now, buf)" by (cases m)
  let ?l = "l\<lparr>lf_file := (lf_file l)\<lparr>af_buffer := af_buffer (lf_file l) @ buf, af_writtenBytes := af_writtenBytes (lf_file l) + length buf\<rparr>,
    lf_count := lf_count l + 1\<rparr>"
  have "int_to_size (lf_checkEveryN l) = nat (2 ^ 64 + lf_checkEveryN l)"
  proof -
    have "lf_checkEveryN l mod 2 ^ 64 = (lf_checkEveryN l + 2 ^ 64) mod 2 ^ 64" by simp
    also have "\<dots> = lf_checkEveryN l + 2 ^ 64" using Cons.prems(1,2) by (intro mod_pos_pos_trivial) simp_all
    finally show ?thesis by (simp add: int_to_size_def add.commute)
  qed
  moreover have "lf_count l + 1 < nat (2 ^ 64 + lf_checkEveryN l)" using Cons.prems(1,3) by (simp add: nat_less_iff zless_nat_eq_int_zless)
  ultimately have "LogFile_append stamp now (length buf) [] buf (l, d) = (?l, d)"
    using Cons.prems m by (simp add: LogFile_append_def append_unlocked_def append_complete Let_def)
  then show ?case using Cons.IH[of ?l] Cons.prems m by simp
qed

theorem LogFile_uninitialised_interval_witness:
  "snd (append_all decimal [(0, [1, 2]), (1000000, [3])] (LogFile_ctor decimal 0 (- 1) ''log'' 1000 True 3 1024 [])) = [(''log0.log'', [])]"
proof -
  obtain l where l: "LogFile_ctor decimal 0 (- 1) ''log'' 1000 True 3 1024 [] = (l, [(''log0.log'', [])])" "lf_checkEveryN l = - 1"
    "lf_count l = 0" "lf_rollSize l = 1000" "af_writtenBytes (lf_file l) = 0"
    by (simp add: LogFile_ctor_def AppendFile_ctor_def getLogfileName_def decimal_def show_base.simps dec_digits_def file_size_def)
  then show ?thesis using LogFile_uninitialised_interval[of l "[(0, [1, 2]), (1000000, [3])]" decimal "[(''log0.log'', [])]"] by simp
qed

end
