(* ===== verification/AsyncLogging.thy ===== *)
theory AsyncLogging
  imports FixedBuffer Threads
begin

text \<open>
  The asynchronous logger (\<^verbatim>\<open>logging.muduo/AsyncLogging.cpp\<close>): any thread appends a message to the
  current buffer under the mutex; the logging thread takes the filled buffers and the current one
  under the mutex and writes them outside of it. The steps under the mutex are atomic, so an
  execution is a sequence of appends and of steps of the logging thread. \<open>al_raw\<close> is the memory of a
  new buffer; \<open>al_written\<close> are the arguments of the calls of \<^verbatim>\<open>LogFile::append\<close>, in order.
\<close>

datatype al_pc = A_none | A_start | A_top | A_waited | A_collected | A_done

record async_logging =
  al_flushInterval :: int
  al_running :: bool
  al_current :: "byte fixed_buffer option"
  al_next :: "byte fixed_buffer option"
  al_buffers :: "byte fixed_buffer option list"
  al_pc :: al_pc
  al_newBuffer1 :: "byte fixed_buffer option"
  al_newBuffer2 :: "byte fixed_buffer option"
  al_toWrite :: "byte fixed_buffer option list"
  al_written :: "bytes list"
  al_raw :: bytes

definition new_buffer :: "async_logging \<Rightarrow> byte fixed_buffer option" where
  "new_buffer s = Some (FixedBuffer_ctor (al_raw s))"

definition AsyncLogging_ctor :: "bytes \<Rightarrow> int \<Rightarrow> async_logging" where
  "AsyncLogging_ctor raw flushInterval = \<lparr>al_flushInterval = flushInterval, al_running = False,
     al_current = Some (fb_bzero (FixedBuffer_ctor raw)), al_next = Some (fb_bzero (FixedBuffer_ctor raw)), al_buffers = [],
     al_pc = A_none, al_newBuffer1 = None, al_newBuffer2 = None, al_toWrite = [], al_written = [], al_raw = raw\<rparr>"

definition AsyncLogging_start :: "async_logging \<Rightarrow> async_logging" where
  "AsyncLogging_start s = s\<lparr>al_running := True, al_pc := A_start\<rparr>"

text \<open>\<^verbatim>\<open>stop\<close> then joins the thread, which ends in \<open>A_done\<close>.\<close>

definition AsyncLogging_stop :: "async_logging \<Rightarrow> async_logging" where
  "AsyncLogging_stop s = s\<lparr>al_running := False\<rparr>"

definition al_append :: "bytes \<Rightarrow> async_logging \<Rightarrow> async_logging res" where
  "al_append msg s =
     (case al_current s of
        None \<Rightarrow> Inl (Null_pointer ''currentBuffer_'')
      | Some b \<Rightarrow>
          (if fb_available b > length msg then
             res_bind (fb_append msg b) (\<lambda>b'. Inr (s\<lparr>al_current := Some b'\<rparr>))
           else
             (let s1 = s\<lparr>al_buffers := al_buffers s @ [Some b]\<rparr>;
                  s2 = (case al_next s1 of Some nb \<Rightarrow> s1\<lparr>al_current := Some nb, al_next := None\<rparr>
                        | None \<Rightarrow> s1\<lparr>al_current := new_buffer s1\<rparr>)
              in res_bind (fb_append msg (the (al_current s2))) (\<lambda>b'. Inr (s2\<lparr>al_current := Some b'\<rparr>)))))"

definition empty_buffer :: "byte fixed_buffer option \<Rightarrow> bool" where
  "empty_buffer ob = (case ob of None \<Rightarrow> False | Some b \<Rightarrow> fb_length b = 0)"

text \<open>The beginning of \<^verbatim>\<open>threadFunc\<close>: the assertion assigns.\<close>

definition al_begin :: "async_logging \<Rightarrow> async_logging" where
  "al_begin s = s\<lparr>al_running := True, al_newBuffer1 := Some (fb_bzero (FixedBuffer_ctor (al_raw s))),
     al_newBuffer2 := Some (fb_bzero (FixedBuffer_ctor (al_raw s))), al_toWrite := [], al_pc := A_top\<rparr>"

text \<open>The top of the loop, up to the return of \<^verbatim>\<open>waitForSeconds\<close>.\<close>

definition al_wait :: "(int \<times> int \<Rightarrow> int) \<Rightarrow> int \<times> int \<Rightarrow> async_logging \<Rightarrow> async_logging res" where
  "al_wait timedwait now s =
     require (empty_buffer (al_newBuffer1 s)) ''newBuffer1 && newBuffer1->length() == 0''
     (require (empty_buffer (al_newBuffer2 s)) ''newBuffer2 && newBuffer2->length() == 0''
      (require (al_toWrite s = []) ''buffersToWrite.empty()''
       (res_bind (if al_buffers s = [] then waitForSeconds timedwait (al_flushInterval s) now else Inr ()) (\<lambda>_.
          Inr (s\<lparr>al_pc := A_waited\<rparr>)))))"

text \<open>The rest of the critical section.\<close>

definition al_collect :: "async_logging \<Rightarrow> async_logging" where
  "al_collect s =
     (let s1 = s\<lparr>al_buffers := al_buffers s @ [al_current s], al_current := al_newBuffer1 s, al_newBuffer1 := None\<rparr>;
          s2 = s1\<lparr>al_toWrite := al_buffers s1, al_buffers := al_toWrite s1\<rparr>;
          s3 = (if al_next s2 = None then s2\<lparr>al_next := al_newBuffer2 s2, al_newBuffer2 := None\<rparr> else s2)
      in s3\<lparr>al_pc := A_collected\<rparr>)"

fun write_buffers :: "byte fixed_buffer option list \<Rightarrow> bytes list res" where
  "write_buffers [] = Inr []"
| "write_buffers (None # bs) = Inl (Null_pointer ''buffersToWrite[i]'')"
| "write_buffers (Some b # bs) = res_bind (fb_ToString b) (\<lambda>x. res_bind (write_buffers bs) (\<lambda>xs. Inr (x # xs)))"

text \<open>A buffer taken back from \<^verbatim>\<open>buffersToWrite\<close> and reset.\<close>

definition take_back :: "byte fixed_buffer option list \<Rightarrow> (byte fixed_buffer option \<times> byte fixed_buffer option list) res" where
  "take_back bs =
     require (bs \<noteq> []) ''!buffersToWrite.empty()''
     (case last bs of None \<Rightarrow> Inl (Null_pointer ''newBuffer'') | Some b \<Rightarrow> Inr (Some (fb_reset b), butlast bs))"

definition al_write :: "async_logging \<Rightarrow> async_logging res" where
  "al_write s =
     require (al_toWrite s \<noteq> []) ''!buffersToWrite.empty()''
     (let bs = (if length (al_toWrite s) > 25 then take 2 (al_toWrite s) else al_toWrite s)
      in res_bind (write_buffers bs) (\<lambda>out.
         let bs2 = (if length bs > 2 then take 2 bs else bs)
         in res_bind (if al_newBuffer1 s = None then take_back bs2 else Inr (al_newBuffer1 s, bs2)) (\<lambda>(n1, bs3).
            res_bind (if al_newBuffer2 s = None then take_back bs3 else Inr (al_newBuffer2 s, bs3)) (\<lambda>(n2, bs4).
              Inr (s\<lparr>al_written := al_written s @ out, al_newBuffer1 := n1, al_newBuffer2 := n2, al_toWrite := [],
                     al_pc := (if al_running s then A_top else A_done)\<rparr>)))))"

text \<open>An execution: appends, \<^verbatim>\<open>stop\<close>, and the steps of the logging thread.\<close>

datatype al_event = Al_append bytes | Al_stop | Al_thread "int \<times> int \<Rightarrow> int" "int \<times> int"

definition al_step :: "al_event \<Rightarrow> async_logging \<Rightarrow> async_logging res" where
  "al_step ev s =
     (case ev of
        Al_append msg \<Rightarrow> al_append msg s
      | Al_stop \<Rightarrow> Inr (AsyncLogging_stop s)
      | Al_thread timedwait now \<Rightarrow>
          (case al_pc s of
             A_start \<Rightarrow> Inr (al_begin s)
           | A_top \<Rightarrow> al_wait timedwait now s
           | A_waited \<Rightarrow> Inr (al_collect s)
           | A_collected \<Rightarrow> al_write s
           | _ \<Rightarrow> Inr s))"

section \<open>No message is lost while the logger runs\<close>

fun appended :: "al_event \<Rightarrow> bytes" where
  "appended (Al_append msg) = msg"
| "appended _ = []"

definition buffer_text :: "byte fixed_buffer option \<Rightarrow> bytes" where
  "buffer_text ob = (case ob of None \<Rightarrow> [] | Some b \<Rightarrow> fb_text b)"

text \<open>The bytes in the order they will be in the log: written, taken to be written, waiting, current.\<close>

definition log_bytes :: "async_logging \<Rightarrow> bytes" where
  "log_bytes s = concat (al_written s) @ concat (map buffer_text (al_toWrite s)) @ concat (map buffer_text (al_buffers s)) @
     buffer_text (al_current s)"

definition clean :: "nat \<Rightarrow> byte fixed_buffer option \<Rightarrow> bool" where
  "clean sz ob \<longleftrightarrow> (\<exists>b. ob = Some b \<and> fb_cur b = 0 \<and> length (fb_data b) = sz)"

definition sound :: "nat \<Rightarrow> byte fixed_buffer option \<Rightarrow> bool" where
  "sound sz ob \<longleftrightarrow> (\<exists>b. ob = Some b \<and> fb_inv b \<and> length (fb_data b) = sz)"

definition al_inv :: "nat \<Rightarrow> async_logging \<Rightarrow> bool" where
  "al_inv sz s \<longleftrightarrow> length (al_raw s) = sz \<and> sound sz (al_current s) \<and> clean sz (al_next s) \<and> al_buffers s = [] \<and> al_pc s \<noteq> A_none \<and>
     (al_pc s = A_start \<longrightarrow> al_toWrite s = []) \<and>
     (al_pc s = A_top \<or> al_pc s = A_waited \<or> al_pc s = A_done \<longrightarrow>
        clean sz (al_newBuffer1 s) \<and> clean sz (al_newBuffer2 s) \<and> al_toWrite s = []) \<and>
     (al_pc s = A_collected \<longrightarrow> al_newBuffer1 s = None \<and> clean sz (al_newBuffer2 s) \<and> (\<exists>b. al_toWrite s = [b] \<and> sound sz b))"

lemma clean_sound: "clean sz ob \<Longrightarrow> sound sz ob" "clean sz ob \<Longrightarrow> buffer_text ob = []" "clean sz ob \<Longrightarrow> empty_buffer ob"
  by (auto simp: clean_def sound_def fb_inv_def buffer_text_def fb_text_def empty_buffer_def fb_length_def)

lemma clean_new: "length raw = sz \<Longrightarrow> clean sz (Some (fb_bzero (FixedBuffer_ctor raw)))"
  by (simp add: clean_def fb_bzero_def FixedBuffer_ctor_def)

lemma al_append_ok:
  assumes "al_inv sz s" "length msg < sz"
  shows "if length (buffer_text (al_current s)) + length msg \<le> sz
    then \<exists>s'. al_append msg s = Inr s' \<and> al_inv sz s' \<and> log_bytes s' = log_bytes s @ msg \<and>
      buffer_text (al_current s') = buffer_text (al_current s) @ msg
    else al_append msg s = Inl (Out_of_bounds ''write'')"
proof -
  obtain b where b: "al_current s = Some b" "fb_inv b" "length (fb_data b) = sz" using assms(1) by (auto simp: al_inv_def sound_def)
  have len: "length (buffer_text (al_current s)) = fb_cur b" using b by (simp add: buffer_text_def length_fb_text fb_length_def)
  show ?thesis
  proof (cases "fb_cur b + length msg \<le> sz")
    case True
    then obtain b' where b': "fb_memcpy msg b = Inr b'" "fb_inv b'" "fb_text b' = fb_text b @ msg" "length (fb_data b') = sz"
      using fb_memcpy_ok[of b msg] b(3) by auto
    then have ap: "al_append msg s = Inr (s\<lparr>al_current := Some b'\<rparr>)"
      using fb_append_cases[OF b(2), of msg] assms(2) b True by (simp add: al_append_def fb_available_def)
    have "al_inv sz (s\<lparr>al_current := Some b'\<rparr>)" using assms(1) b'(2,4) by (simp add: al_inv_def sound_def)
    then show ?thesis using True len ap b b' by (simp add: log_bytes_def buffer_text_def)
  next
    case False
    then show ?thesis using fb_append_cases[OF b(2), of msg] assms(2) b len by (simp add: al_append_def fb_available_def)
  qed
qed


lemma al_write_ok:
  assumes inv: "al_inv sz s" and pc: "al_pc s = A_collected"
  shows "\<exists>s'. al_write s = Inr s' \<and> al_inv sz s' \<and> log_bytes s' = log_bytes s \<and> al_current s' = al_current s"
proof -
  obtain b where b: "al_toWrite s = [Some b]" "fb_inv b" "length (fb_data b) = sz" and n: "al_newBuffer1 s = None" "clean sz (al_newBuffer2 s)"
    using inv pc by (auto simp: al_inv_def sound_def)
  have "fb_ToString b = Inr (fb_text b)" using b(2) by (simp add: fb_ToString_def fb_length_def fb_inv_def fb_text_def mem_read_def)
  then have w: "al_write s = Inr (s\<lparr>al_written := al_written s @ [fb_text b], al_newBuffer1 := Some (fb_reset b), al_newBuffer2 := al_newBuffer2 s,
      al_toWrite := [], al_pc := (if al_running s then A_top else A_done)\<rparr>)"
    using b(1) n by (auto simp: al_write_def take_back_def clean_def)
  have "clean sz (Some (fb_reset b))" using b(3) by (simp add: clean_def fb_reset_def)
  then show ?thesis using w inv n(2) b(1) by (auto simp: al_inv_def log_bytes_def buffer_text_def)
qed

lemma al_thread_ok:
  assumes inv: "al_inv sz s" and w: "timedwait (wait_abstime (al_flushInterval s) now) = 0"
  shows "\<exists>s'. al_step (Al_thread timedwait now) s = Inr s' \<and> al_inv sz s' \<and> log_bytes s' = log_bytes s \<and>
    length (buffer_text (al_current s')) \<le> length (buffer_text (al_current s))"
proof (cases "al_pc s")
  case A_start
  then show ?thesis using inv clean_new[of "al_raw s" sz] by (simp add: al_step_def al_begin_def al_inv_def log_bytes_def)
next
  case A_top
  then have "clean sz (al_newBuffer1 s)" "clean sz (al_newBuffer2 s)" "al_toWrite s = []" "al_buffers s = []"
    using inv by (simp_all add: al_inv_def)
  then show ?thesis
    using A_top inv w clean_sound(3)
    by (auto simp: al_step_def al_wait_def waitForSeconds_def PthreadCall_def al_inv_def log_bytes_def)
next
  case A_waited
  then have c: "clean sz (al_newBuffer1 s)" "clean sz (al_newBuffer2 s)" "al_toWrite s = []" "al_buffers s = []" "al_next s \<noteq> None"
    "sound sz (al_current s)"
    using inv by (auto simp: al_inv_def clean_def)
  then have eq: "al_collect s = s\<lparr>al_buffers := [], al_current := al_newBuffer1 s, al_newBuffer1 := None, al_toWrite := [al_current s], al_pc := A_collected\<rparr>"
    by (auto simp: al_collect_def Let_def)
  have "al_inv sz (al_collect s)" using inv c clean_sound(1)[OF c(1)] by (simp add: al_inv_def eq)
  moreover have "log_bytes (al_collect s) = log_bytes s" using c clean_sound(2)[OF c(1)] by (simp add: eq log_bytes_def)
  moreover have "buffer_text (al_current (al_collect s)) = []" using clean_sound(2)[OF c(1)] by (simp add: eq)
  ultimately show ?thesis using A_waited by (simp add: al_step_def)
next
  case A_collected
  then show ?thesis using al_write_ok[OF inv] by (auto simp: al_step_def)
qed (use inv in \<open>simp_all add: al_step_def al_inv_def\<close>)

lemma al_stop_ok: "al_inv sz s \<Longrightarrow> al_inv sz (AsyncLogging_stop s) \<and> log_bytes (AsyncLogging_stop s) = log_bytes s \<and>
    al_current (AsyncLogging_stop s) = al_current s"
  by (simp add: AsyncLogging_stop_def al_inv_def log_bytes_def)

lemma log_bytes_current: "length (buffer_text (al_current s)) \<le> length (log_bytes s)"
  by (simp add: log_bytes_def)

text \<open>Events in which no message is larger than a buffer and the condition variable is signalled in time.\<close>

definition timely :: "nat \<Rightarrow> al_event \<Rightarrow> bool" where
  "timely sz ev = (case ev of Al_append msg \<Rightarrow> length msg < sz | Al_stop \<Rightarrow> True | Al_thread timedwait _ \<Rightarrow> timedwait = (\<lambda>_. 0))"

lemma al_run_ok:
  assumes "al_inv sz s" "list_all (timely sz) evs"
  shows "res_fold al_step evs s = Inl (Out_of_bounds ''write'') \<and> length (log_bytes s @ concat (map appended evs)) > sz \<or>
    (\<exists>s'. res_fold al_step evs s = Inr s' \<and> al_inv sz s' \<and> log_bytes s' = log_bytes s @ concat (map appended evs))"
  using assms
proof (induction evs arbitrary: s)
  case Nil
  then show ?case by simp
next
  case (Cons ev evs)
  have step: "al_step ev s = Inl (Out_of_bounds ''write'') \<and> length (log_bytes s @ appended ev) > sz \<or>
    (\<exists>s'. al_step ev s = Inr s' \<and> al_inv sz s' \<and> log_bytes s' = log_bytes s @ appended ev)"
  proof (cases ev)
    case (Al_append msg)
    then have "length msg < sz" using Cons.prems(2) by (simp add: timely_def)
    then show ?thesis
      using al_append_ok[OF Cons.prems(1), of msg] log_bytes_current[of s] Al_append by (auto simp: al_step_def split: if_splits)
  next
    case Al_stop
    then show ?thesis using al_stop_ok[OF Cons.prems(1)] by (simp add: al_step_def)
  next
    case (Al_thread timedwait now)
    then have "timedwait (wait_abstime (al_flushInterval s) now) = 0" using Cons.prems(2) by (simp add: timely_def)
    then show ?thesis using al_thread_ok[OF Cons.prems(1), of timedwait now] Al_thread by auto
  qed
  have "list_all (timely sz) evs" using Cons.prems(2) by simp
  then show ?case using step Cons.IH by fastforce
qed

lemma al_started_inv: "al_inv (length raw) (AsyncLogging_start (AsyncLogging_ctor raw fi))"
  "log_bytes (AsyncLogging_start (AsyncLogging_ctor raw fi)) = []"
  using clean_new[of raw "length raw"] clean_sound(1,2)[OF clean_new[of raw "length raw"]]
  by (simp_all add: AsyncLogging_start_def AsyncLogging_ctor_def al_inv_def log_bytes_def)

text \<open>
  The asynchronous logger loses, repeats and reorders nothing while it runs: for every
  interleaving of appends, \<^verbatim>\<open>stop\<close> and steps of the logging thread, the bytes written so far followed by
  those in its buffers are the messages in the order they were appended; no assertion of the logging
  thread fails. (Messages are smaller than a buffer, and the wait for the condition
  variable does not time out; as \<^verbatim>\<open>available\<close> is the size of a whole buffer, \<^verbatim>\<open>append\<close> then never hands a
  buffer over, and the queue does not reach the 25 buffers beyond which it is cut.) The only other outcome is a write behind the end of a
  buffer, and not before more bytes than a buffer holds have been appended.
\<close>

theorem AsyncLogging_keeps_order:
  assumes "list_all (timely (length raw)) evs"
  shows "let s = AsyncLogging_start (AsyncLogging_ctor raw flushInterval)
    in (length (concat (map appended evs)) > length raw \<and> res_fold al_step evs s = Inl (Out_of_bounds ''write'')) \<or>
       (\<exists>s'. res_fold al_step evs s = Inr s' \<and> log_bytes s' = concat (map appended evs))"
  using al_run_ok[OF al_started_inv(1) assms, of flushInterval] by (auto simp: al_started_inv(2) Let_def)

theorem AsyncLogging_keeps_order_witness:
  "\<exists>s'. res_fold al_step [Al_thread (\<lambda>_. 0) (0, 0), Al_append [1, 2], Al_thread (\<lambda>_. 0) (0, 0), Al_thread (\<lambda>_. 0) (0, 0), Al_append [3],
      Al_thread (\<lambda>_. 0) (0, 0)] (AsyncLogging_start (AsyncLogging_ctor (replicate 10 0) 3)) = Inr s' \<and> log_bytes s' = [1, 2, 3]"
  using AsyncLogging_keeps_order[of "replicate 10 0" "[Al_thread (\<lambda>_. 0) (0, 0), Al_append [1, 2], Al_thread (\<lambda>_. 0) (0, 0),
    Al_thread (\<lambda>_. 0) (0, 0), Al_append [3], Al_thread (\<lambda>_. 0) (0, 0)]" 3]
  by (simp add: timely_def Let_def)

section \<open>Where the logger goes wrong\<close>

text \<open>
  The current buffer is never exchanged by \<^verbatim>\<open>append\<close>, because \<^verbatim>\<open>available()\<close> does not shrink: when
  more is appended between two rounds of the logging thread than a buffer holds, the message that
  does not fit is written over the memory behind the buffer.
\<close>

theorem AsyncLogging_append_overflows:
  assumes "al_inv sz s" "length msg < sz" "sz < length (buffer_text (al_current s)) + length msg"
  shows "al_step (Al_append msg) s = Inl (Out_of_bounds ''write'')"
  using al_append_ok[OF assms(1,2)] assms(3) by (simp add: al_step_def)

theorem AsyncLogging_append_overflows_witness:
  "\<exists>s. al_step (Al_append [1, 2, 3]) (AsyncLogging_start (AsyncLogging_ctor (replicate 4 0) 3)) = Inr s \<and>
     al_step (Al_append [4, 5]) s = Inl (Out_of_bounds ''write'')"
proof -
  have i: "al_inv 4 (AsyncLogging_start (AsyncLogging_ctor (replicate 4 0) 3))"
    "buffer_text (al_current (AsyncLogging_start (AsyncLogging_ctor (replicate 4 0) 3))) = []"
    using al_started_inv(1)[of "replicate 4 0" 3] al_started_inv(2)[of "replicate 4 0" 3] by (simp_all add: log_bytes_def)
  then obtain s where "al_append [1, 2, 3] (AsyncLogging_start (AsyncLogging_ctor (replicate 4 0) 3)) = Inr s" "al_inv 4 s"
    "buffer_text (al_current s) = [1, 2, 3]"
    using al_append_ok[OF i(1), of "[1, 2, 3]"] by auto
  then show ?thesis using AsyncLogging_append_overflows[of 4 s "[4, 5]"] by (auto simp: al_step_def)
qed

text \<open>
  An idle logger aborts the process: when nothing is logged for the flush interval, the wait of
  the logging thread times out, and \<^verbatim>\<open>waitForSeconds\<close> takes \<^verbatim>\<open>ETIMEDOUT\<close> for a failure.
\<close>

theorem AsyncLogging_idle_aborts:
  assumes "al_inv sz s" "al_pc s = A_top" "timedwait (wait_abstime (al_flushInterval s) now) = ETIMEDOUT"
  shows "al_step (Al_thread timedwait now) s = Inl (Abort ''pthread wait for seconds'')"
proof -
  have "empty_buffer (al_newBuffer1 s)" "empty_buffer (al_newBuffer2 s)" "al_toWrite s = []" "al_buffers s = []"
    using assms(1,2) clean_sound(3) by (auto simp: al_inv_def)
  then show ?thesis using assms(2,3) by (simp add: al_step_def al_wait_def waitForSeconds_def PthreadCall_def ETIMEDOUT_def)
qed

theorem AsyncLogging_idle_aborts_witness:
  "\<exists>s. al_step (Al_thread (\<lambda>_. 0) (0, 0)) (AsyncLogging_start (AsyncLogging_ctor (replicate 4 0) 3)) = Inr s \<and>
     al_step (Al_thread (\<lambda>_. ETIMEDOUT) (0, 0)) s = Inl (Abort ''pthread wait for seconds'')"
proof -
  let ?s = "AsyncLogging_start (AsyncLogging_ctor (replicate 4 0) 3)"
  have "al_inv 4 ?s" using al_started_inv(1)[of "replicate 4 0" 3] by simp
  then obtain s where s: "al_step (Al_thread (\<lambda>_. 0) (0, 0)) ?s = Inr s" "al_inv 4 s" using al_thread_ok[of 4 ?s "\<lambda>_. 0" "(0, 0)"] by auto
  moreover from s(1) have "al_pc s = A_top" by (auto simp: al_step_def AsyncLogging_start_def AsyncLogging_ctor_def al_begin_def)
  ultimately show ?thesis using AsyncLogging_idle_aborts[of 4 s] by auto
qed

text \<open>
  A message appended while the logging thread writes is lost when the logger is stopped
  before the next round: the thread leaves its loop without collecting the current buffer, and
  ends with the message in it.
\<close>

theorem AsyncLogging_stop_loses_message:
  assumes "al_inv sz s" "al_pc s = A_collected" "length msg < sz" "length (buffer_text (al_current s)) + length msg \<le> sz"
  shows "\<exists>s'. res_fold al_step [Al_append msg, Al_stop, Al_thread timedwait now] s = Inr s' \<and> al_pc s' = A_done \<and>
    log_bytes s' = log_bytes s @ msg \<and> (\<exists>pre. buffer_text (al_current s') = pre @ msg)"
proof -
  obtain s1 where s1: "al_append msg s = Inr s1" "al_inv sz s1" "log_bytes s1 = log_bytes s @ msg"
    "buffer_text (al_current s1) = buffer_text (al_current s) @ msg"
    using al_append_ok[OF assms(1,3)] assms(4) by auto
  have pc: "al_pc s1 = A_collected"
    using s1(1) assms(2) by (auto simp: al_append_def new_buffer_def Let_def split: option.splits if_splits)
  let ?s2 = "AsyncLogging_stop s1"
  have s2: "al_inv sz ?s2" "log_bytes ?s2 = log_bytes s1" "al_current ?s2 = al_current s1" "al_pc ?s2 = A_collected" "\<not> al_running ?s2"
    using al_stop_ok[OF s1(2)] pc by (auto simp: AsyncLogging_stop_def)
  obtain s3 where s3: "al_write ?s2 = Inr s3" "log_bytes s3 = log_bytes ?s2" "al_current s3 = al_current ?s2"
    using al_write_ok[OF s2(1,4)] by blast
  then have "al_pc s3 = A_done" using s2(5) by (auto simp: al_write_def Let_def)
  then show ?thesis using s1 s2 s3 by (auto simp: al_step_def)
qed

theorem AsyncLogging_stop_loses_message_witness:
  "\<exists>s s'. al_pc s = A_collected \<and> log_bytes s = [] \<and>
     res_fold al_step [Al_append [7], Al_stop, Al_thread (\<lambda>_. 0) (0, 0)] s = Inr s' \<and> al_pc s' = A_done \<and> log_bytes s' = [7]"
proof -
  let ?s = "AsyncLogging_start (AsyncLogging_ctor (replicate 4 0) 3)" and ?t = "Al_thread (\<lambda>_. 0) (0, 0)"
  have i: "al_inv 4 ?s" "log_bytes ?s = []"
    using al_started_inv(1)[of "replicate 4 0" 3] al_started_inv(2)[of "replicate 4 0" 3] by simp_all
  obtain s where s: "res_fold al_step [?t, ?t, ?t] ?s = Inr s" "al_inv 4 s" "log_bytes s = []"
    using al_run_ok[OF i(1), of "[?t, ?t, ?t]"] i(2) by (auto simp: timely_def)
  have "al_pc s = A_collected" using s(1)
    by (auto simp: al_step_def AsyncLogging_start_def AsyncLogging_ctor_def al_begin_def al_wait_def al_collect_def Let_def)
  moreover have "length (buffer_text (al_current s)) = 0" using log_bytes_current[of s] s(3) by simp
  ultimately show ?thesis using AsyncLogging_stop_loses_message[OF s(2), of "[7]" "\<lambda>_. 0" "(0, 0)"] s(3) by auto
qed

text \<open>
  A \<^verbatim>\<open>stop\<close> that comes before the logging thread has begun is lost: \<^verbatim>\<open>assert(running_ = true)\<close> at the
  beginning of \<^verbatim>\<open>threadFunc\<close> assigns, so the thread enters its loop and \<^verbatim>\<open>stop\<close> waits for it.
\<close>

theorem AsyncLogging_early_stop_is_lost:
  "\<exists>s'. res_fold al_step [Al_stop, Al_thread timedwait now] (AsyncLogging_start (AsyncLogging_ctor raw flushInterval)) = Inr s' \<and>
     al_running s' \<and> al_pc s' = A_top"
  by (simp add: al_step_def AsyncLogging_start_def AsyncLogging_ctor_def AsyncLogging_stop_def al_begin_def)

end
