(* ===== verification/LogPipeline.thy ===== *)
theory LogPipeline
  imports AsyncLogging LogFile Logging
begin

text \<open>
  The way of a log line to the disk: the global settings of the logger (\<^verbatim>\<open>logging.muduo/Logging.cpp\<close>) that say where
  a line goes, and \<^verbatim>\<open>AsyncLogging::threadFunc\<close> (\<^verbatim>\<open>logging.muduo/AsyncLogging.cpp\<close>) together with its local \<^verbatim>\<open>LogFile output\<close>. The
  theory composes \<open>Logging\<close>, \<open>AsyncLogging\<close> and \<open>LogFile\<close>: the arguments of \<^verbatim>\<open>output.append\<close> that \<open>AsyncLogging\<close>
  records are given to the log file of \<open>LogFile\<close>.
\<close>

section \<open>The global settings of the logger\<close>

text \<open>\<^verbatim>\<open>g_output\<close> and \<^verbatim>\<open>g_flush\<close> are functions with an effect on a state \<open>'s\<close>.\<close>

record 's logger_globals =
  g_loglevel :: log_level
  g_output :: "string \<Rightarrow> 's \<Rightarrow> 's res"
  g_flush :: "'s \<Rightarrow> 's res"

text \<open>The standard output: what is in its buffer, and what has been written.\<close>

record stdio =
  out_buffer :: string
  out_written :: string

definition defaultOutput :: "string \<Rightarrow> stdio \<Rightarrow> stdio res" where
  "defaultOutput msg o1 = Inr (o1\<lparr>out_buffer := out_buffer o1 @ msg\<rparr>)"

definition defaultFlush :: "stdio \<Rightarrow> stdio res" where
  "defaultFlush o1 = Inr (o1\<lparr>out_buffer := [], out_written := out_written o1 @ out_buffer o1\<rparr>)"

definition default_globals :: "bool \<Rightarrow> stdio logger_globals" where
  "default_globals env_set = \<lparr>g_loglevel = initLogLevel env_set, g_output = defaultOutput, g_flush = defaultFlush\<rparr>"

definition Logger_logLevel :: "'s logger_globals \<Rightarrow> log_level" where
  "Logger_logLevel g = g_loglevel g"

definition setLogLevel :: "log_level \<Rightarrow> 's logger_globals \<Rightarrow> 's logger_globals" where
  "setLogLevel level g = g\<lparr>g_loglevel := level\<rparr>"

definition setOutput :: "(string \<Rightarrow> 's \<Rightarrow> 's res) \<Rightarrow> 's logger_globals \<Rightarrow> 's logger_globals" where
  "setOutput out g = g\<lparr>g_output := out\<rparr>"

definition setFlush :: "('s \<Rightarrow> 's res) \<Rightarrow> 's logger_globals \<Rightarrow> 's logger_globals" where
  "setFlush flush g = g\<lparr>g_flush := flush\<rparr>"

text \<open>The end of \<^verbatim>\<open>~Logger\<close>: the line goes to \<^verbatim>\<open>g_output\<close>; a fatal one is flushed and aborts the process. The second component
  says whether the process was aborted.\<close>

definition emit_line :: "'s logger_globals \<Rightarrow> string \<times> bool \<Rightarrow> 's \<Rightarrow> ('s \<times> bool) res" where
  "emit_line g = (\<lambda>(msg, fatal) s.
     res_bind (g_output g msg s) (\<lambda>s1.
       if fatal then res_bind (g_flush g s1) (\<lambda>s2. Inr (s2, True)) else Inr (s1, False)))"

definition log_statement :: "'s logger_globals \<Rightarrow> log_level \<Rightarrow> string \<Rightarrow> tm \<Rightarrow> int \<Rightarrow> int \<Rightarrow> string \<Rightarrow> int \<Rightarrow> string \<Rightarrow> piece list \<Rightarrow>
    's \<Rightarrow> ('s \<times> bool) res" where
  "log_statement g level raw lt usec tid fname line func message s =
     res_bind (LOG (Logger_logLevel g) level raw lt usec tid fname line func message) (\<lambda>r.
       case r of None \<Rightarrow> Inr (s, False) | Some out \<Rightarrow> emit_line g out s)"

section \<open>The logging thread and its file\<close>

text \<open>What the outside gives the thread: the format of a time, the clock at the \<open>i\<close>-th call of the log file, what
  \<^verbatim>\<open>fwrite\<close> accepts in that call, and the memory of the member that the constructor of \<^verbatim>\<open>LogFile\<close> does not set.\<close>

record log_env =
  env_stamp :: "int \<Rightarrow> string"
  env_clock :: "nat \<Rightarrow> int"
  env_fwrite :: "nat \<Rightarrow> nat \<times> nat list"
  env_memory :: int

record log_pipeline =
  pl_async :: async_logging
  pl_basename :: string
  pl_rollSize :: nat
  pl_output :: "log_file option"
  pl_dir :: directory
  pl_calls :: nat

definition pl_ctor :: "bytes \<Rightarrow> string \<Rightarrow> nat \<Rightarrow> int \<Rightarrow> log_pipeline" where
  "pl_ctor raw basename rollSize flushInterval =
     \<lparr>pl_async = AsyncLogging_ctor raw flushInterval, pl_basename = basename, pl_rollSize = rollSize, pl_output = None, pl_dir = [], pl_calls = 0\<rparr>"

definition pl_start :: "log_pipeline \<Rightarrow> log_pipeline" where
  "pl_start s = s\<lparr>pl_async := AsyncLogging_start (pl_async s)\<rparr>"

text \<open>\<^verbatim>\<open>~AsyncLogging\<close>: \<^verbatim>\<open>stop\<close>, whose join is the end of the thread, if the logger runs.\<close>

definition AsyncLogging_dtor :: "async_logging \<Rightarrow> async_logging" where
  "AsyncLogging_dtor s = (if al_running s then AsyncLogging_stop s else s)"

text \<open>\<^verbatim>\<open>LogFile output(basename_, rollSize_, false)\<close>, with the default arguments of the constructor.\<close>

definition pl_open :: "log_env \<Rightarrow> log_pipeline \<Rightarrow> log_pipeline" where
  "pl_open e s =
     (let (l, d) = LogFile_ctor (env_stamp e) (env_clock e (pl_calls s)) (env_memory e) (pl_basename s) (pl_rollSize s) False 3 1024 (pl_dir s)
      in s\<lparr>pl_output := Some l, pl_dir := d, pl_calls := pl_calls s + 1\<rparr>)"

text \<open>The loop of \<^verbatim>\<open>output.append\<close>; \<open>i\<close> counts the calls.\<close>

fun output_appends :: "log_env \<Rightarrow> nat \<Rightarrow> bytes list \<Rightarrow> log_file \<times> directory \<Rightarrow> log_file \<times> directory" where
  "output_appends e i [] s = s"
| "output_appends e i (b # bs) s =
     output_appends e (i + 1) bs
       (LogFile_append (env_stamp e) (env_clock e i) (fst (env_fwrite e i)) (snd (env_fwrite e i)) b s)"

text \<open>A round behind the critical section: the buffers are appended and the file is flushed; when the loop ends,
  the file is flushed again and destroyed.\<close>

definition pl_write :: "log_env \<Rightarrow> log_pipeline \<Rightarrow> log_pipeline res" where
  "pl_write e s =
     res_bind (al_write (pl_async s)) (\<lambda>a.
       case pl_output s of
         None \<Rightarrow> Inl (Null_pointer ''output'')
       | Some l \<Rightarrow>
           (let out = drop (length (al_written (pl_async s))) (al_written a);
                (l1, d1) = LogFile_flush (output_appends e (pl_calls s) out (l, pl_dir s));
                s1 = s\<lparr>pl_async := a, pl_calls := pl_calls s + length out\<rparr>
            in Inr (if al_pc a = A_done then s1\<lparr>pl_output := None, pl_dir := LogFile_dtor (LogFile_flush (l1, d1))\<rparr>
                    else s1\<lparr>pl_output := Some l1, pl_dir := d1\<rparr>)))"

definition pl_step :: "log_env \<Rightarrow> al_event \<Rightarrow> log_pipeline \<Rightarrow> log_pipeline res" where
  "pl_step e ev s =
     (case ev of
        Al_thread timedwait now \<Rightarrow>
          (case al_pc (pl_async s) of
             A_start \<Rightarrow> Inr (pl_open e (s\<lparr>pl_async := al_begin (pl_async s)\<rparr>))
           | A_collected \<Rightarrow> pl_write e s
           | _ \<Rightarrow> res_bind (al_step ev (pl_async s)) (\<lambda>a. Inr (s\<lparr>pl_async := a\<rparr>)))
      | _ \<Rightarrow> res_bind (al_step ev (pl_async s)) (\<lambda>a. Inr (s\<lparr>pl_async := a\<rparr>)))"

section \<open>The files hold what the thread has written\<close>

definition disk :: "log_pipeline \<Rightarrow> bytes" where
  "disk s = concat (map snd (pl_dir s))"

text \<open>The bytes that are still in memory.\<close>

definition in_memory :: "async_logging \<Rightarrow> bytes" where
  "in_memory a = concat (map buffer_text (al_toWrite a)) @ concat (map buffer_text (al_buffers a)) @ buffer_text (al_current a)"

lemma log_bytes_split: "log_bytes a = concat (al_written a) @ in_memory a"
  by (simp add: log_bytes_def in_memory_def)

definition good_env :: "nat \<Rightarrow> log_env \<Rightarrow> bool" where
  "good_env sz e \<longleftrightarrow> inj (env_stamp e) \<and> mono (env_clock e) \<and> (\<forall>i. sz \<le> fst (env_fwrite e i))"

definition file_inv :: "log_env \<Rightarrow> log_pipeline \<Rightarrow> bool" where
  "file_inv e s \<longleftrightarrow>
     (case pl_output s of
        None \<Rightarrow> disk s = concat (al_written (pl_async s)) \<and> al_pc (pl_async s) \<in> {A_start, A_done} \<and>
          (al_pc (pl_async s) = A_start \<longrightarrow> pl_dir s = [])
      | Some l \<Rightarrow> al_pc (pl_async s) \<in> {A_top, A_waited, A_collected} \<and> af_buffer (lf_file l) = [] \<and>
          (\<exists>t. t \<le> env_clock e (pl_calls s) \<and> log_inv (env_stamp e) t (concat (al_written (pl_async s))) (l, pl_dir s)))"

lemma flush_empties: "af_buffer (lf_file (fst (LogFile_flush s))) = []"
  by (cases s) (simp add: LogFile_flush_def af_flush_def)

lemma log_inv_disk: "log_inv stamp t w (l, d) \<Longrightarrow> af_buffer (lf_file l) = [] \<Longrightarrow> concat (map snd d) = w"
  by (auto simp: log_inv_def)

lemma flush_disk:
  assumes "inj stamp" "log_inv stamp t w s" "LogFile_flush s = (l1, d1)"
  shows "log_inv stamp t w (l1, d1)" "af_buffer (lf_file l1) = []" "concat (map snd d1) = w"
proof -
  show i: "log_inv stamp t w (l1, d1)" using flush_inv[OF assms(1), of t w "fst s" "snd s"] assms(2,3) by simp
  show b: "af_buffer (lf_file l1) = []" using flush_empties[of s] assms(3) by simp
  show "concat (map snd d1) = w" using log_inv_disk[OF i b] .
qed

lemma dtor_disk:
  assumes "inj stamp" "log_inv stamp t w s"
  shows "concat (map snd (LogFile_dtor s)) = w"
proof -
  obtain l d where s: "s = (l, d)" by (cases s)
  obtain l1 d1 where f: "LogFile_flush (l, d) = (l1, d1)" by (metis surj_pair)
  then have "LogFile_dtor s = d1" by (auto simp: s LogFile_dtor_def AppendFile_dtor_def LogFile_flush_def Let_def split: prod.splits)
  then show ?thesis using flush_disk(3)[OF assms(1), of t w "(l, d)" l1 d1] assms(2) f s by simp
qed

lemma output_appends_inv:
  assumes "good_env sz e" "log_inv (env_stamp e) t w s" "t \<le> env_clock e i" "\<forall>b \<in> set bs. length b \<le> sz"
  shows "\<exists>t'. t' \<le> env_clock e (i + length bs) \<and> log_inv (env_stamp e) t' (w @ concat bs) (output_appends e i bs s)"
  using assms(2-)
proof (induction bs arbitrary: t w i s)
  case (Cons b bs)
  obtain l d where s: "s = (l, d)" by (cases s)
  have "length b \<le> fst (env_fwrite e i)" using assms(1) Cons.prems(3) by (auto simp: good_env_def intro: order_trans)
  then obtain t1 where t1: "t1 \<le> env_clock e i" "log_inv (env_stamp e) t1 (w @ b)
      (LogFile_append (env_stamp e) (env_clock e i) (fst (env_fwrite e i)) (snd (env_fwrite e i)) b s)"
    using append_inv[of "env_stamp e" t w l d "env_clock e i" b "fst (env_fwrite e i)" "snd (env_fwrite e i)"] assms(1) Cons.prems(1,2)
    by (auto simp: s good_env_def)
  moreover have "env_clock e i \<le> env_clock e (i + 1)" using assms(1) by (auto simp: good_env_def mono_def)
  ultimately have "t1 \<le> env_clock e (i + 1)" by linarith
  from Cons.IH[OF t1(2) this] show ?case using Cons.prems(3) by simp
qed auto

text \<open>The steps that do not write leave \<open>al_written\<close> alone and do not change whether the file is open.\<close>

lemma al_append_frame: "al_append msg s = Inr s' \<Longrightarrow> al_written s' = al_written s \<and> al_pc s' = al_pc s"
  by (auto simp: al_append_def new_buffer_def Let_def split: option.splits if_splits)

lemma al_step_frame:
  assumes "al_step ev s = Inr s'" "case ev of Al_thread _ _ \<Rightarrow> al_pc s \<notin> {A_start, A_collected} | _ \<Rightarrow> True"
  shows "al_written s' = al_written s" "al_pc s' = al_pc s \<or> (al_pc s \<in> {A_top, A_waited} \<and> al_pc s' \<in> {A_waited, A_collected})"
  using assms al_append_frame[of _ s s']
  by (auto simp: al_step_def AsyncLogging_stop_def al_wait_def al_collect_def Let_def split: al_event.splits al_pc.splits)

lemma file_inv_frame:
  assumes "file_inv e s" "al_written a = al_written (pl_async s)"
    and "al_pc a = al_pc (pl_async s) \<or> (al_pc (pl_async s) \<in> {A_top, A_waited} \<and> al_pc a \<in> {A_waited, A_collected})"
  shows "file_inv e (s\<lparr>pl_async := a\<rparr>)"
  using assms by (auto simp: file_inv_def disk_def split: option.splits)

lemma clock_later: "good_env sz e \<Longrightarrow> i \<le> j \<Longrightarrow> env_clock e i \<le> env_clock e j"
  by (auto simp: good_env_def mono_def)

lemma pl_open_inv:
  assumes "good_env sz e" "file_inv e s" "al_pc (pl_async s) = A_start"
  shows "file_inv e (pl_open e (s\<lparr>pl_async := al_begin (pl_async s)\<rparr>))"
proof -
  let ?c = "env_clock e (pl_calls s)"
  have s: "pl_dir s = []" "concat (al_written (pl_async s)) = []"
    using assms(2,3) by (auto simp: file_inv_def disk_def split: option.splits)
  obtain l d where c: "LogFile_ctor (env_stamp e) ?c (env_memory e) (pl_basename s) (pl_rollSize s) False 3 1024 [] = (l, d)" by (metis surj_pair)
  then have "log_inv (env_stamp e) ?c [] (l, d)" "af_buffer (lf_file l) = []"
    by (auto simp: LogFile_ctor_def AppendFile_ctor_def log_inv_def Let_def)
  moreover have "?c \<le> env_clock e (Suc (pl_calls s))" using clock_later[OF assms(1)] by simp
  ultimately show ?thesis using c s by (auto simp: file_inv_def pl_open_def al_begin_def simp del: concat_eq_Nil_conv)
qed

lemma al_write_written:
  assumes "al_inv sz s" "al_pc s = A_collected"
  shows "\<exists>s' b. al_write s = Inr s' \<and> al_inv sz s' \<and> log_bytes s' = log_bytes s \<and> al_written s' = al_written s @ [b] \<and> length b \<le> sz \<and>
    al_pc s' = (if al_running s then A_top else A_done) \<and> al_current s' = al_current s"
proof -
  obtain s' where s': "al_write s = Inr s'" "al_inv sz s'" "log_bytes s' = log_bytes s" "al_current s' = al_current s"
    using al_write_ok[OF assms] by blast
  obtain b where b: "al_toWrite s = [Some b]" "fb_inv b" "length (fb_data b) = sz" using assms by (auto simp: al_inv_def sound_def)
  have "fb_ToString b = Inr (fb_text b)" using b(2) by (simp add: fb_ToString_def fb_length_def fb_inv_def fb_text_def mem_read_def)
  then have "al_written s' = al_written s @ [fb_text b]" "al_pc s' = (if al_running s then A_top else A_done)"
    using s'(1) b(1) by (auto simp: al_write_def Let_def)
  moreover have "length (fb_text b) \<le> sz" using b(2,3) by (simp add: length_fb_text fb_length_def fb_inv_def)
  ultimately show ?thesis using s' by blast
qed

lemma pl_write_ok:
  assumes "good_env sz e" "al_inv sz (pl_async s)" "file_inv e s" "al_pc (pl_async s) = A_collected"
  shows "\<exists>s'. pl_write e s = Inr s' \<and> al_inv sz (pl_async s') \<and> file_inv e s' \<and> log_bytes (pl_async s') = log_bytes (pl_async s) \<and>
    al_pc (pl_async s') = (if al_running (pl_async s) then A_top else A_done) \<and> al_write (pl_async s) = Inr (pl_async s')"
proof -
  obtain a b where a: "al_write (pl_async s) = Inr a" "al_inv sz a" "log_bytes a = log_bytes (pl_async s)"
    "al_written a = al_written (pl_async s) @ [b]" "length b \<le> sz" "al_pc a = (if al_running (pl_async s) then A_top else A_done)"
    using al_write_written[OF assms(2,4)] by blast
  obtain l t where l: "pl_output s = Some l" "t \<le> env_clock e (pl_calls s)"
    "log_inv (env_stamp e) t (concat (al_written (pl_async s))) (l, pl_dir s)"
    using assms(3,4) by (auto simp: file_inv_def split: option.splits)
  let ?o = "output_appends e (pl_calls s) [b] (l, pl_dir s)"
  obtain t' where t': "t' \<le> env_clock e (pl_calls s + 1)" "log_inv (env_stamp e) t' (concat (al_written a)) ?o"
    using output_appends_inv[OF assms(1) l(3,2), of "[b]"] a(4,5) by auto
  have inj: "inj (env_stamp e)" using assms(1) by (simp add: good_env_def)
  obtain l1 d1 where f: "LogFile_flush ?o = (l1, d1)" by (metis surj_pair)
  note fl = flush_disk[OF inj t'(2) f]
  obtain l2 d2 where f2: "LogFile_flush (l1, d1) = (l2, d2)" by (metis surj_pair)
  have d: "concat (map snd (LogFile_dtor (l2, d2))) = concat (al_written a)" by (rule dtor_disk[OF inj flush_disk(1)[OF inj fl(1) f2]])
  let ?s1 = "s\<lparr>pl_async := a, pl_calls := Suc (pl_calls s)\<rparr>"
  have w: "pl_write e s = Inr (if al_pc a = A_done then ?s1\<lparr>pl_output := None, pl_dir := LogFile_dtor (l2, d2)\<rparr>
      else ?s1\<lparr>pl_output := Some l1, pl_dir := d1\<rparr>)"
    using a(1,4) l(1) f f2 by (simp add: pl_write_def)
  have "file_inv e (?s1\<lparr>pl_output := None, pl_dir := LogFile_dtor (l2, d2)\<rparr>)" if "al_pc a = A_done"
    using d that by (simp add: file_inv_def disk_def)
  moreover have "file_inv e (?s1\<lparr>pl_output := Some l1, pl_dir := d1\<rparr>)" if "al_pc a \<noteq> A_done"
    using that a(6) t'(1) fl(1,2) by (auto simp: file_inv_def split: if_splits)
  ultimately show ?thesis using w a by auto
qed

definition pl_inv :: "nat \<Rightarrow> log_env \<Rightarrow> log_pipeline \<Rightarrow> bool" where
  "pl_inv sz e s \<longleftrightarrow> al_inv sz (pl_async s) \<and> file_inv e s"

text \<open>A step of the logger is a step of the logger with its file.\<close>

lemma pl_step_follows:
  assumes "good_env sz e" "pl_inv sz e s" "al_step ev (pl_async s) = Inr a" "al_inv sz a"
  shows "\<exists>s'. pl_step e ev s = Inr s' \<and> pl_inv sz e s' \<and> pl_async s' = a"
proof -
  note inv = assms(2)[unfolded pl_inv_def]
  consider (start) timedwait now where "ev = Al_thread timedwait now" "al_pc (pl_async s) = A_start"
    | (collected) timedwait now where "ev = Al_thread timedwait now" "al_pc (pl_async s) = A_collected"
    | (other) "case ev of Al_thread _ _ \<Rightarrow> al_pc (pl_async s) \<notin> {A_start, A_collected} | _ \<Rightarrow> True"
    by (cases ev) auto
  then show ?thesis
  proof cases
    case start
    let ?s = "pl_open e (s\<lparr>pl_async := al_begin (pl_async s)\<rparr>)"
    have "pl_async ?s = al_begin (pl_async s)" by (simp add: pl_open_def split: prod.splits)
    moreover have "a = al_begin (pl_async s)" "pl_step e ev s = Inr ?s" using start assms(3) by (simp_all add: al_step_def pl_step_def)
    ultimately show ?thesis using pl_open_inv[OF assms(1) _ start(2)] inv assms(4) by (auto simp: pl_inv_def)
  next
    case collected
    then have "pl_step e ev s = pl_write e s" "al_write (pl_async s) = Inr a" using assms(3) by (simp_all add: pl_step_def al_step_def)
    then show ?thesis using pl_write_ok[OF assms(1), of s] inv collected(2) by (auto simp: pl_inv_def)
  next
    case other
    then have "pl_step e ev s = Inr (s\<lparr>pl_async := a\<rparr>)" using assms(3) by (auto simp: pl_step_def split: al_event.splits al_pc.splits)
    then show ?thesis using al_step_frame[OF assms(3) other] file_inv_frame inv assms(4) by (auto simp: pl_inv_def)
  qed
qed

lemma pl_thread_ok:
  assumes "good_env sz e" "pl_inv sz e s"
  shows "\<exists>s'. pl_step e (Al_thread (\<lambda>_. 0) now) s = Inr s' \<and> pl_inv sz e s' \<and> log_bytes (pl_async s') = log_bytes (pl_async s)"
proof -
  obtain a where "al_step (Al_thread (\<lambda>_. 0) now) (pl_async s) = Inr a" "al_inv sz a" "log_bytes a = log_bytes (pl_async s)"
    using al_thread_ok[of sz "pl_async s" "\<lambda>_. 0" now] assms(2) unfolding pl_inv_def by blast
  then show ?thesis using pl_step_follows[OF assms] by metis
qed

lemma pl_step_ok:
  assumes "good_env sz e" "pl_inv sz e s" "timely sz ev"
  shows "pl_step e ev s = Inl (Out_of_bounds ''write'') \<and> length (log_bytes (pl_async s) @ appended ev) > sz \<or>
    (\<exists>s'. pl_step e ev s = Inr s' \<and> pl_inv sz e s' \<and> log_bytes (pl_async s') = log_bytes (pl_async s) @ appended ev)"
proof (cases "al_step ev (pl_async s)")
  case (Inr a)
  then have "al_inv sz a \<and> log_bytes a = log_bytes (pl_async s) @ appended ev"
    using al_run_ok[of sz "pl_async s" "[ev]"] assms(2,3) by (simp add: pl_inv_def)
  then show ?thesis using pl_step_follows[OF assms(1,2) Inr] by auto
next
  case (Inl x)
  show ?thesis
  proof (cases ev)
    case (Al_append msg)
    then show ?thesis using Inl al_run_ok[of sz "pl_async s" "[ev]"] assms(2,3) by (simp add: pl_inv_def pl_step_def)
  next
    case (Al_thread timedwait now)
    then show ?thesis using pl_thread_ok[OF assms(1,2), of now] assms(3) by (simp add: timely_def)
  qed (use Inl in \<open>simp add: al_step_def\<close>)
qed

lemma pl_run_ok:
  assumes "good_env sz e" "pl_inv sz e s" "list_all (timely sz) evs"
  shows "res_fold (pl_step e) evs s = Inl (Out_of_bounds ''write'') \<and> length (log_bytes (pl_async s) @ concat (map appended evs)) > sz \<or>
    (\<exists>s'. res_fold (pl_step e) evs s = Inr s' \<and> pl_inv sz e s' \<and> log_bytes (pl_async s') = log_bytes (pl_async s) @ concat (map appended evs))"
  using assms(2,3)
proof (induction evs arbitrary: s)
  case (Cons ev evs)
  then have "timely sz ev" "list_all (timely sz) evs" by simp_all
  then show ?case using pl_step_ok[OF assms(1) Cons.prems(1), of ev] Cons.IH by fastforce
qed simp

lemma disk_written:
  assumes "pl_inv sz e s"
  shows "disk s = concat (al_written (pl_async s))"
  using assms log_inv_disk by (fastforce simp: pl_inv_def file_inv_def disk_def split: option.splits)

lemma pl_started: "pl_inv (length raw) e (pl_start (pl_ctor raw basename rollSize fi))"
  "log_bytes (pl_async (pl_start (pl_ctor raw basename rollSize fi))) = []"
proof -
  show "pl_inv (length raw) e (pl_start (pl_ctor raw basename rollSize fi))"
    using al_started_inv(1)[of raw fi]
    by (simp add: pl_inv_def pl_start_def pl_ctor_def file_inv_def disk_def AsyncLogging_start_def AsyncLogging_ctor_def)
  show "log_bytes (pl_async (pl_start (pl_ctor raw basename rollSize fi))) = []"
    using al_started_inv(2)[of raw fi] by (simp add: pl_start_def pl_ctor_def)
qed

lemma disk_and_memory: "pl_inv sz e s \<Longrightarrow> disk s @ in_memory (pl_async s) = log_bytes (pl_async s)"
  by (simp add: disk_written log_bytes_split)

text \<open>
  C10: The log on the disk is a prefix of what was logged, and the rest is in memory. For every interleaving
  of appends, \<^verbatim>\<open>stop\<close> and steps of the logging thread, the bytes of the log files, in the order the files were made, followed by those
  in the logger's buffers, are the messages in the order they were appended; so what the thread has written has reached
  the files, however often the file was changed for its size or a new day. (The assumptions are those of the two
  components: messages smaller than a buffer and waits that do not time out; a clock that does not run backwards, different names for
  different times, and a \<^verbatim>\<open>fwrite\<close> that accepts a buffer at once. The only other outcome is a write behind the end of
  a buffer, and not before more bytes than a buffer holds have been appended.)
\<close>

theorem log_reaches_disk:
  assumes "good_env (length raw) e" "list_all (timely (length raw)) evs"
  shows "let s = pl_start (pl_ctor raw basename rollSize flushInterval)
    in (length (concat (map appended evs)) > length raw \<and> res_fold (pl_step e) evs s = Inl (Out_of_bounds ''write'')) \<or>
       (\<exists>s'. res_fold (pl_step e) evs s = Inr s' \<and> disk s' @ in_memory (pl_async s') = concat (map appended evs))"
  using pl_run_ok[OF assms(1) pl_started(1) assms(2), of basename rollSize flushInterval]
  by (auto simp: pl_started(2) Let_def disk_and_memory)

definition demo_env :: log_env where
  "demo_env = \<lparr>env_stamp = decimal, env_clock = (\<lambda>i. int i * 50000), env_fwrite = (\<lambda>_. (10, [])), env_memory = 1\<rparr>"

lemma demo_env_good: "good_env 10 demo_env"
  using inj_decimal by (simp add: good_env_def demo_env_def mono_def)

theorem log_reaches_disk_witness:
  "\<exists>s'. res_fold (pl_step demo_env) [Al_thread (\<lambda>_. 0) (0, 0), Al_append [1, 2], Al_thread (\<lambda>_. 0) (0, 0), Al_thread (\<lambda>_. 0) (0, 0),
      Al_append [3], Al_thread (\<lambda>_. 0) (0, 0)] (pl_start (pl_ctor (replicate 10 0) ''log'' 1 3)) = Inr s' \<and>
    disk s' @ in_memory (pl_async s') = [1, 2, 3]"
  using log_reaches_disk[of "replicate 10 0" demo_env "[Al_thread (\<lambda>_. 0) (0, 0), Al_append [1, 2], Al_thread (\<lambda>_. 0) (0, 0),
    Al_thread (\<lambda>_. 0) (0, 0), Al_append [3], Al_thread (\<lambda>_. 0) (0, 0)]" "''log''" 1 3] demo_env_good
  by (simp add: timely_def Let_def)

section \<open>Shutting down\<close>

lemma al_dtor_ok: "al_inv sz a \<Longrightarrow> al_inv sz (AsyncLogging_dtor a) \<and> log_bytes (AsyncLogging_dtor a) = log_bytes a"
  using al_stop_ok by (simp add: AsyncLogging_dtor_def)

lemma al_dtor_frame: "\<not> al_running (AsyncLogging_dtor a)" "al_pc (AsyncLogging_dtor a) = al_pc a" "al_written (AsyncLogging_dtor a) = al_written a"
  by (simp_all add: AsyncLogging_dtor_def AsyncLogging_stop_def)

text \<open>From the top of its loop a thread that is told to stop makes one last round, which collects everything.\<close>

lemma last_round:
  assumes "good_env sz e" "pl_inv sz e s" "al_pc (pl_async s) = A_top" "\<not> al_running (pl_async s)"
  shows "\<exists>s'. res_fold (pl_step e) [Al_thread (\<lambda>_. 0) n1, Al_thread (\<lambda>_. 0) n2, Al_thread (\<lambda>_. 0) n3] s = Inr s' \<and> pl_inv sz e s' \<and>
    al_pc (pl_async s') = A_done \<and> log_bytes (pl_async s') = log_bytes (pl_async s) \<and> in_memory (pl_async s') = []"
proof -
  let ?t = "Al_thread (\<lambda>_. 0)"
  let ?s1 = "s\<lparr>pl_async := (pl_async s)\<lparr>al_pc := A_waited\<rparr>\<rparr>"
  let ?s2 = "?s1\<lparr>pl_async := al_collect (pl_async ?s1)\<rparr>"
  note step = pl_thread_ok[OF assms(1)]
  have "pl_step e (?t n1) s = Inr ?s1"
    using step[OF assms(2), of n1] assms(3) by (auto simp: pl_step_def al_step_def al_wait_def)
  moreover from this have i1: "pl_inv sz e ?s1" "log_bytes (pl_async ?s1) = log_bytes (pl_async s)" using step[OF assms(2), of n1] by auto
  moreover have "pl_step e (?t n2) ?s1 = Inr ?s2" by (simp add: pl_step_def al_step_def)
  moreover from this have i2: "pl_inv sz e ?s2" "log_bytes (pl_async ?s2) = log_bytes (pl_async ?s1)" using step[OF i1(1), of n2] by auto
  moreover have pc: "al_pc (pl_async ?s2) = A_collected" "\<not> al_running (pl_async ?s2)" using assms(4) by (auto simp: al_collect_def Let_def)
  moreover have "clean sz (al_newBuffer1 (pl_async ?s1))" using i1(1) by (simp add: pl_inv_def al_inv_def)
  then have cur: "buffer_text (al_current (pl_async ?s2)) = []" using clean_sound(2) by (auto simp: al_collect_def Let_def)
  obtain s3 where s3: "pl_write e ?s2 = Inr s3" "pl_inv sz e s3" "log_bytes (pl_async s3) = log_bytes (pl_async ?s2)"
    "al_pc (pl_async s3) = A_done" "al_write (pl_async ?s2) = Inr (pl_async s3)"
    using pl_write_ok[OF assms(1), of ?s2] i2(1) pc unfolding pl_inv_def by auto
  have "in_memory (pl_async s3) = []"
    using cur al_write_written[of sz "pl_async ?s2"] i2(1) pc(1) s3(2,4,5) unfolding pl_inv_def by (auto simp: in_memory_def al_inv_def)
  moreover have "pl_step e (?t n3) ?s2 = Inr s3" using s3(1) pc(1) by (simp add: pl_step_def)
  ultimately show ?thesis using s3 by auto
qed



section \<open>Where a line goes\<close>

text \<open>
  With the default settings, changed by \<^verbatim>\<open>setLogLevel\<close> or not, a line below the level leaves no trace, any other ends in the buffer of the
  standard output, and a fatal line flushes it with everything that was there before and aborts the process.
\<close>

theorem default_logger_flushes_fatal:
  assumes "valid_time lt usec" "length raw = kSmallBuffer"
    and "list_all piece_ok message" "\<And>time. formatTime lt usec = Inr time \<Longrightarrow>
      length (line_text time tid level func message (SourceFile_ctor fname) line) < kSmallBuffer"
  shows "\<exists>time. formatTime lt usec = Inr time \<and>
    log_statement (setLogLevel min_level (default_globals env_set)) level raw lt usec tid fname line func message s =
      Inr (let text = line_text time tid level func message (SourceFile_ctor fname) line
           in if level < min_level then (s, False)
              else if level = FATAL then (\<lparr>out_buffer = [], out_written = out_written s @ out_buffer s @ text\<rparr>, True)
              else (s\<lparr>out_buffer := out_buffer s @ text\<rparr>, False))"
proof -
  obtain time where "formatTime lt usec = Inr time" "LOG min_level level raw lt usec tid fname line func message =
    Inr (if min_level \<le> level then Some (line_text time tid level func message (SourceFile_ctor fname) line, level = FATAL) else None)"
    using LOG_line[OF assms] by blast
  then show ?thesis
    by (cases s) (auto simp: log_statement_def Logger_logLevel_def setLogLevel_def default_globals_def emit_line_def defaultOutput_def defaultFlush_def Let_def)
qed

text \<open>
  With an \<^verbatim>\<open>AsyncLogging\<close> as the output, as \<^verbatim>\<open>AsyncLogging_test.cpp\<close> sets it, the line that says why the process dies is lost: \<^verbatim>\<open>~Logger\<close>
  hands it to the logger, flushes the standard output and aborts; nothing reaches the log files, and the logger has no operation
  that \<^verbatim>\<open>setFlush\<close> could be given.
\<close>

definition asyncOutput :: "string \<Rightarrow> log_pipeline \<times> stdio \<Rightarrow> (log_pipeline \<times> stdio) res" where
  "asyncOutput msg = (\<lambda>(p, o1). res_bind (al_append (map of_char msg) (pl_async p)) (\<lambda>a. Inr (p\<lparr>pl_async := a\<rparr>, o1)))"

definition stdio_flush :: "log_pipeline \<times> stdio \<Rightarrow> (log_pipeline \<times> stdio) res" where
  "stdio_flush = (\<lambda>(p, o1). res_bind (defaultFlush o1) (\<lambda>o2. Inr (p, o2)))"

theorem fatal_line_stays_in_memory:
  assumes "pl_inv sz e p" "in_memory (pl_async p) = []" "length msg < sz" "g = setOutput asyncOutput (setFlush stdio_flush g0)"
  shows "\<exists>p' o'. emit_line g (msg, True) (p, o1) = Inr ((p', o'), True) \<and> disk p' = disk p \<and> in_memory (pl_async p') = map of_char msg"
proof -
  have cur: "buffer_text (al_current (pl_async p)) = []" using assms(2) by (simp add: in_memory_def)
  then obtain a where a: "al_append (map of_char msg) (pl_async p) = Inr a" "log_bytes a = log_bytes (pl_async p) @ map of_char msg"
    using al_append_ok[of sz "pl_async p" "map of_char msg"] assms(1,3) by (auto simp: pl_inv_def)
  moreover have "al_written a = al_written (pl_async p)" using al_append_frame[OF a(1)] by simp
  ultimately have "in_memory a = map of_char msg" using assms(2) by (simp add: log_bytes_split)
  then show ?thesis using a(1) assms(4)
    by (simp add: emit_line_def setOutput_def setFlush_def asyncOutput_def stdio_flush_def defaultFlush_def disk_def)
qed

theorem fatal_line_stays_in_memory_witness:
  "\<exists>p' o'. emit_line (setOutput asyncOutput (setFlush stdio_flush \<lparr>g_loglevel = INFO, g_output = asyncOutput, g_flush = stdio_flush\<rparr>))
     (''bad'', True) (pl_start (pl_ctor (replicate 10 0) ''log'' 1 3), \<lparr>out_buffer = [], out_written = []\<rparr>) = Inr ((p', o'), True) \<and>
     disk p' = [] \<and> length (in_memory (pl_async p')) = 3"
proof -
  let ?p = "pl_start (pl_ctor (replicate 10 0) ''log'' 1 3)"
  have i: "pl_inv 10 demo_env ?p" using pl_started(1)[of "replicate 10 0" demo_env "''log''" 1 3] by simp
  have m: "in_memory (pl_async ?p) = []" using pl_started(2)[of "replicate 10 0" "''log''" 1 3] by (simp add: log_bytes_split)
  have d: "disk ?p = []" by (simp add: disk_def pl_start_def pl_ctor_def)
  show ?thesis
    using fatal_line_stays_in_memory[OF i m, of "''bad''" _ "\<lparr>g_loglevel = INFO, g_output = asyncOutput, g_flush = stdio_flush\<rparr>"
      "\<lparr>out_buffer = [], out_written = []\<rparr>"] d by auto
qed

end
