(* ===== verification/Codec.thy ===== *)
theory Codec
  imports Endian
begin

text \<open>
  The message codec of \<^verbatim>\<open>protobuf/codec/codec.cc\<close>, its first version in
  \<^verbatim>\<open>protobuf/descriptor_test/codec.h\<close>, and the dispatchers \<^verbatim>\<open>dispatcher.h\<close> and
  \<^verbatim>\<open>dispatcher_lite.h\<close>. A message travels as length, length of the type name, type name with its null
  character, serialised data and checksum; the integers are 32 bits in network order.

  The protobuf library and zlib are parameters: \<open>adler32\<close>, the type name and the serialised form
  of a message (\<open>name_of\<close>, \<open>ser\<close>), and \<open>proto\<close>, which gives the parser of a type name if the type
  is known. A buffer of the muduo library stands for its readable bytes.
\<close>

definition be32 :: "32 word \<Rightarrow> bytes" where
  "be32 w = rev (le_bytes w)"

definition un_be32 :: "bytes \<Rightarrow> 32 word" where
  "un_be32 bs = of_le_bytes (rev bs)"

datatype error_code = kNoError | kInvalidLength | kCheckSumError | kInvalidNameLen | kUnknownMessageType | kParseError

definition kHeaderLen :: int where "kHeaderLen = 4"
definition kMinMessageLen :: int where "kMinMessageLen = 2 * kHeaderLen + 2"
definition kMaxMessageLen :: int where "kMaxMessageLen = 64 * 1024 * 1024"

fun errorCodeToString :: "error_code \<Rightarrow> string" where
  "errorCodeToString kNoError = ''NoError''"
| "errorCodeToString kInvalidLength = ''InvalidLength''"
| "errorCodeToString kCheckSumError = ''CheckSumError''"
| "errorCodeToString kInvalidNameLen = ''InvalidNameLen''"
| "errorCodeToString kUnknownMessageType = ''UnknownMessageType''"
| "errorCodeToString kParseError = ''ParseError''"

section \<open>Encoding\<close>

definition fillEmptyBuffer :: "(bytes \<Rightarrow> 32 word) \<Rightarrow> ('m \<Rightarrow> bytes) \<Rightarrow> ('m \<Rightarrow> bytes) \<Rightarrow> bytes \<Rightarrow> 'm \<Rightarrow> bytes res" where
  "fillEmptyBuffer adler32 name_of ser buf message =
     require (length buf = 0) ''buf->readableBytes() == 0''
     (let typeName = name_of message;
          nameLen = of_nat (length typeName + 1) :: 32 word;
          b1 = buf @ be32 nameLen;
          b2 = b1 @ typeName @ [0];
          byte_size = length (ser message);
          b3 = b2 @ ser message;
          checkSum = adler32 b3;
          b4 = b3 @ be32 checkSum
      in require (length b4 = 4 + (length typeName + 1) + byte_size + 4)
           ''buf->readableBytes() == sizeof nameLen + nameLen + byte_size + sizeof checkSum''
         (Inr (be32 (of_nat (length b4)) @ b4)))"

text \<open>The version on strings: it reserves room for the length and fills it in at the end.
  \<open>appended\<close> tells whether \<^verbatim>\<open>AppendToString\<close> succeeded.\<close>

definition encode :: "(bytes \<Rightarrow> 32 word) \<Rightarrow> ('m \<Rightarrow> bytes) \<Rightarrow> ('m \<Rightarrow> bytes) \<Rightarrow> bool \<Rightarrow> 'm \<Rightarrow> bytes" where
  "encode adler32 name_of ser appended message =
     (let result = replicate 4 0;
          typeName = name_of message;
          nameLen = of_nat (length typeName + 1) :: 32 word;
          result1 = result @ be32 nameLen @ typeName @ [0] @ ser message
      in if appended then
           (let checkSum = adler32 (drop 4 result1);
                result2 = result1 @ be32 checkSum
            in mem_write 0 (be32 (of_nat (length result2 - 4))) result2)
         else [])"

section \<open>Decoding\<close>

text \<open>\<^verbatim>\<open>asInt32\<close> copies four bytes from a pointer, here an offset into the data.\<close>

definition asInt32 :: "bytes \<Rightarrow> nat \<Rightarrow> int res" where
  "asInt32 buf off = res_bind (checked_read off 4 buf) (\<lambda>bs. Inr (sint (un_be32 bs)))"

text \<open>\<open>buf\<close> are the bytes from the pointer to the end of the readable bytes; the reads are checked
  against them. \<open>len\<close> is the length of the message. After a failed \<^verbatim>\<open>ParseFromArray\<close> the code returns the
  incomplete message beside the error; no caller looks at it, and the model returns none.\<close>

definition parse :: "(bytes \<Rightarrow> 32 word) \<Rightarrow> (bytes \<Rightarrow> (bytes \<Rightarrow> 'm option) option) \<Rightarrow> bytes \<Rightarrow> int \<Rightarrow> (error_code \<times> 'm option) res" where
  "parse adler32 proto buf len =
     res_bind (asInt32 buf (nat (len - kHeaderLen))) (\<lambda>expectedCheckSum.
     res_bind (checked_read 0 (nat (len - kHeaderLen)) buf) (\<lambda>summed.
       if sint (adler32 summed) = expectedCheckSum then
         res_bind (asInt32 buf 0) (\<lambda>nameLen.
           if nameLen \<ge> 2 \<and> nameLen \<le> len - 2 * kHeaderLen then
             res_bind (checked_read 4 (nat (nameLen - 1)) buf) (\<lambda>typeName.
               case proto typeName of
                 Some parseFrom \<Rightarrow>
                   (let dataLen = len - nameLen - 2 * kHeaderLen
                    in res_bind (checked_read (nat (kHeaderLen + nameLen)) (nat dataLen) buf) (\<lambda>data.
                       case parseFrom data of Some m \<Rightarrow> Inr (kNoError, Some m) | None \<Rightarrow> Inr (kParseError, None)))
               | None \<Rightarrow> Inr (kUnknownMessageType, None))
           else Inr (kInvalidNameLen, None))
       else Inr (kCheckSumError, None)))"

text \<open>The loop of \<^verbatim>\<open>onMessage\<close>: what it passes to the callbacks, in order, and what stays in the buffer.\<close>

function onMessage :: "(bytes \<Rightarrow> 32 word) \<Rightarrow> (bytes \<Rightarrow> (bytes \<Rightarrow> 'm option) option) \<Rightarrow> bytes \<Rightarrow> ((error_code + 'm) list \<times> bytes) res" where
  "onMessage adler32 proto buf =
     (if int (length buf) \<ge> kMinMessageLen + kHeaderLen then
        (let len = sint (un_be32 (take 4 buf))
         in if len > kMaxMessageLen \<or> len < kMinMessageLen then Inr ([Inl kInvalidLength], buf)
            else if int (length buf) \<ge> len + kHeaderLen then
              res_bind (parse adler32 proto (drop (nat kHeaderLen) buf) len) (\<lambda>(errorCode, message).
                case message of
                  Some m \<Rightarrow> if errorCode = kNoError then
                      res_bind (onMessage adler32 proto (drop (nat (kHeaderLen + len)) buf)) (\<lambda>(out, rest).
                        Inr (Inr m # out, rest))
                    else Inr ([Inl errorCode], buf)
                | None \<Rightarrow> Inr ([Inl errorCode], buf))
            else Inr ([], buf))
      else Inr ([], buf))"
  by pat_completeness auto
termination
  by (relation "measure (\<lambda>(_, _, buf). length buf)") (auto simp: kHeaderLen_def kMinMessageLen_def nat_less_iff)

declare onMessage.simps [simp del]

definition decode :: "(bytes \<Rightarrow> 32 word) \<Rightarrow> (bytes \<Rightarrow> (bytes \<Rightarrow> 'm option) option) \<Rightarrow> bytes \<Rightarrow> 'm option res" where
  "decode adler32 proto buf =
     (let len = sint (of_nat (length buf) :: 32 word)
      in if len \<ge> 10 then
           res_bind (asInt32 buf (length buf - 4)) (\<lambda>expectedCheckSum.
           res_bind (checked_read 0 (nat (len - kHeaderLen)) buf) (\<lambda>summed.
             if sint (adler32 summed) = expectedCheckSum then
               res_bind (asInt32 buf 0) (\<lambda>nameLen.
                 if nameLen \<ge> 2 \<and> nameLen \<le> len - 2 * kHeaderLen then
                   res_bind (checked_read 4 (nat (nameLen - 1)) buf) (\<lambda>typeName.
                     case proto typeName of
                       Some parseFrom \<Rightarrow>
                         (let dataLen = len - nameLen - 2 * kHeaderLen
                          in res_bind (checked_read (nat (kHeaderLen + nameLen)) (nat dataLen) buf) (\<lambda>data. Inr (parseFrom data)))
                     | None \<Rightarrow> Inr None)
                 else Inr None)
             else Inr None))
         else Inr None)"

section \<open>Safety on arbitrary input\<close>

lemma asInt32_ok: "off + 4 \<le> length buf \<Longrightarrow> asInt32 buf off = Inr (sint (un_be32 (mem_read off 4 buf)))"
  by (simp add: asInt32_def)

lemma parse_total:
  assumes "kMinMessageLen \<le> len" "len \<le> int (length buf)"
  shows "\<exists>e m. parse adler32 proto buf len = Inr (e, m) \<and> (m = None \<longleftrightarrow> e \<noteq> kNoError)"
proof -
  define nameLen where "nameLen = sint (un_be32 (mem_read 0 4 buf))"
  have len: "10 \<le> len" "nat len \<le> length buf" using assms by (simp_all add: kMinMessageLen_def kHeaderLen_def)
  have 1: "asInt32 buf (nat (len - kHeaderLen)) = Inr (sint (un_be32 (mem_read (nat (len - kHeaderLen)) 4 buf)))"
    "checked_read 0 (nat (len - kHeaderLen)) buf = Inr (mem_read 0 (nat (len - kHeaderLen)) buf)" "asInt32 buf 0 = Inr nameLen"
    using len by (auto simp: asInt32_ok kHeaderLen_def nameLen_def)
  have 2: "checked_read 4 (nat (nameLen - 1)) buf = Inr (mem_read 4 (nat (nameLen - 1)) buf)"
    "checked_read (nat (kHeaderLen + nameLen)) (nat (len - nameLen - 2 * kHeaderLen)) buf =
       Inr (mem_read (nat (kHeaderLen + nameLen)) (nat (len - nameLen - 2 * kHeaderLen)) buf)"
    if "2 \<le> nameLen" "nameLen \<le> len - 2 * kHeaderLen"
    using that len by (auto simp: kHeaderLen_def nat_add_distrib nat_diff_distrib)
  show ?thesis unfolding parse_def 1 Let_def res_bind_Inr using 2 by (auto split: option.splits)
qed

lemma onMessage_resultI:
  "onMessage adler32 proto buf = Inr (map Inr msgs @ map Inl errs, rest) \<Longrightarrow> buf = used @ rest \<Longrightarrow> length errs \<le> 1 \<Longrightarrow>
   kNoError \<notin> set errs \<Longrightarrow>
   \<exists>msgs errs rest. onMessage adler32 proto buf = Inr (map Inr msgs @ map Inl errs, rest) \<and> length errs \<le> 1 \<and>
     kNoError \<notin> set errs \<and> (\<exists>used. buf = used @ rest)"
  by blast

text \<open>
  C18: The decoder is safe on arbitrary input: whatever bytes have arrived, and whatever lengths
  they claim, \<^verbatim>\<open>onMessage\<close> ends and reads only inside the received bytes. It delivers some messages
  and leaves the bytes behind them; it reports at most one error, after them, and leaves the bytes it
  concerns in the buffer.
\<close>

theorem onMessage_safe:
  "\<exists>msgs errs rest. onMessage adler32 proto buf = Inr (map Inr msgs @ map Inl errs, rest) \<and> length errs \<le> 1 \<and>
     kNoError \<notin> set errs \<and> (\<exists>used. buf = used @ rest)"
proof (induction adler32 proto buf rule: onMessage.induct)
  case (1 adler32 proto buf)
  let ?len = "sint (un_be32 (take 4 buf))"
  show ?case
  proof (cases "int (length buf) \<ge> kMinMessageLen + kHeaderLen \<and> \<not> (?len > kMaxMessageLen \<or> ?len < kMinMessageLen) \<and>
      int (length buf) \<ge> ?len + kHeaderLen")
    case False
    then have "onMessage adler32 proto buf = Inr ([], buf) \<or> onMessage adler32 proto buf = Inr ([Inl kInvalidLength], buf)"
      by (subst (1 2) onMessage.simps) (auto simp: Let_def)
    then show ?thesis using onMessage_resultI[of adler32 proto buf "[]" "[]" buf "[]"] onMessage_resultI[of adler32 proto buf "[]" "[kInvalidLength]" buf "[]"]
      by auto
  next
    case True
    then have g: "int (length buf) \<ge> kMinMessageLen + kHeaderLen" "\<not> (?len > kMaxMessageLen \<or> ?len < kMinMessageLen)"
      "int (length buf) \<ge> ?len + kHeaderLen" by blast+
    have b: "kMinMessageLen \<le> ?len" "?len \<le> int (length (drop (nat kHeaderLen) buf))"
      using g by (simp_all add: kHeaderLen_def kMinMessageLen_def)
    from parse_total[OF b] obtain e m where
      p: "parse adler32 proto (drop (nat kHeaderLen) buf) ?len = Inr (e, m)" "m = None \<longleftrightarrow> e \<noteq> kNoError" by blast
    show ?thesis
    proof (cases m)
      case None
      then have "onMessage adler32 proto buf = Inr (map Inr [] @ map Inl [e], [] @ buf)"
        using g p by (subst onMessage.simps) (simp add: Let_def)
      moreover have "e \<noteq> kNoError" using None p(2) by simp
      ultimately show ?thesis using onMessage_resultI[of adler32 proto buf "[]" "[e]" buf "[]"] by simp
    next
      case (Some x)
      have "e = kNoError" using p(2) Some by simp
      then obtain msgs errs rest used where r: "onMessage adler32 proto (drop (nat (kHeaderLen + ?len)) buf) = Inr (map Inr msgs @ map Inl errs, rest)"
        "length errs \<le> 1" "kNoError \<notin> set errs" "drop (nat (kHeaderLen + ?len)) buf = used @ rest"
        using 1[OF g(1) refl g(2,3) p(1) refl Some] by blast
      have "buf = (take (nat (kHeaderLen + ?len)) buf @ used) @ rest" using r(4) by (metis append.assoc append_take_drop_id)
      moreover have "onMessage adler32 proto buf = Inr (map Inr (x # msgs) @ map Inl errs, rest)"
        using g p Some \<open>e = kNoError\<close> r(1) by (subst onMessage.simps) (simp add: Let_def)
      ultimately show ?thesis using r(2,3) by (intro onMessage_resultI)
    qed
  qed
qed


section \<open>Round trips\<close>

lemma length_be32 [simp]: "length (be32 w) = 4"
  by (simp add: be32_def)

lemma un_be32_be32 [simp]: "un_be32 (be32 w) = w"
  by (simp add: be32_def un_be32_def of_le_bytes_le_bytes)

lemma sint_of_nat_small: "n < 2 ^ 31 \<Longrightarrow> sint (of_nat n :: 32 word) = int n"
  using size_to_int_small[of n] by (simp add: size_to_int_def)

text \<open>The part of an encoded message behind its length.\<close>

definition body :: "(bytes \<Rightarrow> 32 word) \<Rightarrow> ('m \<Rightarrow> bytes) \<Rightarrow> ('m \<Rightarrow> bytes) \<Rightarrow> 'm \<Rightarrow> bytes" where
  "body adler32 name_of ser m =
     (let b = be32 (of_nat (length (name_of m) + 1)) @ name_of m @ [0] @ ser m in b @ be32 (adler32 b))"

definition frame :: "(bytes \<Rightarrow> 32 word) \<Rightarrow> ('m \<Rightarrow> bytes) \<Rightarrow> ('m \<Rightarrow> bytes) \<Rightarrow> 'm \<Rightarrow> bytes" where
  "frame adler32 name_of ser m = be32 (of_nat (length (body adler32 name_of ser m))) @ body adler32 name_of ser m"

text \<open>What the protobuf library promises of a message, and the sizes the codec accepts.\<close>

definition transmissible :: "('m \<Rightarrow> bytes) \<Rightarrow> ('m \<Rightarrow> bytes) \<Rightarrow> (bytes \<Rightarrow> (bytes \<Rightarrow> 'm option) option) \<Rightarrow> 'm \<Rightarrow> bool" where
  "transmissible name_of ser proto m \<longleftrightarrow> name_of m \<noteq> [] \<and> int (length (name_of m) + length (ser m) + 9) \<le> kMaxMessageLen \<and>
     (case proto (name_of m) of None \<Rightarrow> False | Some parseFrom \<Rightarrow> parseFrom (ser m) = Some m)"

lemma length_body: "length (body adler32 name_of ser m) = length (name_of m) + length (ser m) + 9"
  by (simp add: body_def Let_def)

lemma fillEmptyBuffer_frame: "fillEmptyBuffer adler32 name_of ser [] m = Inr (frame adler32 name_of ser m)"
  by (simp add: fillEmptyBuffer_def frame_def body_def Let_def)

lemma encode_frame: "encode adler32 name_of ser True m = frame adler32 name_of ser m"
  by (simp add: encode_def frame_def body_def Let_def mem_write_def)

lemma parse_body:
  assumes "transmissible name_of ser proto m"
  shows "parse adler32 proto (body adler32 name_of ser m @ rest) (int (length (body adler32 name_of ser m))) = Inr (kNoError, Some m)"
proof -
  let ?n = "length (name_of m)" and ?s = "length (ser m)"
  define b where "b = be32 (of_nat (?n + 1)) @ name_of m @ [0] @ ser m"
  have body: "body adler32 name_of ser m = b @ be32 (adler32 b)" by (simp add: body_def b_def Let_def)
  have lb: "length b = ?n + ?s + 5" by (simp add: b_def)
  obtain p where p: "proto (name_of m) = Some p" "p (ser m) = Some m" "name_of m \<noteq> []" "?n + ?s + 9 \<le> 67108864"
    using assms by (auto simp: transmissible_def kMaxMessageLen_def split: option.splits)
  have n: "sint (of_nat (?n + 1) :: 32 word) = int ?n + 1" using p(4) sint_of_nat_small[of "?n + 1"] by simp
  let ?buf = "(b @ be32 (adler32 b)) @ rest"
  have r1: "asInt32 ?buf (nat (int (length (b @ be32 (adler32 b))) - kHeaderLen)) = Inr (sint (adler32 b))"
    by (simp add: asInt32_def kHeaderLen_def nat_diff_distrib mem_read_def)
  have r2: "checked_read 0 (nat (int (length (b @ be32 (adler32 b))) - kHeaderLen)) ?buf = Inr b"
    by (simp add: kHeaderLen_def nat_diff_distrib mem_read_def)
  have r3: "asInt32 ?buf 0 = Inr (int ?n + 1)" using n by (simp add: asInt32_def mem_read_def b_def)
  have r4: "checked_read 4 (nat (int ?n + 1 - 1)) ?buf = Inr (name_of m)" by (simp add: mem_read_def b_def)
  have "nat (4 + (int ?n + 1)) = 5 + ?n" by (simp add: nat_add_distrib)
  then have r5: "checked_read (nat (kHeaderLen + (int ?n + 1))) (nat (int (length (b @ be32 (adler32 b))) - (int ?n + 1) - 2 * kHeaderLen)) ?buf = Inr (ser m)"
    using lb by (simp add: mem_read_def b_def kHeaderLen_def)
  have g: "2 \<le> int ?n + 1" "int ?n + 1 \<le> int (length (b @ be32 (adler32 b))) - 2 * kHeaderLen"
    using p(3) lb by (simp_all add: kHeaderLen_def Suc_leI)
  show ?thesis unfolding body parse_def Let_def r1 r2 r3 res_bind_Inr using g r4 r5 p(1,2) by simp
qed

lemma onMessage_frame:
  assumes "transmissible name_of ser proto m"
  shows "onMessage adler32 proto (frame adler32 name_of ser m @ rest) =
    res_bind (onMessage adler32 proto rest) (\<lambda>(out, r). Inr (Inr m # out, r))"
proof -
  let ?b = "body adler32 name_of ser m"
  have l: "length ?b \<le> 67108864" "10 \<le> length ?b"
    using assms by (auto simp: transmissible_def length_body kMaxMessageLen_def Suc_le_eq)
  have len: "sint (un_be32 (take 4 (frame adler32 name_of ser m @ rest))) = int (length ?b)"
    using l sint_of_nat_small[of "length ?b"] by (simp add: frame_def)
  have d: "drop (nat kHeaderLen) (frame adler32 name_of ser m @ rest) = ?b @ rest"
    "drop (nat (kHeaderLen + int (length ?b))) (frame adler32 name_of ser m @ rest) = rest"
    by (simp_all add: frame_def kHeaderLen_def nat_add_distrib)
  have g: "int (length (frame adler32 name_of ser m @ rest)) \<ge> kMinMessageLen + kHeaderLen"
    "\<not> (int (length ?b) > kMaxMessageLen \<or> int (length ?b) < kMinMessageLen)"
    "int (length (frame adler32 name_of ser m @ rest)) \<ge> int (length ?b) + kHeaderLen"
    using l by (simp_all add: frame_def kMinMessageLen_def kHeaderLen_def kMaxMessageLen_def)
  show ?thesis
    by (subst onMessage.simps) (simp only: Let_def len d g if_True if_False parse_body[OF assms] res_bind_Inr split_conv option.case simp_thms)
qed

lemma onMessage_incomplete:
  assumes "transmissible name_of ser proto m" "frame adler32 name_of ser m = part @ more_bytes" "more_bytes \<noteq> []"
  shows "onMessage adler32 proto part = Inr ([], part)"
proof (cases "int (length part) \<ge> kMinMessageLen + kHeaderLen")
  case True
  let ?b = "body adler32 name_of ser m"
  have l: "length ?b \<le> 67108864" "10 \<le> length ?b"
    using assms(1) by (auto simp: transmissible_def length_body kMaxMessageLen_def Suc_le_eq)
  have "4 \<le> length part" using True by (simp add: kMinMessageLen_def kHeaderLen_def)
  then have "take 4 part = take 4 (frame adler32 name_of ser m)" using assms(2) by simp
  then have len: "sint (un_be32 (take 4 part)) = int (length ?b)"
    using l sint_of_nat_small[of "length ?b"] by (simp add: frame_def)
  have "length (frame adler32 name_of ser m) = length ?b + 4" by (simp add: frame_def)
  then have "length part < length ?b + 4" using assms(2,3) by (metis length_append length_greater_0_conv less_add_same_cancel1)
  then show ?thesis using True l by (subst onMessage.simps) (simp add: Let_def len kHeaderLen_def kMinMessageLen_def kMaxMessageLen_def)
next
  case False
  then show ?thesis by (subst onMessage.simps) simp
qed

section \<open>Streams of messages\<close>

text \<open>A connection calls \<^verbatim>\<open>onMessage\<close> after every read with what it has left over and the new bytes.\<close>

primrec receive :: "(bytes \<Rightarrow> 32 word) \<Rightarrow> (bytes \<Rightarrow> (bytes \<Rightarrow> 'm option) option) \<Rightarrow> bytes \<Rightarrow> bytes list \<Rightarrow> ((error_code + 'm) list \<times> bytes) res" where
  "receive adler32 proto buf [] = Inr ([], buf)"
| "receive adler32 proto buf (chunk # chunks) =
     res_bind (onMessage adler32 proto (buf @ chunk)) (\<lambda>(out, rest).
     res_bind (receive adler32 proto rest chunks) (\<lambda>(outs, rest'). Inr (out @ outs, rest')))"

lemma onMessage_prefix:
  assumes "\<forall>m\<in>set ms. transmissible name_of ser proto m" "concat (map (frame adler32 name_of ser) ms) = part @ missing"
  shows "\<exists>don todo rest. ms = don @ todo \<and> onMessage adler32 proto part = Inr (map Inr don, rest) \<and>
    rest @ missing = concat (map (frame adler32 name_of ser) todo) \<and> (missing = [] \<longrightarrow> todo = [])"
  using assms
proof (induction ms arbitrary: part)
  case Nil
  then show ?case by (subst onMessage.simps) (simp add: kMinMessageLen_def kHeaderLen_def)
next
  case (Cons m ms)
  let ?f = "frame adler32 name_of ser"
  have tr: "transmissible name_of ser proto m" "\<forall>m\<in>set ms. transmissible name_of ser proto m" using Cons.prems(1) by auto
  have split: "?f m @ concat (map ?f ms) = part @ missing" using Cons.prems(2) by simp
  show ?case
  proof (cases "\<exists>part'. part = ?f m @ part'")
    case True
    then obtain part' where part: "part = ?f m @ part'" "concat (map ?f ms) = part' @ missing" using split by auto
    obtain don todo rest where ih: "ms = don @ todo" "onMessage adler32 proto part' = Inr (map Inr don, rest)"
      "rest @ missing = concat (map ?f todo)" "missing = [] \<longrightarrow> todo = []" using Cons.IH[OF tr(2) part(2)] by blast
    then have "m # ms = (m # don) @ todo" "onMessage adler32 proto part = Inr (map Inr (m # don), rest)"
      by (simp_all add: part(1) onMessage_frame[OF tr(1)])
    then show ?thesis using ih(3,4) by blast
  next
    case False
    then obtain us where us: "?f m = part @ us" "missing = us @ concat (map ?f ms)" "us \<noteq> []"
      using split by (auto simp: append_eq_append_conv2)
    then have "onMessage adler32 proto part = Inr (map Inr [], part)" using onMessage_incomplete[OF tr(1)] by simp
    moreover have "part @ missing = concat (map ?f (m # ms))" "missing = [] \<longrightarrow> m # ms = []" using us split by simp_all
    ultimately show ?thesis by (metis append_Nil)
  qed
qed

lemma receive_stream:
  assumes "\<forall>m\<in>set ms. transmissible name_of ser proto m" "buf @ concat chunks = concat (map (frame adler32 name_of ser) ms)"
    "concat chunks = [] \<longrightarrow> ms = []"
  shows "receive adler32 proto buf chunks = Inr (map Inr ms, [])"
  using assms
proof (induction chunks arbitrary: buf ms)
  case (Cons chunk chunks)
  have "concat (map (frame adler32 name_of ser) ms) = (buf @ chunk) @ concat chunks" using Cons.prems(2) by simp
  from onMessage_prefix[OF Cons.prems(1) this] obtain don todo rest where
    d: "ms = don @ todo" "onMessage adler32 proto (buf @ chunk) = Inr (map Inr don, rest)"
      "rest @ concat chunks = concat (map (frame adler32 name_of ser) todo)" "concat chunks = [] \<longrightarrow> todo = []" by blast
  have "receive adler32 proto rest chunks = Inr (map Inr todo, [])" using Cons.IH[OF _ d(3,4)] Cons.prems(1) d(1) by simp
  then show ?case using d(1,2) by simp
qed simp

lemma fillEmptyBuffer_frames:
  "list_all2 (\<lambda>m f. fillEmptyBuffer adler32 name_of ser [] m = Inr f) ms frames \<Longrightarrow> frames = map (frame adler32 name_of ser) ms"
  by (induction rule: list_all2_induct) (simp_all add: fillEmptyBuffer_frame)

lemma receive_messages:
  assumes "\<forall>m\<in>set ms. transmissible name_of ser proto m"
    and "list_all2 (\<lambda>m f. fillEmptyBuffer adler32 name_of ser [] m = Inr f) ms frames" "concat chunks = concat frames"
  shows "receive adler32 proto [] chunks = Inr (map Inr ms, [])"
proof (rule receive_stream[OF assms(1)])
  show eq: "[] @ concat chunks = concat (map (frame adler32 name_of ser) ms)" using fillEmptyBuffer_frames[OF assms(2)] assms(3) by simp
  show "concat chunks = [] \<longrightarrow> ms = []" using eq by (cases ms) (auto dest!: arg_cong[of _ _ length] simp: frame_def)
qed

text \<open>
  C19: The codec transports messages over a byte stream. When messages of known types are
  encoded with \<^verbatim>\<open>fillEmptyBuffer\<close> one after the other, then however the network cuts the stream into
  chunks, \<^verbatim>\<open>onMessage\<close> called after each chunk delivers exactly these messages in order, reports no
  error and leaves nothing in the buffer.
\<close>

theorem codec_transports_messages:
  assumes "\<forall>m\<in>set ms. transmissible name_of ser proto m"
    and "list_all2 (\<lambda>m f. fillEmptyBuffer adler32 name_of ser [] m = Inr f) ms frames" "concat chunks = concat frames"
  shows "receive adler32 proto [] chunks = Inr (map Inr ms, [])"
  using assms by (rule receive_messages)

text \<open>A concrete protobuf library: a message is its type name and its data.\<close>

definition sum_bytes :: "bytes \<Rightarrow> 32 word" where
  "sum_bytes bs = of_nat (sum_list (map unat bs))"

definition any_type :: "bytes \<Rightarrow> (bytes \<Rightarrow> (bytes \<times> bytes) option) option" where
  "any_type typeName = Some (\<lambda>data. Some (typeName, data))"

definition sample_frame1 :: bytes where "sample_frame1 = [0, 0, 0, 12, 0, 0, 0, 3, 65, 66, 0, 7, 0, 0, 0, 141]"
definition sample_frame2 :: bytes where "sample_frame2 = [0, 0, 0, 10, 0, 0, 0, 2, 67, 0, 0, 0, 0, 69]"

lemma sample_frames:
  "fillEmptyBuffer sum_bytes fst snd [] ([65, 66], [7]) = Inr sample_frame1"
  "fillEmptyBuffer sum_bytes fst snd [] ([67], []) = Inr sample_frame2"
  by code_simp+

lemma sample_transmissible:
  "transmissible fst snd any_type ([65, 66], [7])" "transmissible fst snd any_type ([67], [])"
  by code_simp+

theorem codec_transports_messages_witness:
  "receive sum_bytes any_type [] [take 3 (sample_frame1 @ sample_frame2), drop 3 (sample_frame1 @ sample_frame2)] =
     Inr (map Inr [([65, 66], [7]), ([67], [])], [])"
  using codec_transports_messages[of "[([65, 66], [7]), ([67], [])]" fst snd any_type sum_bytes "[sample_frame1, sample_frame2]"
      "[take 3 (sample_frame1 @ sample_frame2), drop 3 (sample_frame1 @ sample_frame2)]"] sample_frames sample_transmissible
  by (simp del: receive.simps take_append drop_append)

section \<open>The first version\<close>

lemma decode_parse:
  assumes "10 \<le> length buf" "length buf < 2 ^ 31"
  shows "decode adler32 proto buf = res_bind (parse adler32 proto buf (int (length buf))) (\<lambda>(_, m). Inr m)"
proof -
  have len: "sint (of_nat (length buf) :: 32 word) = int (length buf)" using assms(2) by (rule sint_of_nat_small)
  have "nat (int (length buf) - kHeaderLen) = length buf - 4" by (simp add: kHeaderLen_def nat_diff_distrib)
  then show ?thesis using assms(1)
    by (simp add: decode_def parse_def len Let_def res_bind_def split: sum.splits option.splits)
qed



end
