(* ===== verification/Dispatcher.thy ===== *)
theory Dispatcher
  imports Codec
begin

text \<open>
  The dispatchers of \<^verbatim>\<open>protobuf/codec/dispatcher.h\<close> and \<^verbatim>\<open>dispatcher_lite.h\<close>, which pass a message
  to the callback registered for its type. A type is its descriptor (\<open>'d\<close>), and \<open>desc_of\<close> gives the
  descriptor of a message; a callback is a function of the message whose result stands for what it does.
\<close>

section \<open>The typed dispatcher\<close>

text \<open>A \<^verbatim>\<open>CallbackT<T>\<close>: the descriptor of \<open>T\<close> and the callback on messages of that class.\<close>

record ('d, 'm, 'e) callbackT =
  cb_type :: 'd
  cb_function :: "'m \<Rightarrow> 'e"

text \<open>\<^verbatim>\<open>down_pointer_cast<T>\<close> gives a null pointer for a message of another class.\<close>

definition CallbackT_onMessage :: "('m \<Rightarrow> 'd) \<Rightarrow> ('d, 'm, 'e) callbackT \<Rightarrow> 'm \<Rightarrow> 'e res" where
  "CallbackT_onMessage desc_of cb message =
     (let concrete = (if desc_of message = cb_type cb then Some message else None)
      in case concrete of None \<Rightarrow> Inl (Assert_failed ''concrete != NULL'') | Some m \<Rightarrow> Inr (cb_function cb m))"

record ('d, 'm, 'e) dispatcher =
  disp_callbacks :: "'d \<rightharpoonup> ('d, 'm, 'e) callbackT"
  disp_default :: "'m \<Rightarrow> 'e"

definition ProtobufDispatcher_ctor :: "('m \<Rightarrow> 'e) \<Rightarrow> ('d, 'm, 'e) dispatcher" where
  "ProtobufDispatcher_ctor defaultCb = \<lparr>disp_callbacks = Map.empty, disp_default = defaultCb\<rparr>"

definition registerMessageCallback :: "'d \<Rightarrow> ('m \<Rightarrow> 'e) \<Rightarrow> ('d, 'm, 'e) dispatcher \<Rightarrow> ('d, 'm, 'e) dispatcher" where
  "registerMessageCallback t callback d =
     (let pd = \<lparr>cb_type = t, cb_function = callback\<rparr> in d\<lparr>disp_callbacks := (disp_callbacks d)(t \<mapsto> pd)\<rparr>)"

definition onProtobufMessage :: "('m \<Rightarrow> 'd) \<Rightarrow> ('d, 'm, 'e) dispatcher \<Rightarrow> 'm \<Rightarrow> 'e res" where
  "onProtobufMessage desc_of d message =
     (let desc = desc_of message
      in case disp_callbacks d desc of
           Some cb \<Rightarrow> CallbackT_onMessage desc_of cb message
         | None \<Rightarrow> Inr (disp_default d message))"

section \<open>The dispatcher without types\<close>

record ('d, 'm, 'e) dispatcher_lite =
  lite_callbacks :: "'d \<rightharpoonup> ('m \<Rightarrow> 'e)"
  lite_default :: "'m \<Rightarrow> 'e"

definition ProtobufDispatcherLite_ctor :: "('m \<Rightarrow> 'e) \<Rightarrow> ('d, 'm, 'e) dispatcher_lite" where
  "ProtobufDispatcherLite_ctor defaultCb = \<lparr>lite_callbacks = Map.empty, lite_default = defaultCb\<rparr>"

definition lite_registerMessageCallback :: "'d \<Rightarrow> ('m \<Rightarrow> 'e) \<Rightarrow> ('d, 'm, 'e) dispatcher_lite \<Rightarrow> ('d, 'm, 'e) dispatcher_lite" where
  "lite_registerMessageCallback desc callback d = d\<lparr>lite_callbacks := (lite_callbacks d)(desc \<mapsto> callback)\<rparr>"

definition lite_onProtobufMessage :: "('m \<Rightarrow> 'd) \<Rightarrow> ('d, 'm, 'e) dispatcher_lite \<Rightarrow> 'm \<Rightarrow> 'e" where
  "lite_onProtobufMessage desc_of d message =
     (let desc = desc_of message
      in case lite_callbacks d desc of Some cb \<Rightarrow> cb message | None \<Rightarrow> lite_default d message)"

section \<open>What a dispatcher promises\<close>

text \<open>
  The contract of both: a state \<open>st\<close> represents a table of callbacks and a default. The client
  lemma is proved once from it: a dispatcher with any sequence of registrations calls the callback
  registered last for the type of the message, and the default for a type without one.
\<close>

locale message_dispatcher =
  fixes init :: "('m \<Rightarrow> 'e) \<Rightarrow> 's"
    and reg :: "'d \<Rightarrow> ('m \<Rightarrow> 'e) \<Rightarrow> 's \<Rightarrow> 's"
    and disp :: "('m \<Rightarrow> 'd) \<Rightarrow> 's \<Rightarrow> 'm \<Rightarrow> 'e res"
    and table :: "'s \<Rightarrow> 'd \<rightharpoonup> ('m \<Rightarrow> 'e)"
    and dflt :: "'s \<Rightarrow> 'm \<Rightarrow> 'e"
    and inv :: "'s \<Rightarrow> bool"
  assumes init_ok: "inv (init h)" "table (init h) = Map.empty" "dflt (init h) = h"
    and reg_ok: "inv s \<Longrightarrow> inv (reg t h s)" "table (reg t h s) = (table s)(t \<mapsto> h)" "dflt (reg t h s) = dflt s"
    and disp_ok: "inv s \<Longrightarrow> disp desc_of s m = Inr ((case table s (desc_of m) of Some h \<Rightarrow> h | None \<Rightarrow> dflt s) m)"
begin

lemma fold_reg:
  "inv s \<Longrightarrow> inv (fold (\<lambda>(t, h). reg t h) rs s) \<and> table (fold (\<lambda>(t, h). reg t h) rs s) = table s ++ map_of (rev rs) \<and>
   dflt (fold (\<lambda>(t, h). reg t h) rs s) = dflt s"
  by (induction rs arbitrary: s) (auto simp: reg_ok map_add_def fun_eq_iff split: option.splits)

lemma dispatch_last:
  "disp desc_of (fold (\<lambda>(t, h). reg t h) rs (init dh)) m = Inr ((case map_of (rev rs) (desc_of m) of Some h \<Rightarrow> h | None \<Rightarrow> dh) m)"
  using fold_reg[of "init dh" rs] by (auto simp: disp_ok init_ok split: option.splits)

end

text \<open>Every callback of the typed dispatcher is registered under the descriptor of its class.\<close>

definition dispatcher_inv :: "('d, 'm, 'e) dispatcher \<Rightarrow> bool" where
  "dispatcher_inv d \<longleftrightarrow> (\<forall>t cb. disp_callbacks d t = Some cb \<longrightarrow> cb_type cb = t)"

interpretation typed: message_dispatcher ProtobufDispatcher_ctor registerMessageCallback onProtobufMessage
  "\<lambda>d t. map_option cb_function (disp_callbacks d t)" disp_default dispatcher_inv
  by unfold_locales
    (auto simp: ProtobufDispatcher_ctor_def registerMessageCallback_def onProtobufMessage_def CallbackT_onMessage_def
      dispatcher_inv_def Let_def fun_eq_iff split: option.splits)

interpretation lite: message_dispatcher ProtobufDispatcherLite_ctor lite_registerMessageCallback
  "\<lambda>desc_of d m. Inr (lite_onProtobufMessage desc_of d m)" lite_callbacks lite_default "\<lambda>_. True"
  by unfold_locales
    (auto simp: ProtobufDispatcherLite_ctor_def lite_registerMessageCallback_def lite_onProtobufMessage_def Let_def split: option.splits)

section \<open>A server: codec and dispatcher\<close>

text \<open>
  \<^verbatim>\<open>QueryServer\<close> registers \<^verbatim>\<open>onProtobufMessage\<close> as the message callback of its codec:
  what it does with the chunks it receives.
\<close>

fun dispatch_all :: "('m \<Rightarrow> 'd) \<Rightarrow> ('d, 'm, 'e) dispatcher \<Rightarrow> (error_code + 'm) list \<Rightarrow> (error_code + 'e) list res" where
  "dispatch_all desc_of d [] = Inr []"
| "dispatch_all desc_of d (Inl err # out) = res_bind (dispatch_all desc_of d out) (\<lambda>es. Inr (Inl err # es))"
| "dispatch_all desc_of d (Inr m # out) = res_bind (onProtobufMessage desc_of d m) (\<lambda>e.
     res_bind (dispatch_all desc_of d out) (\<lambda>es. Inr (Inr e # es)))"

definition server_receives :: "(bytes \<Rightarrow> 32 word) \<Rightarrow> (bytes \<Rightarrow> (bytes \<Rightarrow> 'm option) option) \<Rightarrow> ('m \<Rightarrow> 'd) \<Rightarrow>
    ('d, 'm, 'e) dispatcher \<Rightarrow> bytes list \<Rightarrow> (error_code + 'e) list res" where
  "server_receives adler32 proto desc_of d chunks =
     res_bind (receive adler32 proto [] chunks) (\<lambda>(out, _). dispatch_all desc_of d out)"

lemma dispatch_all_messages:
  "dispatch_all desc_of (fold (\<lambda>(t, h). registerMessageCallback t h) rs (ProtobufDispatcher_ctor dh)) (map Inr ms) =
     Inr (map (\<lambda>m. Inr ((case map_of (rev rs) (desc_of m) of Some h \<Rightarrow> h | None \<Rightarrow> dh) m)) ms)"
  by (induction ms) (simp_all add: typed.dispatch_last)

text \<open>
  C8: From bytes to callbacks: when messages are encoded one after the other and the stream is
  cut into arbitrary chunks, the server calls, for each message in the order of sending, the callback
  registered last for the type of the message, or the default callback for a type without one. The cast
  in \<^verbatim>\<open>CallbackT::onMessage\<close> never fails. The dispatcher without types makes the same calls.
\<close>

theorem server_dispatches_messages:
  assumes "\<forall>m\<in>set ms. transmissible name_of ser proto m"
    and "list_all2 (\<lambda>m f. fillEmptyBuffer adler32 name_of ser [] m = Inr f) ms frames" "concat chunks = concat frames"
  shows "server_receives adler32 proto desc_of (fold (\<lambda>(t, h). registerMessageCallback t h) rs (ProtobufDispatcher_ctor dh)) chunks =
      Inr (map (\<lambda>m. Inr ((case map_of (rev rs) (desc_of m) of Some h \<Rightarrow> h | None \<Rightarrow> dh) m)) ms) \<and>
    map (lite_onProtobufMessage desc_of (fold (\<lambda>(t, h). lite_registerMessageCallback t h) rs (ProtobufDispatcherLite_ctor dh))) ms =
      map (\<lambda>m. (case map_of (rev rs) (desc_of m) of Some h \<Rightarrow> h | None \<Rightarrow> dh) m) ms"
  using lite.dispatch_last[of _ rs dh] by (simp add: server_receives_def receive_messages[OF assms] dispatch_all_messages)

theorem server_dispatches_messages_witness:
  "server_receives sum_bytes any_type fst (fold (\<lambda>(t, h). registerMessageCallback t h) [([67], \<lambda>_. 1), ([67], \<lambda>_. 2 :: nat)] (ProtobufDispatcher_ctor (\<lambda>_. 0)))
     [take 20 (sample_frame1 @ sample_frame2), drop 20 (sample_frame1 @ sample_frame2)] = Inr [Inr 0, Inr 2]"
  using server_dispatches_messages[of "[([65, 66], [7]), ([67], [])]" fst snd any_type sum_bytes "[sample_frame1, sample_frame2]"
      "[take 20 (sample_frame1 @ sample_frame2), drop 20 (sample_frame1 @ sample_frame2)]" fst "[([67], \<lambda>_. 1), ([67], \<lambda>_. 2 :: nat)]" "\<lambda>_. 0"]
    sample_frames sample_transmissible
  by (simp del: take_append drop_append)

end
