(* ===== verification/QuerySession.thy ===== *)
theory QuerySession
  imports Dispatcher
begin

text \<open>
  The query server and client of \<^verbatim>\<open>protobuf/codec/server.cc\<close> and \<^verbatim>\<open>client.cc\<close>, both made of a codec and a
  dispatcher over one connection. The connection belongs to the muduo library; a peer has of it the
  received bytes the codec has not used, the bytes it has sent, and whether it may still send.
\<close>

section \<open>A peer\<close>

text \<open>What the callbacks do: send a message with the codec, shut the connection down, or write the log.\<close>

datatype 'm effect = Send 'm | Shutdown | Log_message string 'm

record 'm peer =
  p_input :: bytes
  p_output :: bytes
  p_connected :: bool
  p_log :: "(string \<times> 'm) list"
  p_quit :: bool

definition new_peer :: "'m peer" where
  "new_peer = \<lparr>p_input = [], p_output = [], p_connected = True, p_log = [], p_quit = False\<rparr>"

text \<open>\<^verbatim>\<open>conn->send\<close> of the library does nothing after \<^verbatim>\<open>shutdown\<close>.\<close>

definition codec_send :: "(bytes \<Rightarrow> 32 word) \<Rightarrow> ('m \<Rightarrow> bytes) \<Rightarrow> ('m \<Rightarrow> bytes) \<Rightarrow> 'm \<Rightarrow> 'm peer \<Rightarrow> 'm peer res" where
  "codec_send adler32 name_of ser message p =
     res_bind (fillEmptyBuffer adler32 name_of ser [] message) (\<lambda>buf.
       Inr (if p_connected p then p\<lparr>p_output := p_output p @ buf\<rparr> else p))"

fun run_effect :: "(bytes \<Rightarrow> 32 word) \<Rightarrow> ('m \<Rightarrow> bytes) \<Rightarrow> ('m \<Rightarrow> bytes) \<Rightarrow> 'm effect \<Rightarrow> 'm peer \<Rightarrow> 'm peer res" where
  "run_effect adler32 name_of ser (Send m) p = codec_send adler32 name_of ser m p"
| "run_effect adler32 name_of ser Shutdown p = Inr (p\<lparr>p_connected := False\<rparr>)"
| "run_effect adler32 name_of ser (Log_message what m) p = Inr (p\<lparr>p_log := p_log p @ [(what, m)]\<rparr>)"

definition defaultErrorCallback :: "error_code \<Rightarrow> 'm peer \<Rightarrow> 'm peer" where
  "defaultErrorCallback errorCode p = (if p_connected p then p\<lparr>p_connected := False\<rparr> else p)"

text \<open>The two callbacks of the codec: the dispatcher for a message, the default for an error.\<close>

definition peer_callback :: "(bytes \<Rightarrow> 32 word) \<Rightarrow> ('m \<Rightarrow> bytes) \<Rightarrow> ('m \<Rightarrow> bytes) \<Rightarrow> ('m \<Rightarrow> 'd) \<Rightarrow> ('d, 'm, 'm effect list) dispatcher \<Rightarrow>
    error_code + 'm \<Rightarrow> 'm peer \<Rightarrow> 'm peer res" where
  "peer_callback adler32 name_of ser desc_of d out p =
     (case out of
        Inl errorCode \<Rightarrow> Inr (defaultErrorCallback errorCode p)
      | Inr m \<Rightarrow> res_bind (onProtobufMessage desc_of d m) (\<lambda>es. res_fold (run_effect adler32 name_of ser) es p))"

definition peer_onMessage :: "(bytes \<Rightarrow> 32 word) \<Rightarrow> ('m \<Rightarrow> bytes) \<Rightarrow> ('m \<Rightarrow> bytes) \<Rightarrow> (bytes \<Rightarrow> (bytes \<Rightarrow> 'm option) option) \<Rightarrow>
    ('m \<Rightarrow> 'd) \<Rightarrow> ('d, 'm, 'm effect list) dispatcher \<Rightarrow> bytes \<Rightarrow> 'm peer \<Rightarrow> 'm peer res" where
  "peer_onMessage adler32 name_of ser proto desc_of d chunk p =
     res_bind (onMessage adler32 proto (p_input p @ chunk)) (\<lambda>(out, rest).
     res_bind (res_fold (peer_callback adler32 name_of ser desc_of d) out p) (\<lambda>p1. Inr (p1\<lparr>p_input := rest\<rparr>)))"

section \<open>Server and client\<close>

definition server_onUnknownMessage :: "'m \<Rightarrow> 'm effect list" where
  "server_onUnknownMessage message = [Log_message ''onUnknownMessage: '' message, Shutdown]"

definition server_onQuery :: "'m \<Rightarrow> 'm \<Rightarrow> 'm effect list" where
  "server_onQuery answer message = [Log_message ''onQuery:'' message, Send answer, Shutdown]"

definition server_onAnswer :: "'m \<Rightarrow> 'm effect list" where
  "server_onAnswer message = [Log_message ''onAnswer: '' message, Shutdown]"

definition QueryServer_ctor :: "'d \<Rightarrow> 'd \<Rightarrow> 'm \<Rightarrow> ('d, 'm, 'm effect list) dispatcher" where
  "QueryServer_ctor t_query t_answer answer =
     registerMessageCallback t_answer server_onAnswer
       (registerMessageCallback t_query (server_onQuery answer) (ProtobufDispatcher_ctor server_onUnknownMessage))"

definition client_onUnknownMessage :: "'m \<Rightarrow> 'm effect list" where
  "client_onUnknownMessage message = [Log_message ''onUnknownMessage: '' message]"

definition client_onAnswer :: "'m \<Rightarrow> 'm effect list" where
  "client_onAnswer message = [Log_message ''onAnswer:'' message]"

definition client_onEmpty :: "'m \<Rightarrow> 'm effect list" where
  "client_onEmpty message = [Log_message ''onEmpty: '' message]"

definition QueryClient_ctor :: "'d \<Rightarrow> 'd \<Rightarrow> ('d, 'm, 'm effect list) dispatcher" where
  "QueryClient_ctor t_answer t_empty =
     registerMessageCallback t_empty client_onEmpty
       (registerMessageCallback t_answer client_onAnswer (ProtobufDispatcher_ctor client_onUnknownMessage))"

definition client_onConnection :: "(bytes \<Rightarrow> 32 word) \<Rightarrow> ('m \<Rightarrow> bytes) \<Rightarrow> ('m \<Rightarrow> bytes) \<Rightarrow> 'm \<Rightarrow> bool \<Rightarrow> 'm peer \<Rightarrow> 'm peer res" where
  "client_onConnection adler32 name_of ser messageToSend connected p =
     (if connected then codec_send adler32 name_of ser messageToSend p else Inr (p\<lparr>p_quit := True\<rparr>))"

section \<open>Receiving in chunks\<close>

lemma run_effect_input:
  "run_effect adler32 name_of ser e (p\<lparr>p_input := x\<rparr>) = res_bind (run_effect adler32 name_of ser e p) (\<lambda>p1. Inr (p1\<lparr>p_input := x\<rparr>))"
  by (cases e) (auto simp: codec_send_def res_bind_def split: sum.splits)

lemma res_fold_commute:
  assumes "\<And>x s. f x (h s) = res_bind (f x s) (\<lambda>s1. Inr (h s1))"
  shows "res_fold f xs (h s) = res_bind (res_fold f xs s) (\<lambda>s1. Inr (h s1))"
proof (induction xs arbitrary: s)
  case (Cons x xs)
  then show ?case by (cases "f x s") (simp_all add: assms)
qed simp

lemma peer_callback_input:
  "peer_callback adler32 name_of ser desc_of d out (p\<lparr>p_input := x\<rparr>) =
     res_bind (peer_callback adler32 name_of ser desc_of d out p) (\<lambda>p1. Inr (p1\<lparr>p_input := x\<rparr>))"
proof (cases out)
  case (Inr m)
  then show ?thesis
    using res_fold_commute[of "run_effect adler32 name_of ser" "p_input_update (\<lambda>_. x)", OF run_effect_input]
    by (simp add: peer_callback_def res_bind_def split: sum.split)
qed (simp add: peer_callback_def defaultErrorCallback_def)

lemma peer_receives:
  assumes "receive adler32 proto (p_input p) chunks = Inr (out, rest)"
    and "res_fold (peer_callback adler32 name_of ser desc_of d) out p = Inr p'"
  shows "res_fold (peer_onMessage adler32 name_of ser proto desc_of d) chunks p = Inr (p'\<lparr>p_input := rest\<rparr>)"
  using assms
proof (induction chunks arbitrary: p p' out)
  case (Cons chunk chunks)
  obtain out1 rest1 outs where 1: "onMessage adler32 proto (p_input p @ chunk) = Inr (out1, rest1)"
    "receive adler32 proto rest1 chunks = Inr (outs, rest)" "out = out1 @ outs"
    using Cons.prems(1) by auto
  obtain p1 where p1: "res_fold (peer_callback adler32 name_of ser desc_of d) out1 p = Inr p1"
    "res_fold (peer_callback adler32 name_of ser desc_of d) outs p1 = Inr p'"
    using Cons.prems(2) by (auto simp: 1(3) res_fold_append)
  have "res_fold (peer_callback adler32 name_of ser desc_of d) outs (p1\<lparr>p_input := rest1\<rparr>) = Inr (p'\<lparr>p_input := rest1\<rparr>)"
    using res_fold_commute[of "peer_callback adler32 name_of ser desc_of d" "p_input_update (\<lambda>_. rest1)", OF peer_callback_input] p1(2) by simp
  from Cons.IH[OF _ this] show ?case using 1(1,2) p1(1) by (simp add: peer_onMessage_def)
qed simp

lemma receive_one:
  assumes "transmissible name_of ser proto m" "fillEmptyBuffer adler32 name_of ser [] m = Inr f" "concat chunks = f"
  shows "receive adler32 proto [] chunks = Inr ([Inr m], [])"
  using receive_messages[of "[m]" name_of ser proto adler32 "[f]" chunks] assms by simp

section \<open>A session\<close>

lemma QueryServer_dispatch:
  assumes "t_query \<noteq> t_answer"
  shows "onProtobufMessage desc_of (QueryServer_ctor t_query t_answer answer) m =
    Inr (if desc_of m = t_query then server_onQuery answer m else if desc_of m = t_answer then server_onAnswer m else server_onUnknownMessage m)"
  using typed.dispatch_last[of desc_of "[(t_query, server_onQuery answer), (t_answer, server_onAnswer)]" server_onUnknownMessage m] assms
  by (simp add: QueryServer_ctor_def split: if_splits)

lemma QueryClient_dispatch:
  assumes "t_answer \<noteq> t_empty"
  shows "onProtobufMessage desc_of (QueryClient_ctor t_answer t_empty) m =
    Inr (if desc_of m = t_answer then client_onAnswer m else if desc_of m = t_empty then client_onEmpty m else client_onUnknownMessage m)"
  using typed.dispatch_last[of desc_of "[(t_answer, client_onAnswer), (t_empty, client_onEmpty)]" client_onUnknownMessage m] assms
  by (simp add: QueryClient_ctor_def split: if_splits)

text \<open>
  C9: A session of the query client with the query server, over a network that cuts both streams
  into arbitrary chunks. When the connection is up the client sends its message. To a query the
  server answers with exactly one answer, in order, and shuts the connection down; the
  client receives exactly this answer, and quits its loop when the connection goes down. To the empty
  message, for which the server has no callback, it sends nothing and shuts down. No assertion fails
  on either side.
\<close>

theorem query_session:
  assumes "transmissible name_of ser proto query" "transmissible name_of ser proto answer" "transmissible name_of ser proto empty_msg"
    and "distinct [desc_of query, desc_of answer, desc_of empty_msg]"
    and "client_onConnection adler32 name_of ser message True new_peer = Inr client" "message = query \<or> message = empty_msg"
    and "concat to_server = p_output client"
  shows "\<exists>server. res_fold (peer_onMessage adler32 name_of ser proto desc_of (QueryServer_ctor (desc_of query) (desc_of answer) answer)) to_server new_peer = Inr server \<and>
    \<not> p_connected server \<and> map snd (p_log server) = [message] \<and>
    (if message = query then
       \<forall>to_client. concat to_client = p_output server \<longrightarrow>
         (\<exists>client1 client2. res_fold (peer_onMessage adler32 name_of ser proto desc_of (QueryClient_ctor (desc_of answer) (desc_of empty_msg))) to_client client = Inr client1 \<and>
           p_log client1 = [(''onAnswer:'', answer)] \<and> p_output client1 = p_output client \<and>
           client_onConnection adler32 name_of ser message False client1 = Inr client2 \<and> p_quit client2)
     else p_output server = [])"
proof -
  let ?fr = "frame adler32 name_of ser"
  have d: "desc_of query \<noteq> desc_of answer" "desc_of answer \<noteq> desc_of empty_msg" "desc_of query \<noteq> desc_of empty_msg" "query \<noteq> empty_msg"
    using assms(4) by auto
  have client: "client = new_peer\<lparr>p_output := ?fr message\<rparr>"
    using assms(5) by (simp add: client_onConnection_def codec_send_def fillEmptyBuffer_frame new_peer_def)
  have "receive adler32 proto (p_input new_peer) to_server = Inr ([Inr message], [])"
    using receive_one[of name_of ser proto message adler32 "?fr message" to_server] assms(1,3,6,7)
    by (auto simp: client new_peer_def fillEmptyBuffer_frame)
  note server = peer_receives[OF this]
  have answered: "receive adler32 proto (p_input client) to_client = Inr ([Inr answer], [])" if "concat to_client = ?fr answer" for to_client
    using receive_one[OF assms(2) fillEmptyBuffer_frame that] by (simp add: client new_peer_def)
  note client1 = peer_receives[OF answered]
  show ?thesis
  proof (cases "message = query")
    case True
    let ?server = "new_peer\<lparr>p_log := [(''onQuery:'', query)], p_output := ?fr answer, p_connected := False\<rparr>"
    have "res_fold (peer_callback adler32 name_of ser desc_of (QueryServer_ctor (desc_of query) (desc_of answer) answer)) [Inr message] new_peer = Inr ?server"
      by (simp add: True peer_callback_def QueryServer_dispatch[OF d(1)] server_onQuery_def codec_send_def fillEmptyBuffer_frame new_peer_def)
    note s = server[OF this]
    have "res_fold (peer_callback adler32 name_of ser desc_of (QueryClient_ctor (desc_of answer) (desc_of empty_msg))) [Inr answer] client =
        Inr (client\<lparr>p_log := [(''onAnswer:'', answer)]\<rparr>)"
      by (simp add: peer_callback_def QueryClient_dispatch[OF d(2)] client_onAnswer_def client new_peer_def)
    note c = client1[OF _ this]
    show ?thesis using s c True by (simp add: client_onConnection_def)
  next
    case False
    then have m: "message = empty_msg" using assms(6) by simp
    have "res_fold (peer_callback adler32 name_of ser desc_of (QueryServer_ctor (desc_of query) (desc_of answer) answer)) [Inr message] new_peer =
        Inr (new_peer\<lparr>p_log := [(''onUnknownMessage: '', empty_msg)], p_connected := False\<rparr>)"
      using d by (simp add: m peer_callback_def QueryServer_dispatch[OF d(1)] server_onUnknownMessage_def new_peer_def)
    from server[OF this] show ?thesis using False m by (simp add: new_peer_def)
  qed
qed

text \<open>The session with the sample library: the query \<open>([65, 66], [7])\<close>, the answer \<open>([67], [])\<close>.\<close>

theorem query_session_witness:
  "\<exists>client server client1 client2. client_onConnection sum_bytes fst snd ([65, 66], [7]) True new_peer = Inr client \<and>
    res_fold (peer_onMessage sum_bytes fst snd any_type fst (QueryServer_ctor [65, 66] [67] ([67], [])))
      [take 5 sample_frame1, drop 5 sample_frame1] new_peer = Inr server \<and> \<not> p_connected server \<and>
    res_fold (peer_onMessage sum_bytes fst snd any_type fst (QueryClient_ctor [67] [68])) [p_output server] client = Inr client1 \<and>
    p_log client1 = [(''onAnswer:'', ([67], []))] \<and> client_onConnection sum_bytes fst snd ([65, 66], [7]) False client1 = Inr client2 \<and> p_quit client2"
proof -
  have tr: "transmissible fst snd any_type ([68], [])" by code_simp
  obtain client where client: "client_onConnection sum_bytes fst snd ([65, 66], [7]) True new_peer = Inr client" "p_output client = sample_frame1"
    by (auto simp: client_onConnection_def codec_send_def sample_frames new_peer_def)
  have "concat [take 5 sample_frame1, drop 5 sample_frame1] = p_output client" using client(2) by simp
  moreover have "distinct [fst ([65, 66] :: bytes, [7] :: bytes), fst ([67], []), fst ([68], [])]" by simp
  ultimately obtain server where
    "res_fold (peer_onMessage sum_bytes fst snd any_type fst (QueryServer_ctor [65, 66] [67] ([67], [])))
      [take 5 sample_frame1, drop 5 sample_frame1] new_peer = Inr server" "\<not> p_connected server"
    "\<forall>to_client. concat to_client = p_output server \<longrightarrow>
      (\<exists>client1 client2. res_fold (peer_onMessage sum_bytes fst snd any_type fst (QueryClient_ctor [67] [68])) to_client client = Inr client1 \<and>
        p_log client1 = [(''onAnswer:'', ([67], []))] \<and> p_output client1 = p_output client \<and>
        client_onConnection sum_bytes fst snd ([65, 66], [7]) False client1 = Inr client2 \<and> p_quit client2)"
    using query_session[of fst snd any_type "([65, 66], [7])" "([67], [])" "([68], [])" fst sum_bytes "([65, 66], [7])" client
        "[take 5 sample_frame1, drop 5 sample_frame1]",
      OF sample_transmissible tr _ client(1)] by (simp del: res_fold.simps) blast
  then show ?thesis using client(1) by (metis concat.simps append_Nil2)
qed

end
