(* ===== verification/IdleConnection.thy ===== *)
theory IdleConnection
  imports Prelude "HOL-Library.Sublist"
begin

text \<open>
  The two echo servers that close idle connections: \<^verbatim>\<open>idleconnection/echo.cc\<close> with \<^verbatim>\<open>echo.h\<close>, a
  timing wheel of buckets of shared entries, and \<^verbatim>\<open>idleconnection/sortedlist.cc\<close>, a list of connections in
  the order of their last message. Connections and entries are numbers; an entry object lives as
  long as a bucket holds a pointer to it.
\<close>

section \<open>The wheel of buckets\<close>

text \<open>\<open>es_entries\<close> has the connection of every entry allocated so far, \<open>es_context\<close> the entry in the
  context of a connection, \<open>es_alive\<close> the connections that still exist; \<open>es_sent\<close> and \<open>es_shutdown\<close> record the
  calls of \<^verbatim>\<open>send\<close> and \<^verbatim>\<open>shutdown\<close>.\<close>

record echo_server =
  es_buckets :: "nat list list"
  es_entries :: "nat list"
  es_context :: "nat \<rightharpoonup> nat"
  es_alive :: "nat set"
  es_sent :: "(nat \<times> bytes) list"
  es_shutdown :: "nat list"

definition EchoServer_ctor :: "int \<Rightarrow> echo_server res" where
  "EchoServer_ctor idleSeconds =
     (if idleSeconds < 0 then Inl Length_error
      else Inr \<lparr>es_buckets = replicate (nat idleSeconds) [], es_entries = [], es_context = Map.empty, es_alive = {},
        es_sent = [], es_shutdown = []\<rparr>)"

text \<open>\<^verbatim>\<open>connectionBuckets_.back().insert(ep)\<close>; the circular buffer must not be empty.\<close>

definition insert_back :: "nat \<Rightarrow> echo_server \<Rightarrow> echo_server res" where
  "insert_back ep s =
     (if es_buckets s = [] then Inl (Out_of_bounds ''connectionBuckets_.back()'')
      else Inr (s\<lparr>es_buckets := butlast (es_buckets s) @ [List.insert ep (last (es_buckets s))]\<rparr>))"

definition es_onConnection :: "bool \<Rightarrow> nat \<Rightarrow> echo_server \<Rightarrow> echo_server res" where
  "es_onConnection connected conn s =
     (if connected then
        (let ep = length (es_entries s); s1 = s\<lparr>es_entries := es_entries s @ [conn]\<rparr>
         in res_bind (insert_back ep s1) (\<lambda>s2. Inr (s2\<lparr>es_context := (es_context s2)(conn \<mapsto> ep)\<rparr>)))
      else (case es_context s conn of None \<Rightarrow> Inl (Abort ''bad_any_cast'') | Some wp \<Rightarrow> Inr s))"

text \<open>\<^verbatim>\<open>wp.lock()\<close> gives the entry if some bucket still holds it.\<close>

definition es_onMessage :: "nat \<Rightarrow> bytes \<Rightarrow> echo_server \<Rightarrow> echo_server res" where
  "es_onMessage conn msg s =
     (let s1 = s\<lparr>es_sent := es_sent s @ [(conn, msg)]\<rparr>
      in case es_context s1 conn of
           None \<Rightarrow> Inl (Abort ''bad_any_cast'')
         | Some wp \<Rightarrow> if list_ex (\<lambda>b. wp \<in> set b) (es_buckets s1) then insert_back wp s1 else Inr s1)"

text \<open>\<^verbatim>\<open>~Entry\<close> for the entries no bucket holds any more.\<close>

definition Entry_dtor :: "nat \<Rightarrow> echo_server \<Rightarrow> echo_server" where
  "Entry_dtor ep s =
     (let sConn = es_entries s ! ep
      in if sConn \<in> es_alive s then s\<lparr>es_shutdown := es_shutdown s @ [sConn]\<rparr> else s)"

text \<open>\<^verbatim>\<open>push_back\<close> on a full circular buffer overwrites the first bucket; with capacity 0 it does nothing.\<close>

definition es_onTimer :: "echo_server \<Rightarrow> echo_server" where
  "es_onTimer s =
     (case es_buckets s of
        [] \<Rightarrow> s
      | b # bs \<Rightarrow> fold Entry_dtor [ep \<leftarrow> b. \<not> list_ex (\<lambda>b. ep \<in> set b) bs] (s\<lparr>es_buckets := bs @ [[]]\<rparr>))"

datatype idle_event = Conn_up nat | Conn_down nat | Conn_message nat bytes | Conn_freed nat | Timer_tick

text \<open>The life of connections, as the TCP server announces it, and the ticks of the timer.\<close>

fun es_step :: "idle_event \<Rightarrow> echo_server \<Rightarrow> echo_server res" where
  "es_step (Conn_up c) s = es_onConnection True c (s\<lparr>es_alive := insert c (es_alive s)\<rparr>)"
| "es_step (Conn_down c) s = es_onConnection False c s"
| "es_step (Conn_message c msg) s = es_onMessage c msg s"
| "es_step (Conn_freed c) s = Inr (s\<lparr>es_alive := es_alive s - {c}\<rparr>)"
| "es_step Timer_tick s = Inr (es_onTimer s)"

section \<open>What the wheel implements\<close>

text \<open>
  The specification counts, for every connection under watch, the ticks since its last message; a
  connection that reaches the limit is shut down, if it still exists, and watched no more. The events
  are in order: a connection comes up once, and every other event of it is later.
\<close>

record idle_spec =
  sp_idle :: "nat \<rightharpoonup> nat"
  sp_known :: "nat set"
  sp_alive :: "nat set"
  sp_shut :: "nat set"

definition idle_init :: idle_spec where
  "idle_init = \<lparr>sp_idle = Map.empty, sp_known = {}, sp_alive = {}, sp_shut = {}\<rparr>"

fun idle_step :: "nat \<Rightarrow> idle_event \<Rightarrow> idle_spec \<Rightarrow> idle_spec option" where
  "idle_step N (Conn_up c) sp =
     (if c \<in> sp_known sp then None
      else Some (sp\<lparr>sp_idle := (sp_idle sp)(c \<mapsto> 0), sp_known := insert c (sp_known sp), sp_alive := insert c (sp_alive sp)\<rparr>))"
| "idle_step N (Conn_down c) sp = (if c \<in> sp_known sp then Some sp else None)"
| "idle_step N (Conn_message c msg) sp =
     (if c \<in> sp_known sp then
        Some (case sp_idle sp c of None \<Rightarrow> sp | Some k \<Rightarrow> sp\<lparr>sp_idle := (sp_idle sp)(c \<mapsto> 0)\<rparr>)
      else None)"
| "idle_step N (Conn_freed c) sp = Some (sp\<lparr>sp_alive := sp_alive sp - {c}\<rparr>)"
| "idle_step N Timer_tick sp =
     Some (sp\<lparr>sp_idle := \<lambda>c. case sp_idle sp c of None \<Rightarrow> None | Some k \<Rightarrow> if Suc k < N then Some (Suc k) else None,
       sp_shut := sp_shut sp \<union> {c \<in> sp_alive sp. \<exists>k. sp_idle sp c = Some k \<and> \<not> Suc k < N}\<rparr>)"

fun idle_run :: "nat \<Rightarrow> idle_event list \<Rightarrow> idle_spec \<Rightarrow> idle_spec option" where
  "idle_run N [] sp = Some sp"
| "idle_run N (e # es) sp = (case idle_step N e sp of None \<Rightarrow> None | Some sp' \<Rightarrow> idle_run N es sp')"

text \<open>The age of an entry: the number of buckets behind the last one that holds it.\<close>

fun age :: "'a \<Rightarrow> 'a list list \<Rightarrow> nat option" where
  "age e [] = None"
| "age e (b # bs) = (if e \<in> set b then Some 0 else map_option Suc (age e bs))"

lemma age_None: "age e bs = None \<longleftrightarrow> \<not> list_ex (\<lambda>b. e \<in> set b) bs"
  by (induction bs) auto

lemma age_less: "age e bs = Some k \<Longrightarrow> k < length bs"
  by (induction bs arbitrary: k) (auto split: if_splits)

lemma age_snoc: "age e (bs @ [b]) = (case age e bs of None \<Rightarrow> if e \<in> set b then Some (length bs) else None | Some k \<Rightarrow> Some k)"
  by (induction bs) (auto split: option.splits)

definition idle_sim :: "nat \<Rightarrow> echo_server \<Rightarrow> idle_spec \<Rightarrow> bool" where
  "idle_sim N s sp \<longleftrightarrow> 0 < N \<and> length (es_buckets s) = N \<and> dom (es_context s) = sp_known sp \<and>
     (\<forall>c e. es_context s c = Some e \<longleftrightarrow> e < length (es_entries s) \<and> es_entries s ! e = c) \<and>
     (\<forall>b\<in>set (es_buckets s). \<forall>e\<in>set b. e < length (es_entries s)) \<and>
     (\<forall>c. sp_idle sp c = (case es_context s c of None \<Rightarrow> None | Some e \<Rightarrow> age e (rev (es_buckets s)))) \<and>
     sp_alive sp = es_alive s \<and> sp_shut sp = set (es_shutdown s)"

lemma age_insert: "age e' (List.insert e b # bs) = (if e' = e then Some 0 else age e' (b # bs))"
  by auto

lemma idle_simD:
  assumes "idle_sim N s sp"
  shows "es_context s c = Some e \<longleftrightarrow> e < length (es_entries s) \<and> es_entries s ! e = c"
    and "b \<in> set (es_buckets s) \<Longrightarrow> e \<in> set b \<Longrightarrow> e < length (es_entries s)"
    and "sp_idle sp c = (case es_context s c of None \<Rightarrow> None | Some e \<Rightarrow> age e (rev (es_buckets s)))"
    and "c \<in> sp_known sp \<longleftrightarrow> (\<exists>e. es_context s c = Some e)"
    and "0 < N" "length (es_buckets s) = N" "sp_alive sp = es_alive s" "sp_shut sp = set (es_shutdown s)"
  using assms unfolding idle_sim_def by blast+

lemma idle_simI:
  assumes "0 < N" "length (es_buckets s) = N" "dom (es_context s) = sp_known sp"
    and "\<And>c e. es_context s c = Some e \<longleftrightarrow> e < length (es_entries s) \<and> es_entries s ! e = c"
    and "\<And>b e. b \<in> set (es_buckets s) \<Longrightarrow> e \<in> set b \<Longrightarrow> e < length (es_entries s)"
    and "\<And>c. sp_idle sp c = (case es_context s c of None \<Rightarrow> None | Some e \<Rightarrow> age e (rev (es_buckets s)))"
    and "sp_alive sp = es_alive s" "sp_shut sp = set (es_shutdown s)"
  shows "idle_sim N s sp"
  using assms unfolding idle_sim_def by blast

lemma idle_sim_dom: "idle_sim N s sp \<Longrightarrow> dom (es_context s) = sp_known sp"
  by (simp add: idle_sim_def)

lemma idle_sim_sent: "idle_sim N (s\<lparr>es_sent := sent\<rparr>) sp \<longleftrightarrow> idle_sim N s sp"
  by (simp add: idle_sim_def cong: option.case_cong)

lemma idle_sim_freed: "idle_sim N s sp \<Longrightarrow> idle_sim N (s\<lparr>es_alive := es_alive s - {c}\<rparr>) (sp\<lparr>sp_alive := sp_alive sp - {c}\<rparr>)"
  by (simp add: idle_sim_def cong: option.case_cong)

lemma insert_back_snoc: "es_buckets s = bs @ [b] \<Longrightarrow> insert_back ep s = Inr (s\<lparr>es_buckets := bs @ [List.insert ep b]\<rparr>)"
  by (simp add: insert_back_def)

lemma idle_sim_buckets:
  assumes "idle_sim N s sp"
  obtains bs b where "es_buckets s = bs @ [b]" "length bs = N - 1" "0 < N"
  using assms by (cases "es_buckets s" rule: rev_cases) (auto simp: idle_sim_def)

lemma up_sim:
  assumes "idle_sim N s sp" "idle_step N (Conn_up c) sp = Some sp'"
  shows "\<exists>s'. es_step (Conn_up c) s = Inr s' \<and> idle_sim N s' sp'"
proof -
  obtain bs b where b: "es_buckets s = bs @ [b]" using idle_sim_buckets[OF assms(1)] by blast
  have new: "c \<notin> sp_known sp" "es_context s c = None" using assms(2) idle_simD(4)[OF assms(1), of c] by (auto split: if_splits)
  have sp': "sp' = sp\<lparr>sp_idle := (sp_idle sp)(c \<mapsto> 0), sp_known := insert c (sp_known sp), sp_alive := insert c (sp_alive sp)\<rparr>"
    using assms(2) new(1) by simp
  define ep where "ep = length (es_entries s)"
  define s' where "s' = s\<lparr>es_alive := insert c (es_alive s), es_entries := es_entries s @ [c], es_buckets := bs @ [List.insert ep b],
    es_context := (es_context s)(c \<mapsto> ep)\<rparr>"
  have step: "es_step (Conn_up c) s = Inr s'"
    by (simp add: es_onConnection_def Let_def insert_back_snoc[of _ bs b] b s'_def ep_def)
  have fresh: "es_context s c' \<noteq> Some ep" "es_entries s ! e = c \<Longrightarrow> \<not> e < ep" for c' e
    using idle_simD(1)[OF assms(1), of c' ep] idle_simD(1)[OF assms(1), of c e] new(2) by (simp_all add: ep_def)
  have "idle_sim N s' sp'"
  proof (rule idle_simI)
    show "es_context s' c' = Some e \<longleftrightarrow> e < length (es_entries s') \<and> es_entries s' ! e = c'" for c' e
      using idle_simD(1)[OF assms(1), of c' e] new(2) fresh by (auto simp: s'_def nth_append ep_def[symmetric] less_Suc_eq)
    show "sp_idle sp' c' = (case es_context s' c' of None \<Rightarrow> None | Some e \<Rightarrow> age e (rev (es_buckets s')))" for c'
      using idle_simD(3)[OF assms(1), of c'] fresh(1)[of c'] b by (simp add: s'_def sp' age_insert del: age.simps split: option.split)
    show "dom (es_context s') = sp_known sp'" using idle_sim_dom[OF assms(1)] by (simp add: s'_def sp')
    show "\<And>b e. b \<in> set (es_buckets s') \<Longrightarrow> e \<in> set b \<Longrightarrow> e < length (es_entries s')"
      using idle_simD(2)[OF assms(1)] b by (fastforce simp: s'_def ep_def)
  qed (use idle_simD(5-8)[OF assms(1)] b in \<open>simp_all add: s'_def sp'\<close>)
  then show ?thesis using step by blast
qed

lemma message_sim:
  assumes "idle_sim N s sp" "idle_step N (Conn_message c msg) sp = Some sp'"
  shows "\<exists>s'. es_step (Conn_message c msg) s = Inr s' \<and> idle_sim N s' sp'"
proof -
  obtain bs b where b: "es_buckets s = bs @ [b]" using idle_sim_buckets[OF assms(1)] by blast
  obtain e where e: "es_context s c = Some e" using assms(2) idle_simD(4)[OF assms(1), of c] by (auto split: if_splits)
  then have inj: "\<And>c'. es_context s c' = Some e \<longleftrightarrow> c' = c" using idle_simD(1)[OF assms(1), of _ e] idle_simD(1)[OF assms(1), of c e] by auto
  have "sp_idle sp c = None \<longleftrightarrow> \<not> list_ex (\<lambda>b. e \<in> set b) (es_buckets s)"
    using idle_simD(3)[OF assms(1), of c] e age_None[of e "rev (es_buckets s)"] by simp
  note idle_iff = this
  show ?thesis
  proof (cases "list_ex (\<lambda>b. e \<in> set b) (es_buckets s)")
    case False
    let ?s' = "s\<lparr>es_sent := es_sent s @ [(c, msg)]\<rparr>"
    have "sp' = sp" using assms(2) False idle_iff by (simp split: if_splits)
    moreover have "es_step (Conn_message c msg) s = Inr ?s'" using False e by (simp add: es_onMessage_def Let_def)
    moreover have "idle_sim N ?s' sp" using assms(1) by (simp add: idle_sim_sent)
    ultimately show ?thesis by blast
  next
    case True
    then obtain k where "sp_idle sp c = Some k" using idle_iff by auto
    then have sp': "sp' = sp\<lparr>sp_idle := (sp_idle sp)(c \<mapsto> 0)\<rparr>" using assms(2) by (simp split: if_splits)
    let ?s' = "s\<lparr>es_sent := es_sent s @ [(c, msg)], es_buckets := bs @ [List.insert e b]\<rparr>"
    have "idle_sim N ?s' sp'"
    proof (rule idle_simI)
      show "sp_idle sp' c' = (case es_context ?s' c' of None \<Rightarrow> None | Some e \<Rightarrow> age e (rev (es_buckets ?s')))" for c'
        using idle_simD(3)[OF assms(1), of c'] e inj[of c'] b by (simp add: sp' age_insert del: age.simps split: option.split)
      show "\<And>b e. b \<in> set (es_buckets ?s') \<Longrightarrow> e \<in> set b \<Longrightarrow> e < length (es_entries ?s')"
        using idle_simD(2)[OF assms(1)] idle_simD(2)[OF assms(1), of b] idle_simD(1)[OF assms(1), of c e] e b by auto
      show "dom (es_context ?s') = sp_known sp'" using idle_sim_dom[OF assms(1)] by (simp add: sp')
    qed (use idle_simD(1,5-8)[OF assms(1)] b in \<open>simp_all add: sp'\<close>)
    moreover have "es_step (Conn_message c msg) s = Inr ?s'"
      using True e b by (simp add: es_onMessage_def Let_def insert_back_snoc[of _ bs b])
    ultimately show ?thesis by blast
  qed
qed

lemma fold_Entry_dtor:
  "fold Entry_dtor eps s = s\<lparr>es_shutdown := es_shutdown s @ [c \<leftarrow> map (\<lambda>e. es_entries s ! e) eps. c \<in> es_alive s]\<rparr>"
  by (induction eps arbitrary: s) (auto simp: Entry_dtor_def Let_def)

lemma tick_sim:
  assumes "idle_sim N s sp" "idle_step N Timer_tick sp = Some sp'"
  shows "\<exists>s'. es_step Timer_tick s = Inr s' \<and> idle_sim N s' sp'"
proof -
  obtain b bs where b: "es_buckets s = b # bs" "Suc (length bs) = N" using assms(1) by (cases "es_buckets s") (auto simp: idle_sim_def)
  define gone where "gone = [ep \<leftarrow> b. \<not> list_ex (\<lambda>b. ep \<in> set b) bs]"
  define s' where "s' = s\<lparr>es_buckets := bs @ [[]], es_shutdown := es_shutdown s @ [c \<leftarrow> map (\<lambda>e. es_entries s ! e) gone. c \<in> es_alive s]\<rparr>"
  have step: "es_step Timer_tick s = Inr s'" by (simp add: es_onTimer_def b fold_Entry_dtor s'_def gone_def)
  have last: "(\<exists>k. age e (rev (es_buckets s)) = Some k \<and> \<not> Suc k < N) \<longleftrightarrow> e \<in> set gone" for e
    using age_less[of e "rev bs"] b age_None[of e "rev bs"] by (auto simp: age_snoc gone_def split: option.splits)
  have aged: "age e (rev (bs @ [[]])) = (case age e (rev (es_buckets s)) of None \<Rightarrow> None | Some k \<Rightarrow> if Suc k < N then Some (Suc k) else None)" for e
    using age_less[of e "rev bs"] b by (auto simp: age_snoc split: option.splits)
  have idle: "sp_idle sp' c = (case es_context s' c of None \<Rightarrow> None | Some e \<Rightarrow> age e (rev (es_buckets s')))" for c
    using assms(2) idle_simD(3)[OF assms(1), of c] aged by (auto simp: s'_def split: option.splits)
  have known: "e \<in> set gone \<Longrightarrow> e < length (es_entries s)" for e using idle_simD(2)[OF assms(1), of b] b by (auto simp: gone_def)
  have "{c \<in> sp_alive sp. \<exists>k. sp_idle sp c = Some k \<and> \<not> Suc k < N} = {c \<in> es_alive s. \<exists>e\<in>set gone. es_entries s ! e = c}"
  proof (intro Collect_cong conj_cong)
    show "c \<in> sp_alive sp \<longleftrightarrow> c \<in> es_alive s" for c using idle_simD(7)[OF assms(1)] by simp
    show "(\<exists>k. sp_idle sp c = Some k \<and> \<not> Suc k < N) \<longleftrightarrow> (\<exists>e\<in>set gone. es_entries s ! e = c)" for c
      using idle_simD(1)[OF assms(1), of c] idle_simD(3)[OF assms(1), of c] last known
      by (cases "es_context s c") (force, metis (no_types, lifting) option.simps(5))
  qed
  then have shut: "sp_shut sp' = set (es_shutdown s')" using assms(2) idle_simD(8)[OF assms(1)] by (auto simp: s'_def)
  have "idle_sim N s' sp'"
  proof (rule idle_simI)
    show "sp_idle sp' c = (case es_context s' c of None \<Rightarrow> None | Some e \<Rightarrow> age e (rev (es_buckets s')))" for c by (rule idle)
    show "\<And>b e. b \<in> set (es_buckets s') \<Longrightarrow> e \<in> set b \<Longrightarrow> e < length (es_entries s')"
      using idle_simD(2)[OF assms(1)] b by (auto simp: s'_def)
    show "dom (es_context s') = sp_known sp'" using idle_sim_dom[OF assms(1)] assms(2) by (auto simp: s'_def)
  qed (use idle_simD(1,5-8)[OF assms(1)] b shut assms(2) in \<open>auto simp: s'_def\<close>)
  then show ?thesis using step by blast
qed

lemma idle_step_sim:
  assumes "idle_sim N s sp" "idle_step N ev sp = Some sp'"
  shows "\<exists>s'. es_step ev s = Inr s' \<and> idle_sim N s' sp'"
proof (cases ev)
  case (Conn_down c)
  have "sp' = sp" "c \<in> sp_known sp" using assms(2) Conn_down by (simp_all split: if_splits)
  moreover obtain e where "es_context s c = Some e" using idle_simD(4)[OF assms(1), of c] \<open>c \<in> sp_known sp\<close> by blast
  ultimately show ?thesis using assms(1) Conn_down by (simp add: es_onConnection_def)
next
  case (Conn_freed c)
  have "idle_sim N (s\<lparr>es_alive := es_alive s - {c}\<rparr>) (sp\<lparr>sp_alive := sp_alive sp - {c}\<rparr>)"
    using assms(1) by (rule idle_sim_freed)
  then show ?thesis using assms(2) Conn_freed by (simp del: es_step.simps add: es_step.simps(4))
qed (use assms up_sim message_sim tick_sim in blast)+

lemma idle_run_sim:
  assumes "idle_sim N s sp" "idle_run N evs sp = Some sp'"
  shows "\<exists>s'. res_fold es_step evs s = Inr s' \<and> idle_sim N s' sp'"
  using assms
proof (induction evs arbitrary: s sp)
  case (Cons ev evs)
  then obtain sp1 where 1: "idle_step N ev sp = Some sp1" "idle_run N evs sp1 = Some sp'" by (auto split: option.splits)
  obtain s1 where "es_step ev s = Inr s1" "idle_sim N s1 sp1" using idle_step_sim[OF Cons.prems(1) 1(1)] by blast
  then show ?case using Cons.IH[OF _ 1(2)] by simp
qed simp

text \<open>
  C11: The wheel of buckets implements the idle timeout: for every orderly sequence of connections,
  messages and ticks, the server runs without fault and calls \<^verbatim>\<open>shutdown\<close> for exactly those connections that
  still exist when the \<open>N\<close>-th tick comes without a message since the connection came up or sent its last
  one. Reference counts of entries in several buckets and lapped buckets do not disturb this.
\<close>

theorem echo_wheel_refines_idle_timeout:
  assumes "0 < N" "idle_run N evs idle_init = Some sp"
  shows "\<exists>s. res_bind (EchoServer_ctor (int N)) (res_fold es_step evs) = Inr s \<and> set (es_shutdown s) = sp_shut sp \<and>
    (\<forall>c. sp_idle sp c = (case es_context s c of None \<Rightarrow> None | Some e \<Rightarrow> age e (rev (es_buckets s))))"
proof -
  obtain s0 where s0: "EchoServer_ctor (int N) = Inr s0" "idle_sim N s0 idle_init"
    using assms(1) by (auto simp: EchoServer_ctor_def idle_sim_def idle_init_def)
  obtain s where "res_fold es_step evs s0 = Inr s" "idle_sim N s sp" using idle_run_sim[OF s0(2) assms(2)] by blast
  then show ?thesis using s0(1) by (auto simp: idle_sim_def)
qed

theorem echo_wheel_refines_idle_timeout_witness:
  "\<exists>s. res_bind (EchoServer_ctor 2) (res_fold es_step [Conn_up 7, Conn_up 8, Timer_tick, Conn_message 7 [1], Timer_tick]) = Inr s \<and>
    set (es_shutdown s) = {8}"
proof -
  obtain sp where "idle_run 2 [Conn_up 7, Conn_up 8, Timer_tick, Conn_message 7 [1], Timer_tick] idle_init = Some sp" "sp_shut sp = {8}"
    by (auto simp: idle_init_def)
  then show ?thesis using echo_wheel_refines_idle_timeout[of 2] by fastforce
qed

section \<open>The sorted list\<close>

text \<open>
  \<open>sl_list\<close> are the weak pointers of \<^verbatim>\<open>connectionList_\<close>, \<open>sl_last\<close> the \<^verbatim>\<open>lastReceiveTime\<close> in the context
  of a connection. The \<^verbatim>\<open>position\<close> of a node is the element of its connection, which a list keeps
  under \<^verbatim>\<open>splice\<close>. Times are microseconds; ages are compared without rounding. \<open>sl_closed\<close> records the calls
  of \<^verbatim>\<open>shutdown\<close> and \<^verbatim>\<open>forceCloseWithDelay\<close>; \<^verbatim>\<open>shutdown\<close> ends the state in which \<^verbatim>\<open>connected()\<close> holds.
\<close>

record sorted_server =
  sl_idleSeconds :: int
  sl_list :: "nat list"
  sl_last :: "nat \<rightharpoonup> int"
  sl_alive :: "nat set"
  sl_connected :: "nat set"
  sl_closed :: "nat list"

definition sl_ctor :: "int \<Rightarrow> sorted_server" where
  "sl_ctor idleSeconds = \<lparr>sl_idleSeconds = idleSeconds, sl_list = [], sl_last = Map.empty, sl_alive = {}, sl_connected = {}, sl_closed = []\<rparr>"

definition sl_onConnection :: "int \<Rightarrow> nat \<Rightarrow> sorted_server \<Rightarrow> sorted_server res" where
  "sl_onConnection now conn s =
     (if conn \<in> sl_connected s then Inr (s\<lparr>sl_list := sl_list s @ [conn], sl_last := (sl_last s)(conn \<mapsto> now)\<rparr>)
      else (case sl_last s conn of
              None \<Rightarrow> Inl (Abort ''bad_any_cast'')
            | Some _ \<Rightarrow> if conn \<in> set (sl_list s) then Inr (s\<lparr>sl_list := remove1 conn (sl_list s)\<rparr>)
                else Inl (Out_of_bounds ''connectionList_.erase'')))"

definition sl_onMessage :: "nat \<Rightarrow> int \<Rightarrow> sorted_server \<Rightarrow> sorted_server res" where
  "sl_onMessage conn time s =
     (case sl_last s conn of
        None \<Rightarrow> Inl (Null_pointer ''node'')
      | Some _ \<Rightarrow>
          if conn \<in> set (sl_list s) then
            (let s1 = s\<lparr>sl_last := (sl_last s)(conn \<mapsto> time), sl_list := remove1 conn (sl_list s) @ [conn]\<rparr>
             in require (last (sl_list s1) = conn) ''node->position == --connectionList_.end()'' (Inr s1))
          else Inl (Out_of_bounds ''connectionList_.splice''))"

text \<open>The loop of \<^verbatim>\<open>onTimer\<close>: \<open>kept\<close> are the elements it has passed, the last argument those ahead.\<close>

fun sl_scan :: "int \<Rightarrow> nat list \<Rightarrow> sorted_server \<Rightarrow> nat list \<Rightarrow> sorted_server res" where
  "sl_scan now kept s [] = Inr (s\<lparr>sl_list := kept\<rparr>)"
| "sl_scan now kept s (it # ahead) =
     (if it \<in> sl_alive s then
        (case sl_last s it of
           None \<Rightarrow> Inl (Null_pointer ''n'')
         | Some t \<Rightarrow>
             if now - t > sl_idleSeconds s * 1000000 then
               sl_scan now (kept @ [it])
                 (if it \<in> sl_connected s then s\<lparr>sl_closed := sl_closed s @ [it], sl_connected := sl_connected s - {it}\<rparr> else s) ahead
             else if now - t < 0 then sl_scan now (kept @ [it]) (s\<lparr>sl_last := (sl_last s)(it \<mapsto> now)\<rparr>) ahead
             else Inr (s\<lparr>sl_list := kept @ it # ahead\<rparr>))
      else sl_scan now kept s ahead)"

definition sl_onTimer :: "int \<Rightarrow> sorted_server \<Rightarrow> sorted_server res" where
  "sl_onTimer now s = sl_scan now [] s (sl_list s)"

text \<open>The events with the time at which the server handles them and the time at which the poll that reported
  them has returned: \<^verbatim>\<open>onConnection\<close> and \<^verbatim>\<open>onTimer\<close> read the clock, \<^verbatim>\<open>onMessage\<close> is given the time of the poll. A
  connection comes up once; an event that no connection produces is no run.\<close>

fun sl_step :: "(int \<times> int) \<times> idle_event \<Rightarrow> sorted_server \<Rightarrow> sorted_server res" where
  "sl_step ((now, polled), Conn_up c) s =
     (if sl_last s c = None then
        sl_onConnection now c (s\<lparr>sl_alive := insert c (sl_alive s), sl_connected := insert c (sl_connected s)\<rparr>)
      else Inl (Abort ''a connection comes up once''))"
| "sl_step ((now, polled), Conn_down c) s = sl_onConnection now c (s\<lparr>sl_connected := sl_connected s - {c}\<rparr>)"
| "sl_step ((now, polled), Conn_message c msg) s = sl_onMessage c polled s"
| "sl_step ((now, polled), Conn_freed c) s = Inr (s\<lparr>sl_alive := sl_alive s - {c}, sl_connected := sl_connected s - {c}\<rparr>)"
| "sl_step ((now, polled), Timer_tick) s = sl_onTimer now s"

text \<open>The list is sorted up to the time \<open>d\<close> that may pass between the return of the poll and the handling of an event.\<close>

definition sorted_upto :: "int \<Rightarrow> sorted_server \<Rightarrow> bool" where
  "sorted_upto d s \<longleftrightarrow> sorted_wrt (\<lambda>x y. the (sl_last s x) \<le> the (sl_last s y) + d) (sl_list s)"

definition sl_inv :: "int \<Rightarrow> int \<Rightarrow> sorted_server \<Rightarrow> bool" where
  "sl_inv d now s \<longleftrightarrow> distinct (sl_list s) \<and> (\<forall>c\<in>set (sl_list s). \<exists>t\<le>now. sl_last s c = Some t) \<and>
     sorted_upto d s \<and> sl_connected s \<subseteq> set (sl_list s) \<inter> sl_alive s"

text \<open>A connection whose last activity is longer ago than the limit and \<open>d\<close>.\<close>

definition overdue :: "int \<Rightarrow> int \<Rightarrow> sorted_server \<Rightarrow> nat \<Rightarrow> bool" where
  "overdue d now s c \<longleftrightarrow> c \<in> sl_alive s \<and> now - the (sl_last s c) > sl_idleSeconds s * 1000000 + d"

text \<open>The scan over \<open>ahead\<close> keeps the part \<open>l\<close> of it and closes the connections \<open>cs\<close>: only overdue ones, and all that
  are overdue by more than \<open>d\<close>.\<close>

definition scan_closes :: "int \<Rightarrow> int \<Rightarrow> sorted_server \<Rightarrow> nat list \<Rightarrow> nat list \<Rightarrow> nat list \<Rightarrow> bool" where
  "scan_closes d now s ahead l cs \<longleftrightarrow> subseq l ahead \<and> set ahead \<inter> sl_alive s \<subseteq> set l \<and> distinct cs \<and>
     set cs \<subseteq> {c \<in> set ahead \<inter> sl_connected s. overdue 0 now s c} \<and> {c \<in> set ahead \<inter> sl_connected s. overdue d now s c} \<subseteq> set cs"

lemma sl_scan_closes:
  assumes "0 \<le> d" "distinct ahead" "\<forall>c\<in>set ahead. \<exists>t\<le>now. sl_last s c = Some t"
    "0 \<le> sl_idleSeconds s" "sorted_wrt (\<lambda>x y. the (sl_last s x) \<le> the (sl_last s y) + d) ahead"
  shows "\<exists>l cs. sl_scan now kept s ahead = Inr (s\<lparr>sl_list := kept @ l, sl_closed := sl_closed s @ cs, sl_connected := sl_connected s - set cs\<rparr>) \<and>
    scan_closes d now s ahead l cs"
  using assms(2-)
proof (induction ahead arbitrary: kept s)
  case Nil
  then show ?case by (intro exI[of _ "[]"]) (simp add: scan_closes_def)
next
  case (Cons it ahead)
  obtain t where t: "sl_last s it = Some t" "t \<le> now" using Cons.prems(2) by auto
  consider "it \<notin> sl_alive s" | "it \<in> sl_alive s" "now - t > sl_idleSeconds s * 1000000"
    | "it \<in> sl_alive s" "\<not> now - t > sl_idleSeconds s * 1000000" by blast
  then show ?case
  proof cases
    case 1
    obtain l cs where l: "sl_scan now kept s ahead = Inr (s\<lparr>sl_list := kept @ l, sl_closed := sl_closed s @ cs, sl_connected := sl_connected s - set cs\<rparr>)"
      "scan_closes d now s ahead l cs" using Cons.IH[of s kept] Cons.prems by auto
    then have "scan_closes d now s (it # ahead) l cs" using 1 by (auto simp: scan_closes_def overdue_def)
    then show ?thesis using l(1) 1 by auto
  next
    case 2
    define s1 where "s1 = s\<lparr>sl_closed := sl_closed s @ (if it \<in> sl_connected s then [it] else []), sl_connected := sl_connected s - {it}\<rparr>"
    have s1: "(if it \<in> sl_connected s then s\<lparr>sl_closed := sl_closed s @ [it], sl_connected := sl_connected s - {it}\<rparr> else s) = s1"
      by (simp add: s1_def)
    obtain l cs where l: "sl_scan now (kept @ [it]) s1 ahead =
        Inr (s1\<lparr>sl_list := (kept @ [it]) @ l, sl_closed := sl_closed s1 @ cs, sl_connected := sl_connected s1 - set cs\<rparr>)"
      "scan_closes d now s1 ahead l cs" using Cons.IH[of s1 "kept @ [it]"] Cons.prems by (auto simp: s1_def)
    let ?cs = "(if it \<in> sl_connected s then [it] else []) @ cs"
    have "scan_closes d now s (it # ahead) (it # l) ?cs"
      using l(2) 2 t Cons.prems(1) by (auto simp: scan_closes_def overdue_def s1_def)
    moreover have eq: "sl_connected s1 - set cs = sl_connected s - set ?cs" "sl_closed s1 @ cs = sl_closed s @ ?cs"
      by (auto simp: s1_def)
    have "s1\<lparr>sl_list := x, sl_closed := y, sl_connected := z\<rparr> = s\<lparr>sl_list := x, sl_closed := y, sl_connected := z\<rparr>" for x y z
      by (simp add: s1_def)
    moreover from this have "sl_scan now kept s (it # ahead) =
        Inr (s\<lparr>sl_list := kept @ it # l, sl_closed := sl_closed s @ ?cs, sl_connected := sl_connected s - set ?cs\<rparr>)"
      using 2 t l(1) unfolding eq by (simp add: s1)
    ultimately show ?thesis by blast
  next
    case 3
    have "\<not> overdue d now s c" if "c \<in> set (it # ahead)" for c
      using that t 3 assms(1) Cons.prems(4) by (auto simp: overdue_def)
    then have "scan_closes d now s (it # ahead) (it # ahead) []" by (auto simp: scan_closes_def)
    moreover have "sl_scan now kept s (it # ahead) = Inr (s\<lparr>sl_list := kept @ it # ahead\<rparr>)" using 3 t by simp
    ultimately show ?thesis by (intro exI[of _ "it # ahead"] exI[of _ "[]"]) simp
  qed
qed

lemma distinct_subseq: "subseq xs ys \<Longrightarrow> distinct ys \<Longrightarrow> distinct xs"
  by (induction rule: list_emb.induct) (auto dest: list_emb_set)

lemma sorted_wrt_subseq: "subseq xs ys \<Longrightarrow> sorted_wrt P ys \<Longrightarrow> sorted_wrt P xs"
  by (induction rule: list_emb.induct) (auto dest: list_emb_set)

lemma subseq_remove1: "subseq (remove1 x xs) xs"
  by (induction xs) auto

lemma sl_onTimer_closes:
  assumes "0 \<le> d" "0 \<le> sl_idleSeconds s" "sl_inv d now s"
  shows "\<exists>l cs. sl_onTimer now s = Inr (s\<lparr>sl_list := l, sl_closed := sl_closed s @ cs, sl_connected := sl_connected s - set cs\<rparr>) \<and>
    scan_closes d now s (sl_list s) l cs"
  using sl_scan_closes[OF assms(1) _ _ assms(2), of "sl_list s" now "[]"] assms(3) by (simp add: sl_onTimer_def sl_inv_def sorted_upto_def)

lemma sl_inv_later: "sl_inv d now s \<Longrightarrow> now \<le> later \<Longrightarrow> sl_inv d later s"
  by (fastforce simp: sl_inv_def)

text \<open>A connection at the end of the list, with a time that is at most \<open>d\<close> old.\<close>

lemma sl_inv_append:
  assumes inv: "sl_inv d now s" and new: "c \<notin> set (sl_list s)" and t: "t \<le> now" "now - d \<le> t"
  shows "sl_inv d now (s\<lparr>sl_alive := insert c (sl_alive s), sl_connected := insert c (sl_connected s),
    sl_list := sl_list s @ [c], sl_last := (sl_last s)(c \<mapsto> t)\<rparr>)" (is "sl_inv d now ?s")
proof -
  have same: "sl_last ?s x = sl_last s x" if "x \<in> set (sl_list s)" for x using that new by auto
  have le: "\<exists>u\<le>now. sl_last ?s x = Some u" if "x \<in> set (sl_list s @ [c])" for x
    using that inv same t(1) by (cases "x = c") (auto simp: sl_inv_def)
  have "the (sl_last s x) \<le> t + d" if "x \<in> set (sl_list s)" for x using that inv t(2) by (force simp: sl_inv_def)
  then have "sorted_upto d ?s" using inv new same by (auto simp: sl_inv_def sorted_upto_def sorted_wrt_append intro: sorted_wrt_mono_rel[rotated])
  then show ?thesis using inv new le by (auto simp: sl_inv_def)
qed

lemma sl_inv_remove:
  assumes "sl_inv d now s" "sl_connected s' \<subseteq> sl_connected s - {c}" "sl_alive s' = sl_alive s" "sl_last s' = sl_last s" "sl_list s' = remove1 c (sl_list s)"
  shows "sl_inv d now s'"
  using assms by (auto simp: sl_inv_def sorted_upto_def set_remove1_eq intro: sorted_wrt_subseq[OF subseq_remove1])

text \<open>The time of the last activity of a connection, as the server stores it.\<close>

fun last_activity :: "(int \<times> int) \<times> idle_event \<Rightarrow> (nat \<rightharpoonup> int) \<Rightarrow> (nat \<rightharpoonup> int)" where
  "last_activity ((now, polled), Conn_up c) m = m(c \<mapsto> now)"
| "last_activity ((now, polled), Conn_message c msg) m = m(c \<mapsto> polled)"
| "last_activity (_, _) m = m"

lemma sl_step_inv:
  assumes inv: "sl_inv d now s" and d: "polled \<le> now" "now - d \<le> polled" and idle: "0 \<le> sl_idleSeconds s" and step: "sl_step ((now, polled), ev) s = Inr s'"
  shows "sl_inv d now s' \<and> sl_idleSeconds s' = sl_idleSeconds s \<and> sl_last s' = last_activity ((now, polled), ev) (sl_last s)"
proof (cases ev)
  case (Conn_up c)
  then have new: "sl_last s c = None" using step by (auto split: if_splits)
  then have "c \<notin> set (sl_list s)" using inv by (auto simp: sl_inv_def)
  from sl_inv_append[OF inv this, of now] show ?thesis using Conn_up step new d by (auto simp: sl_onConnection_def)
next
  case (Conn_down c)
  then have c: "s' = s\<lparr>sl_connected := sl_connected s - {c}, sl_list := remove1 c (sl_list s)\<rparr>"
    using step by (auto simp: sl_onConnection_def split: option.splits if_splits)
  then have "sl_inv d now s'" by (intro sl_inv_remove[OF inv]) auto
  then show ?thesis using Conn_down c by simp
next
  case (Conn_message c msg)
  then have c: "c \<in> set (sl_list s)" "s' = s\<lparr>sl_last := (sl_last s)(c \<mapsto> polled), sl_list := remove1 c (sl_list s) @ [c]\<rparr>"
    using step by (auto simp: sl_onMessage_def Let_def split: option.splits if_splits)
  let ?s = "s\<lparr>sl_list := remove1 c (sl_list s), sl_connected := sl_connected s - {c}\<rparr>"
  have "sl_inv d now ?s" by (rule sl_inv_remove[OF inv]) auto
  moreover have "c \<notin> set (sl_list ?s)" using inv by (simp add: sl_inv_def set_remove1_eq)
  ultimately have "sl_inv d now (s\<lparr>sl_alive := insert c (sl_alive s), sl_connected := insert c (sl_connected s - {c}),
      sl_list := remove1 c (sl_list s) @ [c], sl_last := (sl_last s)(c \<mapsto> polled)\<rparr>)" using sl_inv_append[of d now ?s c polled] d by simp
  then have "sl_inv d now s'" using inv c(1) by (auto simp: c(2) sl_inv_def sorted_upto_def)
  then show ?thesis using Conn_message by (simp add: c(2))
next
  case (Conn_freed c)
  then show ?thesis using inv step by (auto simp: sl_inv_def sorted_upto_def)
next
  case Timer_tick
  then obtain l cs where l: "s' = s\<lparr>sl_list := l, sl_closed := sl_closed s @ cs, sl_connected := sl_connected s - set cs\<rparr>"
    "subseq l (sl_list s)" "set (sl_list s) \<inter> sl_alive s \<subseteq> set l"
    using sl_onTimer_closes[OF _ idle inv] step d by (auto simp: scan_closes_def)
  then have "set l \<subseteq> set (sl_list s)" "distinct l" using inv distinct_subseq[OF l(2)] by (auto simp: sl_inv_def dest: list_emb_set)
  then show ?thesis using inv Timer_tick l(3) sorted_wrt_subseq[OF l(2)] by (auto simp: l(1) sl_inv_def sorted_upto_def)
qed

text \<open>The clock does not go back, and an event is handled at most \<open>d\<close> after the poll that reported it.\<close>

fun clocked :: "int \<Rightarrow> int \<Rightarrow> ((int \<times> int) \<times> idle_event) list \<Rightarrow> bool" where
  "clocked d start [] \<longleftrightarrow> True"
| "clocked d start (((now, polled), ev) # evs) \<longleftrightarrow> start \<le> now \<and> polled \<le> now \<and> now - d \<le> polled \<and> clocked d now evs"

definition end_time :: "int \<Rightarrow> ((int \<times> int) \<times> idle_event) list \<Rightarrow> int" where
  "end_time start evs = last (start # map (fst \<circ> fst) evs)"

lemma sl_run_inv:
  assumes "sl_inv d start s" "0 \<le> sl_idleSeconds s" "clocked d start evs" "res_fold sl_step evs s = Inr s'"
  shows "sl_inv d (end_time start evs) s' \<and> sl_idleSeconds s' = sl_idleSeconds s \<and> sl_last s' = fold last_activity evs (sl_last s)"
  using assms
proof (induction evs arbitrary: start s)
  case (Cons te evs)
  obtain now polled e where te: "te = ((now, polled), e)" by (metis surj_pair)
  obtain s1 where s1: "sl_step ((now, polled), e) s = Inr s1" "res_fold sl_step evs s1 = Inr s'"
    using Cons.prems(4) by (auto simp: te res_bind_eq_Inr)
  have "sl_inv d now s" using sl_inv_later[OF Cons.prems(1)] Cons.prems(3) by (simp add: te)
  from sl_step_inv[OF this _ _ Cons.prems(2) s1(1)] show ?case
    using Cons.IH[of now s1] Cons.prems s1(2) by (simp add: te end_time_def)
qed (simp add: end_time_def)

text \<open>
  C24: What the server with the list closes. Let the clock not go back, and let every event be handled at most \<open>d\<close>
  microseconds after the poll that reported it has returned. \<^verbatim>\<open>onConnection\<close> stores the time at which it runs and \<^verbatim>\<open>onMessage\<close> the time of the
  poll, so the list is sorted by last activity only up to \<open>d\<close>: no connection is in front of one
  whose last activity is more than \<open>d\<close> older. \<^verbatim>\<open>onTimer\<close>, which stops at the first connection that is not idle, shuts down
  only connections that are connected and whose last activity is more than \<^verbatim>\<open>idleSeconds_\<close> ago, each once, and all of those whose last
  activity is more than \<^verbatim>\<open>idleSeconds_\<close> and \<open>d\<close> ago.
\<close>

theorem sorted_list_closes_idle_connections:
  assumes "0 \<le> idleSeconds" "0 \<le> d" "clocked d start evs" "end_time start evs \<le> now" "res_fold sl_step evs (sl_ctor idleSeconds) = Inr s"
  shows "sorted_wrt (\<lambda>x y. the (sl_last s x) \<le> the (sl_last s y) + d) (sl_list s) \<and>
    (\<exists>s' cs. sl_onTimer now s = Inr s' \<and> sl_closed s' = sl_closed s @ cs \<and> distinct cs \<and>
      (\<forall>c \<in> set cs. c \<in> sl_connected s \<and> (\<exists>t. fold last_activity evs Map.empty c = Some t \<and> now - t > idleSeconds * 1000000)) \<and>
      (\<forall>c \<in> sl_connected s. \<exists>t. fold last_activity evs Map.empty c = Some t \<and> (now - t > idleSeconds * 1000000 + d \<longrightarrow> c \<in> set cs)))"
proof -
  have 0: "sl_inv d start (sl_ctor idleSeconds)" "sl_idleSeconds (sl_ctor idleSeconds) = idleSeconds" "sl_last (sl_ctor idleSeconds) = Map.empty"
    by (simp_all add: sl_inv_def sl_ctor_def sorted_upto_def)
  have run: "sl_inv d (end_time start evs) s" "sl_idleSeconds s = idleSeconds" "sl_last s = fold last_activity evs Map.empty"
    using sl_run_inv[OF 0(1) _ assms(3,5)] 0 assms(1) by auto
  have inv: "sl_inv d now s" using sl_inv_later[OF run(1) assms(4)] .
  obtain l cs where t: "sl_onTimer now s = Inr (s\<lparr>sl_list := l, sl_closed := sl_closed s @ cs, sl_connected := sl_connected s - set cs\<rparr>)"
    "scan_closes d now s (sl_list s) l cs" using sl_onTimer_closes[OF assms(2) _ inv] run(2) assms(1) by auto
  have known: "c \<in> set (sl_list s) \<and> c \<in> sl_alive s \<and> (\<exists>t. sl_last s c = Some t)" if "c \<in> sl_connected s" for c
    using inv that by (auto simp: sl_inv_def)
  have "\<forall>c \<in> set cs. c \<in> sl_connected s \<and> (\<exists>t. sl_last s c = Some t \<and> now - t > idleSeconds * 1000000)"
    using t(2) known run(2) by (fastforce simp: scan_closes_def overdue_def)
  moreover have "\<forall>c \<in> sl_connected s. \<exists>t. sl_last s c = Some t \<and> (now - t > idleSeconds * 1000000 + d \<longrightarrow> c \<in> set cs)"
    using t(2) known run(2) by (fastforce simp: scan_closes_def overdue_def)
  moreover have "sorted_wrt (\<lambda>x y. the (sl_last s x) \<le> the (sl_last s y) + d) (sl_list s)" using inv by (simp add: sl_inv_def sorted_upto_def)
  moreover have "distinct cs" using t(2) by (simp add: scan_closes_def)
  ultimately show ?thesis using t(1) by (simp add: run(3))
qed

theorem sorted_list_closes_idle_connections_witness:
  "\<exists>s s' cs. res_fold sl_step [((0, 0), Conn_up 7), ((1, 0), Conn_up 8), ((5000001, 5000000), Conn_message 7 [])] (sl_ctor 10) = Inr s \<and>
    sl_onTimer 12000000 s = Inr s' \<and> sl_closed s' = sl_closed s @ cs \<and> set cs = {8}"
proof -
  let ?evs = "[((0, 0), Conn_up 7), ((1, 0), Conn_up 8), ((5000001, 5000000), Conn_message 7 [])]"
  obtain s where s: "res_fold sl_step ?evs (sl_ctor 10) = Inr s" "sl_connected s = {7, 8}"
    by (auto simp: sl_ctor_def sl_onConnection_def sl_onMessage_def Let_def require_def)
  have la: "fold last_activity ?evs Map.empty = [7 \<mapsto> 5000000, 8 \<mapsto> 1]" by (auto simp: fun_eq_iff)
  obtain s' cs where r: "sl_onTimer 12000000 s = Inr s'" "sl_closed s' = sl_closed s @ cs"
    "\<forall>c \<in> set cs. c \<in> sl_connected s \<and> (\<exists>t. [7 \<mapsto> 5000000, 8 \<mapsto> 1] c = Some t \<and> 12000000 - t > (10 :: int) * 1000000)"
    "\<forall>c \<in> sl_connected s. \<exists>t. [7 \<mapsto> 5000000, 8 \<mapsto> 1] c = Some t \<and> (12000000 - t > (10 :: int) * 1000000 + 1 \<longrightarrow> c \<in> set cs)"
    using sorted_list_closes_idle_connections[OF _ _ _ _ s(1), of 1 0 12000000] unfolding la by (auto simp: end_time_def)
  have "set cs = {8}" using r(3,4) s(2) by (auto split: if_splits)
  then show ?thesis using s(1) r(1,2) by blast
qed

text \<open>
  The list is not always sorted. Connection 7 comes up 50 microseconds after the poll has returned, and a message of connection 8
  that the same poll reported is handled after that: 8 is behind 7 with an older time. A timer that runs when 8 is overdue and 7
  is not stops at 7 and leaves 8 open.
\<close>

theorem list_is_not_sorted:
  "\<exists>s. res_fold sl_step [((0, 0), Conn_up 8), ((150, 100), Conn_up 7), ((160, 100), Conn_message 8 [])] (sl_ctor 10) = Inr s \<and>
     sl_list s = [7, 8] \<and> sl_last s 7 = Some 150 \<and> sl_last s 8 = Some 100 \<and>
     (\<exists>s'. sl_onTimer 10000120 s = Inr s' \<and> sl_closed s' = [])"
  by (auto simp: sl_ctor_def sl_onConnection_def sl_onMessage_def sl_onTimer_def Let_def require_def)

end
