(* ===== verification/ThreadLocal.thy ===== *)
theory ThreadLocal
  imports Prelude
begin

text \<open>
  The thread-local singletons of \<^verbatim>\<open>base\<close>: \<^verbatim>\<open>ThreadLocalSingleton.h\<close> and \<^verbatim>\<open>ThreadLocalSingleton3.h\<close>, with a
  \<^verbatim>\<open>__thread\<close> pointer and a key of the pthread library whose destructor deletes the object when a thread
  ends, and \<^verbatim>\<open>ThreadLocalSingleton2.h\<close>, which keeps the pointer in the key only. \<open>t_value\<close> is the \<^verbatim>\<open>__thread\<close> variable of
  each thread, \<open>key_value\<close> the value of the key, \<open>live\<close> are the objects on the heap.
  The two experiments with a static deleter, \<^verbatim>\<open>ThreadLocalSingleton1.h\<close> and \<^verbatim>\<open>static_test.h\<close>, are included.
\<close>

record tls =
  t_value :: "nat \<rightharpoonup> nat"
  key_value :: "nat \<rightharpoonup> nat"
  live :: "nat set"
  fresh :: nat

definition tls_init :: tls where
  "tls_init = \<lparr>t_value = Map.empty, key_value = Map.empty, live = {}, fresh = 0\<rparr>"

definition new_object :: "tls \<Rightarrow> nat \<times> tls" where
  "new_object s = (fresh s, s\<lparr>live := insert (fresh s) (live s), fresh := Suc (fresh s)\<rparr>)"

definition delete_object :: "nat \<Rightarrow> tls \<Rightarrow> tls res" where
  "delete_object a s = (if a \<in> live s then Inr (s\<lparr>live := live s - {a}\<rparr>) else Inl (Abort ''double free''))"

section \<open>The versions with a thread-local pointer\<close>

definition Deleter_set :: "nat \<Rightarrow> nat \<Rightarrow> tls \<Rightarrow> tls" where
  "Deleter_set t newObj s = s\<lparr>key_value := (key_value s)(t \<mapsto> newObj)\<rparr>"

definition tls_instance :: "nat \<Rightarrow> tls \<Rightarrow> nat \<times> tls" where
  "tls_instance t s =
     (case t_value s t of
        Some a \<Rightarrow> (a, s)
      | None \<Rightarrow> (let (a, s1) = new_object s; s2 = s1\<lparr>t_value := (t_value s1)(t \<mapsto> a)\<rparr> in (a, Deleter_set t a s2)))"

text \<open>\<^verbatim>\<open>delete t_value_\<close>, which does nothing for a null pointer, and \<^verbatim>\<open>t_value_ = 0\<close>.\<close>

definition tls3_destructor :: "nat \<Rightarrow> nat \<Rightarrow> tls \<Rightarrow> tls res" where
  "tls3_destructor t obj s =
     res_bind (case t_value s t of None \<Rightarrow> Inr s | Some a \<Rightarrow> delete_object a s) (\<lambda>s1.
       Inr (s1\<lparr>t_value := (t_value s1)(t := None)\<rparr>))"

definition tls_destructor :: "nat \<Rightarrow> nat \<Rightarrow> tls \<Rightarrow> tls res" where
  "tls_destructor t obj s = require (Some obj = t_value s t) ''obj == t_value_'' (tls3_destructor t obj s)"

section \<open>The version with the key only\<close>

definition tls2_instance :: "nat \<Rightarrow> tls \<Rightarrow> nat \<times> tls" where
  "tls2_instance t s =
     (case key_value s t of
        Some a \<Rightarrow> (a, s)
      | None \<Rightarrow> (let (a, s1) = new_object s in (a, s1\<lparr>key_value := (key_value s1)(t \<mapsto> a)\<rparr>)))"

definition tls2_destructor :: "nat \<Rightarrow> nat \<Rightarrow> tls \<Rightarrow> tls res" where
  "tls2_destructor t obj s = (case key_value s t of None \<Rightarrow> Inr s | Some a \<Rightarrow> delete_object a s)"

section \<open>The versions with a static deleter\<close>

text \<open>
  \<^verbatim>\<open>static_test.h\<close> and \<^verbatim>\<open>ThreadLocalSingleton1.h\<close> set no key. A static object, which the main thread
  destroys at the end of the process, deletes the object of the thread it runs in; in the template it is
  never used and so never made.
\<close>

definition static_instance :: "nat \<Rightarrow> tls \<Rightarrow> nat \<times> tls" where
  "static_instance t s =
     (case t_value s t of
        Some a \<Rightarrow> (a, s)
      | None \<Rightarrow> (let (a, s1) = new_object s in (a, s1\<lparr>t_value := (t_value s1)(t \<mapsto> a)\<rparr>)))"

definition static_pointer :: "nat \<Rightarrow> tls \<Rightarrow> nat option" where
  "static_pointer t s = t_value s t"

definition tls1_instance :: "nat \<Rightarrow> tls \<Rightarrow> nat \<times> tls" where
  "tls1_instance t s = static_instance t s"

definition Deleter2_dtor :: "nat \<Rightarrow> tls \<Rightarrow> tls res" where
  "Deleter2_dtor t s =
     res_bind (case t_value s t of None \<Rightarrow> Inr s | Some a \<Rightarrow> delete_object a s) (\<lambda>s1.
       Inr (s1\<lparr>t_value := (t_value s1)(t := None)\<rparr>))"

section \<open>Threads\<close>

text \<open>When a thread ends, the pthread library sets a key with a value to null and then calls its
  destructor with the old value; the thread's variables disappear.\<close>

datatype tls_event = Get_instance nat | Thread_exit nat

definition thread_exit :: "(nat \<Rightarrow> nat \<Rightarrow> tls \<Rightarrow> tls res) \<Rightarrow> nat \<Rightarrow> tls \<Rightarrow> tls res" where
  "thread_exit destr t s =
     res_bind (case key_value s t of None \<Rightarrow> Inr s | Some obj \<Rightarrow> destr t obj (s\<lparr>key_value := (key_value s)(t := None)\<rparr>))
       (\<lambda>s1. Inr (s1\<lparr>t_value := (t_value s1)(t := None)\<rparr>))"

fun tls_step :: "(nat \<Rightarrow> tls \<Rightarrow> nat \<times> tls) \<Rightarrow> (nat \<Rightarrow> nat \<Rightarrow> tls \<Rightarrow> tls res) \<Rightarrow> tls_event \<Rightarrow> tls \<Rightarrow> tls res" where
  "tls_step inst destr (Get_instance t) s = Inr (snd (inst t s))"
| "tls_step inst destr (Thread_exit t) s = thread_exit destr t s"

definition tls_inv :: "tls \<Rightarrow> bool" where
  "tls_inv s \<longleftrightarrow> key_value s = t_value s \<and> live s = ran (t_value s) \<and> inj_on (t_value s) (dom (t_value s)) \<and> live s \<subseteq> {..<fresh s}"

text \<open>What is asked of a destructor: the object of the thread is deleted and the pointer cleared.\<close>

locale tls_deleter =
  fixes destr :: "nat \<Rightarrow> nat \<Rightarrow> tls \<Rightarrow> tls res"
  assumes destr_ok: "t_value s t = Some a \<Longrightarrow> a \<in> live s \<Longrightarrow>
    destr t a s = Inr (s\<lparr>live := live s - {a}, t_value := (t_value s)(t := None)\<rparr>)"
begin

lemma instance_inv:
  assumes "tls_inv s"
  shows "tls_inv (snd (tls_instance t s))"
proof (cases "t_value s t")
  case None
  have ran: "ran ((t_value s)(t \<mapsto> fresh s)) = insert (fresh s) (ran (t_value s))" using None by (rule ran_map_upd)
  have "t_value s t' \<noteq> Some (fresh s)" for t' using assms by (auto simp: tls_inv_def ran_def)
  then have "inj_on ((t_value s)(t \<mapsto> fresh s)) (dom ((t_value s)(t \<mapsto> fresh s)))"
    using assms by (auto simp: tls_inv_def inj_on_def dom_def)
  then show ?thesis using assms None ran
    by (auto simp: tls_instance_def new_object_def Deleter_set_def tls_inv_def Let_def less_Suc_eq)
qed (simp add: assms tls_instance_def)

lemma ran_remove: "inj_on m (dom m) \<Longrightarrow> m t = Some a \<Longrightarrow> ran (m(t := None)) = ran m - {a}"
  by (auto simp: ran_def inj_on_def dom_def split: if_splits) (metis option.inject)

lemma exit_inv:
  assumes "tls_inv s"
  shows "\<exists>s'. thread_exit destr t s = Inr s' \<and> tls_inv s' \<and> t_value s' t = None"
proof (cases "t_value s t")
  case None
  then have "key_value s t = None" using assms by (simp add: tls_inv_def)
  then show ?thesis using assms None by (simp add: thread_exit_def fun_upd_idem)
next
  case (Some a)
  then have "key_value s t = Some a" "a \<in> live s" using assms by (auto simp: tls_inv_def intro: ranI)
  let ?s = "s\<lparr>key_value := (key_value s)(t := None)\<rparr>"
  have "thread_exit destr t s = Inr (s\<lparr>key_value := (key_value s)(t := None), live := live s - {a}, t_value := (t_value s)(t := None)\<rparr>)"
    using destr_ok[of ?s t a] Some \<open>key_value s t = Some a\<close> \<open>a \<in> live s\<close> by (simp add: thread_exit_def)
  moreover have "inj_on ((t_value s)(t := None)) (dom ((t_value s)(t := None)))"
    using assms by (auto simp: tls_inv_def inj_on_def dom_def)
  ultimately show ?thesis using assms ran_remove[of "t_value s" t a] Some by (auto simp: tls_inv_def)
qed

lemma step_ok: "tls_inv s \<Longrightarrow> \<exists>s'. tls_step tls_instance destr ev s = Inr s' \<and> tls_inv s'"
  using instance_inv exit_inv by (cases ev) (simp, metis tls_step.simps(2))

lemma run_inv:
  assumes "tls_inv s"
  shows "\<exists>s'. res_fold (tls_step tls_instance destr) evs s = Inr s' \<and> tls_inv s'"
  by (rule res_fold_invariant[of tls_inv, OF assms]) (rule step_ok)

end

interpretation tls3: tls_deleter tls3_destructor
  by unfold_locales (simp add: tls3_destructor_def delete_object_def)

interpretation tls1: tls_deleter tls_destructor
  by unfold_locales (simp add: tls_destructor_def tls3.destr_ok)

lemma tls_inv_init: "tls_inv tls_init"
  by (simp add: tls_inv_def tls_init_def)

lemma tls_instance_value: "t_value (snd (tls_instance t s)) t = Some (fst (tls_instance t s))"
  by (simp add: tls_instance_def new_object_def Deleter_set_def Let_def split: option.splits)

text \<open>
  A thread-local singleton: for every sequence of calls of \<^verbatim>\<open>instance\<close> and ends of threads, the assertion of
  the destructor holds and nothing is deleted twice; a thread gets its own object, different threads
  different ones; and the objects on the heap are exactly those of the threads that have one and have not
  ended.
\<close>

theorem ThreadLocalSingleton_no_leak:
  "\<exists>s. res_fold (tls_step tls_instance tls_destructor) evs tls_init = Inr s \<and> live s = ran (t_value s) \<and>
     inj_on (t_value s) (dom (t_value s)) \<and> (\<forall>t. t_value (snd (tls_instance t s)) t = Some (fst (tls_instance t s)))"
  using tls1.run_inv[OF tls_inv_init, of evs] tls_instance_value by (auto simp: tls_inv_def)

lemma tls2_exit:
  "\<exists>s'. thread_exit tls2_destructor t s = Inr s' \<and> live s' = live s \<and> fresh s' = fresh s"
  by (simp add: thread_exit_def tls2_destructor_def split: option.split)

text \<open>
  The version with the key only never deletes an object: its destructor asks the key for the
  object, but the library has set the key to null before the call. Whatever the threads do, every object
  ever made stays on the heap.
\<close>

theorem ThreadLocalSingleton2_leaks:
  "\<exists>s. res_fold (tls_step tls2_instance tls2_destructor) evs tls_init = Inr s \<and> live s = {..<fresh s}"
proof (rule res_fold_invariant[of "\<lambda>s. live s = {..<fresh s}"])
  fix ev :: tls_event and s :: tls
  assume "live s = {..<fresh s}"
  then show "\<exists>s'. tls_step tls2_instance tls2_destructor ev s = Inr s' \<and> live s' = {..<fresh s'}"
  proof (cases ev)
    case (Get_instance t)
    then show ?thesis using \<open>live s = _\<close> by (cases "key_value s t") (auto simp: tls2_instance_def new_object_def lessThan_Suc)
  next
    case (Thread_exit t)
    then show ?thesis using \<open>live s = _\<close> tls2_exit[of t s] by auto
  qed
qed (simp add: tls_init_def)

definition static_inv :: "tls \<Rightarrow> bool" where
  "static_inv s \<longleftrightarrow> key_value s = Map.empty \<and> live s = {..<fresh s} \<and> ran (t_value s) \<subseteq> live s"

lemma static_step_inv:
  assumes "static_inv s"
  shows "\<exists>s'. tls_step static_instance destr ev s = Inr s' \<and> static_inv s'"
proof (cases ev)
  case (Get_instance t)
  then show ?thesis using assms
    by (cases "t_value s t") (auto simp: static_inv_def static_instance_def new_object_def lessThan_Suc)
next
  case (Thread_exit t)
  have "ran ((t_value s)(t := None)) \<subseteq> ran (t_value s)" by (auto simp: ran_def)
  then show ?thesis using assms Thread_exit by (auto simp: static_inv_def thread_exit_def)
qed

lemma static_run_inv: "static_inv s \<Longrightarrow> \<exists>s'. res_fold (tls_step static_instance destr) evs s = Inr s' \<and> static_inv s'"
  by (rule res_fold_invariant[of static_inv]) (auto intro: static_step_inv)

text \<open>
  A static deleter is not enough: whatever the threads do, at the end of the process it deletes the object of
  the main thread and no other, without a double free; the object of every other thread is left.
\<close>

theorem static_deleter_leaks:
  "\<exists>s s'. res_fold (tls_step static_instance destr) evs tls_init = Inr s \<and> Deleter2_dtor main s = Inr s' \<and>
     live s' = {..<fresh s} - set_option (static_pointer main s) \<and> static_pointer main s' = None"
proof -
  have "static_inv tls_init" by (simp add: static_inv_def tls_init_def)
  from static_run_inv[OF this] obtain s where s: "res_fold (tls_step static_instance destr) evs tls_init = Inr s" "static_inv s" by blast
  have "a \<in> live s" if "t_value s main = Some a" for a using s(2) that by (auto simp: static_inv_def intro: ranI)
  then show ?thesis using s
    by (cases "t_value s main") (auto simp: Deleter2_dtor_def static_inv_def static_pointer_def delete_object_def)
qed

end
