(* ===== verification/LockOrder.thy ===== *)
theory LockOrder
  imports Prelude
begin

text \<open>
  The locking in the examples of \<^verbatim>\<open>ch2/2.1.cpp\<close> and their solutions in \<^verbatim>\<open>ch2/2.8.cpp\<close>: a traversal
  that calls \<^verbatim>\<open>post\<close> while it holds the mutex, and an \<^verbatim>\<open>Inventory\<close> of \<^verbatim>\<open>Request\<close>s with a mutex of its own
  beside one in each request. A function is the sequence of the locks it takes and gives back; the
  mutexes are not recursive. What the functions do with the data is the subject of \<open>CopyOnWrite\<close>.
\<close>

section \<open>Programs and mutexes\<close>

datatype 'l action = Lock 'l | Unlock 'l

text \<open>A thread: the mutexes it holds and what it still has to do.\<close>

record 'l lthread =
  held :: "'l list"
  todo :: "'l action list"

definition start_thread :: "'l action list \<Rightarrow> 'l lthread" where
  "start_thread p = \<lparr>held = [], todo = p\<rparr>"

fun lock_enabled :: "'l lthread list \<Rightarrow> 'l lthread \<Rightarrow> bool" where
  "lock_enabled ts t = (case todo t of [] \<Rightarrow> False | Lock l # p \<Rightarrow> list_all (\<lambda>u. l \<notin> set (held u)) ts | Unlock l # p \<Rightarrow> True)"

definition run_action :: "'l lthread \<Rightarrow> 'l lthread" where
  "run_action t = (case todo t of [] \<Rightarrow> t | Lock l # p \<Rightarrow> \<lparr>held = l # held t, todo = p\<rparr> | Unlock l # p \<Rightarrow> \<lparr>held = remove1 l (held t), todo = p\<rparr>)"

inductive lock_step :: "'l lthread list \<Rightarrow> 'l lthread list \<Rightarrow> bool" where
  act: "i < length ts \<Longrightarrow> lock_enabled ts (ts ! i) \<Longrightarrow> lock_step ts (ts[i := run_action (ts ! i)])"

inductive_cases lock_stepE [elim, consumes 1]: "lock_step ts ts'"

definition deadlocked :: "'l lthread list \<Rightarrow> bool" where
  "deadlocked ts \<longleftrightarrow> list_ex (\<lambda>t. todo t \<noteq> []) ts \<and> \<not> list_ex (lock_enabled ts) ts"

lemma deadlocked_no_step: "deadlocked ts \<Longrightarrow> \<not> lock_step ts ts'"
  by (auto simp: deadlocked_def list_ex_iff)

section \<open>The functions of the examples\<close>

datatype mutex = M_foos | M_inventory | M_request nat

definition post_locks :: "mutex action list" where
  "post_locks = [Lock M_foos, Unlock M_foos]"

text \<open>\<^verbatim>\<open>doit\<close> of the first \<open>n\<close> elements calls \<^verbatim>\<open>post\<close>.\<close>

definition traverse_21 :: "nat \<Rightarrow> mutex action list" where
  "traverse_21 n = [Lock M_foos] @ concat (replicate n post_locks) @ [Unlock M_foos]"

definition traverse_28 :: "nat \<Rightarrow> mutex action list" where
  "traverse_28 n = [Lock M_foos, Unlock M_foos] @ concat (replicate n post_locks)"

definition print_locks :: "nat \<Rightarrow> mutex action list" where
  "print_locks r = [Lock (M_request r), Unlock (M_request r)]"

definition printAll_21 :: "nat list \<Rightarrow> mutex action list" where
  "printAll_21 requests = [Lock M_inventory] @ concat (map print_locks requests) @ [Unlock M_inventory]"

definition printAll_28 :: "nat list \<Rightarrow> mutex action list" where
  "printAll_28 requests = [Lock M_inventory, Unlock M_inventory] @ concat (map print_locks requests)"

definition add_locks :: "mutex action list" where
  "add_locks = [Lock M_inventory, Unlock M_inventory]"

definition remove_locks :: "mutex action list" where
  "remove_locks = [Lock M_inventory, Unlock M_inventory]"

definition process_locks :: "nat \<Rightarrow> mutex action list" where
  "process_locks r = [Lock (M_request r)] @ add_locks @ [Unlock (M_request r)]"

definition Request_dtor_locks :: "nat \<Rightarrow> mutex action list" where
  "Request_dtor_locks r = [Lock (M_request r)] @ remove_locks @ [Unlock (M_request r)]"

section \<open>Ordered locking\<close>

text \<open>Every lock taken is above those held, every lock given back was held, and none is held at the end.\<close>

fun ordered :: "('l \<Rightarrow> nat) \<Rightarrow> 'l list \<Rightarrow> 'l action list \<Rightarrow> bool" where
  "ordered rank h [] \<longleftrightarrow> h = []"
| "ordered rank h (Lock l # p) \<longleftrightarrow> list_all (\<lambda>k. rank k < rank l) h \<and> ordered rank (l # h) p"
| "ordered rank h (Unlock l # p) \<longleftrightarrow> l \<in> set h \<and> ordered rank (remove1 l h) p"

lemma ordered_append: "ordered rank h p \<Longrightarrow> ordered rank [] q \<Longrightarrow> ordered rank h (p @ q)"
  by (induction rank h p rule: ordered.induct) auto

lemma ordered_concat: "list_all (ordered rank []) ps \<Longrightarrow> ordered rank [] (concat ps)"
  by (induction ps) (auto intro: ordered_append)

definition well_locked :: "('l \<Rightarrow> nat) \<Rightarrow> 'l lthread list \<Rightarrow> bool" where
  "well_locked rank ts \<longleftrightarrow> (\<forall>t \<in> set ts. ordered rank (held t) (todo t))"

lemma run_action_ordered: "ordered rank (held t) (todo t) \<Longrightarrow> ordered rank (held (run_action t)) (todo (run_action t))"
  by (auto simp: run_action_def split: list.splits action.splits)

lemma lock_step_well_locked: "lock_step ts ts' \<Longrightarrow> well_locked rank ts \<Longrightarrow> well_locked rank ts'"
  by (auto simp: well_locked_def run_action_ordered dest!: set_update_subset_insert[THEN subsetD])

lemma ordered_not_deadlocked:
  assumes "well_locked rank ts"
  shows "\<not> deadlocked ts"
proof
  assume dead: "deadlocked ts"
  define wants where "wants = {(t, l). t \<in> set ts \<and> (\<exists>p. todo t = Lock l # p)}"
  have blocked: "\<exists>l p. todo t = Lock l # p \<and> (\<exists>u \<in> set ts. l \<in> set (held u))" if "t \<in> set ts" "todo t \<noteq> []" for t
    using that dead by (auto simp: deadlocked_def list_ex_iff list_all_iff neq_Nil_conv split: action.splits)
  have next_: "\<exists>u l'. (u, l') \<in> wants \<and> rank l < rank l'" if w: "(t, l) \<in> wants" for t l
  proof -
    obtain u where u: "u \<in> set ts" "l \<in> set (held u)" using w blocked by (force simp: wants_def)
    have "ordered rank (held u) (todo u)" using assms u(1) by (simp add: well_locked_def)
    moreover from this have "todo u \<noteq> []" using u(2) by (cases "todo u") auto
    ultimately show ?thesis using blocked[OF u(1)] u by (fastforce simp: wants_def list_all_iff)
  qed
  have "finite wants"
    by (rule finite_subset[of _ "(\<lambda>t. (t, case hd (todo t) of Lock l \<Rightarrow> l | Unlock l \<Rightarrow> l)) ` set ts"]) (force simp: wants_def)+
  moreover have "wants \<noteq> {}" using dead blocked by (fastforce simp: deadlocked_def list_ex_iff wants_def)
  ultimately obtain w where "w \<in> wants" "rank (snd w) = Max ((rank \<circ> snd) ` wants)"
    using Max_in[of "(rank \<circ> snd) ` wants"] by (metis (no_types, lifting) comp_apply finite_imageI imageE image_is_empty)
  then have "w \<in> wants" "\<forall>v \<in> wants. rank (snd v) \<le> rank (snd w)" using \<open>finite wants\<close> by simp_all
  then show False using next_[of "fst w" "snd w"] by fastforce
qed

interpretation locking: transition_system lock_step "well_locked rank" for rank :: "'l \<Rightarrow> nat"
  by unfold_locales (rule lock_step_well_locked)

lemma well_locked_progress:
  assumes "well_locked rank ts"
  shows "list_all (\<lambda>t. todo t = []) ts \<or> (\<exists>ts'. lock_step ts ts')"
proof (cases "list_ex (lock_enabled ts) ts")
  case True
  then obtain i where "i < length ts" "lock_enabled ts (ts ! i)" by (auto simp: list_ex_iff in_set_conv_nth simp del: lock_enabled.simps)
  then show ?thesis using lock_step.act by blast
next
  case False
  then show ?thesis using ordered_not_deadlocked[OF assms]
    by (auto simp: deadlocked_def list_ex_iff list_all_iff simp del: lock_enabled.simps)
qed

section \<open>The examples\<close>

text \<open>A request's mutex comes before the inventory's.\<close>

fun mutex_rank :: "mutex \<Rightarrow> nat" where
  "mutex_rank (M_request r) = 0"
| "mutex_rank M_inventory = 1"
| "mutex_rank M_foos = 2"

definition solved_programs :: "mutex action list set" where
  "solved_programs = {post_locks} \<union> range traverse_28 \<union> range printAll_28 \<union> range process_locks \<union> range Request_dtor_locks"

lemma solved_ordered: "p \<in> solved_programs \<Longrightarrow> ordered mutex_rank [] p"
  by (auto simp: solved_programs_def post_locks_def traverse_28_def printAll_28_def process_locks_def Request_dtor_locks_def
      add_locks_def remove_locks_def print_locks_def list_all_iff intro!: ordered_concat)

text \<open>
  C17: The solutions do not deadlock: any number of threads, each running any sequence of \<^verbatim>\<open>post\<close>, \<^verbatim>\<open>traverse\<close>,
  \<^verbatim>\<open>printAll\<close>, \<^verbatim>\<open>process\<close> and \<^verbatim>\<open>~Request\<close> in the versions of \<^verbatim>\<open>2.8.cpp\<close>, never reach a state in which some
  thread has work left and none can go on.
\<close>

theorem locking_28_no_deadlock:
  assumes "list_all (\<lambda>ps. set ps \<subseteq> solved_programs) threads"
    and "lock_step\<^sup>*\<^sup>* (map (\<lambda>ps. start_thread (concat ps)) threads) ts"
  shows "list_all (\<lambda>t. todo t = []) ts \<or> (\<exists>ts'. lock_step ts ts')"
proof (rule locking.run_progress[OF well_locked_progress _ assms(2)])
  show "well_locked mutex_rank (map (\<lambda>ps. start_thread (concat ps)) threads)"
    using assms(1) solved_ordered by (force simp: well_locked_def start_thread_def list_all_iff intro!: ordered_concat)
qed

theorem locking_28_no_deadlock_witness:
  "\<exists>ts. lock_step (map (\<lambda>ps. start_thread (concat ps)) [[printAll_28 [7]], [Request_dtor_locks 7]]) ts"
proof -
  have "list_all (\<lambda>ps. set ps \<subseteq> solved_programs) [[printAll_28 [7]], [Request_dtor_locks 7]]"
    by (simp add: solved_programs_def)
  from locking_28_no_deadlock[OF this rtranclp.rtrancl_refl] show ?thesis
    by (simp add: start_thread_def printAll_28_def)
qed

text \<open>
  The originals deadlock. A traversal in which \<^verbatim>\<open>doit\<close> calls \<^verbatim>\<open>post\<close> waits for its own mutex; and
  \<^verbatim>\<open>printAll\<close>, which holds the inventory and wants a request, meets \<^verbatim>\<open>~Request\<close>, which holds the request
  and wants the inventory.
\<close>

lemma lock_steps:
  "i < length ts \<Longrightarrow> lock_enabled ts (ts ! i) \<Longrightarrow> lock_step\<^sup>*\<^sup>* (ts[i := run_action (ts ! i)]) ts' \<Longrightarrow> lock_step\<^sup>*\<^sup>* ts ts'"
  using converse_rtranclp_into_rtranclp[of lock_step, OF lock_step.act] by blast

theorem locking_21_deadlocks:
  "(\<exists>ts. lock_step\<^sup>*\<^sup>* [start_thread (traverse_21 (Suc n))] ts \<and> deadlocked ts) \<and>
   (\<exists>ts. lock_step\<^sup>*\<^sup>* [start_thread (printAll_21 (r # rs)), start_thread (Request_dtor_locks r)] ts \<and> deadlocked ts)"
proof
  let ?t = "start_thread (traverse_21 (Suc n))"
  have "lock_step\<^sup>*\<^sup>* [?t] [run_action ?t]"
    by (rule lock_steps[of 0]) (simp_all add: start_thread_def traverse_21_def)
  moreover have "deadlocked [run_action ?t]"
    by (simp add: deadlocked_def run_action_def start_thread_def traverse_21_def post_locks_def)
  ultimately show "\<exists>ts. lock_step\<^sup>*\<^sup>* [?t] ts \<and> deadlocked ts" by blast
next
  let ?p = "start_thread (printAll_21 (r # rs))" and ?d = "start_thread (Request_dtor_locks r)"
  have "lock_step\<^sup>*\<^sup>* [?p, ?d] [run_action ?p, run_action ?d]"
    by (rule lock_steps[of 0], simp, simp add: start_thread_def printAll_21_def, rule lock_steps[of 1])
      (simp_all add: start_thread_def printAll_21_def Request_dtor_locks_def run_action_def)
  moreover have "deadlocked [run_action ?p, run_action ?d]"
    by (simp add: deadlocked_def run_action_def start_thread_def printAll_21_def Request_dtor_locks_def remove_locks_def print_locks_def)
  ultimately show "\<exists>ts. lock_step\<^sup>*\<^sup>* [?p, ?d] ts \<and> deadlocked ts" by blast
qed

end
