(* ===== verification/CopyOnWrite.thy ===== *)
theory CopyOnWrite
  imports Prelude
begin

text \<open>
  Copy on write with \<^verbatim>\<open>shared_ptr\<close>, from \<^verbatim>\<open>ch2/2.8.cpp\<close>: a reader takes a copy of the global pointer inside the
  mutex and walks through the container outside of it; a writer, inside the mutex, first copies the container if
  somebody else has a pointer to it. The container has type \<open>'l\<close>, and \<open>elems\<close> lists its elements in
  the order of iteration: a vector of \<^verbatim>\<open>Foo\<close>s, or the set of requests of the \<^verbatim>\<open>Inventory\<close>. The functions on
  \<^verbatim>\<open>g_foos\<close> assert \<^verbatim>\<open>unique()\<close> and those of the \<^verbatim>\<open>Inventory\<close> do not (\<open>asserts\<close>).

  Every access to a pointer or to a container is a step of its own, and the steps of the threads interleave: a
  reader gives its pointer up without the mutex, so that it may do so between the test of \<^verbatim>\<open>unique()\<close> and the
  reset of a writer. \<^verbatim>\<open>doit\<close> may call \<^verbatim>\<open>post\<close>, so that a thread also writes in the middle of its own traversal;
  a traversal within a traversal is left out.
\<close>

text \<open>The positions inside the critical sections: of the reader (lines 14 and 15), and of the writer (the test
  of line 28, the copy and the reset of line 30, the assertion of line 32, the change of line 33). \<open>Reset_global\<close>
  has the address of the new container, which belongs to the temporary pointer until \<^verbatim>\<open>g_foos\<close> takes it over.\<close>

datatype 'l cow_pc = Outside | Take_ptr | Check_shared
  | Test_unique "'l \<Rightarrow> 'l" | Copy_list "'l \<Rightarrow> 'l" | Reset_global "'l \<Rightarrow> 'l" nat | Check_unique "'l \<Rightarrow> 'l" | Push "'l \<Rightarrow> 'l"

text \<open>\<open>w_ptr\<close> is the local \<^verbatim>\<open>foos\<close> and \<open>w_iter\<close> the iterator, while the thread is in the loop of a traversal. The
  history variable \<open>w_snap\<close> is the value of the shared container when the traversal began; \<open>w_seen\<close> are the elements
  visited since.\<close>

record ('l, 'e) cow_thread =
  w_pc :: "'l cow_pc"
  w_ptr :: "nat option"
  w_iter :: "nat option"
  w_snap :: 'l
  w_seen :: "'e list"

text \<open>\<open>c_global\<close> is \<^verbatim>\<open>g_foos\<close>, \<open>None\<close> while it is null. \<open>c_spec\<close> is a history variable: the writes so far, applied
  to one value.\<close>

record ('l, 'e) cow =
  c_heap :: "nat \<rightharpoonup> 'l"
  c_fresh :: nat
  c_global :: "nat option"
  c_holder :: "nat option"
  c_threads :: "('l, 'e) cow_thread list"
  c_spec :: 'l

text \<open>The state of the source, in which nothing ever sets \<^verbatim>\<open>g_foos\<close>, and the state after a program has set
  it to a container of its own.\<close>

definition cow_null :: "'l \<Rightarrow> nat \<Rightarrow> ('l, 'e) cow" where
  "cow_null l n = \<lparr>c_heap = Map.empty, c_fresh = 0, c_global = None, c_holder = None,
     c_threads = replicate n \<lparr>w_pc = Outside, w_ptr = None, w_iter = None, w_snap = l, w_seen = []\<rparr>, c_spec = l\<rparr>"

definition cow_init :: "'l \<Rightarrow> nat \<Rightarrow> ('l, 'e) cow" where
  "cow_init l n = (cow_null l n)\<lparr>c_heap := [0 \<mapsto> l], c_fresh := 1, c_global := Some 0\<rparr>"

definition owns :: "nat \<Rightarrow> ('l, 'e) cow_thread \<Rightarrow> nat" where
  "owns a w = (if w_ptr w = Some a then 1 else 0) + (case w_pc w of Reset_global _ b \<Rightarrow> if b = a then 1 else 0 | _ \<Rightarrow> 0)"

definition use_count :: "nat \<Rightarrow> ('l, 'e) cow \<Rightarrow> nat" where
  "use_count a s = (if c_global s = Some a then 1 else 0) + sum_list (List.map (owns a) (c_threads s))"

definition unique :: "('l, 'e) cow \<Rightarrow> bool" where
  "unique s = (case c_global s of None \<Rightarrow> False | Some a \<Rightarrow> use_count a s = 1)"

text \<open>A container without pointers to it is deleted.\<close>

definition release :: "nat \<Rightarrow> ('l, 'e) cow \<Rightarrow> ('l, 'e) cow" where
  "release a s = (if use_count a s = 0 then s\<lparr>c_heap := (c_heap s)(a := None)\<rparr> else s)"

definition upd_thread :: "nat \<Rightarrow> (('l, 'e) cow_thread \<Rightarrow> ('l, 'e) cow_thread) \<Rightarrow> ('l, 'e) cow \<Rightarrow> ('l, 'e) cow" where
  "upd_thread t f s = s\<lparr>c_threads := (c_threads s)[t := f (c_threads s ! t)]\<rparr>"

definition goto :: "nat \<Rightarrow> 'l cow_pc \<Rightarrow> ('l, 'e) cow \<Rightarrow> ('l, 'e) cow" where
  "goto t pc s = upd_thread t (w_pc_update (\<lambda>_. pc)) s"

text \<open>The container behind a pointer; a container that has been deleted is gone from the heap.\<close>

definition deref :: "string \<Rightarrow> nat option \<Rightarrow> ('l, 'e) cow \<Rightarrow> (nat \<times> 'l) res" where
  "deref name p s =
     (case p of None \<Rightarrow> Inl (Null_pointer name)
      | Some a \<Rightarrow> (case c_heap s a of None \<Rightarrow> Inl (Out_of_bounds name) | Some l \<Rightarrow> Inr (a, l)))"

section \<open>The reader\<close>

definition traverse :: "nat \<Rightarrow> ('l, 'e) cow \<Rightarrow> ('l, 'e) cow" where
  "traverse t s = (goto t Take_ptr s)\<lparr>c_holder := Some t\<rparr>"

definition traverse_copy :: "nat \<Rightarrow> ('l, 'e) cow \<Rightarrow> ('l, 'e) cow res" where
  "traverse_copy t s =
     Inr (upd_thread t (\<lambda>w. w\<lparr>w_pc := Check_shared, w_ptr := c_global s, w_snap := c_spec s, w_seen := []\<rparr>) s)"

definition traverse_check :: "bool \<Rightarrow> nat \<Rightarrow> ('l, 'e) cow \<Rightarrow> ('l, 'e) cow res" where
  "traverse_check asserts t s =
     require (asserts \<longrightarrow> \<not> unique s) ''!g_foos.unique()''
       (Inr ((upd_thread t (\<lambda>w. w\<lparr>w_pc := Outside, w_iter := Some 0\<rparr>) s)\<lparr>c_holder := None\<rparr>))"

text \<open>One turn of the loop; at the end of the function the local pointer goes out of scope.\<close>

definition traverse_visit :: "('l \<Rightarrow> 'e list) \<Rightarrow> nat \<Rightarrow> nat \<Rightarrow> ('l, 'e) cow \<Rightarrow> ('l, 'e) cow res" where
  "traverse_visit elems i t s =
     res_bind (deref ''foos'' (w_ptr (c_threads s ! t)) s) (\<lambda>(a, l).
       if i < length (elems l) then
         Inr (upd_thread t (\<lambda>w. w\<lparr>w_iter := Some (Suc i), w_seen := w_seen w @ [elems l ! i]\<rparr>) s)
       else Inr (release a (upd_thread t (\<lambda>w. w\<lparr>w_ptr := None, w_iter := None\<rparr>) s)))"

section \<open>The writer\<close>

definition cow_write :: "nat \<Rightarrow> ('l \<Rightarrow> 'l) \<Rightarrow> ('l, 'e) cow \<Rightarrow> ('l, 'e) cow" where
  "cow_write t upd s = (goto t (Test_unique upd) s)\<lparr>c_holder := Some t\<rparr>"

definition cow_test :: "nat \<Rightarrow> ('l \<Rightarrow> 'l) \<Rightarrow> ('l, 'e) cow \<Rightarrow> ('l, 'e) cow res" where
  "cow_test t upd s = Inr (goto t (if \<not> unique s then Copy_list upd else Check_unique upd) s)"

definition cow_copy :: "nat \<Rightarrow> ('l \<Rightarrow> 'l) \<Rightarrow> ('l, 'e) cow \<Rightarrow> ('l, 'e) cow res" where
  "cow_copy t upd s =
     res_bind (deref ''g_foos'' (c_global s) s) (\<lambda>(a, l).
       Inr ((goto t (Reset_global upd (c_fresh s)) s)\<lparr>c_heap := (c_heap s)(c_fresh s \<mapsto> l), c_fresh := Suc (c_fresh s)\<rparr>))"

text \<open>\<^verbatim>\<open>reset\<close> takes the new container over and gives up the old one.\<close>

definition cow_reset :: "nat \<Rightarrow> ('l \<Rightarrow> 'l) \<Rightarrow> nat \<Rightarrow> ('l, 'e) cow \<Rightarrow> ('l, 'e) cow res" where
  "cow_reset t upd b s =
     (let s1 = (goto t (Check_unique upd) s)\<lparr>c_global := Some b\<rparr>
      in Inr (case c_global s of None \<Rightarrow> s1 | Some a \<Rightarrow> release a s1))"

definition cow_check :: "bool \<Rightarrow> nat \<Rightarrow> ('l \<Rightarrow> 'l) \<Rightarrow> ('l, 'e) cow \<Rightarrow> ('l, 'e) cow res" where
  "cow_check asserts t upd s = require (asserts \<longrightarrow> unique s) ''g_foos.unique()'' (Inr (goto t (Push upd) s))"

definition cow_push :: "nat \<Rightarrow> ('l \<Rightarrow> 'l) \<Rightarrow> ('l, 'e) cow \<Rightarrow> ('l, 'e) cow res" where
  "cow_push t upd s =
     res_bind (deref ''g_foos'' (c_global s) s) (\<lambda>(a, l).
       Inr ((goto t Outside s)\<lparr>c_heap := (c_heap s)(a \<mapsto> upd l), c_spec := upd (c_spec s), c_holder := None\<rparr>))"

definition push_back :: "'f \<Rightarrow> 'f list \<Rightarrow> 'f list" where
  "push_back f foos = foos @ [f]"

definition post :: "nat \<Rightarrow> 'f \<Rightarrow> ('f list, 'f) cow \<Rightarrow> ('f list, 'f) cow" where
  "post t f s = cow_write t (push_back f) s"

definition Inventory_add :: "nat \<Rightarrow> nat \<Rightarrow> (nat set, nat) cow \<Rightarrow> (nat set, nat) cow" where
  "Inventory_add t req s = cow_write t (insert req) s"

definition Inventory_remove :: "nat \<Rightarrow> nat \<Rightarrow> (nat set, nat) cow \<Rightarrow> (nat set, nat) cow" where
  "Inventory_remove t req s = cow_write t (\<lambda>requests. requests - {req}) s"

section \<open>Interleaving\<close>

text \<open>The next step of a thread that is in a critical section or in the loop of a traversal.\<close>

definition busy :: "('l, 'e) cow_thread \<Rightarrow> bool" where
  "busy w \<longleftrightarrow> w_pc w \<noteq> Outside \<or> w_iter w \<noteq> None"

definition cow_advance :: "('l \<Rightarrow> 'e list) \<Rightarrow> bool \<Rightarrow> nat \<Rightarrow> ('l, 'e) cow \<Rightarrow> ('l, 'e) cow res" where
  "cow_advance elems asserts t s =
     (case w_pc (c_threads s ! t) of
        Outside \<Rightarrow> (case w_iter (c_threads s ! t) of None \<Rightarrow> Inr s | Some i \<Rightarrow> traverse_visit elems i t s)
      | Take_ptr \<Rightarrow> traverse_copy t s
      | Check_shared \<Rightarrow> traverse_check asserts t s
      | Test_unique upd \<Rightarrow> cow_test t upd s
      | Copy_list upd \<Rightarrow> cow_copy t upd s
      | Reset_global upd b \<Rightarrow> cow_reset t upd b s
      | Check_unique upd \<Rightarrow> cow_check asserts t upd s
      | Push upd \<Rightarrow> cow_push t upd s)"

inductive cow_step :: "('l \<Rightarrow> 'e list) \<Rightarrow> bool \<Rightarrow> ('l, 'e) cow \<Rightarrow> ('l, 'e) cow \<Rightarrow> bool" for elems asserts where
  enter_traverse: "t < length (c_threads s) \<Longrightarrow> \<not> busy (c_threads s ! t) \<Longrightarrow> c_holder s = None \<Longrightarrow> cow_step elems asserts s (traverse t s)"
| enter_write: "t < length (c_threads s) \<Longrightarrow> w_pc (c_threads s ! t) = Outside \<Longrightarrow> c_holder s = None \<Longrightarrow>
    cow_step elems asserts s (cow_write t upd s)"
| advance: "t < length (c_threads s) \<Longrightarrow> busy (c_threads s ! t) \<Longrightarrow> cow_advance elems asserts t s = Inr s' \<Longrightarrow> cow_step elems asserts s s'"

inductive_cases cow_stepE [elim, consumes 1, case_names enter_traverse enter_write advance]: "cow_step elems asserts s s'"

section \<open>Invariant\<close>

definition owner :: "nat \<Rightarrow> ('l, 'e) cow_thread \<Rightarrow> bool" where
  "owner a w \<longleftrightarrow> w_ptr w = Some a \<or> (\<exists>upd. w_pc w = Reset_global upd a)"

lemma owns_eq_0: "owns a w = 0 \<longleftrightarrow> \<not> owner a w"
  by (auto simp: owns_def owner_def split: cow_pc.splits)

lemma use_count_eq_0: "use_count a s = 0 \<longleftrightarrow> c_global s \<noteq> Some a \<and> (\<forall>w \<in> set (c_threads s). \<not> owner a w)"
  by (auto simp: use_count_def owns_eq_0)

lemma unique_iff: "c_global s = Some g \<Longrightarrow> unique s \<longleftrightarrow> (\<forall>w \<in> set (c_threads s). \<not> owner g w)"
  by (auto simp: unique_def use_count_def owns_eq_0)

text \<open>What holds of a thread: its traversal, and what it knows at its position in a critical section.\<close>

definition reader_ok :: "('l \<Rightarrow> 'e list) \<Rightarrow> (nat \<rightharpoonup> 'l) \<Rightarrow> ('l, 'e) cow_thread \<Rightarrow> bool" where
  "reader_ok elems heap w \<longleftrightarrow> (\<forall>a. w_ptr w = Some a \<longrightarrow> heap a = Some (w_snap w)) \<and>
     (case w_iter w of None \<Rightarrow> w_pc w = Check_shared \<or> w_ptr w = None
      | Some i \<Rightarrow> w_ptr w \<noteq> None \<and> i \<le> length (elems (w_snap w)) \<and> w_seen w = take i (elems (w_snap w)))"

definition pc_ok :: "('l, 'e) cow \<Rightarrow> ('l, 'e) cow_thread \<Rightarrow> bool" where
  "pc_ok s w \<longleftrightarrow> (case w_pc w of
       Take_ptr \<Rightarrow> w_iter w = None
     | Check_shared \<Rightarrow> w_iter w = None \<and> w_ptr w = c_global s \<and> w_seen w = []
     | Reset_global _ b \<Rightarrow> c_heap s b = Some (c_spec s) \<and> c_global s \<noteq> Some b \<and> (\<forall>v \<in> set (c_threads s). w_ptr v \<noteq> Some b)
     | Check_unique _ \<Rightarrow> (\<forall>v \<in> set (c_threads s). w_ptr v \<noteq> c_global s)
     | Push _ \<Rightarrow> (\<forall>v \<in> set (c_threads s). w_ptr v \<noteq> c_global s)
     | _ \<Rightarrow> True)"

definition cow_inv :: "('l \<Rightarrow> 'e list) \<Rightarrow> ('l, 'e) cow \<Rightarrow> bool" where
  "cow_inv elems s \<longleftrightarrow> (\<exists>g. c_global s = Some g \<and> c_heap s g = Some (c_spec s)) \<and>
     (\<forall>a \<in> dom (c_heap s). a < c_fresh s \<and> use_count a s \<noteq> 0) \<and>
     (\<forall>t < length (c_threads s). c_holder s = Some t \<longleftrightarrow> w_pc (c_threads s ! t) \<noteq> Outside) \<and>
     (\<forall>w \<in> set (c_threads s). reader_ok elems (c_heap s) w \<and> pc_ok s w)"

lemma cow_invD:
  assumes "cow_inv elems s"
  shows "\<exists>g. c_global s = Some g \<and> c_heap s g = Some (c_spec s)"
    "c_heap s a = Some l \<Longrightarrow> a < c_fresh s \<and> use_count a s \<noteq> 0"
    "t < length (c_threads s) \<Longrightarrow> c_holder s = Some t \<longleftrightarrow> w_pc (c_threads s ! t) \<noteq> Outside"
    "w \<in> set (c_threads s) \<Longrightarrow> reader_ok elems (c_heap s) w" "w \<in> set (c_threads s) \<Longrightarrow> pc_ok s w"
  using assms unfolding cow_inv_def by blast+

lemma upd_thread_simps [simp]:
  "c_heap (upd_thread t f s) = c_heap s" "c_fresh (upd_thread t f s) = c_fresh s" "c_global (upd_thread t f s) = c_global s"
  "c_holder (upd_thread t f s) = c_holder s" "c_spec (upd_thread t f s) = c_spec s"
  "c_threads (upd_thread t f s) = (c_threads s)[t := f (c_threads s ! t)]"
  by (simp_all add: upd_thread_def)

lemma goto_simps [simp]:
  "c_heap (goto t pc s) = c_heap s" "c_fresh (goto t pc s) = c_fresh s" "c_global (goto t pc s) = c_global s"
  "c_holder (goto t pc s) = c_holder s" "c_spec (goto t pc s) = c_spec s"
  "c_threads (goto t pc s) = (c_threads s)[t := (c_threads s ! t)\<lparr>w_pc := pc\<rparr>]"
  by (simp_all add: goto_def)

lemma release_simps [simp]:
  "c_fresh (release a s) = c_fresh s" "c_global (release a s) = c_global s"
  "c_holder (release a s) = c_holder s" "c_spec (release a s) = c_spec s" "c_threads (release a s) = c_threads s"
  "use_count b (release a s) = use_count b s"
  by (simp_all add: release_def use_count_def)

lemma in_set_update: "t < length xs \<Longrightarrow> w \<in> set (xs[t := x]) \<longleftrightarrow> w = x \<or> (\<exists>u < length xs. u \<noteq> t \<and> w = xs ! u)"
  by (auto simp: in_set_conv_nth nth_list_update)

lemma ball_update: "t < length xs \<Longrightarrow> (\<forall>w \<in> set (xs[t := x]). P w) \<longleftrightarrow> P x \<and> (\<forall>u < length xs. u \<noteq> t \<longrightarrow> P (xs ! u))"
  by (metis in_set_update)

text \<open>One thread moves. What is left to show is the thread itself, the others, and that every container keeps an owner.\<close>

lemma cow_inv_move:
  assumes inv: "cow_inv elems s" and t: "t < length (c_threads s)" "c_threads s' = (c_threads s)[t := w']"
    and heap: "\<exists>g. c_global s' = Some g \<and> c_heap s' g = Some (c_spec s')" "\<And>a l. c_heap s' a = Some l \<Longrightarrow> a < c_fresh s' \<and> use_count a s' \<noteq> 0"
    and holder: "\<And>u. u < length (c_threads s) \<Longrightarrow> c_holder s' = Some u \<longleftrightarrow> w_pc ((c_threads s)[t := w'] ! u) \<noteq> Outside"
    and me: "reader_ok elems (c_heap s') w'" "pc_ok s' w'"
    and others: "\<And>u. u < length (c_threads s) \<Longrightarrow> u \<noteq> t \<Longrightarrow> reader_ok elems (c_heap s') (c_threads s ! u) \<and> pc_ok s' (c_threads s ! u)"
  shows "cow_inv elems s'"
  unfolding cow_inv_def using heap holder me others by (auto simp: t in_set_update)

text \<open>While a thread is inside, the others are outside.\<close>

lemma others_outside:
  assumes "cow_inv elems s" "c_holder s = None \<or> c_holder s = Some t" "u < length (c_threads s)" "u \<noteq> t"
  shows "w_pc (c_threads s ! u) = Outside"
  using cow_invD(3)[OF assms(1,3)] assms(2,4) by auto

lemma cow_inv_inside:
  assumes inv: "cow_inv elems s" and t: "t < length (c_threads s)" "c_threads s' = (c_threads s)[t := w']"
    and hold: "c_holder s = None \<or> c_holder s = Some t" "c_holder s' = (if w_pc w' = Outside then None else Some t)"
    and heap: "\<exists>g. c_global s' = Some g \<and> c_heap s' g = Some (c_spec s')" "\<And>a l. c_heap s' a = Some l \<Longrightarrow> a < c_fresh s' \<and> use_count a s' \<noteq> 0"
    and keep: "\<And>u a. u < length (c_threads s) \<Longrightarrow> u \<noteq> t \<Longrightarrow> w_ptr (c_threads s ! u) = Some a \<Longrightarrow> c_heap s' a = c_heap s a"
    and me: "reader_ok elems (c_heap s') w'" "pc_ok s' w'"
  shows "cow_inv elems s'"
proof (rule cow_inv_move[OF inv t heap _ me])
  fix u assume u: "u < length (c_threads s)"
  show "c_holder s' = Some u \<longleftrightarrow> w_pc ((c_threads s)[t := w'] ! u) \<noteq> Outside"
    using others_outside[OF inv hold(1) u] hold(2) u t(1) by (auto simp: nth_list_update)
  assume "u \<noteq> t"
  then show "reader_ok elems (c_heap s') (c_threads s ! u) \<and> pc_ok s' (c_threads s ! u)"
    using others_outside[OF inv hold(1) u] keep[OF u] cow_invD(4)[OF inv, of "c_threads s ! u"] u
    by (auto simp: reader_ok_def pc_ok_def)
qed

lemma live_move:
  assumes inv: "cow_inv elems s" "c_heap s a = Some l" and t: "t < length (c_threads s)" "c_threads s' = (c_threads s)[t := w']"
    and "c_global s = Some a \<or> owner a (c_threads s ! t) \<Longrightarrow> c_global s' = Some a \<or> owner a w'"
  shows "a < c_fresh s \<and> use_count a s' \<noteq> 0"
proof (cases "c_global s = Some a \<or> owner a (c_threads s ! t)")
  case True
  then show ?thesis using cow_invD(2)[OF inv] assms(5) t by (auto simp: use_count_eq_0 in_set_update)
next
  case False
  then obtain w where "w \<in> set (c_threads s)" "owner a w" using cow_invD(2)[OF inv] by (auto simp: use_count_eq_0)
  then obtain u where "u < length (c_threads s)" "owner a (c_threads s ! u)" by (auto simp: in_set_conv_nth)
  moreover from this False have "u \<noteq> t" by auto
  ultimately show ?thesis using cow_invD(2)[OF inv] t by (auto simp: use_count_eq_0 ball_update)
qed

section \<open>Every step succeeds and keeps the invariant\<close>

text \<open>Moving to a position at which the thread owns what it owned before.\<close>

lemma cow_inv_goto:
  assumes inv: "cow_inv elems s" and t: "t < length (c_threads s)" "c_holder s = None \<or> c_holder s = Some t"
    and old: "\<And>upd b. w_pc (c_threads s ! t) \<noteq> Reset_global upd b" "w_pc (c_threads s ! t) \<noteq> Check_shared"
    and s': "s' = (goto t pc s)\<lparr>c_holder := if pc = Outside then None else Some t\<rparr>" and ok: "pc_ok s' ((c_threads s ! t)\<lparr>w_pc := pc\<rparr>)"
  shows "cow_inv elems s'"
proof (rule cow_inv_inside[OF inv t(1)])
  show "c_threads s' = (c_threads s)[t := (c_threads s ! t)\<lparr>w_pc := pc\<rparr>]" by (simp add: s')
  show "a < c_fresh s' \<and> use_count a s' \<noteq> 0" if "c_heap s' a = Some l" for a l
  proof -
    have "a < c_fresh s \<and> use_count a s' \<noteq> 0"
      by (rule live_move[OF inv _ t(1)]) (use that old in \<open>auto simp: s' owner_def\<close>)
    then show ?thesis by (simp add: s')
  qed
  show "reader_ok elems (c_heap s') ((c_threads s ! t)\<lparr>w_pc := pc\<rparr>)"
    using cow_invD(4)[OF inv, of "c_threads s ! t"] t(1) old(2) by (auto simp: s' reader_ok_def split: option.splits)
qed (use t ok cow_invD(1)[OF inv] in \<open>auto simp: s'\<close>)

lemma traverse_copy_ok:
  assumes inv: "cow_inv elems s" and t: "t < length (c_threads s)" "w_pc (c_threads s ! t) = Take_ptr"
  shows "\<exists>s'. traverse_copy t s = Inr s' \<and> cow_inv elems s'"
proof -
  define w' where "w' = (c_threads s ! t)\<lparr>w_pc := Check_shared, w_ptr := c_global s, w_snap := c_spec s, w_seen := []\<rparr>"
  define s' where "s' = s\<lparr>c_threads := (c_threads s)[t := w']\<rparr>"
  obtain g where g: "c_global s = Some g" "c_heap s g = Some (c_spec s)" using cow_invD(1)[OF inv] by blast
  have w: "reader_ok elems (c_heap s) (c_threads s ! t)" "pc_ok s (c_threads s ! t)" using cow_invD(4,5)[OF inv] t(1) by auto
  have "cow_inv elems s'"
  proof (rule cow_inv_inside[OF inv t(1)])
    show "a < c_fresh s' \<and> use_count a s' \<noteq> 0" if "c_heap s' a = Some l" for a l
      using live_move[OF inv, of a l t s' w'] that t w by (auto simp: s'_def owner_def reader_ok_def pc_ok_def)
  qed (use t g w cow_invD(3)[OF inv t(1)] in \<open>auto simp: s'_def w'_def reader_ok_def pc_ok_def\<close>)
  then show ?thesis by (simp add: traverse_copy_def upd_thread_def s'_def w'_def)
qed

lemma traverse_check_ok:
  assumes inv: "cow_inv elems s" and t: "t < length (c_threads s)" "w_pc (c_threads s ! t) = Check_shared"
  shows "\<exists>s'. traverse_check asserts t s = Inr s' \<and> cow_inv elems s'"
proof -
  define w' where "w' = (c_threads s ! t)\<lparr>w_pc := Outside, w_iter := Some 0\<rparr>"
  define s' where "s' = s\<lparr>c_threads := (c_threads s)[t := w'], c_holder := None\<rparr>"
  have w: "reader_ok elems (c_heap s) (c_threads s ! t)" "w_ptr (c_threads s ! t) = c_global s" "w_seen (c_threads s ! t) = []"
    using cow_invD(4,5)[OF inv, of "c_threads s ! t"] t by (auto simp: pc_ok_def)
  obtain g where g: "c_global s = Some g" "c_heap s g = Some (c_spec s)" using cow_invD(1)[OF inv] by blast
  have "cow_inv elems s'"
  proof (rule cow_inv_inside[OF inv t(1)])
    show "a < c_fresh s' \<and> use_count a s' \<noteq> 0" if "c_heap s' a = Some l" for a l
      using live_move[OF inv, of a l t s' w'] that t w by (auto simp: s'_def w'_def owner_def)
  qed (use t g w cow_invD(3)[OF inv t(1)] in \<open>auto simp: s'_def w'_def reader_ok_def pc_ok_def\<close>)
  moreover have "\<not> unique s" using w(2) g(1) t(1) by (auto simp: unique_iff owner_def)
  ultimately show ?thesis by (simp add: traverse_check_def upd_thread_def s'_def w'_def)
qed

lemma cow_test_ok:
  assumes inv: "cow_inv elems s" and t: "t < length (c_threads s)" "w_pc (c_threads s ! t) = Test_unique upd"
  shows "\<exists>s'. cow_test t upd s = Inr s' \<and> cow_inv elems s'"
proof -
  let ?pc = "if \<not> unique s then Copy_list upd else Check_unique upd"
  obtain g where g: "c_global s = Some g" using cow_invD(1)[OF inv] by blast
  have h: "c_holder s = Some t" using cow_invD(3)[OF inv t(1)] t(2) by simp
  have "cow_inv elems ((goto t ?pc s)\<lparr>c_holder := if ?pc = Outside then None else Some t\<rparr>)"
    by (rule cow_inv_goto[OF inv t(1) _ _ _ refl])
      (use t h g unique_iff[OF g] in \<open>auto simp: pc_ok_def in_set_update owner_def\<close>)
  moreover have "(goto t ?pc s)\<lparr>c_holder := if ?pc = Outside then None else Some t\<rparr> = goto t ?pc s" using h by (simp add: goto_def upd_thread_def)
  ultimately show ?thesis by (simp add: cow_test_def)
qed

lemma heap_fresh: "cow_inv elems s \<Longrightarrow> c_heap s (c_fresh s) = None"
  using cow_invD(2)[of elems s "c_fresh s"] by (cases "c_heap s (c_fresh s)") auto

lemma ptr_in_heap: "cow_inv elems s \<Longrightarrow> w \<in> set (c_threads s) \<Longrightarrow> w_ptr w = Some a \<Longrightarrow> c_heap s a = Some (w_snap w)"
  by (drule (1) cow_invD(4)) (simp add: reader_ok_def)

lemma cow_copy_ok:
  assumes inv: "cow_inv elems s" and t: "t < length (c_threads s)" "w_pc (c_threads s ! t) = Copy_list upd"
  shows "\<exists>s'. cow_copy t upd s = Inr s' \<and> cow_inv elems s'"
proof -
  define w' where "w' = (c_threads s ! t)\<lparr>w_pc := Reset_global upd (c_fresh s)\<rparr>"
  define s' where "s' = s\<lparr>c_threads := (c_threads s)[t := w'], c_heap := (c_heap s)(c_fresh s \<mapsto> c_spec s), c_fresh := Suc (c_fresh s)\<rparr>"
  obtain g where g: "c_global s = Some g" "c_heap s g = Some (c_spec s)" using cow_invD(1)[OF inv] by blast
  have fresh: "g \<noteq> c_fresh s" using g(2) heap_fresh[OF inv] by auto
  have unseen: "w_ptr v \<noteq> Some (c_fresh s)" if "v \<in> set (c_threads s)" for v
    using heap_fresh[OF inv] ptr_in_heap[OF inv that] by auto
  have w: "reader_ok elems (c_heap s) (c_threads s ! t)" "c_threads s ! t \<in> set (c_threads s)" using cow_invD(4)[OF inv] t(1) by auto
  have "cow_inv elems s'"
  proof (rule cow_inv_inside[OF inv t(1)])
    show "a < c_fresh s' \<and> use_count a s' \<noteq> 0" if "c_heap s' a = Some l" for a l
    proof (cases "a = c_fresh s")
      case True
      then show ?thesis using t(1) by (auto simp: s'_def use_count_eq_0 ball_update owner_def w'_def)
    next
      case False
      have "a < c_fresh s \<and> use_count a s' \<noteq> 0"
        by (rule live_move[OF inv _ t(1)]) (use that False t in \<open>auto simp: s'_def w'_def owner_def\<close>)
      then show ?thesis by (simp add: s'_def)
    qed
    show "pc_ok s' w'" using fresh unseen w(2) g t(1) by (auto simp: s'_def w'_def pc_ok_def ball_update)
    show "c_heap s' a = c_heap s a" if "u < length (c_threads s)" "w_ptr (c_threads s ! u) = Some a" for u a
      using unseen[of "c_threads s ! u"] that by (auto simp: s'_def)
    show "reader_ok elems (c_heap s') w'" using w unseen[OF w(2)] t(2) by (auto simp: s'_def w'_def reader_ok_def split: option.splits)
  qed (use t g fresh cow_invD(3)[OF inv t(1)] in \<open>auto simp: s'_def w'_def\<close>)
  then show ?thesis using g by (simp add: cow_copy_def deref_def goto_def upd_thread_def s'_def w'_def)
qed

text \<open>The reset may delete the old container, when its last reader has left since the test.\<close>

lemma cow_reset_ok:
  assumes inv: "cow_inv elems s" and t: "t < length (c_threads s)" "w_pc (c_threads s ! t) = Reset_global upd b"
  shows "\<exists>s'. cow_reset t upd b s = Inr s' \<and> cow_inv elems s'"
proof -
  define w' where "w' = (c_threads s ! t)\<lparr>w_pc := Check_unique upd\<rparr>"
  define s1 where "s1 = s\<lparr>c_threads := (c_threads s)[t := w'], c_global := Some b\<rparr>"
  obtain g where g: "c_global s = Some g" "c_heap s g = Some (c_spec s)" using cow_invD(1)[OF inv] by blast
  have b: "c_heap s b = Some (c_spec s)" "g \<noteq> b" "v \<in> set (c_threads s) \<Longrightarrow> w_ptr v \<noteq> Some b" for v
    using cow_invD(5)[OF inv, of "c_threads s ! t"] t g by (auto simp: pc_ok_def)
  have w: "reader_ok elems (c_heap s) (c_threads s ! t)" "c_threads s ! t \<in> set (c_threads s)" using cow_invD(4)[OF inv] t(1) by auto
  have heap: "c_heap (release g s1) a = (if a = g \<and> use_count g s1 = 0 then None else c_heap s a)" for a
    by (auto simp: release_def s1_def)
  have fresh: "c_fresh s1 = c_fresh s" by (simp add: s1_def)
  have live: "c_heap (release g s1) a = c_heap s a" if "u < length (c_threads s)" "w_ptr (c_threads s ! u) = Some a" for u a
  proof -
    have "use_count a s1 \<noteq> 0" using that t(1) by (cases "u = t") (auto simp: use_count_eq_0 s1_def ball_update owner_def w'_def)
    then show ?thesis by (auto simp: heap)
  qed
  have "cow_inv elems (release g s1)"
  proof (rule cow_inv_inside[OF inv t(1)])
    show "a < c_fresh (release g s1) \<and> use_count a (release g s1) \<noteq> 0" if "c_heap (release g s1) a = Some l" for a l
    proof (cases "a = g")
      case False
      have l: "c_heap s a = Some l" using that False by (simp add: heap)
      have "a < c_fresh s \<and> use_count a s1 \<noteq> 0"
        by (rule live_move[OF inv l t(1)]) (use False t g in \<open>auto simp: s1_def w'_def owner_def\<close>)
      then show ?thesis by (simp add: s1_def)
    qed (use that cow_invD(2)[OF inv g(2)] fresh in \<open>auto simp: heap split: if_splits\<close>)
    show "reader_ok elems (c_heap (release g s1)) w'" using w live[OF t(1)] t(2) by (auto simp: w'_def reader_ok_def split: option.splits)
    show "c_heap (release g s1) a = c_heap s a" if "u < length (c_threads s)" "w_ptr (c_threads s ! u) = Some a" for u a
      by (rule live[OF that])
    show "pc_ok (release g s1) w'" using b(3) w(2) t(1) by (auto simp: pc_ok_def w'_def s1_def ball_update)
  qed (use t b heap cow_invD(3)[OF inv t(1)] in \<open>auto simp: s1_def w'_def\<close>)
  then show ?thesis using g by (simp add: cow_reset_def goto_def upd_thread_def s1_def w'_def)
qed

text \<open>The writer is alone with the container.\<close>

lemma alone_unique:
  assumes inv: "cow_inv elems s" and alone: "\<forall>v \<in> set (c_threads s). w_ptr v \<noteq> c_global s"
  shows "unique s"
proof -
  obtain g where g: "c_global s = Some g" using cow_invD(1)[OF inv] by blast
  have "w_pc w \<noteq> Reset_global upd g" if "w \<in> set (c_threads s)" for w upd
    using cow_invD(5)[OF inv that] g by (auto simp: pc_ok_def)
  then show ?thesis using alone g by (auto simp: unique_iff owner_def)
qed

lemma cow_check_ok:
  assumes inv: "cow_inv elems s" and t: "t < length (c_threads s)" "w_pc (c_threads s ! t) = Check_unique upd"
  shows "\<exists>s'. cow_check asserts t upd s = Inr s' \<and> cow_inv elems s'"
proof -
  have alone: "\<forall>v \<in> set (c_threads s). w_ptr v \<noteq> c_global s" using cow_invD(5)[OF inv, of "c_threads s ! t"] t by (auto simp: pc_ok_def)
  have h: "c_holder s = Some t" using cow_invD(3)[OF inv t(1)] t(2) by simp
  have "cow_inv elems ((goto t (Push upd) s)\<lparr>c_holder := if Push upd = Outside then None else Some t\<rparr>)"
    by (rule cow_inv_goto[OF inv t(1) _ _ _ refl]) (use t h alone in \<open>auto simp: pc_ok_def ball_update\<close>)
  moreover have "(goto t (Push upd) s)\<lparr>c_holder := if Push upd = Outside then None else Some t\<rparr> = goto t (Push upd) s"
    using h by (simp add: goto_def upd_thread_def)
  ultimately show ?thesis using alone_unique[OF inv alone] by (simp add: cow_check_def)
qed

lemma cow_push_ok:
  assumes inv: "cow_inv elems s" and t: "t < length (c_threads s)" "w_pc (c_threads s ! t) = Push upd"
  shows "\<exists>s'. cow_push t upd s = Inr s' \<and> cow_inv elems s' \<and> c_spec s' = upd (c_spec s)"
proof -
  define w' where "w' = (c_threads s ! t)\<lparr>w_pc := Outside\<rparr>"
  obtain g where g: "c_global s = Some g" "c_heap s g = Some (c_spec s)" using cow_invD(1)[OF inv] by blast
  define s' where "s' = s\<lparr>c_threads := (c_threads s)[t := w'], c_heap := (c_heap s)(g \<mapsto> upd (c_spec s)), c_spec := upd (c_spec s), c_holder := None\<rparr>"
  have alone: "w_ptr v \<noteq> Some g" if "v \<in> set (c_threads s)" for v
    using cow_invD(5)[OF inv, of "c_threads s ! t"] t g that by (auto simp: pc_ok_def)
  have w: "reader_ok elems (c_heap s) (c_threads s ! t)" "c_threads s ! t \<in> set (c_threads s)" using cow_invD(4)[OF inv] t(1) by auto
  have "cow_inv elems s'"
  proof (rule cow_inv_inside[OF inv t(1)])
    show "a < c_fresh s' \<and> use_count a s' \<noteq> 0" if "c_heap s' a = Some l" for a l
    proof -
      from that g(2) obtain l' where l': "c_heap s a = Some l'" by (auto simp: s'_def split: if_splits)
      have "a < c_fresh s \<and> use_count a s' \<noteq> 0"
        by (rule live_move[OF inv l' t(1)]) (use t in \<open>auto simp: s'_def w'_def owner_def\<close>)
      then show ?thesis by (simp add: s'_def)
    qed
    show "c_heap s' a = c_heap s a" if "u < length (c_threads s)" "w_ptr (c_threads s ! u) = Some a" for u a
      using alone[of "c_threads s ! u"] that by (auto simp: s'_def)
    show "reader_ok elems (c_heap s') w'" using w alone[OF w(2)] t(2) by (auto simp: s'_def w'_def reader_ok_def split: option.splits)
  qed (use t g cow_invD(3)[OF inv t(1)] in \<open>auto simp: s'_def w'_def pc_ok_def\<close>)
  then show ?thesis using g by (intro exI[of _ s']) (simp add: cow_push_def deref_def goto_def upd_thread_def s'_def w'_def)
qed

text \<open>A turn of the loop, which needs no mutex. A container is deleted when its last pointer goes, which cannot be
  the shared one, nor one a writer is about to share.\<close>

lemma visit_next_ok:
  assumes inv: "cow_inv elems s" and t: "t < length (c_threads s)" "w_pc (c_threads s ! t) = Outside" "w_ptr (c_threads s ! t) = Some a"
    and i: "i < length (elems l)" "l = w_snap (c_threads s ! t)" "w_seen (c_threads s ! t) = take i (elems l)"
  shows "cow_inv elems (upd_thread t (\<lambda>w. w\<lparr>w_iter := Some (Suc i), w_seen := w_seen w @ [elems l ! i]\<rparr>) s)" (is "cow_inv elems ?s")
proof (rule cow_inv_move[OF inv t(1) upd_thread_simps(6)])
  let ?w = "(c_threads s ! t)\<lparr>w_iter := Some (Suc i), w_seen := w_seen (c_threads s ! t) @ [elems l ! i]\<rparr>"
  show "b < c_fresh ?s \<and> use_count b ?s \<noteq> 0" if "c_heap ?s b = Some k" for b k
  proof -
    have "b < c_fresh s \<and> use_count b ?s \<noteq> 0"
      by (rule live_move[OF inv _ t(1) upd_thread_simps(6)]) (use that t in \<open>auto simp: owner_def\<close>)
    then show ?thesis by simp
  qed
  show "reader_ok elems (c_heap ?s) ?w"
    using cow_invD(4)[OF inv, of "c_threads s ! t"] t i by (auto simp: reader_ok_def take_Suc_conv_app_nth)
  show "reader_ok elems (c_heap ?s) (c_threads s ! u) \<and> pc_ok ?s (c_threads s ! u)" if "u < length (c_threads s)" for u
    using that cow_invD(4,5)[OF inv, of "c_threads s ! u"] t(1) by (auto simp: pc_ok_def ball_update split: cow_pc.splits)
qed (use cow_invD[OF inv] t in \<open>auto simp: pc_ok_def nth_list_update\<close>)

lemma visit_last_ok:
  assumes inv: "cow_inv elems s" and t: "t < length (c_threads s)" "w_pc (c_threads s ! t) = Outside" "w_ptr (c_threads s ! t) = Some a"
  shows "cow_inv elems (release a (upd_thread t (\<lambda>w. w\<lparr>w_ptr := None, w_iter := None\<rparr>) s))"
proof -
  define w' where "w' = (c_threads s ! t)\<lparr>w_ptr := None, w_iter := None\<rparr>"
  define s1 where "s1 = s\<lparr>c_threads := (c_threads s)[t := w']\<rparr>"
  have heap: "c_heap (release a s1) b = (if b = a \<and> use_count a s1 = 0 then None else c_heap s b)" for b
    by (auto simp: release_def s1_def)
  have owned: "use_count b s1 \<noteq> 0" if "c_global s = Some b \<or> (\<exists>u < length (c_threads s). u \<noteq> t \<and> owner b (c_threads s ! u))" for b
    using that t(1) by (auto simp: use_count_eq_0 s1_def ball_update)
  have fresh: "c_fresh s1 = c_fresh s" by (simp add: s1_def)
  have kept: "c_heap (release a s1) b = c_heap s b" if "use_count b s1 \<noteq> 0" for b using that by (auto simp: heap)
  have "cow_inv elems (release a s1)"
  proof (rule cow_inv_move[OF inv t(1)])
    show "\<exists>g. c_global (release a s1) = Some g \<and> c_heap (release a s1) g = Some (c_spec (release a s1))"
      using cow_invD(1)[OF inv] kept owned by (fastforce simp: s1_def)
    show "b < c_fresh (release a s1) \<and> use_count b (release a s1) \<noteq> 0" if "c_heap (release a s1) b = Some l" for b l
    proof (cases "b = a")
      case True
      then show ?thesis using that cow_invD(2)[OF inv, of a l] fresh by (auto simp: heap split: if_splits)
    next
      case False
      have l: "c_heap s b = Some l" using that False by (simp add: heap)
      have "b < c_fresh s \<and> use_count b s1 \<noteq> 0"
        by (rule live_move[OF inv l t(1)]) (use False t in \<open>auto simp: s1_def w'_def owner_def\<close>)
      then show ?thesis by (simp add: s1_def)
    qed
    fix u assume u: "u < length (c_threads s)"
    show "c_holder (release a s1) = Some u \<longleftrightarrow> w_pc ((c_threads s)[t := w'] ! u) \<noteq> Outside"
      using cow_invD(3)[OF inv u] t u by (auto simp: s1_def w'_def nth_list_update)
    assume "u \<noteq> t"
    then have "c_heap (release a s1) b = c_heap s b" if "owner b (c_threads s ! u)" for b using kept owned u that by blast
    then show "reader_ok elems (c_heap (release a s1)) (c_threads s ! u) \<and> pc_ok (release a s1) (c_threads s ! u)"
      using cow_invD(4,5)[OF inv, of "c_threads s ! u"] u t(1) cow_invD(1)[OF inv]
      by (auto simp: reader_ok_def pc_ok_def owner_def s1_def w'_def ball_update split: cow_pc.splits)
  qed (use t in \<open>auto simp: s1_def w'_def reader_ok_def pc_ok_def\<close>)
  then show ?thesis by (simp add: upd_thread_def s1_def w'_def)
qed

lemma traverse_visit_ok:
  assumes inv: "cow_inv elems s" and t: "t < length (c_threads s)" "w_pc (c_threads s ! t) = Outside" "w_iter (c_threads s ! t) = Some i"
  shows "\<exists>s'. traverse_visit elems i t s = Inr s' \<and> cow_inv elems s'"
proof -
  let ?w = "c_threads s ! t"
  have "reader_ok elems (c_heap s) ?w" using cow_invD(4)[OF inv] t(1) by simp
  then obtain a where a: "w_ptr ?w = Some a" "c_heap s a = Some (w_snap ?w)" "w_seen ?w = take i (elems (w_snap ?w))"
    using t(3) by (auto simp: reader_ok_def)
  then show ?thesis using visit_next_ok[OF inv t(1,2) a(1) _ refl a(3)] visit_last_ok[OF inv t(1,2) a(1)]
    by (simp add: traverse_visit_def deref_def)
qed

section \<open>What readers and writers see\<close>

lemma cow_inv_init: "cow_inv elems (cow_init l n)"
  by (simp add: cow_inv_def cow_init_def cow_null_def reader_ok_def pc_ok_def use_count_def)

lemma cow_advance_ok:
  assumes "cow_inv elems s" "t < length (c_threads s)" "busy (c_threads s ! t)"
  shows "\<exists>s'. cow_advance elems asserts t s = Inr s' \<and> cow_inv elems s'"
  using traverse_visit_ok[OF assms(1,2)] traverse_copy_ok[OF assms(1,2)] traverse_check_ok[OF assms(1,2)]
    cow_test_ok[OF assms(1,2)] cow_copy_ok[OF assms(1,2)] cow_reset_ok[OF assms(1,2)] cow_check_ok[OF assms(1,2)]
    cow_push_ok[OF assms(1,2)] assms(3)
  by (cases "w_pc (c_threads s ! t)") (auto simp: cow_advance_def busy_def)

lemma cow_step_inv:
  assumes "cow_step elems asserts s s'" "cow_inv elems s"
  shows "cow_inv elems s'"
  using assms(1)
proof (cases rule: cow_stepE)
  case (enter_traverse t)
  have "cow_inv elems ((goto t Take_ptr s)\<lparr>c_holder := if Take_ptr = (Outside :: 'a cow_pc) then None else Some t\<rparr>)"
    by (rule cow_inv_goto[OF assms(2) enter_traverse(2) _ _ _ refl]) (use enter_traverse in \<open>auto simp: busy_def pc_ok_def\<close>)
  then show ?thesis by (simp add: enter_traverse(1) traverse_def)
next
  case (enter_write t upd)
  have "cow_inv elems ((goto t (Test_unique upd) s)\<lparr>c_holder := if Test_unique upd = Outside then None else Some t\<rparr>)"
    by (rule cow_inv_goto[OF assms(2) enter_write(2) _ _ _ refl]) (use enter_write in \<open>auto simp: pc_ok_def\<close>)
  then show ?thesis by (simp add: enter_write(1) cow_write_def)
next
  case (advance t)
  then show ?thesis using cow_advance_ok[OF assms(2), of t asserts] by auto
qed

interpretation cow: transition_system "cow_step elems asserts" "cow_inv elems" for elems :: "'l \<Rightarrow> 'e list" and asserts
  by unfold_locales (rule cow_step_inv)

lemma cow_advance_spec:
  "cow_advance elems asserts t s = Inr s' \<Longrightarrow>
    c_spec s' = (case w_pc (c_threads s ! t) of Push upd \<Rightarrow> upd (c_spec s) | _ \<Rightarrow> c_spec s)"
  by (cases "w_pc (c_threads s ! t)")
    (auto simp: cow_advance_def traverse_visit_def traverse_copy_def traverse_check_def cow_test_def cow_copy_def cow_reset_def
      cow_check_def cow_push_def deref_def Let_def split: option.splits if_splits)

text \<open>
  C14: Readers see snapshots. Let a program first set \<^verbatim>\<open>g_foos\<close> to a container, and let any number of threads then
  read and write it, each of their accesses a step of its own and the steps interleaved in any way. In every state
  that is reached the shared container exists and has the value of all writes so far; a traversal has visited,
  in order, a part of the container as it was when the traversal began, whatever was written since, and its
  container still exists; the next step of every thread inside a critical section or a traversal succeeds, so that both
  assertions on \<^verbatim>\<open>unique()\<close> hold when they are reached and no deleted container is touched, in \<^verbatim>\<open>post\<close> and
  \<^verbatim>\<open>traverse\<close> and in the \<^verbatim>\<open>Inventory\<close>, which asserts nothing, alike; a write has its effect in its last step and
  no other step changes the shared value; and no container is left to which nobody points, also when the last
  reader goes between the test and the reset of a writer.
\<close>

theorem cow_readers_see_snapshots:
  assumes "(cow_step elems asserts)\<^sup>*\<^sup>* (cow_init l n) s"
  shows "(\<exists>g. c_global s = Some g \<and> c_heap s g = Some (c_spec s)) \<and> (\<forall>a \<in> dom (c_heap s). use_count a s \<noteq> 0) \<and>
    (\<forall>t < length (c_threads s). let w = c_threads s ! t in
       (case w_iter w of None \<Rightarrow> True | Some i \<Rightarrow>
          \<exists>a. w_ptr w = Some a \<and> c_heap s a = Some (w_snap w) \<and> i \<le> length (elems (w_snap w)) \<and> w_seen w = take i (elems (w_snap w))) \<and>
       (busy w \<longrightarrow> (\<exists>s'. cow_advance elems asserts t s = Inr s' \<and>
          c_spec s' = (case w_pc w of Push upd \<Rightarrow> upd (c_spec s) | _ \<Rightarrow> c_spec s))))"
proof -
  have inv: "cow_inv elems s" using cow.run_keeps[OF assms cow_inv_init] .
  have "\<exists>s'. cow_advance elems asserts t s = Inr s' \<and> c_spec s' = (case w_pc (c_threads s ! t) of Push upd \<Rightarrow> upd (c_spec s) | _ \<Rightarrow> c_spec s)"
    if "t < length (c_threads s)" "busy (c_threads s ! t)" for t
    using cow_advance_ok[OF inv that, of asserts] cow_advance_spec by blast
  moreover have "\<exists>a. w_ptr (c_threads s ! t) = Some a \<and> c_heap s a = Some (w_snap (c_threads s ! t)) \<and>
      i \<le> length (elems (w_snap (c_threads s ! t))) \<and> w_seen (c_threads s ! t) = take i (elems (w_snap (c_threads s ! t)))"
    if "t < length (c_threads s)" "w_iter (c_threads s ! t) = Some i" for t i
    using cow_invD(4)[OF inv, of "c_threads s ! t"] that by (auto simp: reader_ok_def)
  ultimately show ?thesis using cow_invD(1,2)[OF inv] by (auto simp: Let_def split: option.splits)
qed

text \<open>A schedule of the threads, and a run in which the reader finishes between the test and the reset of the
  writer: the reset deletes the container that was read.\<close>

definition cow_schedule :: "('l \<Rightarrow> 'e list) \<Rightarrow> bool \<Rightarrow> nat list \<Rightarrow> ('l, 'e) cow \<Rightarrow> ('l, 'e) cow res" where
  "cow_schedule elems asserts ts s =
     res_fold (\<lambda>t s. if t < length (c_threads s) \<and> busy (c_threads s ! t) then cow_advance elems asserts t s else Inr s) ts s"

lemma cow_schedule_steps: "cow_schedule elems asserts ts s = Inr s' \<Longrightarrow> (cow_step elems asserts)\<^sup>*\<^sup>* s s'"
proof (induction ts arbitrary: s)
  case (Cons t ts)
  then show ?case
    by (auto simp: cow_schedule_def res_bind_Inr split: if_splits intro: converse_rtranclp_into_rtranclp cow_step.advance)
qed (simp add: cow_schedule_def)

lemmas cow_eval = cow_init_def cow_null_def traverse_def cow_write_def post_def cow_advance_def busy_def traverse_copy_def traverse_check_def
  traverse_visit_def cow_test_def cow_copy_def cow_reset_def cow_check_def cow_push_def deref_def goto_def upd_thread_def
  unique_def use_count_def owns_def release_def push_back_def cow_schedule_def Let_def

definition cow_reading :: "(nat list, nat) cow" where
  "cow_reading = projr (cow_schedule id True [0, 0, 0] (traverse 0 (cow_init [5] 2)))"

definition cow_written :: "(nat list, nat) cow" where
  "cow_written = projr (cow_schedule id True [1, 1, 0, 1, 1, 1] (post 1 7 cow_reading))"

lemma cow_reading_eq: "cow_schedule id True [0, 0, 0] (traverse 0 (cow_init [5] 2)) = Inr cow_reading"
  "cow_reading = \<lparr>c_heap = [0 \<mapsto> [5]], c_fresh = 1, c_global = Some 0, c_holder = None,
     c_threads = [\<lparr>w_pc = Outside, w_ptr = Some 0, w_iter = Some 1, w_snap = [5], w_seen = [5]\<rparr>,
       \<lparr>w_pc = Outside, w_ptr = None, w_iter = None, w_snap = [5], w_seen = []\<rparr>], c_spec = [5]\<rparr>"
  by (simp_all add: cow_reading_def cow_eval numeral_2_eq_2)

lemma cow_written_eq: "cow_schedule id True [1, 1, 0, 1, 1, 1] (post 1 7 cow_reading) = Inr cow_written"
  "cow_written = \<lparr>c_heap = [1 \<mapsto> [5, 7]], c_fresh = 2, c_global = Some 1, c_holder = None,
     c_threads = [\<lparr>w_pc = Outside, w_ptr = None, w_iter = None, w_snap = [5], w_seen = [5]\<rparr>,
       \<lparr>w_pc = Outside, w_ptr = None, w_iter = None, w_snap = [5], w_seen = []\<rparr>], c_spec = [5, 7]\<rparr>"
  by (auto simp: cow_written_def cow_reading_eq(2) cow_eval numeral_2_eq_2)

lemma cow_written_reachable: "(cow_step id True)\<^sup>*\<^sup>* (cow_init [5] 2) cow_written"
proof -
  have "cow_step id True (cow_init [5] 2) (traverse 0 (cow_init [5] 2 :: (nat list, nat) cow))"
    by (rule cow_step.enter_traverse) (simp_all add: cow_eval)
  moreover have "cow_step id True cow_reading (post 1 7 cow_reading)"
    unfolding post_def by (rule cow_step.enter_write) (simp_all add: cow_reading_eq(2))
  ultimately show ?thesis
    using cow_schedule_steps[OF cow_reading_eq(1)] cow_schedule_steps[OF cow_written_eq(1)]
    by (meson converse_rtranclp_into_rtranclp rtranclp_trans)
qed

theorem cow_readers_see_snapshots_witness:
  "(\<exists>g. c_global cow_written = Some g \<and> c_heap cow_written g = Some [5, 7]) \<and> c_heap cow_written 0 = None \<and>
   w_seen (c_threads cow_written ! 0) = [5] \<and> w_snap (c_threads cow_written ! 0) = [5]"
  using cow_readers_see_snapshots[OF cow_written_reachable] by (simp add: cow_written_eq(2))

text \<open>
  In the file itself nothing sets \<^verbatim>\<open>g_foos\<close>: it is null, \<^verbatim>\<open>unique()\<close> is false for it, and the first \<^verbatim>\<open>post\<close> copies
  what a null pointer points to; a \<^verbatim>\<open>traverse\<close> dereferences its copy of the null pointer.
\<close>

theorem g_foos_is_never_set:
  "0 < n \<Longrightarrow> cow_schedule id True [0, 0] (post 0 f (cow_null [] n)) = Inl (Null_pointer ''g_foos'') \<and>
     cow_schedule elems True [0, 0, 0] (traverse 0 (cow_null l n)) = Inl (Null_pointer ''foos'')"
  by (cases n) (simp_all add: cow_eval)

section \<open>Requests in the inventory\<close>

text \<open>
  The last version (\<^verbatim>\<open>ch2/2.8.2.cpp\<close>): the inventory holds \<^verbatim>\<open>shared_ptr\<close>s, and \<^verbatim>\<open>~Request\<close> takes the request
  out with \<^verbatim>\<open>shared_from_this\<close>. \<open>rq_strong\<close> counts the pointers outside of the inventory.
\<close>

record requests =
  rq_strong :: "nat \<Rightarrow> nat"
  rq_inventory :: "nat set"

datatype request_event = New_request nat | Copy_ptr nat | Process nat | Drop_ptr nat

definition Request_process :: "nat \<Rightarrow> requests \<Rightarrow> requests" where
  "Request_process r s = s\<lparr>rq_inventory := insert r (rq_inventory s)\<rparr>"

text \<open>No \<^verbatim>\<open>shared_ptr\<close> owns an object whose destructor runs, so that \<^verbatim>\<open>shared_from_this\<close> throws, and
  an exception out of a destructor ends the process; what follows the call is not reached.\<close>

definition Request_dtor :: "nat \<Rightarrow> requests \<Rightarrow> requests res" where
  "Request_dtor r s =
     (if rq_strong s r + (if r \<in> rq_inventory s then 1 else 0) = 0 then Inl (Abort ''bad_weak_ptr'')
      else Inr (s\<lparr>rq_inventory := rq_inventory s - {r}\<rparr>))"

text \<open>Events on pointers nobody has are no events.\<close>

fun request_step :: "request_event \<Rightarrow> requests \<Rightarrow> requests res" where
  "request_step (New_request r) s = Inr (if rq_strong s r = 0 \<and> r \<notin> rq_inventory s then s\<lparr>rq_strong := (rq_strong s)(r := 1)\<rparr> else s)"
| "request_step (Copy_ptr r) s = Inr (if 0 < rq_strong s r then s\<lparr>rq_strong := (rq_strong s)(r := Suc (rq_strong s r))\<rparr> else s)"
| "request_step (Process r) s = Inr (if 0 < rq_strong s r then Request_process r s else s)"
| "request_step (Drop_ptr r) s =
     (if 0 < rq_strong s r then
        (let s1 = s\<lparr>rq_strong := (rq_strong s)(r := rq_strong s r - 1)\<rparr>
         in if rq_strong s1 r = 0 \<and> r \<notin> rq_inventory s1 then Request_dtor r s1 else Inr s1)
      else Inr s)"

lemma request_step_keeps: "request_step e s = Inr s' \<Longrightarrow> rq_inventory s \<subseteq> rq_inventory s'"
  by (cases e) (auto simp: Request_process_def Request_dtor_def Let_def split: if_splits)

text \<open>
  The last version trades the race for a leak: a request that was ever processed stays in the
  inventory, which owns it, for ever, since only its destructor would take it out; and the destructor of
  a request that was never processed ends the process.
\<close>

theorem processed_requests_leak:
  assumes "res_fold request_step evs s = Inr s'" "r \<in> rq_inventory s" "q \<notin> rq_inventory s'" "rq_strong s' q = 1"
  shows "r \<in> rq_inventory s' \<and> request_step (Drop_ptr q) s' = Inl (Abort ''bad_weak_ptr'')"
proof -
  have "rq_inventory s \<subseteq> rq_inventory s'" using assms(1)
  proof (induction evs arbitrary: s)
    case (Cons e evs)
    then show ?case using request_step_keeps by fastforce
  qed simp
  then show ?thesis using assms(2-4) by (auto simp: Request_dtor_def)
qed

theorem processed_requests_leak_witness:
  "\<exists>s. res_fold request_step [New_request 1, Process 1, Drop_ptr 1, New_request 2] \<lparr>rq_strong = (\<lambda>_. 0), rq_inventory = {}\<rparr> = Inr s \<and>
     1 \<in> rq_inventory s \<and> request_step (Drop_ptr 2) s = Inl (Abort ''bad_weak_ptr'')"
proof -
  let ?s = "\<lparr>rq_strong = (\<lambda>_. 0)(1 := 0), rq_inventory = {1}\<rparr>"
  have "res_fold request_step [New_request 2] ?s = Inr \<lparr>rq_strong = (\<lambda>_. 0)(1 := 0, 2 := 1), rq_inventory = {1}\<rparr>" by simp
  from processed_requests_leak[OF this, of 1 2] show ?thesis
    by (auto simp: Request_process_def Let_def)
qed

end
