(* ===== verification/AtomicPointer.thy ===== *)
theory AtomicPointer
  imports Prelude
begin

text \<open>
  \<^verbatim>\<open>common/atomic_pointer.h\<close>: a pointer that one thread publishes and others read, in four versions (memory barriers of the
  platform, \<^verbatim>\<open>std::atomic\<close>, inline assembly for Sparc and for Itanium). Compilers and processors reorder the accesses of a thread;
  an operation is therefore a list of accesses and barriers, a thread is a list of them, and an execution is any sequence of the accesses of
  all threads that respects the orders which the barriers and the processor guarantee. Memory itself is one map, so all threads see the stores in the same order.
  \<^verbatim>\<open>incrementAndGet\<close> of \<^verbatim>\<open>TimerQueue.muduo/AtomicPointer_temp.h\<close> is at the end.
\<close>

section \<open>Accesses and the orders that are kept\<close>

datatype kind = K_load | K_store

datatype loc = Rep | Cell nat

text \<open>\<open>Ld acq l\<close> and \<open>St rel l v\<close> are a load and a store, the flags say that they are an acquire load and a release store. A
  \<open>Barrier\<close> stops the compiler; its list are the orders of accesses across it that it makes the processor keep.\<close>

datatype access = Ld bool loc | St bool loc int | Barrier "(kind \<times> kind) list"

fun access_kind :: "access \<Rightarrow> kind option" where
  "access_kind (Ld _ _) = Some K_load"
| "access_kind (St _ _ _) = Some K_store"
| "access_kind (Barrier _) = None"

fun access_loc :: "access \<Rightarrow> loc option" where
  "access_loc (Ld _ l) = Some l"
| "access_loc (St _ l _) = Some l"
| "access_loc (Barrier _) = None"

definition all_orders :: "(kind \<times> kind) list" where
  "all_orders = [(K_load, K_load), (K_load, K_store), (K_store, K_load), (K_store, K_store)]"

text \<open>\<open>natural\<close> are the orders a processor keeps without a barrier. Two accesses keep their order if they are to the same location,
  if the first is an acquire load or the second a release store, or if there is a barrier between them that makes
  the processor keep it or the processor does so anyway.\<close>

definition kept :: "(kind \<times> kind) list \<Rightarrow> access list \<Rightarrow> nat \<Rightarrow> nat \<Rightarrow> bool" where
  "kept natural prog i j \<longleftrightarrow>
     (case (access_kind (prog ! i), access_kind (prog ! j)) of
        (Some k1, Some k2) \<Rightarrow>
          access_loc (prog ! i) = access_loc (prog ! j) \<or>
          (case prog ! i of Ld acq _ \<Rightarrow> acq | _ \<Rightarrow> False) \<or> (case prog ! j of St rel _ _ \<Rightarrow> rel | _ \<Rightarrow> False) \<or>
          list_ex (\<lambda>b. case prog ! b of Barrier prs \<Rightarrow> (k1, k2) \<in> set (prs @ natural) | _ \<Rightarrow> False) [Suc i..<j]
      | _ \<Rightarrow> False)"

section \<open>The operations\<close>

datatype platform = MSVC_x86 | GCC_x86 | SunPro_x86 | Apple | ARM_linux | ARM64 | PPC | MIPS
datatype version = With_barrier platform | With_atomic | Sparc | IA64

text \<open>The barrier of a platform. On x86 it is empty for the processor, which keeps all orders but that of a store
  and a later load; the others are full barriers. For \<^verbatim>\<open>MSVC\<close> the header says itself that the macro of \<^verbatim>\<open>windows.h\<close> stops the
  processor and that it may also stop the compiler; the model takes it to stop both.\<close>

fun MemoryBarrier :: "platform \<Rightarrow> access" where
  "MemoryBarrier MSVC_x86 = Barrier all_orders"
| "MemoryBarrier GCC_x86 = Barrier []"
| "MemoryBarrier SunPro_x86 = Barrier []"
| "MemoryBarrier Apple = Barrier all_orders"
| "MemoryBarrier ARM_linux = Barrier all_orders"
| "MemoryBarrier ARM64 = Barrier all_orders"
| "MemoryBarrier PPC = Barrier all_orders"
| "MemoryBarrier MIPS = Barrier all_orders"

fun natural_orders :: "version \<Rightarrow> (kind \<times> kind) list" where
  "natural_orders (With_barrier GCC_x86) = [(K_load, K_load), (K_load, K_store), (K_store, K_store)]"
| "natural_orders (With_barrier SunPro_x86) = [(K_load, K_load), (K_load, K_store), (K_store, K_store)]"
| "natural_orders _ = []"

text \<open>The operations of the four classes.\<close>

definition barrier_NoBarrier_Load :: "access list" where
  "barrier_NoBarrier_Load = [Ld False Rep]"

definition barrier_NoBarrier_Store :: "int \<Rightarrow> access list" where
  "barrier_NoBarrier_Store v = [St False Rep v]"

definition barrier_Acquire_Load :: "platform \<Rightarrow> access list" where
  "barrier_Acquire_Load p = [Ld False Rep, MemoryBarrier p]"

definition barrier_Release_Store :: "platform \<Rightarrow> int \<Rightarrow> access list" where
  "barrier_Release_Store p v = [MemoryBarrier p, St False Rep v]"

definition atomic_Acquire_Load :: "access list" where
  "atomic_Acquire_Load = [Ld True Rep]"

definition atomic_Release_Store :: "int \<Rightarrow> access list" where
  "atomic_Release_Store v = [St True Rep v]"

definition atomic_NoBarrier_Load :: "access list" where
  "atomic_NoBarrier_Load = [Ld False Rep]"

definition sparc_Acquire_Load :: "access list" where
  "sparc_Acquire_Load = [Ld False Rep, Barrier [(K_load, K_load), (K_load, K_store)]]"

definition sparc_Release_Store :: "int \<Rightarrow> access list" where
  "sparc_Release_Store v = [Barrier [(K_load, K_store), (K_store, K_store)], St False Rep v]"

definition sparc_NoBarrier_Load :: "access list" where
  "sparc_NoBarrier_Load = [Ld False Rep]"

definition sparc_NoBarrier_Store :: "int \<Rightarrow> access list" where
  "sparc_NoBarrier_Store v = [St False Rep v]"

definition ia64_Acquire_Load :: "access list" where
  "ia64_Acquire_Load = [Ld True Rep]"

definition ia64_Release_Store :: "int \<Rightarrow> access list" where
  "ia64_Release_Store v = [St True Rep v]"

definition ia64_NoBarrier_Load :: "access list" where
  "ia64_NoBarrier_Load = [Ld False Rep]"

definition ia64_NoBarrier_Store :: "int \<Rightarrow> access list" where
  "ia64_NoBarrier_Store v = [St False Rep v]"

lemmas version_defs [simp] = barrier_NoBarrier_Load_def barrier_NoBarrier_Store_def barrier_Acquire_Load_def barrier_Release_Store_def
  atomic_Acquire_Load_def atomic_Release_Store_def atomic_NoBarrier_Load_def sparc_Acquire_Load_def sparc_Release_Store_def
  sparc_NoBarrier_Load_def sparc_NoBarrier_Store_def ia64_Acquire_Load_def ia64_Release_Store_def ia64_NoBarrier_Load_def
  ia64_NoBarrier_Store_def

text \<open>The class that the conditional compilation selects. The store without a barrier of the version with \<^verbatim>\<open>std::atomic\<close> lacks its parameter
  and is not accepted by a compiler.\<close>

fun NoBarrier_Load :: "version \<Rightarrow> access list" where
  "NoBarrier_Load (With_barrier p) = barrier_NoBarrier_Load"
| "NoBarrier_Load With_atomic = atomic_NoBarrier_Load"
| "NoBarrier_Load Sparc = sparc_NoBarrier_Load"
| "NoBarrier_Load IA64 = ia64_NoBarrier_Load"

fun NoBarrier_Store :: "version \<Rightarrow> int \<Rightarrow> access list option" where
  "NoBarrier_Store (With_barrier p) v = Some (barrier_NoBarrier_Store v)"
| "NoBarrier_Store With_atomic v = None"
| "NoBarrier_Store Sparc v = Some (sparc_NoBarrier_Store v)"
| "NoBarrier_Store IA64 v = Some (ia64_NoBarrier_Store v)"

fun Acquire_Load :: "version \<Rightarrow> access list" where
  "Acquire_Load (With_barrier p) = barrier_Acquire_Load p"
| "Acquire_Load With_atomic = atomic_Acquire_Load"
| "Acquire_Load Sparc = sparc_Acquire_Load"
| "Acquire_Load IA64 = ia64_Acquire_Load"

fun Release_Store :: "version \<Rightarrow> int \<Rightarrow> access list" where
  "Release_Store (With_barrier p) v = barrier_Release_Store p v"
| "Release_Store With_atomic v = atomic_Release_Store v"
| "Release_Store Sparc v = sparc_Release_Store v"
| "Release_Store IA64 v = ia64_Release_Store v"

section \<open>Executions\<close>

text \<open>A program is a list of threads; an event is the number of a thread and the position of an access in it.\<close>

type_synonym event = "nat \<times> nat"

definition access_at :: "access list list \<Rightarrow> event \<Rightarrow> access" where
  "access_at ps ev = ps ! fst ev ! snd ev"

definition events :: "access list list \<Rightarrow> event list" where
  "events ps = concat (map (\<lambda>t. map (Pair t) (filter (\<lambda>i. access_kind (ps ! t ! i) \<noteq> None) [0..<length (ps ! t)])) [0..<length ps])"

fun before :: "'a list \<Rightarrow> 'a \<Rightarrow> 'a \<Rightarrow> bool" where
  "before [] x y = True"
| "before (z # zs) x y = (if z = x then True else if z = y then False else before zs x y)"

definition execution :: "(kind \<times> kind) list \<Rightarrow> access list list \<Rightarrow> event list \<Rightarrow> bool" where
  "execution natural ps tr \<longleftrightarrow> distinct tr \<and> set tr = set (events ps) \<and>
     list_all (\<lambda>t. list_all (\<lambda>j. list_all (\<lambda>i. kept natural (ps ! t) i j \<longrightarrow> before tr (t, i) (t, j)) [0..<j]) [0..<length (ps ! t)])
       [0..<length ps]"

text \<open>What the loads see.\<close>

definition exec_event :: "access list list \<Rightarrow> event \<Rightarrow> (loc \<Rightarrow> int) \<times> (event \<rightharpoonup> int) \<Rightarrow> (loc \<Rightarrow> int) \<times> (event \<rightharpoonup> int)" where
  "exec_event ps ev = (\<lambda>(m, seen).
     case access_at ps ev of
       Ld _ l \<Rightarrow> (m, seen(ev \<mapsto> m l))
     | St _ l v \<Rightarrow> (m(l := v), seen)
     | Barrier _ \<Rightarrow> (m, seen))"

definition exec :: "access list list \<Rightarrow> event list \<Rightarrow> (loc \<Rightarrow> int) \<Rightarrow> (loc \<Rightarrow> int) \<times> (event \<rightharpoonup> int)" where
  "exec ps tr m = fold (exec_event ps) tr (m, \<lambda>_. None)"

section \<open>Publication\<close>

text \<open>The writer fills cells and publishes a pointer to them; the reader loads the pointer and then the cells.\<close>

definition publisher :: "version \<Rightarrow> (nat \<times> int) list \<Rightarrow> int \<Rightarrow> access list" where
  "publisher ver data v = map (\<lambda>(c, x). St False (Cell c) x) data @ Release_Store ver v"

definition subscriber :: "version \<Rightarrow> nat list \<Rightarrow> access list" where
  "subscriber ver cells = Acquire_Load ver @ map (\<lambda>c. Ld False (Cell c)) cells"

lemma exec_append: "exec ps (us @ ws) m = fold (exec_event ps) ws (exec ps us m)"
  by (simp add: exec_def)

text \<open>The memory holds the value of the last store.\<close>

definition stores_to :: "access list list \<Rightarrow> loc \<Rightarrow> event \<Rightarrow> bool" where
  "stores_to ps l ev \<longleftrightarrow> (\<exists>rel v. access_at ps ev = St rel l v)"

definition stored :: "access list list \<Rightarrow> event \<Rightarrow> int" where
  "stored ps ev = (case access_at ps ev of St _ _ v \<Rightarrow> v | _ \<Rightarrow> 0)"

lemma memory_after:
  "fst (exec ps tr m) l = (case filter (stores_to ps l) tr of [] \<Rightarrow> m l | es \<Rightarrow> stored ps (last es))"
proof (induction tr rule: rev_induct)
  case (snoc ev tr)
  show ?case
  proof (cases "access_at ps ev")
    case (St rel l' v)
    then show ?thesis using snoc
      by (auto simp: exec_def exec_event_def stores_to_def stored_def split: prod.splits list.splits)
  qed (use snoc in \<open>auto simp: exec_def exec_event_def stores_to_def split: prod.splits\<close>)
qed (simp add: exec_def)

lemma seen_other: "ev \<notin> set tr \<Longrightarrow> snd (fold (exec_event ps) tr s) ev = snd s ev"
  by (induction tr arbitrary: s) (auto simp: exec_event_def split: prod.splits access.splits)

lemma seen_at:
  assumes "distinct (us @ ev # ws)" "access_at ps ev = Ld acq l"
  shows "snd (exec ps (us @ ev # ws) m) ev = Some (fst (exec ps us m) l)"
  using assms seen_other[of ev ws ps "exec_event ps ev (exec ps us m)"]
  by (cases "exec ps us m") (simp add: exec_append exec_event_def)

lemma before_prefix: "before (us @ y # ws) x y \<Longrightarrow> y \<notin> set us \<Longrightarrow> x \<noteq> y \<Longrightarrow> x \<in> set us"
  by (induction us) (auto split: if_splits)

lemma execution_before:
  assumes "execution natural ps (us @ (t, j) # ws)" "t < length ps" "j < length (ps ! t)" "i < j" "kept natural (ps ! t) i j"
  shows "(t, i) \<in> set us"
proof -
  have "before (us @ (t, j) # ws) (t, i) (t, j)" using assms by (auto simp: execution_def list_all_iff)
  moreover have "(t, j) \<notin> set us" using assms(1) by (simp add: execution_def)
  ultimately show ?thesis using before_prefix[of us "(t, j)" ws "(t, i)"] assms(4) by simp
qed

lemma events_iff: "(t, i) \<in> set (events ps) \<longleftrightarrow> t < length ps \<and> i < length (ps ! t) \<and> access_kind (ps ! t ! i) \<noteq> None"
proof
  assume r: "t < length ps \<and> i < length (ps ! t) \<and> access_kind (ps ! t ! i) \<noteq> None"
  then have "(t, i) \<in> set (map (Pair t) (filter (\<lambda>i. access_kind (ps ! t ! i) \<noteq> None) [0..<length (ps ! t)]))" by auto
  then show "(t, i) \<in> set (events ps)" using r unfolding events_def set_concat by (auto intro!: bexI[of _ t])
qed (auto simp: events_def)

lemma kept_across:
  assumes "i < b" "b < j" "prog ! b = Barrier prs" "(k1, k2) \<in> set (prs @ natural)"
    and "access_kind (prog ! i) = Some k1" "access_kind (prog ! j) = Some k2"
  shows "kept natural prog i j"
proof -
  have "b \<in> set [Suc i..<j]" using assms(1,2) by simp
  then have "list_ex (\<lambda>b. case prog ! b of Barrier prs \<Rightarrow> (k1, k2) \<in> set (prs @ natural) | _ \<Rightarrow> False) [Suc i..<j]"
    using assms(3,4) unfolding list_ex_iff by (auto intro!: bexI[of _ b])
  then show ?thesis using assms(5,6) by (simp add: kept_def)
qed

text \<open>A release store is a fence that keeps stores in order before the store, or it is a store with the flag; likewise an acquire load.\<close>

lemma Release_Store_cases:
  obtains (fence) prs where "\<And>v. Release_Store ver v = [Barrier prs, St False Rep v]" "(K_store, K_store) \<in> set (prs @ natural_orders ver)"
  | (flag) "\<And>v. Release_Store ver v = [St True Rep v]"
proof (cases ver)
  case (With_barrier p)
  have "\<exists>prs. MemoryBarrier p = Barrier prs \<and> (K_store, K_store) \<in> set (prs @ natural_orders ver)"
    using With_barrier by (cases p) (simp_all add: all_orders_def)
  then show thesis using fence With_barrier by auto
next
  case Sparc
  then show thesis using fence[of "[(K_load, K_store), (K_store, K_store)]"] by simp
qed (use flag in auto)

lemma Acquire_Load_cases:
  obtains (fence) prs where "Acquire_Load ver = [Ld False Rep, Barrier prs]" "(K_load, K_load) \<in> set (prs @ natural_orders ver)"
  | (flag) "Acquire_Load ver = [Ld True Rep]"
proof (cases ver)
  case (With_barrier p)
  have "\<exists>prs. MemoryBarrier p = Barrier prs \<and> (K_load, K_load) \<in> set (prs @ natural_orders ver)"
    using With_barrier by (cases p) (simp_all add: all_orders_def)
  then show thesis using fence With_barrier by auto
next
  case Sparc
  then show thesis using fence[of "[(K_load, K_load), (K_load, K_store)]"] by simp
qed (use flag in auto)

definition publish_pos :: "version \<Rightarrow> (nat \<times> int) list \<Rightarrow> nat" where
  "publish_pos ver data = length data + length (Release_Store ver 0) - 1"

lemma publisher_nth_data: "i < length data \<Longrightarrow> publisher ver data v ! i = St False (Cell (fst (data ! i))) (snd (data ! i))"
  by (simp add: publisher_def nth_append split_beta)

lemma publisher_shape:
  "length (publisher ver data v) = Suc (publish_pos ver data)" "\<exists>rel. publisher ver data v ! publish_pos ver data = St rel Rep v"
  "i < length (publisher ver data v) \<Longrightarrow> access_kind (publisher ver data v ! i) \<noteq> None \<Longrightarrow> i < length data \<or> i = publish_pos ver data"
  "i < length data \<Longrightarrow> i < publish_pos ver data \<and> kept (natural_orders ver) (publisher ver data v) i (publish_pos ver data)"
proof -
  let ?n = "length data" and ?p = "publisher ver data v"
  have "length ?p = Suc (publish_pos ver data) \<and> (\<exists>rel. ?p ! publish_pos ver data = St rel Rep v) \<and>
    (\<forall>i. i < length ?p \<and> access_kind (?p ! i) \<noteq> None \<longrightarrow> i < ?n \<or> i = publish_pos ver data) \<and>
    (\<forall>i < ?n. i < publish_pos ver data \<and> kept (natural_orders ver) ?p i (publish_pos ver data))"
  proof (cases ver rule: Release_Store_cases)
    case (fence prs)
    have pos: "publish_pos ver data = Suc ?n" "length ?p = Suc (Suc ?n)" using fence(1) by (simp_all add: publish_pos_def publisher_def)
    have at: "?p ! ?n = Barrier prs" "?p ! Suc ?n = St False Rep v" using fence(1) by (simp_all add: publisher_def nth_append)
    have "kept (natural_orders ver) ?p i (Suc ?n)" if "i < ?n" for i
      by (rule kept_across[OF that _ at(1) fence(2)]) (simp_all add: at publisher_nth_data[OF that])
    then show ?thesis using pos at by (auto simp: less_Suc_eq)
  next
    case flag
    have pos: "publish_pos ver data = ?n" "length ?p = Suc ?n" using flag by (simp_all add: publish_pos_def publisher_def)
    have at: "?p ! ?n = St True Rep v" using flag by (simp add: publisher_def nth_append)
    have "kept (natural_orders ver) ?p i ?n" if "i < ?n" for i using that by (simp add: kept_def at publisher_nth_data)
    then show ?thesis using pos at by auto
  qed
  then show "length ?p = Suc (publish_pos ver data)" "\<exists>rel. ?p ! publish_pos ver data = St rel Rep v"
    "i < length ?p \<Longrightarrow> access_kind (?p ! i) \<noteq> None \<Longrightarrow> i < ?n \<or> i = publish_pos ver data"
    "i < ?n \<Longrightarrow> i < publish_pos ver data \<and> kept (natural_orders ver) ?p i (publish_pos ver data)" by blast+
qed

lemma subscriber_shape:
  "\<exists>acq. subscriber ver cells ! 0 = Ld acq Rep" "0 < length (Acquire_Load ver)"
  "j < length cells \<Longrightarrow> subscriber ver cells ! (length (Acquire_Load ver) + j) = Ld False (Cell (cells ! j))"
  "j < length cells \<Longrightarrow> kept (natural_orders ver) (subscriber ver cells) 0 (length (Acquire_Load ver) + j)"
  "i < length (subscriber ver cells) \<Longrightarrow> access_kind (subscriber ver cells ! i) \<noteq> Some K_store"
proof -
  let ?k = "length (Acquire_Load ver)" and ?p = "subscriber ver cells"
  have load: "j < length cells \<Longrightarrow> ?p ! (?k + j) = Ld False (Cell (cells ! j))" for j by (simp add: subscriber_def nth_append)
  have loads: "\<exists>c. map (\<lambda>c. Ld False (Cell c)) cells ! m = Ld False (Cell c)" if "m < length cells" for m using that by simp
  have "(\<exists>acq. ?p ! 0 = Ld acq Rep) \<and> 0 < ?k \<and> (\<forall>j < length cells. kept (natural_orders ver) ?p 0 (?k + j)) \<and>
    (\<forall>i < length ?p. access_kind (?p ! i) \<noteq> Some K_store)"
  proof (cases ver rule: Acquire_Load_cases)
    case (fence prs)
    have at: "?p ! 0 = Ld False Rep" "?p ! 1 = Barrier prs" using fence(1) by (simp_all add: subscriber_def)
    have "kept (natural_orders ver) ?p 0 (?k + j)" if "j < length cells" for j
      by (rule kept_across[OF _ _ at(2) fence(2)]) (simp_all add: at load[OF that], simp add: fence(1))
    then show ?thesis using at fence(1) loads by (auto simp: subscriber_def nth_Cons' nth_append)
  next
    case flag
    have at: "?p ! 0 = Ld True Rep" using flag by (simp add: subscriber_def)
    have "kept (natural_orders ver) ?p 0 (?k + j)" if "j < length cells" for j using at load[OF that] by (simp add: kept_def)
    then show ?thesis using at flag loads by (auto simp: subscriber_def nth_Cons' nth_append)
  qed
  then show "\<exists>acq. ?p ! 0 = Ld acq Rep" "0 < ?k" "j < length cells \<Longrightarrow> kept (natural_orders ver) ?p 0 (?k + j)"
    "i < length ?p \<Longrightarrow> access_kind (?p ! i) \<noteq> Some K_store" by blast+
  show "j < length cells \<Longrightarrow> ?p ! (?k + j) = Ld False (Cell (cells ! j))" by (rule load)
qed

lemma store_events:
  assumes "ev \<in> set (events [publisher ver data v, subscriber ver cells])" "stores_to [publisher ver data v, subscriber ver cells] l ev"
  shows "(\<exists>i < length data. ev = (0, i) \<and> l = Cell (fst (data ! i))) \<or> ev = (0, publish_pos ver data) \<and> l = Rep"
proof -
  let ?ps = "[publisher ver data v, subscriber ver cells]"
  obtain t i where ev: "ev = (t, i)" by (cases ev)
  then have i: "t < 2" "i < length (?ps ! t)" "access_kind (?ps ! t ! i) \<noteq> None" using assms(1) by (auto simp: events_iff)
  have st: "access_kind (?ps ! t ! i) = Some K_store" using assms(2) by (auto simp: stores_to_def access_at_def ev)
  have "t = 0"
  proof (rule ccontr)
    assume "t \<noteq> 0"
    then have "t = 1" using i(1) by simp
    then show False using subscriber_shape(5) i(2) st by simp
  qed
  then show ?thesis
    using ev i publisher_shape(3)[of i ver data v] publisher_shape(2)[of ver data v] publisher_nth_data[of i data ver v] assms(2)
    by (auto simp: stores_to_def access_at_def)
qed

text \<open>When the load of the pointer sees the published value, everything before the release store has been executed.\<close>

lemma published_before:
  assumes ex: "execution (natural_orders ver) [publisher ver data v, subscriber ver cells] (us @ (1, 0) # ws)"
    and seen: "snd (exec [publisher ver data v, subscriber ver cells] (us @ (1, 0) # ws) m) (1, 0) = Some v" and old: "m Rep \<noteq> v"
    and i: "i < length data"
  shows "(0, i) \<in> set us"
proof -
  let ?ps = "[publisher ver data v, subscriber ver cells]"
  have tr: "distinct (us @ (1, 0) # ws)" "set (us @ (1, 0) # ws) = set (events ?ps)" using ex by (simp_all add: execution_def)
  obtain acq where "access_at ?ps (1, 0) = Ld acq Rep" using subscriber_shape(1) by (auto simp: access_at_def)
  then have "fst (exec ?ps us m) Rep = v" using seen seen_at[OF tr(1), of ?ps acq Rep m] by simp
  then have "filter (stores_to ?ps Rep) us \<noteq> []" using memory_after[of ?ps us m Rep] old by (auto split: list.splits)
  then obtain ev where ev: "ev \<in> set us" "stores_to ?ps Rep ev" by (auto simp: filter_empty_conv)
  have "ev \<in> set (events ?ps)" unfolding tr(2)[symmetric] using ev(1) by simp
  then have "ev = (0, publish_pos ver data)" using store_events[OF _ ev(2)] by auto
  then obtain us1 us2 where us: "us = us1 @ (0, publish_pos ver data) # us2" using ev(1) by (auto simp: in_set_conv_decomp)
  have "execution (natural_orders ver) ?ps (us1 @ (0, publish_pos ver data) # us2 @ (1, 0) # ws)" using ex us by simp
  from execution_before[OF this, of i] have "(0, i) \<in> set us1"
    using publisher_shape(1)[of ver data v] publisher_shape(4)[OF i, of ver v] by simp
  then show ?thesis using us by simp
qed

text \<open>A cell whose store has been executed holds the published value, since it is stored once.\<close>

lemma cell_published:
  assumes "set us \<subseteq> set (events [publisher ver data v, subscriber ver cells])" "distinct (map fst data)"
    and "i < length data" "data ! i = (c, x)" "(0, i) \<in> set us"
  shows "fst (exec [publisher ver data v, subscriber ver cells] us m) (Cell c) = x"
proof -
  let ?ps = "[publisher ver data v, subscriber ver cells]"
  let ?st = "filter (stores_to ?ps (Cell c)) us"
  have nth: "publisher ver data v ! i = St False (Cell c) x" using publisher_nth_data[OF assms(3), of ver v] assms(4) by simp
  then have "stores_to ?ps (Cell c) (0, i)" by (auto simp: stores_to_def access_at_def)
  then have ne: "?st \<noteq> []" using assms(5) by (auto simp: filter_empty_conv)
  have "ev = (0, i)" if st: "ev \<in> set ?st" for ev
  proof -
    have "ev \<in> set (events ?ps)" using st assms(1) by auto
    then obtain i' where i': "i' < length data" "ev = (0, i')" "fst (data ! i') = c"
      using st store_events[of ev ver data v cells "Cell c"] by auto
    then have "i' = i" using assms(2-4) nth_eq_iff_index_eq[of "map fst data" i' i] by simp
    then show ?thesis using i'(2) by simp
  qed
  then have "last ?st = (0, i)" using last_in_set[OF ne] by blast
  then have "fst (exec ?ps us m) (Cell c) = stored ?ps (0, i)"
    using memory_after[of ?ps us m "Cell c"] ne by (cases ?st) simp_all
  then show ?thesis using nth by (simp add: stored_def access_at_def)
qed

text \<open>
  C34: Publication is safe. In each of the four versions and on each platform: when a thread fills cells and then publishes a
  pointer with \<^verbatim>\<open>Release_Store\<close>, a thread that gets this pointer from \<^verbatim>\<open>Acquire_Load\<close> and then reads cells finds the
  published contents in them, in every execution that the compiler and the processor may choose.
\<close>

theorem publication_is_safe:
  assumes ex: "execution (natural_orders ver) [publisher ver data v, subscriber ver cells] tr"
    and seen: "snd (exec [publisher ver data v, subscriber ver cells] tr m) (1, 0) = Some v" and old: "m Rep \<noteq> v"
    and d: "distinct (map fst data)" "(cells ! j, x) \<in> set data" and j: "j < length cells"
  shows "snd (exec [publisher ver data v, subscriber ver cells] tr m) (1, length (Acquire_Load ver) + j) = Some x"
proof -
  let ?ps = "[publisher ver data v, subscriber ver cells]" and ?e = "(1::nat, length (Acquire_Load ver) + j)"
  have tr: "distinct tr" "set tr = set (events ?ps)" using ex by (simp_all add: execution_def)
  have "length (Acquire_Load ver) + j < length (subscriber ver cells)" using j by (simp add: subscriber_def)
  then have "?e \<in> set tr" using tr(2) subscriber_shape(3)[OF j, of ver] by (simp add: events_iff)
  then obtain us ws where us: "tr = us @ ?e # ws" by (auto simp: in_set_conv_decomp)
  have "(1, 0) \<in> set us"
    using execution_before[OF ex[unfolded us], of 0] subscriber_shape(2,4) j by (simp add: subscriber_def)
  then obtain us1 us2 where us1: "us = us1 @ (1, 0) # us2" by (auto simp: in_set_conv_decomp)
  obtain i where i: "i < length data" "data ! i = (cells ! j, x)" using d(2) by (auto simp: in_set_conv_nth)
  have "(0, i) \<in> set us1"
    using published_before[of ver data v cells us1 "us2 @ ?e # ws" m i] ex seen old i(1) us us1 by simp
  then have "(0, i) \<in> set us" using us1 by simp
  moreover have "set us \<subseteq> set (events ?ps)" unfolding tr(2)[symmetric] us by auto
  ultimately have "fst (exec ?ps us m) (Cell (cells ! j)) = x" using cell_published[OF _ d(1) i] by blast
  then show ?thesis
    using seen_at[of us ?e ws ?ps False "Cell (cells ! j)" m] tr(1) subscriber_shape(3)[OF j, of ver] us by (simp add: access_at_def)
qed

theorem publication_is_safe_witness:
  "let ps = [publisher (With_barrier GCC_x86) [(0, 7), (1, 8)] 5, subscriber (With_barrier GCC_x86) [1, 0]];
       tr = [(0, 1), (0, 0), (0, 3), (1, 0), (1, 3), (1, 2)]
   in execution (natural_orders (With_barrier GCC_x86)) ps tr \<and> snd (exec ps tr (\<lambda>_. 0)) (1, 0) = Some 5 \<and>
      snd (exec ps tr (\<lambda>_. 0)) (1, 2) = Some 8"
proof -
  let ?v = "With_barrier GCC_x86"
  let ?ps = "[publisher ?v [(0, 7), (1, 8)] 5, subscriber ?v [1, 0]]" and ?tr = "[(0, 1), (0, 0), (0, 3), (1, 0), (1, 3), (1, 2)]"
  have ex: "execution (natural_orders ?v) ?ps ?tr" by code_simp
  have seen: "snd (exec ?ps ?tr (\<lambda>_. 0)) (1, 0) = Some 5"
    by (simp add: exec_def exec_event_def access_at_def publisher_def subscriber_def)
  show ?thesis using publication_is_safe[OF ex seen, of 0 8] ex seen by (simp add: Let_def numeral_2_eq_2)
qed

text \<open>The execution in which the store of the pointer overtakes the store of the cell.\<close>

definition overtaking :: "version \<Rightarrow> event list" where
  "overtaking ver = [(0, 1), (1, 0), (1, length (Acquire_Load ver)), (0, 0)]"

lemma overtaking_execution: "execution (natural_orders ver) [[St False (Cell 0) 7, St False Rep 5], subscriber ver [0]] (overtaking ver)"
  unfolding execution_def list_all_iff
proof (intro conjI ballI impI)
  let ?ps = "[[St False (Cell 0) 7, St False Rep 5], subscriber ver [0]]" and ?n = "length (Acquire_Load ver)"
  have n: "0 < ?n" by (rule subscriber_shape(2))
  have len: "length (subscriber ver [0]) = Suc ?n" by (simp add: subscriber_def)
  have ld: "subscriber ver [0] ! ?n = Ld False (Cell 0)" "\<exists>acq. subscriber ver [0] ! 0 = Ld acq Rep"
    using subscriber_shape(3)[of 0 "[0]" ver] subscriber_shape(1) by simp_all
  have only: "i = 0 \<or> i = ?n" if "i < Suc ?n" "access_kind (subscriber ver [0] ! i) \<noteq> None" for i
    using that by (cases ver rule: Acquire_Load_cases) (auto simp: subscriber_def less_Suc_eq)
  show "distinct (overtaking ver)" using n by (simp add: overtaking_def)
  have "(t, i) \<in> set (events ?ps) \<longleftrightarrow> (t, i) \<in> set (overtaking ver)" for t i
    using only[of i] ld n len by (cases "t = 0"; cases "t = 1") (auto simp: events_iff overtaking_def less_Suc_eq)
  then show "set (overtaking ver) = set (events ?ps)" by (metis subrelI subset_antisym)
  fix t j i assume a: "t \<in> set [0..<length ?ps]" "j \<in> set [0..<length (?ps ! t)]" "i \<in> set [0..<j]" "kept (natural_orders ver) (?ps ! t) i j"
  have k: "access_kind (?ps ! t ! i) \<noteq> None" "access_kind (?ps ! t ! j) \<noteq> None" using a(4) by (auto simp: kept_def split: option.splits)
  show "before (overtaking ver) (t, i) (t, j)"
  proof (cases "t = 0")
    case True
    then have "i = 0" "j = 1" using a(2,3) by auto
    then show ?thesis using True a(4) by (simp add: kept_def)
  next
    case False
    then have t: "t = 1" using a(1) by auto
    then have "i = 0 \<and> j = ?n" using a(2,3) k only[of i] only[of j] len by auto
    then show ?thesis using t by (simp add: overtaking_def)
  qed
qed

text \<open>
  The stores without a barrier do not publish: on every platform there is an execution in which the reader has the new
  pointer and finds the old contents, even though it uses \<^verbatim>\<open>Acquire_Load\<close>.
\<close>

theorem NoBarrier_Store_does_not_publish:
  assumes "NoBarrier_Store ver 5 = Some st"
  shows "let ps = [St False (Cell 0) 7 # st, subscriber ver [0]]
    in \<exists>tr. execution (natural_orders ver) ps tr \<and> snd (exec ps tr (\<lambda>_. 0)) (1, 0) = Some 5 \<and>
      snd (exec ps tr (\<lambda>_. 0)) (1, length (Acquire_Load ver)) = Some 0"
proof -
  let ?ps = "[[St False (Cell 0) 7, St False Rep 5], subscriber ver [0]]"
  have st: "st = [St False Rep 5]" using assms by (cases ver) auto
  have ld: "subscriber ver [0] ! length (Acquire_Load ver) = Ld False (Cell 0)" using subscriber_shape(3)[of 0 "[0]" ver] by simp
  obtain acq where l0: "subscriber ver [0] ! 0 = Ld acq Rep" using subscriber_shape(1) by blast
  have "0 < length (Acquire_Load ver)" by (rule subscriber_shape(2))
  then have "snd (exec ?ps (overtaking ver) (\<lambda>_. 0)) (1, 0) = Some 5"
    "snd (exec ?ps (overtaking ver) (\<lambda>_. 0)) (1, length (Acquire_Load ver)) = Some 0"
    using ld l0 by (auto simp: overtaking_def exec_def exec_event_def access_at_def)
  then show ?thesis using overtaking_execution[of ver] by (auto simp: Let_def st)
qed

theorem NoBarrier_Store_does_not_publish_witness:
  "let ps = [[St False (Cell 0) 7, St False Rep 5], subscriber Sparc [0]]
    in \<exists>tr. execution [] ps tr \<and> snd (exec ps tr (\<lambda>_. 0)) (1, 0) = Some 5 \<and> snd (exec ps tr (\<lambda>_. 0)) (1, 2) = Some 0"
  using NoBarrier_Store_does_not_publish[of Sparc "[St False Rep 5]"] by (simp add: numeral_2_eq_2)

section \<open>incrementAndGet\<close>

text \<open>
  The counter of the timers is an \<^verbatim>\<open>AtomicPointer\<close>, and \<^verbatim>\<open>incrementAndGet\<close> is a load and a store with barriers around them. A thread is
  before the call, between the two with the result in a register, or behind the call with the result.
\<close>

datatype inc_pc = I_before | I_loaded int | I_returned int

record counter =
  ct_rep :: int
  ct_threads :: "inc_pc list"

text \<open>\<^verbatim>\<open>result = rep_ + 1\<close>, then \<^verbatim>\<open>rep_ = result\<close>.\<close>

definition inc_load :: "nat \<Rightarrow> counter \<Rightarrow> counter" where
  "inc_load t s = s\<lparr>ct_threads := (ct_threads s)[t := I_loaded (ct_rep s + 1)]\<rparr>"

definition inc_store :: "nat \<Rightarrow> int \<Rightarrow> counter \<Rightarrow> counter" where
  "inc_store t result s = s\<lparr>ct_rep := result, ct_threads := (ct_threads s)[t := I_returned result]\<rparr>"

inductive inc_step :: "counter \<Rightarrow> counter \<Rightarrow> bool" where
  load: "t < length (ct_threads s) \<Longrightarrow> ct_threads s ! t = I_before \<Longrightarrow> inc_step s (inc_load t s)"
| store: "t < length (ct_threads s) \<Longrightarrow> ct_threads s ! t = I_loaded r \<Longrightarrow> inc_step s (inc_store t r s)"

definition fresh_counter :: "int \<Rightarrow> nat \<Rightarrow> counter" where
  "fresh_counter k n = \<lparr>ct_rep = k, ct_threads = replicate n I_before\<rparr>"

text \<open>
  Two threads that make a timer at the same time can get the same sequence number: the increment is not
  atomic, whatever the barriers.
\<close>

theorem incrementAndGet_repeats_number:
  "\<exists>s. inc_step\<^sup>*\<^sup>* (fresh_counter k 2) s \<and> ct_threads s = [I_returned (k + 1), I_returned (k + 1)] \<and> ct_rep s = k + 1"
proof -
  let ?s0 = "fresh_counter k 2"
  let ?s1 = "inc_load 0 ?s0"
  let ?s2 = "inc_load 1 ?s1"
  let ?s3 = "inc_store 0 (k + 1) ?s2"
  let ?s4 = "inc_store 1 (k + 1) ?s3"
  note defs = fresh_counter_def inc_load_def inc_store_def
  have "inc_step ?s0 ?s1" by (rule inc_step.load) (simp_all add: defs)
  moreover have "inc_step ?s1 ?s2" by (rule inc_step.load) (simp_all add: defs)
  moreover have "inc_step ?s2 ?s3" by (rule inc_step.store) (simp_all add: defs numeral_2_eq_2)
  moreover have "inc_step ?s3 ?s4" by (rule inc_step.store) (simp_all add: defs numeral_2_eq_2)
  ultimately have "inc_step\<^sup>*\<^sup>* ?s0 ?s4" by (meson converse_rtranclp_into_rtranclp rtranclp.rtrancl_refl)
  moreover have "ct_threads ?s4 = [I_returned (k + 1), I_returned (k + 1)]" "ct_rep ?s4 = k + 1"
    by (simp_all add: defs numeral_2_eq_2)
  ultimately show ?thesis by blast
qed

end
