(* ===== verification/TestHarness.thy ===== *)
theory TestHarness
  imports LogStream
begin

text \<open>
  The test runner (\<^verbatim>\<open>testharness.leveldb\<close>): the temporary \<^verbatim>\<open>Tester\<close> behind the \<^verbatim>\<open>ASSERT_\<close> macros, which ends the process in its destructor
  when the assertion does not hold, the registration of tests and the loop that runs those that match the environment variable.
  A test is a function on a state \<open>'w\<close> and on the text of the standard error; it returns or ends the process.
\<close>

datatype 'w outcome = Returns "'w \<times> string" | Exits int "'w \<times> string"

section \<open>Tester\<close>

record tester =
  ts_ok :: bool
  ts_fname :: string
  ts_line :: int
  ts_ss :: string

definition Tester_ctor :: "string \<Rightarrow> int \<Rightarrow> tester" where
  "Tester_ctor f l = \<lparr>ts_ok = True, ts_fname = f, ts_line = l, ts_ss = []\<rparr>"

definition Tester_dtor :: "tester \<Rightarrow> 'w \<times> string \<Rightarrow> 'w outcome" where
  "Tester_dtor t = (\<lambda>(w, err).
     if \<not> ts_ok t then Exits 1 (w, err @ ts_fname t @ '':'' @ decimal (ts_line t) @ '':'' @ ts_ss t @ [CHR 0x0A])
     else Returns (w, err))"

definition Tester_Is :: "bool \<Rightarrow> string \<Rightarrow> tester \<Rightarrow> tester" where
  "Tester_Is b msg t = (if \<not> b then t\<lparr>ts_ss := ts_ss t @ '' Assertion failure '' @ msg, ts_ok := False\<rparr> else t)"

text \<open>\<^verbatim>\<open>BINARY_OP\<close>: the operator, its text, and the text that the stream makes of the two operands.\<close>

definition BINARY_OP :: "('a \<Rightarrow> 'b \<Rightarrow> bool) \<Rightarrow> string \<Rightarrow> ('a \<Rightarrow> string) \<Rightarrow> ('b \<Rightarrow> string) \<Rightarrow> 'a \<Rightarrow> 'b \<Rightarrow> tester \<Rightarrow> tester" where
  "BINARY_OP oper opname showx showy x y t =
     (if \<not> oper x y then t\<lparr>ts_ss := ts_ss t @ '' failed: '' @ showx x @ ('' '' @ opname @ '' '') @ showy y, ts_ok := False\<rparr> else t)"

definition IsEq :: "('a \<Rightarrow> string) \<Rightarrow> 'a \<Rightarrow> 'a \<Rightarrow> tester \<Rightarrow> tester" where
  "IsEq sh = BINARY_OP (=) ''=='' sh sh"

definition IsNe :: "('a \<Rightarrow> string) \<Rightarrow> 'a \<Rightarrow> 'a \<Rightarrow> tester \<Rightarrow> tester" where
  "IsNe sh = BINARY_OP (\<noteq>) ''!='' sh sh"

definition IsGe :: "('a::linorder \<Rightarrow> string) \<Rightarrow> 'a \<Rightarrow> 'a \<Rightarrow> tester \<Rightarrow> tester" where
  "IsGe sh = BINARY_OP (\<ge>) ''>='' sh sh"

definition IsGt :: "('a::linorder \<Rightarrow> string) \<Rightarrow> 'a \<Rightarrow> 'a \<Rightarrow> tester \<Rightarrow> tester" where
  "IsGt sh = BINARY_OP (>) ''>'' sh sh"

definition IsLe :: "('a::linorder \<Rightarrow> string) \<Rightarrow> 'a \<Rightarrow> 'a \<Rightarrow> tester \<Rightarrow> tester" where
  "IsLe sh = BINARY_OP (\<le>) ''<='' sh sh"

definition IsLt :: "('a::linorder \<Rightarrow> string) \<Rightarrow> 'a \<Rightarrow> 'a \<Rightarrow> tester \<Rightarrow> tester" where
  "IsLt sh = BINARY_OP (<) ''<'' sh sh"

definition Tester_put :: "('v \<Rightarrow> string) \<Rightarrow> 'v \<Rightarrow> tester \<Rightarrow> tester" where
  "Tester_put sh value t = (if \<not> ts_ok t then t\<lparr>ts_ss := ts_ss t @ '' '' @ sh value\<rparr> else t)"

text \<open>\<^verbatim>\<open>ASSERT_TRUE\<close> and \<^verbatim>\<open>ASSERT_EQ\<close> up to \<^verbatim>\<open>ASSERT_LT\<close>: a tester is made, asked, and destroyed at the end of the statement. \<open>puts\<close> are the
  values that the statement adds with \<^verbatim>\<open><<\<close>.\<close>

definition ASSERT_TRUE :: "string \<Rightarrow> int \<Rightarrow> bool \<Rightarrow> string \<Rightarrow> string list \<Rightarrow> 'w \<times> string \<Rightarrow> 'w outcome" where
  "ASSERT_TRUE fname line c ctext puts = Tester_dtor (fold (Tester_put id) puts (Tester_Is c ctext (Tester_ctor fname line)))"

definition ASSERT_OP :: "('a \<Rightarrow> 'a \<Rightarrow> tester \<Rightarrow> tester) \<Rightarrow> string \<Rightarrow> int \<Rightarrow> 'a \<Rightarrow> 'a \<Rightarrow> string list \<Rightarrow> 'w \<times> string \<Rightarrow> 'w outcome" where
  "ASSERT_OP is fname line a b puts = Tester_dtor (fold (Tester_put id) puts (is a b (Tester_ctor fname line)))"

section \<open>The registry and the runner\<close>

record 'w test =
  t_base :: string
  t_name :: string
  t_func :: "'w \<times> string \<Rightarrow> 'w outcome"

text \<open>\<^verbatim>\<open>tests\<close> is a pointer; \<open>None\<close> is \<^verbatim>\<open>NULL\<close>.\<close>

definition RegisterTest :: "string \<Rightarrow> string \<Rightarrow> ('w \<times> string \<Rightarrow> 'w outcome) \<Rightarrow> 'w test list option \<Rightarrow> bool \<times> 'w test list option" where
  "RegisterTest base name func tests =
     (let ts = (case tests of None \<Rightarrow> [] | Some ts \<Rightarrow> ts)
      in (True, Some (ts @ [\<lparr>t_base = base, t_name = name, t_func = func\<rparr>])))"

text \<open>\<^verbatim>\<open>strstr\<close>.\<close>

definition strstr :: "string \<Rightarrow> string \<Rightarrow> nat option" where
  "strstr hay needle = (let i = std_search needle hay in if i + length needle \<le> length hay then Some i else None)"

definition test_name :: "'w test \<Rightarrow> string" where
  "test_name t = t_base t @ ''.'' @ t_name t"

fun run_loop :: "string option \<Rightarrow> 'w test list \<Rightarrow> nat \<Rightarrow> 'w \<times> string \<Rightarrow> nat \<times> 'w outcome" where
  "run_loop matcher [] num s = (num, Returns s)"
| "run_loop matcher (t # ts) num s =
     (if (case matcher of None \<Rightarrow> False | Some m \<Rightarrow> strstr (test_name t) m = None) then run_loop matcher ts num s
      else (case t_func t (fst s, snd s @ ''==== Test '' @ t_base t @ ''.'' @ t_name t @ [CHR 0x0A]) of
              Returns s1 \<Rightarrow> run_loop matcher ts (num + 1) s1
            | Exits c s1 \<Rightarrow> (num, Exits c s1)))"

text \<open>The value is what \<^verbatim>\<open>RunAllTests\<close> returns, when it returns.\<close>

definition RunAllTests :: "string option \<Rightarrow> 'w test list option \<Rightarrow> 'w \<times> string \<Rightarrow> int option \<times> 'w outcome" where
  "RunAllTests matcher tests s =
     (let (num, r) = (case tests of None \<Rightarrow> (0, Returns s) | Some ts \<Rightarrow> run_loop matcher ts 0 s)
      in case r of
           Returns (w, err) \<Rightarrow> (Some 0, Returns (w, err @ ''==== PASSED '' @ decimal (int num) @ '' tests'' @ [CHR 0x0A]))
         | Exits c s1 \<Rightarrow> (None, Exits c s1))"

text \<open>\<^verbatim>\<open>atoi\<close>: white space, a sign, digits; \<open>None\<close> where the number is not representable and the behaviour undefined.\<close>

definition is_space :: "char \<Rightarrow> bool" where
  "is_space c \<longleftrightarrow> c = CHR '' '' \<or> (9 \<le> (of_char c :: nat) \<and> (of_char c :: nat) \<le> 13)"

definition atoi_value :: "string \<Rightarrow> int" where
  "atoi_value s =
     (case dropWhile is_space s of
        [] \<Rightarrow> 0
      | c # cs \<Rightarrow> if c = CHR ''-'' then - int (read_nat (takeWhile (\<lambda>x. x \<in> set dec_digits) cs))
                  else if c = CHR ''+'' then int (read_nat (takeWhile (\<lambda>x. x \<in> set dec_digits) cs))
                  else int (read_nat (takeWhile (\<lambda>x. x \<in> set dec_digits) (c # cs))))"

definition atoi :: "string \<Rightarrow> int option" where
  "atoi s = (let v = atoi_value s in if - (2 ^ 31) \<le> v \<and> v < 2 ^ 31 then Some v else None)"

definition RandomSeed :: "string option \<Rightarrow> int option" where
  "RandomSeed env = map_option (\<lambda>result. if result \<le> 0 then 301 else result) (case env of Some e \<Rightarrow> atoi e | None \<Rightarrow> Some 301)"

section \<open>Properties\<close>

lemma puts_ok: "ts_ok (fold (Tester_put id) puts t) = ts_ok t \<and> (ts_ok t \<longrightarrow> fold (Tester_put id) puts t = t)"
  by (induction puts arbitrary: t) (simp_all add: Tester_put_def)

lemma puts_failed:
  "\<not> ts_ok t \<Longrightarrow> fold (Tester_put id) puts t = t\<lparr>ts_ss := ts_ss t @ concat (map (\<lambda>p. '' '' @ p) puts)\<rparr>"
  by (induction puts arbitrary: t) (simp_all add: Tester_put_def)

lemma assert_outcome:
  "Tester_dtor (fold (Tester_put id) puts (BINARY_OP oper opname showx showy x y (Tester_ctor fname line))) (w, err) =
    (if oper x y then Returns (w, err)
     else Exits 1 (w, err @ fname @ '':'' @ decimal line @ '':'' @ '' failed: '' @ showx x @ '' '' @ opname @ '' '' @ showy y @
       concat (map (\<lambda>p. '' '' @ p) puts) @ [CHR 0x0A]))"
  using puts_ok[of puts "Tester_ctor fname line"]
  by (simp add: BINARY_OP_def Tester_dtor_def Tester_ctor_def puts_failed)

text \<open>
  The \<^verbatim>\<open>ASSERT_\<close> macros let the test go on exactly when the relation they name holds, and otherwise end the
  process with status 1.
\<close>

theorem ASSERT_exits_iff:
  fixes a b :: "'a :: linorder"
  shows "let goes_on = (\<lambda>r. r = Returns (w, err)); ends = (\<lambda>r. \<exists>msg. r = Exits 1 (w, err @ msg)) in
    (\<forall>(is, rel) \<in> {(IsEq sh, (=)), (IsNe sh, (\<noteq>)), (IsGe sh, (\<ge>)), (IsGt sh, (>)), (IsLe sh, (\<le>)), (IsLt sh, (<))}.
       let r = ASSERT_OP is fname line a b puts (w, err) in if rel a b then goes_on r else ends r) \<and>
    (let r = ASSERT_TRUE fname line c ctext puts (w, err) in if c then goes_on r else ends r)"
  using puts_ok[of puts "Tester_ctor fname line"]
  by (simp add: ASSERT_OP_def assert_outcome IsEq_def IsNe_def IsGe_def IsGt_def IsLe_def IsLt_def Let_def)
    (simp add: ASSERT_TRUE_def Tester_Is_def Tester_ctor_def Tester_dtor_def puts_failed)

lemma strstr_iff: "strstr hay needle \<noteq> None \<longleftrightarrow> (\<exists>pre post. hay = pre @ needle @ post)"
proof
  assume "strstr hay needle \<noteq> None"
  then have le: "std_search needle hay + length needle \<le> length hay" by (auto simp: strstr_def Let_def split: if_splits)
  have "take (length needle) (drop (std_search needle hay) hay) = needle"
  proof (cases "needle = []")
    case False
    then have "std_search needle hay < length hay" using le by (cases needle) simp_all
    then show ?thesis by (rule std_search_found)
  qed simp
  then have "hay = take (std_search needle hay) hay @ needle @ drop (length needle) (drop (std_search needle hay) hay)"
    by (metis append_take_drop_id)
  then show "\<exists>pre post. hay = pre @ needle @ post" by blast
next
  assume "\<exists>pre post. hay = pre @ needle @ post"
  then obtain pre post where h: "hay = pre @ needle @ post" by blast
  then have "take (length needle) (drop (length pre) hay) = needle" by simp
  then have "std_search needle hay \<le> length pre" using std_search_first by (metis not_le)
  then show "strstr hay needle \<noteq> None" using h by (simp add: strstr_def)
qed

text \<open>What the runner is for: the tests whose full name contains the text of the environment variable, in the order of their
  registration, up to the first that ends the process.\<close>

definition selected :: "string option \<Rightarrow> 'w test \<Rightarrow> bool" where
  "selected matcher t \<longleftrightarrow> (case matcher of None \<Rightarrow> True | Some m \<Rightarrow> strstr (test_name t) m \<noteq> None)"

fun run_seq :: "'w test list \<Rightarrow> 'w \<times> string \<Rightarrow> 'w outcome" where
  "run_seq [] s = Returns s"
| "run_seq (t # ts) s =
     (case t_func t (fst s, snd s @ ''==== Test '' @ test_name t @ [CHR 0x0A]) of Returns s1 \<Rightarrow> run_seq ts s1 | Exits c s1 \<Rightarrow> Exits c s1)"

lemma run_loop_seq:
  "snd (run_loop matcher ts num s) = run_seq (filter (selected matcher) ts) s \<and>
   (\<forall>s'. snd (run_loop matcher ts num s) = Returns s' \<longrightarrow> fst (run_loop matcher ts num s) = num + length (filter (selected matcher) ts))"
proof (induction ts arbitrary: num s)
  case (Cons t ts)
  have sel: "(case matcher of None \<Rightarrow> False | Some m \<Rightarrow> strstr (test_name t) m = None) \<longleftrightarrow> \<not> selected matcher t"
    by (auto simp: selected_def split: option.splits)
  let ?s = "(fst s, snd s @ ''==== Test '' @ test_name t @ [CHR 0x0A])"
  show ?case
  proof (cases "selected matcher t")
    case True
    then show ?thesis using Cons.IH sel by (cases "t_func t ?s") (simp_all add: test_name_def)
  next
    case False
    then show ?thesis using Cons.IH sel by simp
  qed
qed simp

definition register_all :: "'w test list \<Rightarrow> 'w test list option \<Rightarrow> 'w test list option" where
  "register_all ts r = fold (\<lambda>t r. snd (RegisterTest (t_base t) (t_name t) (t_func t) r)) ts r"

lemma register_all_Some: "register_all ts (Some us) = Some (us @ ts)"
  unfolding register_all_def by (induction ts arbitrary: us) (simp_all add: RegisterTest_def)

lemma register_all_None: "register_all ts None = (if ts = [] then None else Some ts)"
proof (cases ts)
  case (Cons t us)
  have "snd (RegisterTest (t_base t) (t_name t) (t_func t) None) = Some [t]" by (cases t) (simp add: RegisterTest_def)
  then have "register_all ts None = register_all us (Some [t])" using Cons by (simp add: register_all_def)
  then show ?thesis using Cons register_all_Some[of us "[t]"] by simp
qed (simp add: register_all_def)

text \<open>
  C36: The test runner runs exactly the registered tests whose name \<^verbatim>\<open>base.name\<close> contains the text of \<^verbatim>\<open>LEVELDB_TESTS\<close> (all, if it is
  not set), in the order in which they were registered; a test that ends the process is the last one that runs, and if there is none,
  the runner returns 0 after it has reported the number of tests it ran.
\<close>

theorem RunAllTests_runs_selected:
  "let sel = filter (\<lambda>t. case matcher of None \<Rightarrow> True | Some m \<Rightarrow> \<exists>pre post. test_name t = pre @ m @ post) ts
   in RunAllTests matcher (register_all ts None) s =
     (case run_seq sel s of
        Returns (w, err) \<Rightarrow> (Some 0, Returns (w, err @ ''==== PASSED '' @ decimal (int (length sel)) @ '' tests'' @ [CHR 0x0A]))
      | Exits c s1 \<Rightarrow> (None, Exits c s1))"
proof -
  have sel: "(\<lambda>t. case matcher of None \<Rightarrow> True | Some m \<Rightarrow> \<exists>pre post. test_name t = pre @ m @ post) = selected matcher"
    by (rule ext) (simp add: selected_def strstr_iff del: not_None_eq split: option.splits)
  have all: "(case register_all ts None of None \<Rightarrow> (0, Returns s) | Some ts \<Rightarrow> run_loop matcher ts 0 s) = run_loop matcher ts 0 s"
    by (simp add: register_all_None)
  obtain num r where l: "run_loop matcher ts 0 s = (num, r)" by (metis surj_pair)
  then have "r = run_seq (filter (selected matcher) ts) s" "r = Returns s' \<Longrightarrow> num = length (filter (selected matcher) ts)" for s'
    using run_loop_seq[of matcher ts 0 s] by auto
  then show ?thesis by (auto simp: RunAllTests_def all l sel Let_def split: outcome.splits)
qed

lemma dec_digits_show: "set (show_base dec_digits 10 n) \<subseteq> set dec_digits"
proof (induction n rule: less_induct)
  case (less n)
  have "dec_digits ! (n mod 10) \<in> set dec_digits" by (rule nth_mem) (simp add: dec_digits_def)
  then show ?case using less[of "n div 10"] by (cases "n < 10") (auto simp: show_base.simps[of _ _ n])
qed

lemma atoi_value_decimal: "atoi_value (decimal v) = v"
proof -
  let ?ds = "show_base dec_digits 10 (nat \<bar>v\<bar>)"
  have tw: "takeWhile (\<lambda>x. x \<in> set dec_digits) ?ds = ?ds" using dec_digits_show by (auto simp: takeWhile_eq_all_conv)
  have m: "\<not> is_space CHR ''-''" by (simp add: is_space_def)
  obtain c cs where d: "?ds = c # cs" using hd_show_dec[of "nat \<bar>v\<bar>"] by (cases ?ds) auto
  then have "c \<in> set dec_digits" using dec_digits_show[of "nat \<bar>v\<bar>"] by auto
  then have c: "\<not> is_space c" "c \<noteq> CHR ''-''" "c \<noteq> CHR ''+''" by (auto simp: dec_digits_def is_space_def)
  show ?thesis
  proof (cases "v < 0")
    case True
    then have "decimal v = CHR ''-'' # ?ds" by (simp add: decimal_def)
    then show ?thesis using True tw m by (simp add: atoi_value_def read_nat_show del: takeWhile_eq_all_conv)
  next
    case False
    then have "decimal v = c # cs" using d by (simp add: decimal_def)
    then have "atoi_value (decimal v) = int (read_nat (takeWhile (\<lambda>x. x \<in> set dec_digits) (c # cs)))" using c by (simp add: atoi_value_def)
    then show ?thesis using False tw unfolding d[symmetric] by (simp add: read_nat_show del: takeWhile_eq_all_conv)
  qed
qed

text \<open>
  The seed is positive, and a positive number given in the environment is the seed.
\<close>

theorem RandomSeed_positive:
  "(\<forall>seed. RandomSeed env = Some seed \<longrightarrow> 0 < seed) \<and> (0 < v \<and> v < 2 ^ 31 \<longrightarrow> RandomSeed (Some (decimal v)) = Some v)"
  by (auto simp: RandomSeed_def atoi_def atoi_value_decimal split: option.splits)

theorem RandomSeed_positive_witness: "RandomSeed (Some (decimal 42)) = Some 42"
  using RandomSeed_positive[of None 42] by simp

end
