(* ===== verification/Spec2Isabelle.thy ===== *)
theory Spec2Isabelle
  imports BufferOps Slice FixedBuffer LogStream OldLogStream Timestamp TimerQueue EPollPoller PollPoller EventLoop Reactor LoopThreads
    ThreadLife LoopThreadPool LoopThreadEnd Socket TcpConnection Acceptor TcpServer Connector TcpClient Logging LogFile
    AsyncLogging LogPipeline Codec QuerySession IdleConnection ThreadLocal LockOrder CopyOnWrite AtomicPointer TestHarness
begin

text \<open>
  \<^bold>\<open>A verification library for LearningMuduo.\<close>

  The repository re-implements the muduo network library in C++ (\<^verbatim>\<open>src/PracticeMuduo\<close>: buffers, time and
  timers, the reactor, threads, TCP connections, logging) and adds exercises that use the original library
  (\<^verbatim>\<open>src/protobuf\<close>, \<^verbatim>\<open>src/idleconnection\<close>), thread-local singletons (\<^verbatim>\<open>src/base\<close>), a first log stream
  (\<^verbatim>\<open>src/logging\<close>) and examples of locking (\<^verbatim>\<open>src/ch2\<close>). This development models these parts by functions on
  explicit states and proves what makes them correct. Where the code does not do what it means to, the
  theorem states what it does.

  \<^bold>\<open>How the parts interact.\<close> An \<^verbatim>\<open>EventLoop\<close> belongs to one thread. It asks a \<^verbatim>\<open>Poller\<close> (\<^verbatim>\<open>EPollPoller\<close> or
  \<^verbatim>\<open>PollPoller\<close>) for the \<^verbatim>\<open>Channel\<close>s with events, calls their handlers, and then runs the functors that
  other threads and handlers have queued; an event descriptor wakes it up. A \<^verbatim>\<open>TimerQueue\<close> is one such channel.
  An \<^verbatim>\<open>Acceptor\<close> hands new sockets to the \<^verbatim>\<open>TcpServer\<close>, which makes \<^verbatim>\<open>TcpConnection\<close>s and
  distributes them over the loops of an \<^verbatim>\<open>EventLoopThreadPool\<close>; a \<^verbatim>\<open>Connector\<close> does the same for the single
  connection of a \<^verbatim>\<open>TcpClient\<close>. Connections read into and write from \<^verbatim>\<open>Buffer\<close>s. Everything
  logs through \<^verbatim>\<open>Logger\<close> and \<^verbatim>\<open>LogStream\<close>, and \<^verbatim>\<open>AsyncLogging\<close> moves the text to a \<^verbatim>\<open>LogFile\<close> in a thread of its
  own. The protobuf codec and dispatchers and the two echo servers sit on top of such connections.

  \<^bold>\<open>Common conventions\<close> (\<open>Prelude\<close>). A function that can fail returns \<^typ>\<open>'a res\<close>: either a \<^typ>\<open>fault\<close>
  (a failed assertion, a fatal log message, an exception, an access outside an object, a null pointer, an
  abort) or the result. \<^verbatim>\<open>assert\<close> is \<^const>\<open>require\<close>, and reads and writes of memory are checked
  (\<^const>\<open>checked_read\<close>, \<^const>\<open>checked_write\<close>). \<^verbatim>\<open>size_t\<close> arithmetic wraps at \<open>2 ^ 64\<close>; event masks and
  encoded integers are words. Answers of the kernel (results of \<^verbatim>\<open>readv\<close>, \<^verbatim>\<open>write\<close>, \<^verbatim>\<open>accept\<close>, \<^verbatim>\<open>epoll_wait\<close>,
  the clock) and callbacks of the user are arguments of the definitions. Objects with identity (channels, timers,
  connections) are kept in stores under their addresses.

  \<^bold>\<open>Theories and sources.\<close>
  \<^item> \<open>Endian\<close>: \<^verbatim>\<open>socket.muduo/Endian.h\<close>, with the return types the header declares.
  \<^item> \<open>ByteQueue\<close>, \<open>Buffer\<close>: \<^verbatim>\<open>tcp.muduo/Buffer.h\<close>, \<^verbatim>\<open>Buffer.cpp\<close>. The locale \<open>byte_queue\<close> is the contract of a
    byte queue and its stream law; \<open>Buffer\<close> interprets it. Further: room (\<^verbatim>\<open>makeSpace\<close>), \<^verbatim>\<open>readFd\<close>,
    \<^verbatim>\<open>findCRLF\<close>, integers in network order. \<open>BufferOps\<close> has the interface as data, the searches for line ends
    included: every buffer a client can have is well formed, and no operation leaves the vector as long as the sizes asked for do not
    wrap (\<^const>\<open>fits\<close>); for those that do, \<open>ensureWritableBytes_wraps\<close> shows what happens.
  \<^item> \<open>Slice\<close>, \<open>FixedBuffer\<close>, \<open>LogStream\<close>: \<^verbatim>\<open>common/Slice.h\<close>, both versions of \<^verbatim>\<open>FixedBuffer.h\<close> and
    \<^verbatim>\<open>LogStream.cpp\<close>: the order on slices, bounds of appends, decimal conversion. \<open>OldLogStream\<close>: the first
    version under \<^verbatim>\<open>src/logging\<close>, whose lines never leave their buffer. The lengths of strings are narrowed
    to \<^verbatim>\<open>int\<close> as the code does (\<open>huge_strings\<close>).
  \<^item> \<open>Timestamp\<close>, \<open>TimerQueue\<close>: \<^verbatim>\<open>TimerQueue.muduo\<close>. The two ordered sets of timers, cancellation and timers
    added or cancelled by callbacks; the invariant, that it is kept by every event, what \<^verbatim>\<open>handleRead\<close> fires
    and for which timer it arms the descriptor.
  \<^item> \<open>Channel\<close>, \<open>PollerSpec\<close>, \<open>EPollPoller\<close>, \<open>PollPoller\<close>: \<^verbatim>\<open>reactor.muduo\<close>. The locale \<open>poller\<close> states what
    the owner of channels may expect: what is watched is what the channels ask for. The \<^verbatim>\<open>epoll\<close> poller
    interprets it; the \<^verbatim>\<open>poll\<close> poller does not satisfy it, and the theorems say where. The callbacks of \<^verbatim>\<open>handleEventWithGuard\<close> are
    selected as a list; \<open>handleEventWithGuard_runs\<close> shows that running the function with its flag \<^verbatim>\<open>eventHandling_\<close> calls just those.
  \<^item> \<open>LoopThread\<close>, \<open>EventLoop\<close>: the loop as a function, iteration by iteration, with the functors it runs.
    \<open>Reactor\<close>: loop, \<^verbatim>\<open>epoll\<close> poller and channels together under a program whose callbacks and functors act on them: no
    iteration fails, every selected callback and every pending functor runs.
    \<open>LoopThreads\<close>: the same loop as a step relation that interleaves with other threads that queue functors
    and quit: order, no lost wakeup, and that a loop nobody quits runs every pending functor within a bounded number
    of its own steps, whatever the other threads do in between.
  \<^item> \<open>Threads\<close>: \<^verbatim>\<open>thread.muduo\<close>, \<^verbatim>\<open>port\<close>, \<^verbatim>\<open>Atomic.h\<close>, \<^verbatim>\<open>MutexLock.h\<close>. \<open>ThreadLife\<close>: a \<^verbatim>\<open>Thread\<close> object and the
    thread it starts, interleaved. \<open>LoopThreadPool\<close>: the hand-shake of
    \<^verbatim>\<open>EventLoopThread::startLoop\<close> with its thread as a step relation, and the round robin of the pool. \<open>LoopThreadEnd\<close>: the destructor
    of an \<^verbatim>\<open>EventLoopThread\<close> against its thread: when it returns, and the two interleavings in which it does not or should not.
  \<^item> \<open>Sockets\<close>, \<open>Socket\<close>: addresses and the error handling of \<^verbatim>\<open>socket.muduo\<close>, and the system calls a
    \<^verbatim>\<open>Socket\<close> issues over its life, with the failures that are logged, fatal or unnoticed.
  \<^item> \<open>TcpConnection\<close>, \<open>Acceptor\<close>, \<open>TcpServer\<close>, \<open>Connector\<close>, \<open>TcpClient\<close>: \<^verbatim>\<open>tcp.muduo\<close>, handler by handler,
    with the functors queued between loops. Proved: the order of the output, descriptors are neither lost nor
    leaked, the life cycle of connections for every interleaving, retries, and that a client with retry, under any events and kernel
    answers, fails no assertion and goes on trying until it is stopped.
  \<^item> \<open>Logging\<close>, \<open>LogFile\<close>, \<open>AsyncLogging\<close>: \<^verbatim>\<open>logging.muduo\<close> and \<^verbatim>\<open>common/AppendFile\<close>: the text of a line, that the
    files hold all bytes in order, and that the two-buffer scheme keeps the order under interleaving. \<open>LogPipeline\<close> puts them together: the
    settings of the logger say where a line goes, the logging thread writes to its log file, and what is on the disk is what was logged
    up to what is still in memory; a logger that is destroyed while its thread waits loses nothing.
  \<^item> \<open>Codec\<close>, \<open>Dispatcher\<close>: \<^verbatim>\<open>protobuf/codec\<close> and \<^verbatim>\<open>protobuf/descriptor_test/codec.h\<close>: safety on arbitrary
    bytes, transport of messages over a stream cut anywhere, agreement of the two versions. The
    locale \<open>message_dispatcher\<close> is the contract both dispatchers meet. \<open>QuerySession\<close>: \<^verbatim>\<open>server.cc\<close> and \<^verbatim>\<open>client.cc\<close>
    on top of them, and the session between the two.
  \<^item> \<open>IdleConnection\<close>: \<^verbatim>\<open>idleconnection\<close>: the wheel of buckets refines a counter of idle ticks, and the
    sorted list closes only idle connections, and all that have been idle for longer than the limit and the delay between
    polling and handling, up to which the list is sorted (\<open>list_is_not_sorted\<close>).
  \<^item> \<open>ThreadLocal\<close>: \<^verbatim>\<open>base/ThreadLocalSingleton*.h\<close>. The locale \<open>tls_deleter\<close> is what a destructor must do so
    that no object of an ended thread is left; two versions meet it, the others do not.
  \<^item> \<open>LockOrder\<close>, \<open>CopyOnWrite\<close>: \<^verbatim>\<open>ch2\<close>. The locks that the examples take and give back: the first versions can
    deadlock, the solutions cannot; and copy on write with \<^verbatim>\<open>shared_ptr\<close>, statement by statement: in a program that sets \<^verbatim>\<open>g_foos\<close>, readers see snapshots and
    containers are freed with their last pointer (the source never sets it, \<open>g_foos_is_never_set\<close>). Both
    interpret \<open>transition_system\<close> of \<open>Prelude\<close>.
  \<^item> \<open>AtomicPointer\<close>: \<^verbatim>\<open>common/atomic_pointer.h\<close>. The operations of its four versions as accesses and barriers, and executions as all
    orders of accesses that compiler and processor may choose: publication is safe, and it is not without the barriers.
    \<^verbatim>\<open>incrementAndGet\<close> of \<^verbatim>\<open>AtomicPointer_temp.h\<close>, which numbers the timers, is not atomic.
  \<^item> \<open>TestHarness\<close>: \<^verbatim>\<open>testharness.leveldb\<close>: the assertions end the process exactly when they do not hold, and the runner runs the selected tests.

  \<^bold>\<open>Loops and bounds.\<close> Every loop of the model ends: the recursions are structural, or have a measure
  (\<^verbatim>\<open>onMessage\<close> shortens its buffer, the conversion of integers its number). No fuel is used; the endless loops of
  the event loop and of the logging thread are modelled by one iteration or by steps, and the
  theorems speak of all finite runs. \<^verbatim>\<open>vector\<close> raises its length error above \<open>2 ^ 63 - 1\<close> bytes.

  \<^bold>\<open>Parameters.\<close> protobuf and zlib are parameters of the codec. What is used of them is that the parser of a
  type gives back a message from its serialised form (in \<^const>\<open>transmissible\<close>). \<^verbatim>\<open>inet_ntop\<close> for IPv6 gives at
  most 45 characters. The barriers of Windows, Mac OS and the ARM kernel are full barriers, and memory is the same for all threads. \<^verbatim>\<open>printf\<close> with \<^verbatim>\<open>%.12g\<close> makes less than 32 characters of a number. The allocator of timers gives addresses that are not in use.

  \<^bold>\<open>Not modelled.\<close> Generated protobuf code, which is a parameter of the codec; the copies under \<^verbatim>\<open>issues/test_timestamp\<close>, which
  repeat the reactor and the timer queue under other names (a destructor lacks an assertion, \<^verbatim>\<open>getExpired\<close> returns a copy of its result, and
  there is an unused helper); the casts between address types; programs that only start a server; and tests. Apart from \<open>AtomicPointer\<close>, data races in
  the sense of the memory model are outside the model: the step relations interleave whole critical sections and
  single accesses to shared variables.
\<close>

end
